(* ===== verification/Prelude.thy ===== *)
theory Prelude
  imports Main "HOL-Library.Log_Nat" "HOL-Library.Multiset"
begin

text \<open>
  The shared ground of the development: the collections of rewrite rules the component
  theories feed, the result type every fallible operation returns, and the generic facts on
  lists and options that more than one component uses.
\<close>

named_theorems f64_simps \<open>facts that push \<open>val\<close> through the operations on doubles\<close>
named_theorems go_defs \<open>definitions of the modelled components that automation may unfold\<close>

text \<open>A call that can fail answers an error or a value, as Go's pair of results does.\<close>

type_synonym ('e, 'a) result = "'e + 'a"

abbreviation Err :: "'e \<Rightarrow> ('e, 'a) result" where "Err \<equiv> Inl"
abbreviation Ok :: "'a \<Rightarrow> ('e, 'a) result" where "Ok \<equiv> Inr"

subsection \<open>Integer division of Go\<close>

text \<open>Go's integer division truncates towards zero; its remainder has the dividend's sign.\<close>

definition go_div :: "int \<Rightarrow> int \<Rightarrow> int" where
  "go_div a b = sgn a * sgn b * (\<bar>a\<bar> div \<bar>b\<bar>)"

definition go_mod :: "int \<Rightarrow> int \<Rightarrow> int" where
  "go_mod a b = a - b * go_div a b"

lemma go_div_nonneg: "0 \<le> a \<Longrightarrow> 0 < b \<Longrightarrow> go_div a b = a div b"
  by (auto simp: go_div_def sgn_if)

lemma go_mod_nonneg: "0 \<le> a \<Longrightarrow> 0 < b \<Longrightarrow> go_mod a b = a mod b"
  by (simp add: go_mod_def go_div_nonneg minus_mult_div_eq_mod)

subsection \<open>Lists\<close>

lemma foldl_invariant:
  assumes "P s" and "\<And>s x. x \<in> set xs \<Longrightarrow> P s \<Longrightarrow> P (f s x)"
  shows "P (foldl f s xs)"
  using assms by (induction xs arbitrary: s) auto

lemma fold_invariant_set:
  assumes "P s" and "\<And>s x. x \<in> set xs \<Longrightarrow> P s \<Longrightarrow> P (f x s)"
  shows "P (fold f xs s)"
  using assms by (induction xs arbitrary: s) auto

lemma distinct_map_snoc:
  "distinct (map f xs) \<Longrightarrow> f x \<notin> f ` set xs \<Longrightarrow> distinct (map f (xs @ [x]))"
  by auto


subsection \<open>Iterating a Go map\<close>

text \<open>
  Go leaves the order in which a map is iterated unspecified. A function that ranges over a map
  takes that order as an argument, a function on the list of keys; all that is known of it is
  that it visits every key once.
\<close>

type_synonym 'k iteration = "'k list \<Rightarrow> 'k list"

definition iterates :: "'k iteration \<Rightarrow> bool" where
  "iterates it \<longleftrightarrow> (\<forall>ks. mset (it ks) = mset ks)"

lemma iterates_id [simp]: "iterates id" "iterates rev" "iterates (\<lambda>ks. ks)"
  by (simp_all add: iterates_def)

lemma iterates_set: "iterates it \<Longrightarrow> set (it ks) = set ks"
  unfolding iterates_def by (metis set_mset_mset)

lemma iterates_distinct: "iterates it \<Longrightarrow> distinct (it ks) \<longleftrightarrow> distinct ks"
  unfolding iterates_def by (metis mset_eq_imp_distinct_iff)

lemma iterates_length: "iterates it \<Longrightarrow> length (it ks) = length ks"
  unfolding iterates_def by (metis size_mset)

subsection \<open>Keys in order of first appearance, and grouping\<close>

fun firsts :: "'k list \<Rightarrow> 'k list \<Rightarrow> 'k list" where
  "firsts seen [] = []"
| "firsts seen (k # ks) = (if k \<in> set seen then firsts seen ks else k # firsts (k # seen) ks)"

lemma set_firsts: "set (firsts seen ks) = set ks - set seen"
  by (induction ks arbitrary: seen) auto

lemma distinct_firsts: "distinct (firsts seen ks)"
  by (induction ks arbitrary: seen) (auto simp: set_firsts)

text \<open>Appending to a map of slices: the group of a key holds its elements in their order.\<close>

definition grouped :: "('a \<Rightarrow> 'k) \<Rightarrow> 'a list \<Rightarrow> 'k \<Rightarrow> 'a list" where
  "grouped key xs k = filter (\<lambda>x. key x = k) xs"

definition keys_of :: "('a \<Rightarrow> 'k) \<Rightarrow> 'a list \<Rightarrow> 'k list" where
  "keys_of key xs = firsts [] (map key xs)"

lemma set_keys_of [simp]: "set (keys_of key xs) = key ` set xs"
  by (simp add: keys_of_def set_firsts)

lemma distinct_keys_of [simp]: "distinct (keys_of key xs)"
  by (simp add: keys_of_def distinct_firsts)

lemma set_grouped: "set (grouped key xs k) = {x \<in> set xs. key x = k}"
  by (simp add: grouped_def)

lemma grouped_ne: "k \<in> set (keys_of key xs) \<Longrightarrow> grouped key xs k \<noteq> []"
  by (auto simp: grouped_def filter_empty_conv)

subsection \<open>A stable sort by a strict order, as \<open>sort.Slice\<close> and \<open>sort.SliceStable\<close> use one\<close>

fun insert_by :: "('a \<Rightarrow> 'a \<Rightarrow> bool) \<Rightarrow> 'a \<Rightarrow> 'a list \<Rightarrow> 'a list" where
  "insert_by lt x [] = [x]"
| "insert_by lt x (y # ys) = (if lt y x then y # insert_by lt x ys else x # y # ys)"

fun sort_by :: "('a \<Rightarrow> 'a \<Rightarrow> bool) \<Rightarrow> 'a list \<Rightarrow> 'a list" where
  "sort_by lt [] = []"
| "sort_by lt (x # xs) = insert_by lt x (sort_by lt xs)"

lemma mset_insert_by [simp]: "mset (insert_by lt x ys) = add_mset x (mset ys)"
  by (induction ys) auto

lemma mset_sort_by [simp]: "mset (sort_by lt xs) = mset xs"
  by (induction xs) auto

lemma set_sort_by [simp]: "set (sort_by lt xs) = set xs"
  by (metis mset_sort_by set_mset_mset)

lemma length_sort_by [simp]: "length (sort_by lt xs) = length xs"
  by (metis mset_sort_by size_mset)

lemma set_insert_by [simp]: "set (insert_by lt x ys) = insert x (set ys)"
  by (induction ys) auto

lemma sorted_insert_by:
  assumes asym: "\<And>a b. lt a b \<Longrightarrow> \<not> lt b a"
    and trans: "\<And>a b c. \<not> lt b a \<Longrightarrow> \<not> lt c b \<Longrightarrow> \<not> lt c a"
  shows "sorted_wrt (\<lambda>a b. \<not> lt b a) ys \<Longrightarrow> sorted_wrt (\<lambda>a b. \<not> lt b a) (insert_by lt x ys)"
  by (induction ys) (auto dest: asym trans)

lemma sorted_sort_by:
  assumes "\<And>a b. lt a b \<Longrightarrow> \<not> lt b a"
    and "\<And>a b c. \<not> lt b a \<Longrightarrow> \<not> lt c b \<Longrightarrow> \<not> lt c a"
  shows "sorted_wrt (\<lambda>a b. \<not> lt b a) (sort_by lt xs)"
proof (induction xs)
  case (Cons x xs)
  then show ?case by (simp add: sorted_insert_by [of lt, OF assms])
qed simp

lemma sorted_sort_by_key:
  fixes f :: "'a \<Rightarrow> 'b :: linorder"
  shows "sorted (map f (sort_by (\<lambda>a b. f a < f b) xs))"
proof -
  have "sorted_wrt (\<lambda>a b. \<not> f b < f a) (sort_by (\<lambda>a b. f a < f b) xs)"
    by (rule sorted_sort_by) auto
  then show ?thesis by (simp add: sorted_wrt_map not_less)
qed

end
