(* ===== verification/Float64.thy ===== *)
theory Float64
  imports Prelude Complex_Main
begin

text \<open>
  Go's \<open>float64\<close>: the finite doubles as the rationals with a 53-bit significand, every
  operation the exact one followed by rounding to nearest, ties to even. The exponent range is
  not bounded (no result here approaches 2^1024 or falls below 2^-1022) and there is one
  zero; NaN and the infinities are not values of this type, and where the code makes one
  itself (\<open>math.Inf\<close>) the model that does so says it with an option.
\<close>

subsection \<open>Powers of two and the binary exponent\<close>

definition pow2 :: "int \<Rightarrow> rat" where
  "pow2 e = (if 0 \<le> e then 2 ^ nat e else 1 / 2 ^ nat (- e))"

lemma pow2_pos [simp]: "0 < pow2 e"
  by (simp add: pow2_def)

lemma pow2_nonneg [simp]: "0 \<le> pow2 e"
  using pow2_pos [of e] by linarith

lemma pow2_neq_0 [simp]: "pow2 e \<noteq> 0"
  using pow2_pos [of e] by linarith

lemma pow2_powi: "pow2 e = 2 powi e"
  by (simp add: pow2_def power_int_def power_inverse inverse_eq_divide power_one_over)

lemma pow2_add: "pow2 (a + b) = pow2 a * pow2 b"
  by (simp add: pow2_powi power_int_add)

lemma pow2_diff: "pow2 (a - b) = pow2 a / pow2 b"
  by (simp add: pow2_powi power_int_diff)

lemma pow2_0 [simp]: "pow2 0 = 1"
  by (simp add: pow2_def)

lemma pow2_Suc: "pow2 (e + 1) = 2 * pow2 e"
  by (simp add: pow2_add) (simp add: pow2_def)

lemma pow2_mono: "a \<le> b \<Longrightarrow> pow2 a \<le> pow2 b"
  by (simp add: pow2_powi power_int_increasing)

lemma pow2_less: "a < b \<Longrightarrow> pow2 a < pow2 b"
  by (simp add: pow2_powi power_int_strict_increasing)

lemma pow2_less_imp: "pow2 a < pow2 b \<Longrightarrow> a < b"
  using pow2_mono [of b a] by (cases "a < b") auto

lemma pow2_int: "0 \<le> e \<Longrightarrow> pow2 e = of_int (2 ^ nat e)"
  by (simp add: pow2_def)


lemma pow2_less_cancel: "pow2 a < pow2 b \<longleftrightarrow> a < b"
  by (auto intro: pow2_less pow2_less_imp)

definition bexp :: "rat \<Rightarrow> int" where
  "bexp x = (case quotient_of \<bar>x\<bar> of (p, q) \<Rightarrow>
     let k = bitlen p - bitlen q in if pow2 k \<le> \<bar>x\<bar> then k else k - 1)"

lemma bitlen_pow2_bounds:
  assumes "0 < p"
  shows "pow2 (bitlen p - 1) \<le> of_int p" and "of_int p < pow2 (bitlen p)"
proof -
  have pos: "0 \<le> bitlen p - 1"
    using assms bitlen_eq_zero_iff [of p] bitlen_nonneg [of p] by linarith
  have b: "2 ^ nat (bitlen p - 1) \<le> p" "p < 2 ^ nat (bitlen p)"
    using bitlen_bounds [OF assms] by auto
  show "pow2 (bitlen p - 1) \<le> of_int p"
    unfolding pow2_int [OF pos] using b(1) by (simp only: of_int_le_iff)
  have "0 \<le> bitlen p" by (rule bitlen_nonneg)
  then show "of_int p < pow2 (bitlen p)"
    using b(2) by (simp only: pow2_int of_int_less_iff)
qed

lemma bexp_bounds:
  assumes "x \<noteq> 0"
  shows "pow2 (bexp x) \<le> \<bar>x\<bar>" and "\<bar>x\<bar> < pow2 (bexp x + 1)"
proof -
  obtain p q where pq: "quotient_of \<bar>x\<bar> = (p, q)" by (cases "quotient_of \<bar>x\<bar>")
  have q: "0 < q" using quotient_of_denom_pos [OF pq] .
  have x: "\<bar>x\<bar> = of_int p / of_int q" using quotient_of_div [OF pq] .
  have p: "0 < p"
  proof -
    have "0 < of_int p / (of_int q :: rat)" using assms x by (metis zero_less_abs_iff)
    then show ?thesis using q by (simp add: zero_less_divide_iff)
  qed
  let ?k = "bitlen p - bitlen q"
  have lo: "pow2 (?k - 1) \<le> \<bar>x\<bar>"
  proof -
    have "pow2 (?k - 1) = pow2 (bitlen p - 1) / pow2 (bitlen q)"
      by (simp add: algebra_simps flip: pow2_diff)
    also have "\<dots> \<le> of_int p / of_int q"
      by (rule frac_le) (use bitlen_pow2_bounds [OF p] bitlen_pow2_bounds [OF q] q p in auto)
    finally show ?thesis using x by simp
  qed
  have hi: "\<bar>x\<bar> < pow2 (?k + 1)"
  proof -
    have "of_int p / of_int q < pow2 (bitlen p) / pow2 (bitlen q - 1)"
      by (rule frac_less) (use bitlen_pow2_bounds [OF p] bitlen_pow2_bounds [OF q] q p in auto)
    also have "\<dots> = pow2 (?k + 1)"
      by (simp add: algebra_simps flip: pow2_diff)
    finally show ?thesis using x by simp
  qed
  show "pow2 (bexp x) \<le> \<bar>x\<bar>" and "\<bar>x\<bar> < pow2 (bexp x + 1)"
    using lo hi by (auto simp: bexp_def pq Let_def)
qed

lemma bexp_unique: "pow2 e \<le> \<bar>x\<bar> \<Longrightarrow> \<bar>x\<bar> < pow2 (e + 1) \<Longrightarrow> bexp x = e"
proof -
  assume a: "pow2 e \<le> \<bar>x\<bar>" "\<bar>x\<bar> < pow2 (e + 1)"
  have "x \<noteq> 0"
  proof
    assume "x = 0"
    with a(1) show False using pow2_pos [of e] by simp
  qed
  note b = bexp_bounds [OF this]
  from a b have "pow2 e < pow2 (bexp x + 1)" and "pow2 (bexp x) < pow2 (e + 1)" by auto
  then show ?thesis unfolding pow2_less_cancel by linarith
qed

lemma bexp_minus [simp]: "bexp (- x) = bexp x"
  by (simp add: bexp_def)

lemma bexp_mono:
  assumes "0 < x" "x \<le> y"
  shows "bexp x \<le> bexp y"
proof -
  have "pow2 (bexp x) < pow2 (bexp y + 1)"
    using bexp_bounds [of x] bexp_bounds [of y] assms by auto
  then show ?thesis unfolding pow2_less_cancel by linarith
qed

subsection \<open>Rounding to nearest, ties to even\<close>

definition rne :: "rat \<Rightarrow> int" where
  "rne x = (let n = \<lfloor>x\<rfloor>; d = x - of_int n in
     if d < 1 / 2 then n else if 1 / 2 < d then n + 1 else if even n then n else n + 1)"

lemma rne_of_int [simp]: "rne (of_int n) = n"
  by (simp add: rne_def)

lemma rne_error: "\<bar>of_int (rne x) - x\<bar> \<le> 1 / 2"
proof -
  have "of_int \<lfloor>x\<rfloor> \<le> x" "x < of_int \<lfloor>x\<rfloor> + 1" by linarith+
  then show ?thesis by (auto simp: rne_def Let_def abs_le_iff)
qed

lemma rne_mono: "x \<le> y \<Longrightarrow> rne x \<le> rne y"
proof (cases "\<lfloor>x\<rfloor> = \<lfloor>y\<rfloor>")
  case True
  assume "x \<le> y"
  then show ?thesis using True by (auto simp: rne_def Let_def)
next
  case False
  assume "x \<le> y"
  then have "\<lfloor>x\<rfloor> < \<lfloor>y\<rfloor>" using False floor_mono [of x y] by linarith
  moreover have "rne x \<le> \<lfloor>x\<rfloor> + 1" "\<lfloor>y\<rfloor> \<le> rne y" by (auto simp: rne_def Let_def)
  ultimately show ?thesis by linarith
qed

lemma rne_minus: "rne (- x) = - rne x"
proof (cases "x = of_int \<lfloor>x\<rfloor>")
  case True
  then show ?thesis by (metis of_int_minus rne_of_int)
next
  case False
  have f: "\<lfloor>- x\<rfloor> = - \<lfloor>x\<rfloor> - 1"
    using False by (intro floor_unique) (simp, linarith)+
  show ?thesis unfolding rne_def Let_def f by auto
qed

definition rnd :: "rat \<Rightarrow> rat" where
  "rnd x = (if x = 0 then 0 else
     let u = pow2 (bexp x - 52) in of_int (rne (x / u)) * u)"


definition dbl :: "rat \<Rightarrow> bool" where
  "dbl x \<longleftrightarrow> (\<exists>m e. x = of_int m * pow2 e \<and> \<bar>m\<bar> \<le> 2 ^ 53)"

lemma dblI: "x = of_int m * pow2 e \<Longrightarrow> \<bar>m\<bar> \<le> 2 ^ 53 \<Longrightarrow> dbl x"
  by (auto simp: dbl_def)

lemma dbl_of_int: "\<bar>n\<bar> \<le> 2 ^ 53 \<Longrightarrow> dbl (of_int n)"
  by (rule dblI [of _ n 0]) auto

lemma rnd_0 [simp]: "rnd 0 = 0"
  by (simp add: rnd_def)

lemma rnd_minus [simp]: "rnd (- x) = - rnd x"
  by (simp add: rnd_def Let_def rne_minus)

lemma rnd_unit_bound:
  assumes "x \<noteq> 0"
  shows "\<bar>rne (x / pow2 (bexp x - 52))\<bar> \<le> 2 ^ 53"
proof -
  let ?u = "pow2 (bexp x - 52)"
  have "pow2 (bexp x + 1) = of_int (2 ^ 53) * ?u"
  proof -
    have "pow2 (bexp x + 1) = pow2 (53 + (bexp x - 52))" by (simp add: algebra_simps)
    then show ?thesis by (simp only: pow2_add) (simp add: pow2_def)
  qed
  then have "\<bar>x / ?u\<bar> < of_int (2 ^ 53)"
    using bexp_bounds [OF assms] by (simp add: abs_divide pos_divide_less_eq del: of_int_power)
  then have "x / ?u < of_int (2 ^ 53)" "- (x / ?u) < of_int (2 ^ 53)"
    unfolding abs_less_iff by blast+
  then have "x / ?u \<le> of_int (2 ^ 53)" "of_int (- (2 ^ 53)) \<le> x / ?u"
    by (simp_all only: of_int_minus)
  then have "rne (x / ?u) \<le> 2 ^ 53" "- (2 ^ 53) \<le> rne (x / ?u)"
    using rne_mono rne_of_int by metis+
  then show ?thesis by linarith
qed

lemma dbl_rnd: "dbl (rnd x)"
proof (cases "x = 0")
  case True
  then show ?thesis by (auto intro: dblI [of _ 0 0])
next
  case False
  then show ?thesis
    by (intro dblI [of _ _ "bexp x - 52", OF _ rnd_unit_bound [OF False]])
      (simp add: rnd_def Let_def)
qed

lemma rnd_of_unit:
  assumes "x \<noteq> 0" "x = of_int m * pow2 (bexp x - 52)"
  shows "rnd x = x"
proof -
  have "x / pow2 (bexp x - 52) = of_int m"
    by (subst (1) assms(2)) simp
  then show ?thesis using assms by (simp add: rnd_def Let_def)
qed

lemma rnd_dbl:
  assumes "dbl x"
  shows "rnd x = x"
proof (cases "x = 0")
  case False
  from assms obtain m e where x: "x = of_int m * pow2 e" and m: "\<bar>m\<bar> \<le> 2 ^ 53"
    by (auto simp: dbl_def)
  have ax: "\<bar>x\<bar> = of_int \<bar>m\<bar> * pow2 e" by (simp add: x abs_mult)
  have p53: "pow2 (53 + e) = of_int (2 ^ 53) * pow2 e" by (simp only: pow2_add) (simp add: pow2_def)
  have "(of_int \<bar>m\<bar> :: rat) \<le> of_int (2 ^ 53)" using m by (simp only: of_int_le_iff)
  then have le: "\<bar>x\<bar> \<le> pow2 (53 + e)"
    unfolding ax p53 by (rule mult_right_mono) simp
  have "pow2 (bexp x) \<le> pow2 (53 + e)" using le bexp_bounds(1) [OF False] by linarith
  then have be: "bexp x \<le> 53 + e" using pow2_less_cancel [of "53 + e" "bexp x"] by linarith
  show ?thesis
  proof (cases "bexp x = 53 + e")
    case True
    have "\<bar>x\<bar> = pow2 (53 + e)"
      by (rule antisym [OF le]) (use bexp_bounds(1) [OF False] True in simp)
    then have "\<bar>x\<bar> = of_int (2 ^ 52) * pow2 (bexp x - 52)"
      unfolding True by (simp add: pow2_add pow2_diff) (simp add: pow2_def)
    then have "x = of_int (2 ^ 52) * pow2 (bexp x - 52) \<or>
        x = of_int (- (2 ^ 52)) * pow2 (bexp x - 52)"
      by (auto simp: abs_if split: if_splits)
    then show ?thesis using rnd_of_unit [OF False] by blast
  next
    case False2: False
    let ?d = "e - (bexp x - 52)"
    have "0 \<le> ?d" using be False2 by linarith
    have "x = of_int m * pow2 (?d + (bexp x - 52))" using x by simp
    also have "\<dots> = of_int m * (of_int (2 ^ nat ?d) * pow2 (bexp x - 52))"
      by (simp only: pow2_add pow2_int [OF \<open>0 \<le> ?d\<close>])
    also have "\<dots> = of_int (m * 2 ^ nat ?d) * pow2 (bexp x - 52)"
      by (simp only: of_int_mult mult.assoc)
    finally show ?thesis by (rule rnd_of_unit [OF False])
  qed
qed simp

lemma rnd_idem [simp]: "rnd (rnd x) = rnd x"
  by (rule rnd_dbl [OF dbl_rnd])

lemma rnd_of_int: "\<bar>n\<bar> \<le> 2 ^ 53 \<Longrightarrow> rnd (of_int n) = of_int n"
  by (rule rnd_dbl [OF dbl_of_int])

lemma rnd_1 [simp]: "rnd 1 = 1"
  using rnd_of_int [of 1] by simp

lemma rnd_numeral [simp]: "(numeral k :: int) \<le> 2 ^ 53 \<Longrightarrow> rnd (numeral k) = numeral k"
  using rnd_of_int [of "numeral k"] by simp

lemma rnd_pow2 [simp]: "rnd (pow2 e) = pow2 e"
  by (rule rnd_dbl, rule dblI [of _ 1 e]) auto

text \<open>Each rounding is off by at most half a unit in the last place.\<close>

lemma rnd_error: "\<bar>rnd x - x\<bar> \<le> \<bar>x\<bar> / 2 ^ 53"
proof (cases "x = 0")
  case False
  let ?u = "pow2 (bexp x - 52)"
  have "rnd x - x = (of_int (rne (x / ?u)) - x / ?u) * ?u"
    using False by (simp add: rnd_def Let_def left_diff_distrib)
  then have "\<bar>rnd x - x\<bar> = \<bar>of_int (rne (x / ?u)) - x / ?u\<bar> * ?u" by (simp add: abs_mult)
  also have "\<dots> \<le> 1 / 2 * ?u" by (rule mult_right_mono [OF rne_error]) simp
  also have "\<dots> = pow2 (bexp x) / 2 ^ 53"
    by (simp add: pow2_diff) (simp add: pow2_def)
  also have "\<dots> \<le> \<bar>x\<bar> / 2 ^ 53"
    using bexp_bounds(1) [OF False] by (simp add: divide_right_mono)
  finally show ?thesis .
qed simp

lemma rnd_nonneg_ge_pow2:
  assumes "0 < x"
  shows "pow2 (bexp x) \<le> rnd x" and "rnd x \<le> pow2 (bexp x + 1)"
proof -
  let ?u = "pow2 (bexp x - 52)"
  have b: "pow2 (bexp x) \<le> x" "x \<le> pow2 (bexp x + 1)" using bexp_bounds [of x] assms by auto
  have r: "rnd x = of_int (rne (x / ?u)) * ?u" using assms by (simp add: rnd_def Let_def)
  have lo: "pow2 (bexp x) = of_int (2 ^ 52) * ?u"
    by (simp add: pow2_diff) (simp add: pow2_def)
  have hi: "pow2 (bexp x + 1) = of_int (2 ^ 53) * ?u"
    by (simp add: pow2_diff pow2_add) (simp add: pow2_def)
  have "of_int (2 ^ 52) \<le> x / ?u" "x / ?u \<le> of_int (2 ^ 53)"
    using b unfolding lo hi by (auto simp: le_divide_eq divide_le_eq)
  then have "2 ^ 52 \<le> rne (x / ?u)" "rne (x / ?u) \<le> 2 ^ 53"
    using rne_mono rne_of_int by metis+
  then show "pow2 (bexp x) \<le> rnd x" "rnd x \<le> pow2 (bexp x + 1)"
    unfolding r lo hi by (auto intro!: mult_right_mono simp del: of_int_power of_int_le_iff
        simp: of_int_le_iff [where 'a = rat])
qed

lemma rnd_mono_pos: "0 < x \<Longrightarrow> x \<le> y \<Longrightarrow> rnd x \<le> rnd y"
proof (cases "bexp x = bexp y")
  case True
  assume "0 < x" "x \<le> y"
  moreover have "x / pow2 (bexp y - 52) \<le> y / pow2 (bexp y - 52)"
    using \<open>x \<le> y\<close> by (simp add: divide_right_mono)
  ultimately show ?thesis
    using True rne_mono by (auto simp: rnd_def Let_def intro!: mult_right_mono)
next
  case False
  assume xy: "0 < x" "x \<le> y"
  then have "bexp x + 1 \<le> bexp y" using False bexp_mono [of x y] by linarith
  then have "pow2 (bexp x + 1) \<le> pow2 (bexp y)" by (rule pow2_mono)
  then show ?thesis
    using rnd_nonneg_ge_pow2 [of x] rnd_nonneg_ge_pow2 [of y] xy by linarith
qed

lemma rnd_pos: "0 < x \<Longrightarrow> 0 < rnd x"
  using rnd_nonneg_ge_pow2(1) [of x] pow2_pos [of "bexp x"] by linarith

lemma rnd_neg: "x < 0 \<Longrightarrow> rnd x < 0"
  using rnd_pos [of "- x"] by simp

lemma rnd_eq_0_iff [simp]: "rnd x = 0 \<longleftrightarrow> x = 0"
  using rnd_pos [of x] rnd_neg [of x] by (cases x "0 :: rat" rule: linorder_cases) auto

lemma rnd_mono: "x \<le> y \<Longrightarrow> rnd x \<le> rnd y"
proof -
  assume xy: "x \<le> y"
  consider "0 < x" | "x \<le> 0" "0 \<le> y" | "y < 0" using xy by linarith
  then show ?thesis
  proof cases
    case 1
    then show ?thesis using xy rnd_mono_pos by blast
  next
    case 2
    then have "rnd x \<le> 0" "0 \<le> rnd y"
      using rnd_neg [of x] rnd_pos [of y] by (cases "x = 0"; cases "y = 0"; force)+
    then show ?thesis by linarith
  next
    case 3
    then have "rnd (- y) \<le> rnd (- x)" using xy by (intro rnd_mono_pos) auto
    then show ?thesis by simp
  qed
qed


subsection \<open>Rounding half away from zero (\<open>math.Round\<close>)\<close>

definition rha :: "rat \<Rightarrow> int" where
  "rha x = (if 0 \<le> x then \<lfloor>x + 1 / 2\<rfloor> else - \<lfloor>1 / 2 - x\<rfloor>)"

lemma rha_near: "\<bar>x - of_int n\<bar> < 1 / 2 \<Longrightarrow> rha x = n"
proof -
  assume a: "\<bar>x - of_int n\<bar> < 1 / 2"
  then have b: "x - of_int n < 1 / 2" "of_int n - x < 1 / 2" unfolding abs_less_iff by linarith+
  show ?thesis
  proof (cases "0 \<le> x")
    case True
    moreover have "\<lfloor>x + 1 / 2\<rfloor> = n" by (rule floor_unique) (use b in linarith)+
    ultimately show ?thesis by (simp add: rha_def)
  next
    case False
    moreover have "\<lfloor>1 / 2 - x\<rfloor> = - n" by (rule floor_unique) (use b in auto)
    ultimately show ?thesis by (simp add: rha_def)
  qed
qed

lemma rha_of_int [simp]: "rha (of_int n) = n"
  by (rule rha_near) simp

lemma rha_error: "\<bar>of_int (rha x) - x\<bar> \<le> 1 / 2"
proof (cases "0 \<le> x")
  case True
  have "of_int \<lfloor>x + 1 / 2\<rfloor> \<le> x + 1 / 2" "x + 1 / 2 < of_int \<lfloor>x + 1 / 2\<rfloor> + 1" by linarith+
  moreover have "rha x = \<lfloor>x + 1 / 2\<rfloor>" using True by (simp add: rha_def)
  ultimately show ?thesis unfolding abs_le_iff by linarith
next
  case False
  have "of_int \<lfloor>1 / 2 - x\<rfloor> \<le> 1 / 2 - x" "1 / 2 - x < of_int \<lfloor>1 / 2 - x\<rfloor> + 1" by linarith+
  moreover have "rha x = - \<lfloor>1 / 2 - x\<rfloor>" using False by (simp add: rha_def)
  ultimately show ?thesis unfolding abs_le_iff of_int_minus by linarith
qed

lemma rha_mono: "x \<le> y \<Longrightarrow> rha x \<le> rha y"
proof -
  assume xy: "x \<le> y"
  consider "0 \<le> x" | "x < 0" "0 \<le> y" | "y < 0" using xy by linarith
  then show ?thesis
  proof cases
    case 1
    then show ?thesis using xy by (auto simp: rha_def intro: floor_mono)
  next
    case 2
    have "0 \<le> \<lfloor>1 / 2 - x\<rfloor>" "0 \<le> \<lfloor>y + 1 / 2\<rfloor>" using 2 by auto
    moreover have "rha x = - \<lfloor>1 / 2 - x\<rfloor>" "rha y = \<lfloor>y + 1 / 2\<rfloor>" using 2 by (simp_all add: rha_def)
    ultimately show ?thesis by linarith
  next
    case 3
    have "\<lfloor>1 / 2 - y\<rfloor> \<le> \<lfloor>1 / 2 - x\<rfloor>" using xy by (intro floor_mono) simp
    then show ?thesis using 3 xy by (simp add: rha_def)
  qed
qed

subsection \<open>The type of doubles\<close>

typedef f64 = "{x :: rat. rnd x = x}"
  morphisms val Dbl
  by (rule exI [of _ 0]) simp

setup_lifting type_definition_f64

lemma rnd_val [simp]: "rnd (val a) = val a"
  using val [of a] by simp

lemma f64_eq_iff: "a = b \<longleftrightarrow> val a = val b"
  by (simp add: val_inject)

lemma f64_eqI: "val a = val b \<Longrightarrow> a = b"
  by (simp add: f64_eq_iff)

text \<open>
  For evaluation: a number whose denominator is a small power of two and whose numerator fits in
  53 bits is its own rounding; only the others have to be scaled and rounded.
\<close>

definition rnd_scaled :: "rat \<Rightarrow> rat" where
  "rnd_scaled x = (if x = 0 then 0 else
     let u = pow2 (bexp x - 52) in of_int (rne (x / u)) * u)"

lemma dvd_pow2: "(q :: int) dvd 2 ^ k \<Longrightarrow> 0 < q \<Longrightarrow> \<exists>j. q = 2 ^ j"
proof (induction k arbitrary: q)
  case 0
  then show ?case by (intro exI [of _ 0]) (simp add: zdvd1_eq)
next
  case (Suc k)
  show ?case
  proof (cases "even q")
    case True
    then obtain r where r: "q = 2 * r" by blast
    then obtain j where "r = 2 ^ j" using Suc by fastforce
    then show ?thesis using r by (intro exI [of _ "Suc j"]) simp
  next
    case False
    then have "coprime q 2" by simp
    then have "q dvd 2 ^ k" using Suc.prems(1) by (simp add: coprime_dvd_mult_right_iff)
    then show ?thesis using Suc by blast
  qed
qed

lemma rnd_code [code]:
  "rnd x = (case quotient_of x of (p, q) \<Rightarrow>
     if \<bar>p\<bar> \<le> 9007199254740992 \<and> 18446744073709551616 mod q = 0 then x else rnd_scaled x)"
proof -
  obtain p q where pq: "quotient_of x = (p, q)" by fastforce
  have "rnd x = x" if "\<bar>p\<bar> \<le> 9007199254740992" "18446744073709551616 mod q = 0"
  proof -
    have q: "0 < q" by (rule quotient_of_denom_pos [OF pq])
    have "q dvd 2 ^ 64" using that(2) by (simp add: mod_eq_0_iff_dvd)
    from dvd_pow2 [OF this q] obtain j where j: "q = 2 ^ j" by blast
    have "x = of_int p * pow2 (- int j)"
      using quotient_of_div [OF pq] by (cases "j = 0") (simp_all add: j pow2_def)
    then have "dbl x" by (rule dblI) (use that(1) in simp)
    then show ?thesis by (rule rnd_dbl)
  qed
  moreover have "rnd x = rnd_scaled x" by (simp add: rnd_def rnd_scaled_def)
  ultimately show ?thesis by (simp add: pq)
qed

text \<open>A literal or conversion: the double nearest to an exact number.\<close>

lift_definition lit :: "rat \<Rightarrow> f64" is rnd by simp

abbreviation f64_of_int :: "int \<Rightarrow> f64" where "f64_of_int n \<equiv> lit (rat_of_int n)"

instantiation f64 :: "{zero, one, plus, minus, uminus, times, inverse, abs, linorder}"
begin

lift_definition zero_f64 :: f64 is 0 by simp
lift_definition one_f64 :: f64 is 1 using rnd_of_int [of 1] by simp
lift_definition plus_f64 :: "f64 \<Rightarrow> f64 \<Rightarrow> f64" is "\<lambda>a b. rnd (a + b)" by simp
lift_definition minus_f64 :: "f64 \<Rightarrow> f64 \<Rightarrow> f64" is "\<lambda>a b. rnd (a - b)" by simp
lift_definition uminus_f64 :: "f64 \<Rightarrow> f64" is "\<lambda>a. - a" by simp
lift_definition times_f64 :: "f64 \<Rightarrow> f64 \<Rightarrow> f64" is "\<lambda>a b. rnd (a * b)" by simp
lift_definition divide_f64 :: "f64 \<Rightarrow> f64 \<Rightarrow> f64" is "\<lambda>a b. rnd (a / b)" by simp
lift_definition inverse_f64 :: "f64 \<Rightarrow> f64" is "\<lambda>a. rnd (1 / a)" by simp
lift_definition abs_f64 :: "f64 \<Rightarrow> f64" is "\<lambda>a. \<bar>a\<bar>" by (simp add: abs_if)
lift_definition less_eq_f64 :: "f64 \<Rightarrow> f64 \<Rightarrow> bool" is "(\<le>)" .
lift_definition less_f64 :: "f64 \<Rightarrow> f64 \<Rightarrow> bool" is "(<)" .

instance by standard (transfer; auto)+

end

instantiation f64 :: equal
begin

lift_definition equal_f64 :: "f64 \<Rightarrow> f64 \<Rightarrow> bool" is "(=)" .

instance by standard (transfer, simp)

end

lemma val_lit [f64_simps]: "val (lit q) = rnd q" by transfer simp
lemma val_zero [simp]: "val 0 = 0" by transfer simp
lemma val_one [simp]: "val 1 = 1" by transfer simp
lemma val_add [f64_simps]: "val (a + b) = rnd (val a + val b)" by transfer simp
lemma val_diff [f64_simps]: "val (a - b) = rnd (val a - val b)" by transfer simp
lemma val_uminus [simp]: "val (- a) = - val a" by transfer simp
lemma val_mult [f64_simps]: "val (a * b) = rnd (val a * val b)" by transfer simp
lemma val_divide [f64_simps]: "val (a / b) = rnd (val a / val b)" by transfer simp
lemma val_abs [simp]: "val \<bar>a\<bar> = \<bar>val a\<bar>" by transfer simp
lemma le_f64_iff: "a \<le> b \<longleftrightarrow> val a \<le> val b" by transfer simp
lemma less_f64_iff: "a < b \<longleftrightarrow> val a < val b" by transfer simp

lemma val_max [simp]: "val (max a b) = max (val a) (val b)"
  by (auto simp: max_def le_f64_iff)

lemma val_min [simp]: "val (min a b) = min (val a) (val b)"
  by (auto simp: min_def le_f64_iff)

lemma val_lit_int: "\<bar>n\<bar> \<le> 2 ^ 53 \<Longrightarrow> val (f64_of_int n) = of_int n"
  by (simp add: val_lit rnd_of_int)

lemma val_lit_numeral: "(numeral k :: int) \<le> 2 ^ 53 \<Longrightarrow> val (lit (numeral k)) = numeral k"
  using val_lit_int [of "numeral k"] by simp

lemma lit_val [simp]: "lit (val a) = a"
  by (simp add: f64_eq_iff val_lit)

lemma lit_0 [simp]: "lit 0 = 0" by (simp add: f64_eq_iff val_lit)
lemma lit_1 [simp]: "lit 1 = 1" by (simp add: f64_eq_iff val_lit)
lemma lit_minus: "lit (- q) = - lit q" by (simp add: f64_eq_iff val_lit)
lemma lit_mono: "p \<le> q \<Longrightarrow> lit p \<le> lit q" by (simp add: le_f64_iff val_lit rnd_mono)

subsection \<open>The laws doubles do keep\<close>

lemma f64_add_0 [simp]: "a + 0 = (a :: f64)" "0 + a = a"
  by (simp_all add: f64_eq_iff val_add)

lemma f64_diff_0 [simp]: "a - 0 = (a :: f64)" "0 - a = - a" "a - a = 0"
  by (simp_all add: f64_eq_iff val_diff)

lemma f64_mult_1 [simp]: "a * 1 = (a :: f64)" "1 * a = a"
  by (simp_all add: f64_eq_iff val_mult)

lemma f64_mult_0 [simp]: "a * 0 = (0 :: f64)" "0 * a = 0"
  by (simp_all add: f64_eq_iff val_mult)

lemma f64_divide_1 [simp]: "a / 1 = (a :: f64)" "0 / a = (0 :: f64)"
  by (simp_all add: f64_eq_iff val_divide)

lemma f64_minus_minus [simp]: "- (- a) = (a :: f64)" "- (0 :: f64) = 0"
  by (simp_all add: f64_eq_iff)

lemma f64_minus_le_0 [simp]: "- a \<le> 0 \<longleftrightarrow> 0 \<le> (a :: f64)" "0 \<le> - a \<longleftrightarrow> a \<le> (0 :: f64)"
  "- a < 0 \<longleftrightarrow> 0 < (a :: f64)" "0 < - a \<longleftrightarrow> a < (0 :: f64)"
  by (simp_all add: le_f64_iff less_f64_iff)

lemma f64_add_commute: "a + b = b + (a :: f64)"
  by (simp add: f64_eq_iff val_add add.commute)

lemma f64_mult_commute: "a * b = b * (a :: f64)"
  by (simp add: f64_eq_iff val_mult mult.commute)

lemma f64_diff_minus: "a - b = a + - (b :: f64)"
  by (simp add: f64_eq_iff val_add val_diff)

lemma f64_minus_diff: "- (a - b) = b - (a :: f64)"
  by (simp add: f64_eq_iff val_diff flip: rnd_minus)

lemma f64_mult_minus: "a * - b = - (a * (b :: f64))" "- a * b = - (a * b)"
  by (simp_all add: f64_eq_iff val_mult flip: rnd_minus)

lemma f64_add_mono: "a \<le> b \<Longrightarrow> c \<le> d \<Longrightarrow> a + c \<le> b + (d :: f64)"
  by (simp add: le_f64_iff val_add rnd_mono add_mono)

lemma f64_diff_mono: "a \<le> b \<Longrightarrow> d \<le> c \<Longrightarrow> a - c \<le> b - (d :: f64)"
  by (simp add: le_f64_iff val_diff rnd_mono diff_mono)

lemma f64_mult_mono: "a \<le> b \<Longrightarrow> 0 \<le> c \<Longrightarrow> a * c \<le> b * (c :: f64)"
  by (simp add: le_f64_iff val_mult rnd_mono mult_right_mono)

lemma f64_divide_mono: "a \<le> b \<Longrightarrow> 0 < c \<Longrightarrow> a / c \<le> b / (c :: f64)"
  by (simp add: le_f64_iff less_f64_iff val_divide rnd_mono divide_right_mono)

lemma rnd_nonneg [simp]: "0 \<le> rnd x \<longleftrightarrow> 0 \<le> x"
  using rnd_mono [of 0 x] rnd_neg [of x] by (cases "0 \<le> x") auto

lemma rnd_gt_0 [simp]: "0 < rnd x \<longleftrightarrow> 0 < x"
  using rnd_pos [of x] rnd_mono [of x 0] by (cases "0 < x") auto

lemma rnd_le_0 [simp]: "rnd x \<le> 0 \<longleftrightarrow> x \<le> 0"
  using rnd_gt_0 [of x] by linarith

lemma rnd_lt_0 [simp]: "rnd x < 0 \<longleftrightarrow> x < 0"
  using rnd_nonneg [of x] by linarith

text \<open>Gradual comparison survives rounding: the sign of a difference is exact.\<close>

lemma f64_diff_pos_iff [simp]: "0 < a - b \<longleftrightarrow> b < (a :: f64)"
  by (simp add: less_f64_iff val_diff)

lemma f64_diff_neg_iff [simp]: "a - b < 0 \<longleftrightarrow> a < (b :: f64)"
  by (simp add: less_f64_iff val_diff)

lemma f64_diff_nonneg_iff [simp]: "0 \<le> a - b \<longleftrightarrow> b \<le> (a :: f64)"
  by (simp add: le_f64_iff val_diff)

lemma f64_diff_nonpos_iff [simp]: "a - b \<le> 0 \<longleftrightarrow> a \<le> (b :: f64)"
  by (simp add: le_f64_iff val_diff)

lemma f64_add_nonneg: "0 \<le> a \<Longrightarrow> 0 \<le> b \<Longrightarrow> 0 \<le> a + (b :: f64)"
  by (simp add: le_f64_iff val_add)

lemma f64_add_nonpos: "a \<le> 0 \<Longrightarrow> b \<le> 0 \<Longrightarrow> a + b \<le> (0 :: f64)"
  by (simp add: le_f64_iff val_add)

lemma f64_mult_nonneg: "0 \<le> a \<Longrightarrow> 0 \<le> b \<Longrightarrow> 0 \<le> a * (b :: f64)"
  by (simp add: le_f64_iff val_mult)

lemma f64_mult_pos: "0 < a \<Longrightarrow> 0 < b \<Longrightarrow> 0 < a * (b :: f64)"
  by (simp add: less_f64_iff val_mult)

lemma f64_divide_nonneg: "0 \<le> a \<Longrightarrow> 0 \<le> b \<Longrightarrow> 0 \<le> a / (b :: f64)"
  by (simp add: le_f64_iff val_divide)

lemma f64_divide_pos: "0 < a \<Longrightarrow> 0 < b \<Longrightarrow> 0 < a / (b :: f64)"
  by (simp add: less_f64_iff val_divide)

lemma f64_abs_nonneg [simp]: "0 \<le> \<bar>a :: f64\<bar>" "\<bar>a :: f64\<bar> < 0 \<longleftrightarrow> False"
  by (simp_all add: le_f64_iff less_f64_iff)

lemma f64_abs_of_nonneg: "0 \<le> a \<Longrightarrow> \<bar>a\<bar> = (a :: f64)" "a < 0 \<Longrightarrow> \<bar>a\<bar> = - (a :: f64)"
  by (simp_all add: le_f64_iff less_f64_iff f64_eq_iff)

lemma lit_pos [simp]: "0 < lit q \<longleftrightarrow> 0 < q" "0 \<le> lit q \<longleftrightarrow> 0 \<le> q"
  "lit q < 0 \<longleftrightarrow> q < 0" "lit q \<le> 0 \<longleftrightarrow> q \<le> 0"
  by (simp_all add: less_f64_iff le_f64_iff val_lit)

lemma lit_eq_0 [simp]: "lit q = 0 \<longleftrightarrow> q = 0"
  by (simp add: f64_eq_iff val_lit)


subsection \<open>Rounding functions of the math package\<close>

definition fround :: "f64 \<Rightarrow> f64" where
  "fround x = f64_of_int (rha (val x))"

definition ffloor :: "f64 \<Rightarrow> f64" where
  "ffloor x = f64_of_int \<lfloor>val x\<rfloor>"

text \<open>Go's conversion to an integer type drops the fraction.\<close>

definition ftrunc :: "f64 \<Rightarrow> int" where
  "ftrunc x = (if 0 \<le> val x then \<lfloor>val x\<rfloor> else - \<lfloor>- val x\<rfloor>)"

lemma f64_big_is_int:
  assumes "2 ^ 52 \<le> \<bar>val x\<bar>"
  shows "\<exists>n. val x = of_int n"
proof -
  have nz: "val x \<noteq> 0" using assms by auto
  have "pow2 52 < pow2 (bexp (val x) + 1)"
    using bexp_bounds(2) [OF nz] assms by (simp add: pow2_def)
  then have e: "0 \<le> bexp (val x) - 52" by (simp add: pow2_less_cancel)
  have "val x = rnd (val x)" by simp
  also have "\<dots> = of_int (rne (val x / pow2 (bexp (val x) - 52))) * pow2 (bexp (val x) - 52)"
    using nz by (simp add: rnd_def Let_def)
  also have "\<dots> = of_int (rne (val x / pow2 (bexp (val x) - 52)) * 2 ^ nat (bexp (val x) - 52))"
    by (simp add: pow2_int [OF e])
  finally show ?thesis by blast
qed

lemma val_fround: "val (fround x) = of_int (rha (val x))"
proof (cases "2 ^ 52 \<le> \<bar>val x\<bar>")
  case True
  then obtain n where n: "val x = of_int n" using f64_big_is_int by blast
  then have "rnd (of_int n) = (of_int n :: rat)" using rnd_val [of x] by simp
  then show ?thesis by (simp add: fround_def val_lit n)
next
  case False
  then have "\<bar>of_int (rha (val x))\<bar> < (2 :: rat) ^ 52 + 1"
    using rha_error [of "val x"] by linarith
  then have "\<bar>of_int (rha (val x)) :: rat\<bar> < of_int (2 ^ 52 + 1)" by simp
  then have "\<bar>rha (val x)\<bar> < 2 ^ 52 + 1" by (simp only: of_int_less_iff flip: of_int_abs)
  then show ?thesis by (simp add: fround_def val_lit_int)
qed

lemma fround_mono: "x \<le> y \<Longrightarrow> fround x \<le> fround y"
  by (simp add: le_f64_iff val_fround rha_mono)

text \<open>A price on the cent grid: the double nearest to a whole number of cents.\<close>

definition cent :: "int \<Rightarrow> f64" where
  "cent k = lit (of_int k / 100)"

definition round_cents :: "f64 \<Rightarrow> f64" where
  "round_cents x = fround (x * lit 100) / lit 100"

lemma val_lit_100 [simp]: "val (lit 100) = 100"
  by (simp add: val_lit)

lemma round_cents_eq: "round_cents x = cent (rha (rnd (val x * 100)))"
  by (simp add: round_cents_def cent_def f64_eq_iff val_divide val_fround val_mult val_lit)

lemma round_cents_mono: "x \<le> y \<Longrightarrow> round_cents x \<le> round_cents y"
  unfolding round_cents_def
  by (intro f64_divide_mono fround_mono f64_mult_mono) auto

lemma rha_cent:
  assumes "\<bar>k\<bar> \<le> 2 ^ 50"
  shows "rha (rnd (val (cent k) * 100)) = k"
proof (rule rha_near)
  define x where "x = val (cent k)"
  define K where "K = (of_int k :: rat)"
  have K: "\<bar>K\<bar> \<le> 2 ^ 50"
  proof -
    have "(of_int \<bar>k\<bar> :: rat) \<le> of_int (2 ^ 50)" using assms by (simp only: of_int_le_iff)
    then show ?thesis by (simp add: K_def)
  qed
  have "\<bar>x - K / 100\<bar> \<le> \<bar>K / 100\<bar> / 2 ^ 53"
    using rnd_error [of "K / 100"] by (simp add: x_def K_def cent_def val_lit)
  then have a: "\<bar>x * 100 - K\<bar> \<le> \<bar>K\<bar> / 2 ^ 53" by (simp add: abs_if field_simps split: if_splits)
  have b: "\<bar>rnd (x * 100) - x * 100\<bar> \<le> \<bar>x * 100\<bar> / 2 ^ 53" by (rule rnd_error)
  have c: "\<bar>x * 100\<bar> \<le> \<bar>K\<bar> + \<bar>K\<bar> / 2 ^ 53" using a by linarith
  have "\<bar>rnd (x * 100) - K\<bar> \<le> \<bar>rnd (x * 100) - x * 100\<bar> + \<bar>x * 100 - K\<bar>" by linarith
  also have "\<dots> \<le> (\<bar>K\<bar> + \<bar>K\<bar> / 2 ^ 53) / 2 ^ 53 + \<bar>K\<bar> / 2 ^ 53"
    by (rule add_mono [OF order.trans [OF b divide_right_mono [OF c]] a]) simp
  also have "\<dots> \<le> (2 ^ 50 + 2 ^ 50 / 2 ^ 53) / 2 ^ 53 + 2 ^ 50 / 2 ^ 53"
    by (intro add_mono divide_right_mono K) auto
  also have "\<dots> < 1 / 2" by simp
  finally have "\<bar>rnd (x * 100) - K\<bar> < 1 / 2" .
  then show "\<bar>rnd (val (cent k) * 100) - of_int k\<bar> < 1 / 2" by (simp add: x_def K_def)
qed

lemma round_cents_cent: "\<bar>k\<bar> \<le> 2 ^ 50 \<Longrightarrow> round_cents (cent k) = cent k"
  by (simp add: round_cents_eq rha_cent)

lemma cent_mono: "j \<le> k \<Longrightarrow> cent j \<le> cent k"
  unfolding cent_def by (rule lit_mono) (simp add: divide_right_mono)

subsection \<open>Evaluating on concrete numbers\<close>

text \<open>
  Rewriting a term over concrete doubles: everything goes to the exact value, and a fraction whose
  denominator is a power of two is its own rounding.
\<close>

fun pow2_num :: "num \<Rightarrow> bool" where
  "pow2_num num.One = True"
| "pow2_num (num.Bit0 n) = pow2_num n"
| "pow2_num (num.Bit1 n) = False"

lemma pow2_num: "pow2_num q \<Longrightarrow> \<exists>j. (numeral q :: rat) = 2 ^ j"
proof (induction q)
  case One
  then show ?case by (intro exI [of _ 0]) simp
next
  case (Bit0 q)
  then obtain j where "(numeral q :: rat) = 2 ^ j" by auto
  moreover have "(numeral (num.Bit0 q) :: rat) = numeral q + numeral q" by (rule numeral_Bit0)
  ultimately have "(numeral (num.Bit0 q) :: rat) = 2 ^ Suc j" by (simp only: power_Suc mult_2)
  then show ?case by blast
qed simp

lemma rnd_dyadic [simp]:
  assumes "pow2_num q" "(numeral n :: int) \<le> 9007199254740992"
  shows "rnd (numeral n / numeral q) = numeral n / numeral q"
proof -
  obtain j where "(numeral q :: rat) = 2 ^ j" using pow2_num [OF assms(1)] by blast
  then have "(numeral n / numeral q :: rat) = of_int (numeral n) * pow2 (- int j)"
    by (cases "j = 0") (simp_all add: pow2_def)
  then have "dbl (numeral n / numeral q)" by (rule dblI) (use assms(2) in simp)
  then show ?thesis by (rule rnd_dbl)
qed

lemma rnd_unit_fraction [simp]: "pow2_num q \<Longrightarrow> rnd (1 / numeral q) = 1 / numeral q"
  using rnd_dyadic [of q num.One] by simp

lemma rha_numeral [simp]: "rha (numeral n) = numeral n" "rha (- numeral n) = - numeral n" "rha 0 = 0" "rha 1 = 1"
    "rha (- 1) = - 1"
  by (rule rha_near, simp)+

lemma val_cent: "val (cent k) = rnd (of_int k / 100)"
  by (simp add: cent_def val_lit)

lemmas f64_eval = f64_simps f64_eq_iff le_f64_iff less_f64_iff round_cents_eq val_cent val_lit

end
