(* ===== verification/GoStd.thy ===== *)
theory GoStd
  imports Float64
begin

text \<open>
  What the program uses of Go's standard library: \<open>strings\<close>, \<open>strconv\<close>, \<open>fmt\<close> on the one
  float format the program parses back, and the calendar part of \<open>time\<close>. Strings are lists
  of bytes; the folding of case and the trimming of space are those of ASCII, which every
  contract symbol and order name is written in.
\<close>

subsection \<open>Strings\<close>

abbreviation byte :: "char \<Rightarrow> nat" where "byte c \<equiv> of_char c"

definition is_space :: "char \<Rightarrow> bool" where
  "is_space c \<longleftrightarrow> byte c \<in> {9, 10, 11, 12, 13, 32}"

definition TrimSpace :: "string \<Rightarrow> string" where
  "TrimSpace s = rev (dropWhile is_space (rev (dropWhile is_space s)))"

definition upper :: "char \<Rightarrow> char" where
  "upper c = (if 97 \<le> byte c \<and> byte c \<le> 122 then char_of (byte c - 32) else c)"

definition ToUpper :: "string \<Rightarrow> string" where
  "ToUpper s = map upper s"

definition ToLower :: "string \<Rightarrow> string" where
  "ToLower = map (\<lambda>c. if 65 \<le> byte c \<and> byte c \<le> 90 then char_of (byte c + 32) else c)"

definition EqualFold :: "string \<Rightarrow> string \<Rightarrow> bool" where
  "EqualFold a b \<longleftrightarrow> ToUpper a = ToUpper b"

definition HasPrefix :: "string \<Rightarrow> string \<Rightarrow> bool" where
  "HasPrefix s p \<longleftrightarrow> take (length p) s = p"

definition HasSuffix :: "string \<Rightarrow> string \<Rightarrow> bool" where
  "HasSuffix s p \<longleftrightarrow> HasPrefix (rev s) (rev p)"

fun Split :: "char \<Rightarrow> string \<Rightarrow> string list" where
  "Split c [] = [[]]"
| "Split c (x # xs) = (if x = c then [] # Split c xs
     else (case Split c xs of [] \<Rightarrow> [[x]] | f # fs \<Rightarrow> (x # f) # fs))"

fun Join :: "char \<Rightarrow> string list \<Rightarrow> string" where
  "Join c [] = []"
| "Join c [f] = f"
| "Join c (f # g # fs) = f @ c # Join c (g # fs)"

text \<open>\<open>strings.FieldsFunc\<close>: the maximal runs of characters that are not separators.\<close>

fun fields_acc :: "(char \<Rightarrow> bool) \<Rightarrow> string \<Rightarrow> string \<Rightarrow> string list" where
  "fields_acc sep acc [] = (if acc = [] then [] else [acc])"
| "fields_acc sep acc (x # xs) = (if sep x
     then (if acc = [] then fields_acc sep [] xs else acc # fields_acc sep [] xs)
     else fields_acc sep (acc @ [x]) xs)"

definition FieldsFunc :: "(char \<Rightarrow> bool) \<Rightarrow> string \<Rightarrow> string list" where
  "FieldsFunc sep s = fields_acc sep [] s"

text \<open>\<open>strings.Cut\<close> at the first separator.\<close>

fun Cut :: "char \<Rightarrow> string \<Rightarrow> (string \<times> string) option" where
  "Cut c [] = None"
| "Cut c (x # xs) = (if x = c then Some ([], xs)
     else map_option (\<lambda>(a, b). (x # a, b)) (Cut c xs))"

lemma Split_ne [simp]: "Split c s \<noteq> []"
  by (cases s) (auto split: list.splits)

lemma Join_Split [simp]: "Join c (Split c s) = s"
proof (induction s)
  case (Cons x xs)
  then show ?case
  proof (cases "Split c xs")
    case (Cons f fs)
    with Cons.IH show ?thesis by (cases fs) auto
  qed auto
qed simp

lemma Split_no_sep: "f \<in> set (Split c s) \<Longrightarrow> c \<notin> set f"
  by (induction s arbitrary: f) (auto split: list.splits if_splits)

lemma Split_append_sep: "Split c (s @ c # t) = Split c s @ Split c t"
  by (induction s) (auto split: list.splits)

lemma Split_single: "c \<notin> set t \<Longrightarrow> Split c t = [t]"
  by (induction t) auto

lemma Join_snoc: "fs \<noteq> [] \<Longrightarrow> Join c (fs @ [g]) = Join c fs @ c # g"
  by (induction c fs rule: Join.induct) auto

lemma fields_acc_snoc_sep:
  "sep c \<Longrightarrow> fields_acc sep acc (s @ c # t) = fields_acc sep acc s @ fields_acc sep [] t"
  by (induction s arbitrary: acc) auto

lemma FieldsFunc_append_sep:
  "sep c \<Longrightarrow> FieldsFunc sep (s @ c # t) = FieldsFunc sep s @ FieldsFunc sep t"
  by (simp add: FieldsFunc_def fields_acc_snoc_sep)

lemma fields_acc_no_sep:
  "\<forall>x \<in> set s. \<not> sep x \<Longrightarrow> fields_acc sep acc s = (if acc @ s = [] then [] else [acc @ s])"
  by (induction s arbitrary: acc) auto

lemma FieldsFunc_no_sep:
  "\<forall>x \<in> set s. \<not> sep x \<Longrightarrow> FieldsFunc sep s = (if s = [] then [] else [s])"
  by (simp add: FieldsFunc_def fields_acc_no_sep)

lemma fields_acc_sub:
  "f \<in> set (fields_acc sep acc s) \<Longrightarrow> set f \<subseteq> set acc \<union> set s"
  by (induction s arbitrary: acc) (fastforce split: if_splits)+

lemma FieldsFunc_sub: "f \<in> set (FieldsFunc sep s) \<Longrightarrow> set f \<subseteq> set s"
  using fields_acc_sub [of f sep "[]" s] by (auto simp: FieldsFunc_def)

subsection \<open>Decimal integers\<close>

definition is_digit :: "char \<Rightarrow> bool" where
  "is_digit c \<longleftrightarrow> 48 \<le> byte c \<and> byte c \<le> 57"

definition digit_val :: "char \<Rightarrow> nat" where
  "digit_val c = byte c - 48"

definition nat_of_digits :: "string \<Rightarrow> nat" where
  "nat_of_digits s = foldl (\<lambda>n c. n * 10 + digit_val c) 0 s"

fun dec_nat :: "nat \<Rightarrow> string" where
  "dec_nat n = (if n < 10 then [char_of (48 + n)]
     else dec_nat (n div 10) @ [char_of (48 + n mod 10)])"

declare dec_nat.simps [simp del]

definition dec_int :: "int \<Rightarrow> string" where
  "dec_int n = (if n < 0 then CHR ''-'' # dec_nat (nat (- n)) else dec_nat (nat n))"

definition parse_nat :: "string \<Rightarrow> nat option" where
  "parse_nat s = (if s \<noteq> [] \<and> list_all is_digit s then Some (nat_of_digits s) else None)"

text \<open>\<open>strconv.ParseInt(s, 10, 64)\<close>: an optional sign, digits, and the range of an int64.\<close>

definition ParseInt :: "string \<Rightarrow> int option" where
  "ParseInt s = (case s of
       [] \<Rightarrow> None
     | c # cs \<Rightarrow>
         let neg = (c = CHR ''-''); ds = (if c = CHR ''-'' \<or> c = CHR ''+'' then cs else s)
         in (case parse_nat ds of
               None \<Rightarrow> None
             | Some n \<Rightarrow> if neg then (if n \<le> 2 ^ 63 then Some (- int n) else None)
                         else if n < 2 ^ 63 then Some (int n) else None))"

lemma digit_char [simp]: "(d :: nat) < 10 \<Longrightarrow> byte (char_of (48 + d)) = 48 + d"
  by (simp add: take_bit_eq_mod)

lemma is_digit_char [simp]: "(d :: nat) < 10 \<Longrightarrow> is_digit (char_of (48 + d))"
  by (simp add: is_digit_def)

lemma digit_val_char [simp]: "d < 10 \<Longrightarrow> digit_val (char_of (48 + d)) = d"
  by (simp add: digit_val_def)

lemma nat_of_digits_snoc [simp]: "nat_of_digits (s @ [c]) = nat_of_digits s * 10 + digit_val c"
  by (simp add: nat_of_digits_def)

lemma nat_of_digits_dec_nat [simp]: "nat_of_digits (dec_nat n) = n"
proof (induction n rule: dec_nat.induct)
  case (1 n)
  then show ?case
    by (subst dec_nat.simps) (auto simp: nat_of_digits_def)
qed

lemma dec_nat_digits: "list_all is_digit (dec_nat n)"
proof (induction n rule: dec_nat.induct)
  case (1 n)
  then show ?case by (subst dec_nat.simps) auto
qed

lemma dec_nat_ne [simp]: "dec_nat n \<noteq> []"
  by (subst dec_nat.simps) simp

lemma dec_nat_length: "n < 10 ^ k \<Longrightarrow> 0 < k \<Longrightarrow> length (dec_nat n) \<le> k"
proof (induction k arbitrary: n)
  case (Suc k)
  show ?case
  proof (cases "n < 10")
    case True
    then show ?thesis by (subst dec_nat.simps) simp
  next
    case False
    then have "0 < k" using Suc.prems by (cases k) auto
    moreover have "n div 10 < 10 ^ k" using Suc.prems by (simp add: div_less_iff_less_mult mult.commute)
    ultimately have "length (dec_nat (n div 10)) \<le> k" using Suc.IH by blast
    with False show ?thesis by (subst dec_nat.simps) simp
  qed
qed simp

lemma parse_nat_dec_nat [simp]: "parse_nat (dec_nat n) = Some n"
  by (simp add: parse_nat_def dec_nat_digits)

lemma not_digit_sep [simp]: "\<not> is_digit CHR ''-''" "\<not> is_digit CHR ''+''" "\<not> is_digit CHR '';''"
  "\<not> is_digit CHR '' ''" "\<not> is_digit CHR '',''" "\<not> is_digit CHR ''w''" "\<not> is_digit CHR ''.''"
  by (simp_all add: is_digit_def)

lemma dec_nat_hd: "is_digit (hd (dec_nat n))"
  using dec_nat_digits [of n] by (cases "dec_nat n") auto

lemma ParseInt_dec_int: "- (2 ^ 63) \<le> n \<Longrightarrow> n < 2 ^ 63 \<Longrightarrow> ParseInt (dec_int n) = Some n"
proof (cases "n < 0")
  case True
  assume "- (2 ^ 63) \<le> n"
  then show ?thesis using True by (auto simp: ParseInt_def dec_int_def)
next
  case False
  assume "n < 2 ^ 63"
  moreover obtain c cs where c: "dec_nat (nat n) = c # cs" by (cases "dec_nat (nat n)") auto
  moreover have "c \<noteq> CHR ''-''" "c \<noteq> CHR ''+''" using dec_nat_hd [of "nat n"] c by auto
  ultimately show ?thesis using False parse_nat_dec_nat [of "nat n"]
    by (auto simp: ParseInt_def dec_int_def Let_def simp del: parse_nat_dec_nat split: list.splits)
qed

subsection \<open>Floats as text\<close>

text \<open>
  \<open>fmt\<close>'s verb for two decimals: the exact value of the double rounded to two places, ties to
  even, with the sign of the number.
\<close>

definition dec2 :: "nat \<Rightarrow> string" where
  "dec2 n = dec_nat (n div 100) @ CHR ''.'' #
     [char_of (48 + n div 10 mod 10), char_of (48 + n mod 10)]"

definition fmt2 :: "f64 \<Rightarrow> string" where
  "fmt2 x = (if val x < 0 then [CHR ''-''] else []) @ dec2 (nat (rne (\<bar>val x\<bar> * 100)))"

datatype parsed = PErr | PNaN | PInf bool | PFin f64

definition ten_pow :: "int \<Rightarrow> rat" where
  "ten_pow e = (if 0 \<le> e then 10 ^ nat e else 1 / 10 ^ nat (- e))"

text \<open>
  \<open>strconv.ParseFloat(s, 64)\<close> on the decimal form (digits, a point, an exponent) and the
  words for the infinities and for no number; a decimal past the largest double is a range
  error; an infinity keeps whether it is the negative one. Go's hexadecimal form and digit separators are read as errors here.
\<close>

definition parse_ufloat :: "string \<Rightarrow> rat option" where
  "parse_ufloat s =
     (let ip = takeWhile is_digit s; r1 = dropWhile is_digit s;
          (fp, r2) = (case r1 of [] \<Rightarrow> ([], r1)
             | c # r \<Rightarrow> if c = CHR ''.'' then (takeWhile is_digit r, dropWhile is_digit r) else ([], r1));
          ex = (case r2 of [] \<Rightarrow> Some 0
             | c # r \<Rightarrow> if c = CHR ''e'' \<or> c = CHR ''E'' then ParseInt r else None)
      in if ip @ fp = [] then None
         else map_option (\<lambda>e. of_nat (nat_of_digits (ip @ fp)) * ten_pow (e - int (length fp))) ex)"

definition ParseFloat :: "string \<Rightarrow> parsed" where
  "ParseFloat s = (case s of
       [] \<Rightarrow> PErr
     | c # cs \<Rightarrow>
         let neg = (c = CHR ''-''); t = (if c = CHR ''-'' \<or> c = CHR ''+'' then cs else s)
         in if ToUpper t = ''INF'' \<or> ToUpper t = ''INFINITY'' then PInf neg
            else if ToUpper s = ''NAN'' then PNaN
            else (case parse_ufloat t of
                None \<Rightarrow> PErr
              | Some q \<Rightarrow> if pow2 1024 \<le> rnd q then PErr
                          else PFin (lit (if neg then - q else q))))"

lemma dec2_split:
  "takeWhile is_digit (dec2 n) = dec_nat (n div 100)"
  "dropWhile is_digit (dec2 n) =
     CHR ''.'' # [char_of (48 + n div 10 mod 10), char_of (48 + n mod 10)]"
  using dec_nat_digits [of "n div 100"]
  by (simp_all add: dec2_def takeWhile_append dropWhile_append list_all_iff)

lemma two_digits: "n div 100 * 100 + n div 10 mod 10 * 10 + n mod 10 = (n :: nat)"
proof -
  have "n div 100 = n div 10 div 10" by (simp flip: div_mult2_eq)
  moreover have "n div 10 div 10 * 10 + n div 10 mod 10 = n div 10" by (rule div_mult_mod_eq)
  moreover have "n div 10 * 10 + n mod 10 = n" by (rule div_mult_mod_eq)
  ultimately show ?thesis by linarith
qed

lemma nat_of_digits_append2:
  "nat_of_digits (s @ [c, d]) = nat_of_digits s * 100 + digit_val c * 10 + digit_val d"
  by (simp add: nat_of_digits_def)

lemma parse_ufloat_dec2: "parse_ufloat (dec2 n) = Some (of_nat n / 100)"
proof -
  have "nat_of_digits (dec_nat (n div 100) @
      [char_of (48 + n div 10 mod 10), char_of (48 + n mod 10)]) = n"
    unfolding nat_of_digits_append2 using two_digits [of n] by simp
  then show ?thesis
    by (simp add: parse_ufloat_def dec2_split Let_def ten_pow_def)
qed

lemma dec2_hd: "is_digit (hd (dec2 n))" "dec2 n \<noteq> []"
  using dec_nat_hd [of "n div 100"] by (auto simp: dec2_def)

lemma upper_digit: "is_digit c \<Longrightarrow> upper c = c"
  by (simp add: is_digit_def upper_def)

lemma ToUpper_digit_ne: "is_digit (hd t) \<Longrightarrow> t \<noteq> [] \<Longrightarrow> ToUpper t \<noteq> ''INF''"
  "is_digit (hd t) \<Longrightarrow> t \<noteq> [] \<Longrightarrow> ToUpper t \<noteq> ''INFINITY''"
  "is_digit (hd t) \<Longrightarrow> t \<noteq> [] \<Longrightarrow> ToUpper t \<noteq> ''NAN''"
  by (cases t; auto simp: ToUpper_def upper_digit is_digit_def)+

lemma ParseFloat_dec2:
  assumes "of_nat n / 100 < (2 :: rat) ^ 1000"
  shows "ParseFloat (dec2 n) = PFin (lit (of_nat n / 100))"
    and "ParseFloat (CHR ''-'' # dec2 n) = PFin (lit (- (of_nat n / 100)))"
proof -
  have lim: "\<not> pow2 1024 \<le> rnd (of_nat n / 100)"
  proof -
    have "rnd (of_nat n / 100) \<le> rnd (pow2 1000)"
      by (rule rnd_mono) (use assms in \<open>simp add: pow2_def\<close>)
    also have "\<dots> < pow2 1024" by (simp add: pow2_less)
    finally show ?thesis by simp
  qed
  obtain c cs where c: "dec2 n = c # cs" by (cases "dec2 n") (simp add: dec2_def)
  have d: "is_digit c" using dec2_hd [of n] by (simp add: c)
  then have nc: "c \<noteq> CHR ''-''" "c \<noteq> CHR ''+''" by auto
  have ne: "ToUpper (dec2 n) \<noteq> ''INF''" "ToUpper (dec2 n) \<noteq> ''INFINITY''" "ToUpper (dec2 n) \<noteq> ''NAN''"
    using ToUpper_digit_ne dec2_hd by blast+
  have "ToUpper (CHR ''-'' # dec2 n) \<noteq> ''NAN''" by (simp add: ToUpper_def upper_def)
  then show "ParseFloat (CHR ''-'' # dec2 n) = PFin (lit (- (of_nat n / 100)))"
    using ne lim by (simp add: ParseFloat_def parse_ufloat_dec2)
  show "ParseFloat (dec2 n) = PFin (lit (of_nat n / 100))"
    using ne lim nc parse_ufloat_dec2 [of n] unfolding ParseFloat_def c by (simp add: Let_def)
qed

text \<open>A price on the cent grid survives being written and read back.\<close>

lemma rne_near: "\<bar>x - of_int n\<bar> < 1 / 2 \<Longrightarrow> rne x = n"
proof -
  assume a: "\<bar>x - of_int n\<bar> < 1 / 2"
  have "\<bar>of_int (rne x) - of_int n\<bar> < (1 :: rat)" using rne_error [of x] a by linarith
  then have "\<bar>of_int (rne x - n)\<bar> < (1 :: rat)" by simp
  then have "\<bar>rne x - n\<bar> < 1" by (simp only: of_int_less_1_iff flip: of_int_abs)
  then show ?thesis by simp
qed

lemma cent_exact_near:
  assumes "\<bar>k\<bar> \<le> 2 ^ 50"
  shows "\<bar>val (cent k) * 100 - of_int k\<bar> < 1 / 2"
proof -
  define K where "K = (of_int k :: rat)"
  have K: "\<bar>K\<bar> \<le> 2 ^ 50"
  proof -
    have "(of_int \<bar>k\<bar> :: rat) \<le> of_int (2 ^ 50)" using assms by (simp only: of_int_le_iff)
    then show ?thesis by (simp add: K_def)
  qed
  have "\<bar>val (cent k) - K / 100\<bar> \<le> \<bar>K / 100\<bar> / 2 ^ 53"
    using rnd_error [of "K / 100"] by (simp add: K_def cent_def val_lit)
  then have "\<bar>val (cent k) * 100 - K\<bar> \<le> \<bar>K\<bar> / 2 ^ 53"
    by (simp add: abs_if field_simps split: if_splits)
  also have "\<dots> \<le> 2 ^ 50 / 2 ^ 53" by (rule divide_right_mono [OF K]) simp
  finally show ?thesis by (simp add: K_def)
qed

lemma rne_cent: "\<bar>k\<bar> \<le> 2 ^ 50 \<Longrightarrow> rne (\<bar>val (cent k)\<bar> * 100) = \<bar>k\<bar>"
proof (rule rne_near)
  assume "\<bar>k\<bar> \<le> 2 ^ 50"
  then have "\<bar>val (cent k) * 100 - of_int k\<bar> < 1 / 2" by (rule cent_exact_near)
  moreover have "\<bar>\<bar>val (cent k)\<bar> * 100 - of_int \<bar>k\<bar>\<bar> \<le> \<bar>val (cent k) * 100 - of_int k\<bar>"
    using abs_triangle_ineq3 [of "val (cent k) * 100" "of_int k"] by (simp add: abs_mult)
  ultimately show "\<bar>\<bar>val (cent k)\<bar> * 100 - of_int \<bar>k\<bar>\<bar> < 1 / 2" by linarith
qed

lemma ParseFloat_fmt2_cent:
  assumes "\<bar>k\<bar> \<le> 2 ^ 50"
  shows "ParseFloat (fmt2 (cent k)) = PFin (cent k)"
proof -
  have small: "of_nat (nat \<bar>k\<bar>) / 100 < (2 :: rat) ^ 1000"
  proof -
    have "(of_nat (nat \<bar>k\<bar>) :: rat) \<le> of_int (2 ^ 50)"
      using assms by (simp only: of_nat_nat abs_ge_zero of_int_le_iff)
    then show ?thesis by simp
  qed
  have neg: "val (cent k) < 0 \<longleftrightarrow> k < 0" by (simp add: cent_def val_lit divide_less_0_iff)
  have fmt: "fmt2 (cent k) = (if k < 0 then [CHR ''-''] else []) @ dec2 (nat \<bar>k\<bar>)"
    by (simp only: fmt2_def rne_cent [OF assms] neg)
  show ?thesis
    using ParseFloat_dec2 [OF small] unfolding fmt by (auto simp: cent_def)
qed

subsection \<open>Dates and instants\<close>

text \<open>
  A \<open>time.Time\<close> is the instant in nanoseconds since 1970; a \<open>time.Duration\<close> a number of
  nanoseconds. A date read by \<open>time.Parse\<close> without a clock is kept as the year, month and
  day, and stands for midnight UTC of it.
\<close>

type_synonym time = int
type_synonym duration = int

definition second :: duration where "second = 1000000000"
definition minute :: duration where "minute = 60 * second"
definition hour :: duration where "hour = 60 * minute"
definition day_ns :: duration where "day_ns = 24 * hour"

record date =
  d_year :: int
  d_month :: int
  d_day :: int

definition leap :: "int \<Rightarrow> bool" where
  "leap y \<longleftrightarrow> y mod 4 = 0 \<and> (y mod 100 \<noteq> 0 \<or> y mod 400 = 0)"

definition days_in :: "int \<Rightarrow> int \<Rightarrow> int" where
  "days_in y m = (if m = 2 then (if leap y then 29 else 28)
     else if m = 4 \<or> m = 6 \<or> m = 9 \<or> m = 11 then 30 else 31)"

definition days_of :: "date \<Rightarrow> int" where
  "days_of d = (let m = d_month d;
       y = (if m \<le> 2 then d_year d - 1 else d_year d);
       era = y div 400; yoe = y - era * 400;
       doy = (153 * (m + (if m > 2 then - 3 else 9)) + 2) div 5 + d_day d - 1;
       doe = yoe * 365 + yoe div 4 - yoe div 100 + doy
     in era * 146097 + doe - 719468)"

definition midnight :: "date \<Rightarrow> time" where
  "midnight d = days_of d * day_ns"

text \<open>The year of two characters, which the library reads as a signed number.\<close>

definition parse_year2 :: "char \<Rightarrow> char \<Rightarrow> int option" where
  "parse_year2 a b =
     (if is_digit a \<and> is_digit b then Some (int (digit_val a * 10 + digit_val b))
      else if (a = CHR ''+'' \<or> a = CHR ''-'') \<and> is_digit b
        then Some (if a = CHR ''-'' then - int (digit_val b) else int (digit_val b))
      else None)"

definition parse_2digits :: "char \<Rightarrow> char \<Rightarrow> int option" where
  "parse_2digits a b = (if is_digit a \<and> is_digit b
     then Some (int (digit_val a * 10 + digit_val b)) else None)"

definition parse_yymmdd :: "string \<Rightarrow> date option" where
  "parse_yymmdd s = (case s of
       [a, b, c, d, e, f] \<Rightarrow>
         (case (parse_year2 a b, parse_2digits c d, parse_2digits e f) of
            (Some y, Some m, Some dd) \<Rightarrow>
              let year = (if 69 \<le> y then y + 1900 else y + 2000)
              in if 1 \<le> m \<and> m \<le> 12 \<and> 1 \<le> dd \<and> dd \<le> days_in year m
                 then Some \<lparr>d_year = year, d_month = m, d_day = dd\<rparr> else None
          | _ \<Rightarrow> None)
     | _ \<Rightarrow> None)"

definition digits2 :: "int \<Rightarrow> string" where
  "digits2 n = [char_of (48 + nat (n div 10)), char_of (48 + nat (n mod 10))]"

definition fmt_date :: "date \<Rightarrow> string" where
  "fmt_date d = digits2 (d_year d div 100) @ digits2 (d_year d mod 100) @
     CHR ''-'' # digits2 (d_month d) @ CHR ''-'' # digits2 (d_day d)"

definition fmt_yymmdd :: "date \<Rightarrow> string" where
  "fmt_yymmdd d = digits2 (d_year d mod 100) @ digits2 (d_month d) @ digits2 (d_day d)"

definition valid_date :: "date \<Rightarrow> bool" where
  "valid_date d \<longleftrightarrow> 1969 \<le> d_year d \<and> d_year d \<le> 2068 \<and>
     1 \<le> d_month d \<and> d_month d \<le> 12 \<and> 1 \<le> d_day d \<and> d_day d \<le> days_in (d_year d) (d_month d)"

lemma parse_2digits_digits2:
  assumes "0 \<le> n" "n < 100"
  shows "parse_2digits (char_of (48 + nat (n div 10))) (char_of (48 + nat (n mod 10))) = Some n"
    and "parse_year2 (char_of (48 + nat (n div 10))) (char_of (48 + nat (n mod 10))) = Some n"
proof -
  have "nat (n div 10) < 10" "nat (n mod 10) < 10" using assms by auto
  moreover have "n div 10 * 10 + n mod 10 = n" "0 \<le> n div 10"
    using assms by (simp_all add: pos_imp_zdiv_nonneg_iff)
  ultimately show "parse_2digits (char_of (48 + nat (n div 10))) (char_of (48 + nat (n mod 10))) = Some n"
    "parse_year2 (char_of (48 + nat (n div 10))) (char_of (48 + nat (n mod 10))) = Some n"
    using assms by (simp_all add: parse_2digits_def parse_year2_def)
qed

lemma days_in_le: "days_in y m \<le> 31"
  by (simp add: days_in_def)

lemma parse_yymmdd_fmt: "valid_date d \<Longrightarrow> parse_yymmdd (fmt_yymmdd d) = Some d"
proof -
  assume v: "valid_date d"
  let ?y = "d_year d mod 100"
  have y: "0 \<le> ?y" "?y < 100" by auto
  have m: "0 \<le> d_month d" "d_month d < 100" and dd: "0 \<le> d_day d" "d_day d < 100"
    using v days_in_le [of "d_year d" "d_month d"] by (auto simp: valid_date_def)
  have yr: "(if 69 \<le> ?y then ?y + 1900 else ?y + 2000) = d_year d"
    using v by (simp add: valid_date_def) presburger
  show ?thesis
    unfolding fmt_yymmdd_def digits2_def parse_yymmdd_def
    using v by (simp only: append.simps list.case parse_2digits_digits2 [OF y]
        parse_2digits_digits2 [OF m] parse_2digits_digits2 [OF dd] prod.case option.case Let_def yr)
      (simp add: valid_date_def)
qed

lemma parse_yymmdd_length: "parse_yymmdd s = Some d \<Longrightarrow> length s = 6"
  by (auto simp: parse_yymmdd_def split: list.splits)

end
