(* ===== verification/Market.thy ===== *)
theory Market
  imports GoStd
begin

text \<open>
  The broker's vocabulary (\<open>golang/internal/marketdata\<close>): contracts, quotes, positions and
  orders as the broker states them, the reading of a contract's symbol, and the statuses of
  an order still in play.
\<close>

record Contract =
  c_Symbol :: string
  c_Expiration :: date
  c_Strike :: f64
  c_Type :: string

record Quote =
  q_Symbol :: string
  q_Bid :: f64
  q_Ask :: f64
  q_BidSize :: int
  q_AskSize :: int
  q_ImpliedVolatility :: "f64 option"
  q_Delta :: "f64 option"

record Position =
  p_Symbol :: string
  p_AssetClass :: string
  p_Side :: string
  p_Quantity :: f64
  p_AverageEntryPrice :: f64
  p_CurrentPrice :: f64
  p_MarketValue :: f64
  p_CostBasis :: f64
  p_UnrealizedPL :: f64
  p_UnrealizedPLFraction :: f64

text \<open>
  An order and its legs share one struct in the code; a leg has no legs of its own there. The
  fields are a record, and an order is that record with its legs added.
\<close>

record OrderLeg =
  o_ID :: string
  o_ClientID :: string
  o_Symbol :: string
  o_Side :: string
  o_Type :: string
  o_Class :: string
  o_Status :: string
  o_PositionIntent :: string
  o_Quantity :: f64
  o_Ratio :: f64
  o_Notional :: f64
  o_FilledQuantity :: f64
  o_LimitPrice :: f64
  o_FilledPrice :: f64
  o_SubmittedAt :: "time option"
  o_FilledAt :: "time option"
  o_CanceledAt :: "time option"

record Order = OrderLeg +
  o_Legs :: "OrderLeg list"

text \<open>What closing one structure sends: each leg with how many of it make a set.\<close>

record CloseLeg =
  cl_Symbol :: string
  cl_Ratio :: int
  cl_Buy :: bool

definition Active :: "'a OrderLeg_scheme \<Rightarrow> bool" where
  "Active o' \<longleftrightarrow> o_Status o' = ''new'' \<or> o_Status o' = ''accepted'' \<or>
     o_Status o' = ''pending_new'' \<or> o_Status o' = ''partially_filled''"

subsection \<open>A contract's symbol\<close>

definition ContractFrom :: "string \<Rightarrow> Contract option" where
  "ContractFrom symbol0 =
     (let symbol = TrimSpace symbol0 in
      if length symbol < 16 then None else
      let tail = drop (length symbol - 15) symbol;
          underlying = take (length symbol - 15) symbol in
      if underlying = [] then None else
      (case parse_yymmdd (take 6 tail) of
         None \<Rightarrow> None
       | Some expiration \<Rightarrow>
           (case (if tail ! 6 = CHR ''C'' \<or> tail ! 6 = CHR ''c'' then Some ''call''
                  else if tail ! 6 = CHR ''P'' \<or> tail ! 6 = CHR ''p'' then Some ''put''
                  else None) of
              None \<Rightarrow> None
            | Some kind \<Rightarrow>
                (case ParseInt (drop 7 tail) of
                   None \<Rightarrow> None
                 | Some thousandths \<Rightarrow>
                     if thousandths \<le> 0 then None
                     else Some \<lparr>c_Symbol = symbol, c_Expiration = expiration,
                                c_Strike = f64_of_int thousandths / lit 1000,
                                c_Type = kind\<rparr>))))"

text \<open>The expression \<open>symbol[:len(symbol)-15]\<close> the callers read the underlying with.\<close>

definition root_of :: "string \<Rightarrow> string" where
  "root_of symbol = take (length symbol - 15) symbol"

text \<open>
  The name the industry gives a contract, as the comment of \<open>ContractFrom\<close> states it: the
  underlying, six digits of date, one letter, eight digits of strike in thousandths.
\<close>

definition pad8 :: "nat \<Rightarrow> string" where
  "pad8 n = replicate (8 - length (dec_nat n)) CHR ''0'' @ dec_nat n"

definition occ_name :: "string \<Rightarrow> date \<Rightarrow> bool \<Rightarrow> nat \<Rightarrow> string" where
  "occ_name r d call n =
     r @ fmt_yymmdd d @ (if call then CHR ''C'' else CHR ''P'') # pad8 n"

definition plain_root :: "string \<Rightarrow> bool" where
  "plain_root r \<longleftrightarrow> r \<noteq> [] \<and>
     list_all (\<lambda>c. (65 \<le> byte c \<and> byte c \<le> 90) \<or> is_digit c) r"

lemma length_fmt_yymmdd [simp]: "length (fmt_yymmdd d) = 6"
  by (simp add: fmt_yymmdd_def digits2_def)

lemma length_pad8: "n < 10 ^ 8 \<Longrightarrow> length (pad8 n) = 8"
  using dec_nat_length [of n 8] by (simp add: pad8_def)

lemma nat_of_digits_zeros: "nat_of_digits (replicate k CHR ''0'' @ s) = nat_of_digits s"
proof (induction k)
  case (Suc k)
  then show ?case by (simp add: nat_of_digits_def digit_val_def)
qed simp

lemma pad8_digits: "list_all is_digit (pad8 n)"
  using dec_nat_digits [of n] by (auto simp: pad8_def list_all_iff is_digit_def)

lemma pad8_ne: "pad8 n \<noteq> []"
  by (simp add: pad8_def)

lemma parse_nat_pad8: "parse_nat (pad8 n) = Some n"
  using pad8_digits [of n] by (simp add: parse_nat_def pad8_ne) (simp add: pad8_def nat_of_digits_zeros)

lemma ParseInt_digits:
  assumes "list_all is_digit s" "s \<noteq> []" "nat_of_digits s < 2 ^ 63"
  shows "ParseInt s = Some (int (nat_of_digits s))"
proof -
  obtain c cs where s: "s = c # cs" using assms by (cases s) auto
  with assms have "c \<noteq> CHR ''-''" "c \<noteq> CHR ''+''" by auto
  with assms show ?thesis by (simp add: ParseInt_def s parse_nat_def Let_def)
qed

lemma ParseInt_pad8: "n < 10 ^ 8 \<Longrightarrow> ParseInt (pad8 n) = Some (int n)"
  using ParseInt_digits [OF pad8_digits pad8_ne, of n] parse_nat_pad8 [of n]
  by (simp add: parse_nat_def pad8_digits pad8_ne)

lemma space_not_plain: "list_all (\<lambda>c. \<not> is_space c) s \<Longrightarrow> TrimSpace s = s"
proof -
  assume a: "list_all (\<lambda>c. \<not> is_space c) s"
  then have "dropWhile is_space s = s" by (cases s) auto
  moreover have "dropWhile is_space (rev s) = rev s"
    using a by (cases "rev s") (auto simp: list_all_iff) 
  ultimately show ?thesis by (simp add: TrimSpace_def)
qed

lemma digits2_digits: "0 \<le> n \<Longrightarrow> n < 100 \<Longrightarrow> list_all is_digit (digits2 n)"
proof -
  assume a: "0 \<le> n" "n < 100"
  then have "nat (n div 10) < 10" "nat (n mod 10) < 10" by auto
  then show ?thesis by (simp add: digits2_def)
qed

lemma fmt_yymmdd_digits: "valid_date d \<Longrightarrow> list_all is_digit (fmt_yymmdd d)"
  using days_in_le [of "d_year d" "d_month d"]
  by (auto simp: fmt_yymmdd_def valid_date_def intro!: digits2_digits)

lemma digit_not_space: "is_digit c \<Longrightarrow> \<not> is_space c"
  by (auto simp: is_digit_def is_space_def)

lemma occ_name_no_space:
  "plain_root r \<Longrightarrow> valid_date d \<Longrightarrow> TrimSpace (occ_name r d call n) = occ_name r d call n"
  using fmt_yymmdd_digits [of d] pad8_digits [of n]
  by (intro space_not_plain)
    (auto simp: occ_name_def plain_root_def list_all_iff is_space_def dest: digit_not_space
      simp flip: is_space_def, auto simp: is_digit_def is_space_def)

text \<open>Cutting a name of this shape at fifteen from the end gives its three parts back.\<close>

lemma occ_name_cut:
  assumes "n < 10 ^ 8"
  shows "length (occ_name r d call n) = length r + 15"
    and "take (length r) (occ_name r d call n) = r"
    and "drop (length r) (occ_name r d call n) =
      fmt_yymmdd d @ (if call then CHR ''C'' else CHR ''P'') # pad8 n"
  using length_pad8 [OF assms] by (auto simp: occ_name_def)

text \<open>The name the industry gives a contract is read back as that contract: its underlying, its
  expiration, its strike in thousandths and its kind.\<close>

theorem ContractFrom_occ:
  assumes "plain_root r" "valid_date d" "0 < n" "n < 10 ^ 8"
  shows "ContractFrom (occ_name r d call n) = Some
    \<lparr>c_Symbol = occ_name r d call n, c_Expiration = d, c_Strike = f64_of_int (int n) / lit 1000,
     c_Type = (if call then ''call'' else ''put'')\<rparr>"
proof -
  have tl: "take 6 (fmt_yymmdd d @ x # pad8 n) = fmt_yymmdd d" "(fmt_yymmdd d @ x # pad8 n) ! 6 = x"
    "drop 7 (fmt_yymmdd d @ x # pad8 n) = pad8 n" for x
    by (simp_all add: nth_append)
  show ?thesis
    using assms
    by (simp add: ContractFrom_def occ_name_no_space occ_name_cut tl ParseInt_pad8
        parse_yymmdd_fmt Let_def plain_root_def)
qed

lemma ContractFrom_Some:
  assumes "ContractFrom s = Some c"
  shows "c_Symbol c = TrimSpace s" and "16 \<le> length (TrimSpace s)" and "0 < c_Strike c"
    and "c_Type c = ''call'' \<or> c_Type c = ''put''"
  using assms
  by (auto simp: ContractFrom_def Let_def intro!: f64_divide_pos split: if_splits option.splits)

end
