(* ===== verification/Reservation.thy ===== *)
theory Reservation
  imports Market
begin

text \<open>
  The worst price a session accepts, carried in the order's name
  (\<open>golang/internal/execution/reservation.go\<close>): reading it, writing it, and the name a
  replacement gets. The rounding to cents is \<open>execution.round\<close>.
\<close>

definition reservationPrefix :: string where
  "reservationPrefix = ''worst=''"

definition nameLimit :: nat where
  "nameLimit = 128"

definition NameFor :: "f64 \<Rightarrow> string" where
  "NameFor worst = reservationPrefix @ fmt2 worst"

definition name_sep :: "char \<Rightarrow> bool" where
  "name_sep r \<longleftrightarrow> r = CHR '';'' \<or> r = CHR '','' \<or> r = CHR '' ''"

fun stated_fields :: "string \<Rightarrow> string list \<Rightarrow> f64 option" where
  "stated_fields prefix [] = None"
| "stated_fields prefix (f # fs) =
     (if \<not> HasPrefix f prefix then stated_fields prefix fs
      else (case ParseFloat (drop (length prefix) f) of
              PFin x \<Rightarrow> Some (round_cents x)
            | _ \<Rightarrow> None))"

definition stated :: "string \<Rightarrow> string \<Rightarrow> f64 option" where
  "stated name prefix = stated_fields prefix (FieldsFunc name_sep name)"

definition Reservation :: "'a OrderLeg_scheme \<Rightarrow> f64 option" where
  "Reservation ord = stated (o_ClientID ord) reservationPrefix"

definition kept_name :: "string \<Rightarrow> string" where
  "kept_name name =
     (let fields = Split CHR '';'' name in
      Join CHR '';'' (if ParseInt (TrimSpace (last fields)) \<noteq> None then butlast fields else fields))"

definition NameCarrying :: "'a OrderLeg_scheme \<Rightarrow> time \<Rightarrow> string" where
  "NameCarrying ord now =
     (let fresh = dec_int now; kept = kept_name (o_ClientID ord) in
      if kept \<noteq> [] \<and> length kept + 1 + length fresh \<le> nameLimit then kept @ CHR '';'' # fresh
      else (case Reservation ord of
              Some worst \<Rightarrow>
                let short = NameFor worst in
                if length short + 1 + length fresh \<le> nameLimit then short @ CHR '';'' # fresh else fresh
            | None \<Rightarrow> fresh))"

subsection \<open>Fields that cannot state a price\<close>

lemma stated_fields_append:
  "stated_fields p (xs @ ys) = (if \<exists>x \<in> set xs. HasPrefix x p then stated_fields p xs else stated_fields p ys)"
  by (induction xs) auto

lemma stated_fields_skip: "\<forall>x \<in> set ys. \<not> HasPrefix x p \<Longrightarrow> stated_fields p (xs @ ys) = stated_fields p xs"
  by (induction xs) (auto, induction ys, auto)

lemma no_w_no_prefix: "CHR ''w'' \<notin> set f \<Longrightarrow> \<not> HasPrefix f reservationPrefix"
  by (cases f) (auto simp: HasPrefix_def reservationPrefix_def)

lemma name_sep_semicolon [simp]: "name_sep CHR '';''"
  by (simp add: name_sep_def)

lemma stated_snoc_skip:
  assumes "CHR ''w'' \<notin> set t"
  shows "stated (s @ CHR '';'' # t) reservationPrefix = stated s reservationPrefix"
proof -
  have "\<forall>f \<in> set (FieldsFunc name_sep t). \<not> HasPrefix f reservationPrefix"
    using assms FieldsFunc_sub [of _ name_sep t] no_w_no_prefix by blast
  then show ?thesis
    by (simp add: stated_def FieldsFunc_append_sep stated_fields_skip)
qed

lemma digits_no_w: "list_all is_digit s \<Longrightarrow> CHR ''w'' \<notin> set s"
  by (auto simp: list_all_iff)

lemma dec_int_no_w: "CHR ''w'' \<notin> set (dec_int n)"
  using digits_no_w [OF dec_nat_digits] by (auto simp: dec_int_def)

lemma dec_int_no_sep: "x \<in> set (dec_int n) \<Longrightarrow> \<not> name_sep x"
  using dec_nat_digits [of "nat n"] dec_nat_digits [of "nat (- n)"]
  by (auto simp: dec_int_def name_sep_def list_all_iff split: if_splits)

lemma ParseInt_no_w: "ParseInt s \<noteq> None \<Longrightarrow> CHR ''w'' \<notin> set s"
  using digits_no_w by (cases s) (auto simp: ParseInt_def parse_nat_def Let_def split: if_splits)

lemma set_dropWhile_space: "x \<in> set s \<Longrightarrow> x \<in> set (dropWhile is_space s) \<or> is_space x"
  by (induction s) auto

lemma set_TrimSpace: "x \<in> set s \<Longrightarrow> x \<in> set (TrimSpace s) \<or> is_space x"
  unfolding TrimSpace_def set_rev
  using set_dropWhile_space [of x s] set_dropWhile_space [of x "rev (dropWhile is_space s)"] by auto

lemma stamp_no_w: "ParseInt (TrimSpace s) \<noteq> None \<Longrightarrow> CHR ''w'' \<notin> set s"
  using set_TrimSpace [of "CHR ''w''" s] ParseInt_no_w [of "TrimSpace s"] by (auto simp: is_space_def)

subsection \<open>The kept part states what the name stated\<close>

lemma Reservation_none_when_no_w: "CHR ''w'' \<notin> set name \<Longrightarrow> stated name reservationPrefix = None"
proof -
  assume "CHR ''w'' \<notin> set name"
  then have "\<forall>f \<in> set (FieldsFunc name_sep name). \<not> HasPrefix f reservationPrefix"
    using FieldsFunc_sub [of _ name_sep name] no_w_no_prefix by blast
  then show ?thesis
    unfolding stated_def using stated_fields_skip [of _ reservationPrefix "[]"] by auto
qed

lemma stated_kept: "stated (kept_name name) reservationPrefix = stated name reservationPrefix"
proof (cases "ParseInt (TrimSpace (last (Split CHR '';'' name))) \<noteq> None")
  case False
  then show ?thesis by (simp add: kept_name_def)
next
  case True
  let ?fs = "Split CHR '';'' name"
  have w: "CHR ''w'' \<notin> set (last ?fs)" by (rule stamp_no_w [OF True])
  show ?thesis
  proof (cases "butlast ?fs = []")
    case True2: True
    then have "?fs = [last ?fs]" by (metis Split_ne append_Nil append_butlast_last_id)
    then have "name = last ?fs" by (metis Join.simps(2) Join_Split)
    then have "stated name reservationPrefix = None"
      using w Reservation_none_when_no_w by metis
    moreover have "kept_name name = []" using True True2 by (simp add: kept_name_def)
    ultimately show ?thesis by (simp add: stated_def FieldsFunc_def)
  next
    case False
    have "name = Join CHR '';'' (butlast ?fs @ [last ?fs])" by simp
    also have "\<dots> = kept_name name @ CHR '';'' # last ?fs"
    proof -
      have "kept_name name = Join CHR '';'' (butlast ?fs)" using True by (simp add: kept_name_def)
      then show ?thesis by (simp only: Join_snoc [OF False])
    qed
    finally have "stated name reservationPrefix =
        stated (kept_name name @ CHR '';'' # last ?fs) reservationPrefix" by simp
    then show ?thesis by (simp add: stated_snoc_skip [OF w])
  qed
qed

subsection \<open>A floor written by \<open>NameFor\<close> reads back\<close>

lemma fmt2_no_sep: "x \<in> set (fmt2 y) \<Longrightarrow> \<not> name_sep x"
proof -
  assume x: "x \<in> set (fmt2 y)"
  have "is_digit x \<or> x = CHR ''-'' \<or> x = CHR ''.''"
  proof -
    define n where "n = nat (rne (\<bar>val y\<bar> * 100))"
    have "set (fmt2 y) \<subseteq> {CHR ''-''} \<union> set (dec2 n)" by (auto simp: fmt2_def n_def)
    moreover have "n div 10 mod 10 < 10" "n mod 10 < 10" by auto
    ultimately show ?thesis
      using x dec_nat_digits [of "n div 100"] by (auto simp: dec2_def list_all_iff)
  qed
  then show ?thesis by (auto simp: name_sep_def)
qed

lemma NameFor_single: "FieldsFunc name_sep (NameFor y) = [NameFor y]"
proof -
  have "\<forall>x \<in> set (NameFor y). \<not> name_sep x"
    using fmt2_no_sep by (auto simp: NameFor_def reservationPrefix_def name_sep_def)
  then show ?thesis by (simp add: FieldsFunc_no_sep) (simp add: NameFor_def reservationPrefix_def)
qed

lemma stated_NameFor:
  assumes "\<bar>k\<bar> \<le> 2 ^ 50"
  shows "stated (NameFor (cent k)) reservationPrefix = Some (cent k)"
proof -
  have "HasPrefix (NameFor (cent k)) reservationPrefix" by (simp add: NameFor_def HasPrefix_def)
  moreover have "drop (length reservationPrefix) (NameFor (cent k)) = fmt2 (cent k)"
    by (simp add: NameFor_def)
  ultimately show ?thesis
    by (simp add: stated_def NameFor_single ParseFloat_fmt2_cent [OF assms] round_cents_cent [OF assms])
qed

lemma stated_cent: "stated name p = Some x \<Longrightarrow> \<exists>k. x = cent k"
proof -
  have "stated_fields p fs = Some x \<Longrightarrow> \<exists>k. x = cent k" for fs
    by (induction fs) (auto simp: round_cents_eq split: if_splits parsed.splits)
  then show "stated name p = Some x \<Longrightarrow> \<exists>k. x = cent k" by (simp add: stated_def)
qed

lemma cent_bound:
  assumes "\<bar>val (cent k)\<bar> \<le> 10 ^ 12"
  shows "\<bar>k\<bar> \<le> 10 ^ 15"
proof (rule ccontr)
  assume "\<not> ?thesis"
  then have "10 ^ 15 \<le> \<bar>k\<bar>" by simp
  then have "(of_int (10 ^ 15) :: rat) \<le> of_int \<bar>k\<bar>" by (simp only: of_int_le_iff)
  then have k: "10 ^ 13 \<le> \<bar>of_int k / 100 :: rat\<bar>" by simp
  have "rnd (10 ^ 13) \<le> rnd \<bar>of_int k / 100\<bar>" by (rule rnd_mono [OF k])
  moreover have "rnd \<bar>of_int k / 100\<bar> = \<bar>val (cent k)\<bar>"
    by (auto simp: cent_def val_lit abs_if simp flip: rnd_minus)
  ultimately show False using assms by simp
qed

lemma NameFor_cent_length:
  assumes "\<bar>k\<bar> \<le> 10 ^ 15"
  shows "length (NameFor (cent k)) \<le> 24"
proof -
  have k: "\<bar>k\<bar> \<le> 2 ^ 50" using assms by simp
  have "nat \<bar>k\<bar> div 100 < 10 ^ 14" using assms by simp
  then have "length (dec_nat (nat \<bar>k\<bar> div 100)) \<le> 14" by (rule dec_nat_length) simp
  then show ?thesis
    by (simp add: NameFor_def reservationPrefix_def fmt2_def rne_cent [OF k] dec2_def)
qed

lemma dec_int_length:
  assumes "\<bar>n\<bar> < 10 ^ 19"
  shows "length (dec_int n) \<le> 20"
proof -
  have "nat n < 10 ^ 19" "nat (- n) < 10 ^ 19"
    using assms by (cases "n < 0"; simp add: nat_less_iff)+
  then have "length (dec_nat (nat n)) \<le> 19" "length (dec_nat (nat (- n))) \<le> 19"
    by (auto intro: dec_nat_length)
  then show ?thesis by (simp add: dec_int_def)
qed

subsection \<open>What a replacement's name keeps\<close>

lemma NameCarrying_keeps_the_floor:
  assumes "Reservation ord = Some worst" "\<bar>val worst\<bar> \<le> 10 ^ 12" "\<bar>now\<bar> < 10 ^ 19"
  shows "stated (NameCarrying ord now) reservationPrefix = Some worst"
proof -
  obtain k where k: "worst = cent k" using stated_cent assms(1) unfolding Reservation_def by blast
  have kb: "\<bar>k\<bar> \<le> 10 ^ 15" using cent_bound assms(2) by (simp add: k)
  have short: "length (NameFor worst) + 1 + length (dec_int now) \<le> nameLimit"
    using NameFor_cent_length [OF kb] dec_int_length [OF assms(3)] by (simp add: k nameLimit_def)
  have "stated (NameFor worst) reservationPrefix = Some worst"
    unfolding k by (rule stated_NameFor) (use kb in simp)
  then show ?thesis
    using assms(1) short
    by (simp add: NameCarrying_def Let_def stated_snoc_skip [OF dec_int_no_w] stated_kept Reservation_def)
qed

lemma NameCarrying_length: "\<bar>now\<bar> < 10 ^ 19 \<Longrightarrow> length (NameCarrying ord now) \<le> nameLimit"
  using dec_int_length [of now] by (auto simp: NameCarrying_def Let_def nameLimit_def split: option.splits)

lemma NameCarrying_last: "last (Split CHR '';'' (NameCarrying ord now)) = dec_int now"
proof -
  have "CHR '';'' \<notin> set (dec_int now)" using dec_int_no_sep [of "CHR '';''" now] by auto
  then show ?thesis
    by (auto simp: NameCarrying_def Let_def Split_append_sep Split_single split: option.splits)
qed

lemma NameCarrying_fresh:
  assumes "NameCarrying ord a = NameCarrying ord' b" "- (2 ^ 63) \<le> a" "a < 2 ^ 63" "- (2 ^ 63) \<le> b" "b < 2 ^ 63"
  shows "a = b"
proof -
  have "dec_int a = last (Split CHR '';'' (NameCarrying ord a))" by (rule NameCarrying_last [symmetric])
  also have "\<dots> = last (Split CHR '';'' (NameCarrying ord' b))" by (simp only: assms(1))
  also have "\<dots> = dec_int b" by (rule NameCarrying_last)
  finally have "ParseInt (dec_int a) = ParseInt (dec_int b)" by (rule arg_cong)
  then show ?thesis
    unfolding ParseInt_dec_int [OF assms(2,3)] ParseInt_dec_int [OF assms(4,5)] by (rule option.inject [THEN iffD1])
qed

end
