(* ===== verification/Payoff.thy ===== *)
theory Payoff
  imports Float64
begin

text \<open>
  The payoff of a set of options at expiry, over the exact numbers, and what it is that makes
  a handful of probes enough: between two neighbouring strikes it is a straight line, and past
  the last one a ray whose slope is the net of the calls. Three components find a worst case
  this way (the broker's positions, a resting order, the arena's book); the interface they
  share is the locale below, and the rounding each of them makes is bounded here once.
\<close>

subsection \<open>Exact payoff\<close>

type_synonym pleg = "bool \<times> rat \<times> rat"

definition intr :: "bool \<Rightarrow> rat \<Rightarrow> rat \<Rightarrow> rat" where
  "intr call k s = max 0 (if call then s - k else k - s)"

definition payoff :: "pleg list \<Rightarrow> rat \<Rightarrow> rat" where
  "payoff legs s = (\<Sum>(c, k, q) \<leftarrow> legs. q * intr c k s)"

definition slope :: "pleg list \<Rightarrow> rat" where
  "slope legs = (\<Sum>(c, k, q) \<leftarrow> legs. if c then q else 0)"

definition strikes :: "pleg list \<Rightarrow> rat list" where
  "strikes legs = map (\<lambda>(c, k, q). k) legs"

lemma payoff_simps [simp]: "payoff [] s = 0"
  "payoff ((c, k, q) # legs) s = q * intr c k s + payoff legs s"
  by (simp_all add: payoff_def)

lemma slope_simps [simp]: "slope [] = 0" "slope ((c, k, q) # legs) = (if c then q else 0) + slope legs"
  by (simp_all add: slope_def)

lemma strikes_simps [simp]: "strikes [] = []" "strikes ((c, k, q) # legs) = k # strikes legs"
  by (simp_all add: strikes_def)

text \<open>Where no strike lies strictly between two points the payoff is their interpolation.\<close>

lemma intr_affine:
  assumes "a \<le> s" "s \<le> b" "k \<le> a \<or> b \<le> k"
  shows "(b - a) * intr c k s = (b - s) * intr c k a + (s - a) * intr c k b"
  using assms by (auto simp: intr_def max_def algebra_simps)

lemma payoff_affine:
  assumes "a \<le> s" "s \<le> b" "\<forall>k \<in> set (strikes legs). k \<le> a \<or> b \<le> k"
  shows "(b - a) * payoff legs s = (b - s) * payoff legs a + (s - a) * payoff legs b"
  using assms(3)
proof (induction legs)
  case (Cons leg legs)
  obtain c k q where l: "leg = (c, k, q)" by (cases leg)
  have "(b - a) * (q * intr c k s) = (b - s) * (q * intr c k a) + (s - a) * (q * intr c k b)"
    using intr_affine [OF assms(1,2), of k c] Cons.prems by (simp add: l) algebra
  moreover have "(b - a) * payoff legs s = (b - s) * payoff legs a + (s - a) * payoff legs b"
    using Cons by (simp add: l)
  ultimately show ?case by (simp add: l distrib_left)
qed simp

lemma payoff_ray:
  assumes "a \<le> s" "\<forall>k \<in> set (strikes legs). k \<le> a"
  shows "payoff legs s = payoff legs a + slope legs * (s - a)"
  using assms(2)
proof (induction legs)
  case (Cons leg legs)
  obtain c k q where l: "leg = (c, k, q)" by (cases leg)
  have "intr c k s = intr c k a + (if c then s - a else 0)"
    using assms(1) Cons.prems by (auto simp: l intr_def max_def)
  then show ?case using Cons by (simp add: l algebra_simps)
qed simp

lemma affine_min:
  fixes a b s x y z :: rat
  assumes "a \<le> s" "s \<le> b" "a < b" "(b - a) * z = (b - s) * x + (s - a) * y"
  shows "x \<le> z \<or> y \<le> z"
proof (rule ccontr)
  assume "\<not> ?thesis"
  then have "z < x" "z < y" by auto
  then have "(b - s) * z \<le> (b - s) * x" "(s - a) * z \<le> (s - a) * y"
    using assms(1-3) by (auto intro: mult_left_mono)
  moreover have "(b - s) * z < (b - s) * x \<or> (s - a) * z < (s - a) * y"
    using \<open>z < x\<close> \<open>z < y\<close> assms(1-3)
    by (cases "s < b") (auto intro: mult_strict_left_mono)
  moreover have "(b - a) * z = (b - s) * z + (s - a) * z" by algebra
  ultimately show False using assms(4) by linarith
qed

theorem payoff_min_at_strike:
  assumes "0 \<le> s" "0 \<le> slope legs" "\<forall>k \<in> set (strikes legs). 0 \<le> k"
  shows "\<exists>p \<in> set (0 # strikes legs). payoff legs p \<le> payoff legs s"
proof -
  let ?P = "set (0 # strikes legs)"
  let ?L = "{p \<in> ?P. p \<le> s}"
  let ?R = "{p \<in> ?P. s \<le> p}"
  define a where "a = Max ?L"
  have fin: "finite ?L" "?L \<noteq> {}" using assms(1) by auto
  have a: "a \<in> ?L" using Max_in [OF fin] by (simp add: a_def)
  have below: "p \<le> a" if "p \<in> ?L" for p using Max_ge [OF fin(1) that] by (simp add: a_def)
  show ?thesis
  proof (cases "?R = {}")
    case True
    then have "\<forall>k \<in> set (strikes legs). k \<le> a" using below by fastforce
    then have "payoff legs s = payoff legs a + slope legs * (s - a)"
      using a by (intro payoff_ray) auto
    then have "payoff legs a \<le> payoff legs s" using a assms(2) by simp
    then show ?thesis using a by blast
  next
    case False
    define b where "b = Min ?R"
    have finR: "finite ?R" by auto
    have b: "b \<in> ?R" using Min_in [OF finR False] by (simp add: b_def)
    have above: "b \<le> p" if "p \<in> ?R" for p using Min_le [OF finR that] by (simp add: b_def)
    show ?thesis
    proof (cases "a = b")
      case True
      then have "s = a" using a b by auto
      then show ?thesis using a by blast
    next
      case False
      then have "a < b" using a b by auto
      moreover have "\<forall>k \<in> set (strikes legs). k \<le> a \<or> b \<le> k"
        using below above by (metis (mono_tags, lifting) linorder_linear list.set_intros(2) mem_Collect_eq)
      ultimately show ?thesis
        using affine_min [OF _ _ _ payoff_affine [of a s b legs]] a b by auto
    qed
  qed
qed

lemma payoff_unbounded:
  assumes "slope legs < 0"
  shows "\<exists>s \<ge> 0. payoff legs s < bound"
proof -
  define a where "a = Max (set (0 # strikes legs))"
  have a: "0 \<le> a" "\<forall>k \<in> set (strikes legs). k \<le> a" by (auto simp: a_def)
  define d where "d = (\<bar>bound - payoff legs a\<bar> + 1) / (- slope legs)"
  have d: "0 < d" using assms by (simp add: d_def divide_less_0_iff)
  have "payoff legs (a + d) = payoff legs a + slope legs * d"
    using payoff_ray [of a "a + d" legs] a d by simp
  also have "slope legs * d = - (\<bar>bound - payoff legs a\<bar> + 1)"
    using assms by (simp add: d_def)
  finally have "payoff legs (a + d) < bound" by linarith
  then show ?thesis using a d by (intro exI [of _ "a + d"]) auto
qed

subsection \<open>The interface of a probed worst case\<close>

text \<open>
  A component reads a book of type \<open>'b\<close> as exact legs and money already settled, and answers a
  number that is not above the book's value at zero and at each strike, give or take \<open>eps\<close> for
  the rounding of its arithmetic. Then it is not above the value at any price at all.
\<close>

locale probed_worst =
  fixes exact :: "'b \<Rightarrow> pleg list"
    and settled :: "'b \<Rightarrow> rat"
    and worst :: "'b \<Rightarrow> rat"
    and readable :: "'b \<Rightarrow> bool"
    and eps :: rat
  assumes strikes_nonneg: "readable b \<Longrightarrow> k \<in> set (strikes (exact b)) \<Longrightarrow> 0 \<le> k"
    and below_probes: "readable b \<Longrightarrow> p \<in> set (0 # strikes (exact b)) \<Longrightarrow>
      worst b \<le> 100 * payoff (exact b) p + settled b + eps"
begin

lemma worst_below_every_price:
  assumes "readable b" "0 \<le> slope (exact b)" "0 \<le> s"
  shows "worst b \<le> 100 * payoff (exact b) s + settled b + eps"
proof -
  obtain p where "p \<in> set (0 # strikes (exact b))" "payoff (exact b) p \<le> payoff (exact b) s"
    using payoff_min_at_strike [of s "exact b"] assms strikes_nonneg by blast
  then show ?thesis using below_probes [OF assms(1), of p] by linarith
qed

end

subsection \<open>Rounding\<close>

lemma of_int_abs_le: "\<bar>k\<bar> \<le> numeral n \<Longrightarrow> \<bar>of_int k :: rat\<bar> \<le> numeral n"
  by (metis of_int_abs of_int_le_iff of_int_numeral)

lemma rnd_error_le: "\<bar>x\<bar> \<le> M \<Longrightarrow> \<bar>rnd x - x\<bar> \<le> M / 2 ^ 53"
  by (rule order.trans [OF rnd_error divide_right_mono]) simp_all

text \<open>A running sum of doubles drifts from the exact sum by the errors of the terms and one
  rounding a step.\<close>

lemma sum_drift:
  fixes t :: "'a \<Rightarrow> f64" and e :: "'a \<Rightarrow> rat"
  assumes "\<forall>x \<in> set xs. \<bar>val (t x) - e x\<bar> \<le> d \<and> \<bar>e x\<bar> \<le> T" "0 \<le> d" "0 \<le> T" "0 \<le> M"
    and "\<bar>A\<bar> + of_nat (length xs) * (T + d + M / 2 ^ 53) \<le> M"
    and "\<bar>val a - A\<bar> \<le> 0"
  shows "\<bar>val (foldl (\<lambda>s x. s + t x) a xs) - (A + (\<Sum>x \<leftarrow> xs. e x))\<bar>
    \<le> of_nat (length xs) * (d + M / 2 ^ 53)"
  using assms(1,5)
proof (induction xs rule: rev_induct)
  case Nil
  then show ?case using assms(6) by simp
next
  case (snoc x xs)
  let ?u = "M / 2 ^ 53"
  let ?S = "val (foldl (\<lambda>s x. s + t x) a xs)"
  let ?E = "(\<Sum>x \<leftarrow> xs. e x)"
  define n where "n = (of_nat (length xs) :: rat)"
  have n0: "0 \<le> n" by (simp add: n_def)
  have u0: "0 \<le> ?u" using assms(4) by simp
  have tot: "\<bar>A\<bar> + (n + 1) * (T + d + ?u) \<le> M" using snoc.prems(2) by (simp add: n_def add.commute)
  have ex: "(n + 1) * (T + d + ?u) = n * T + n * (d + ?u) + (T + d) + ?u" by (simp add: algebra_simps)
  have prev: "\<bar>?S - (A + ?E)\<bar> \<le> n * (d + ?u)"
  proof -
    have "\<bar>A\<bar> + n * (T + d + ?u) \<le> M" using tot assms(2,3) u0 by (simp add: distrib_right)
    then show ?thesis using snoc unfolding n_def by auto
  qed
  have sumE: "\<bar>?E\<bar> \<le> n * T"
  proof -
    have "\<bar>\<Sum>x \<leftarrow> ys. e x\<bar> \<le> of_nat (length ys) * T" if "\<forall>x \<in> set ys. \<bar>e x\<bar> \<le> T" for ys
      using that by (induction ys) (auto simp: algebra_simps intro: order.trans [OF abs_triangle_ineq])
    then show ?thesis using snoc.prems(1) by (simp add: n_def)
  qed
  have tx: "\<bar>val (t x) - e x\<bar> \<le> d" "\<bar>e x\<bar> \<le> T" using snoc.prems(1) by auto
  have "\<bar>?S + val (t x)\<bar> \<le> M"
  proof -
    have "\<bar>?S + val (t x)\<bar> \<le> \<bar>?S - (A + ?E)\<bar> + \<bar>A\<bar> + \<bar>?E\<bar> + \<bar>val (t x) - e x\<bar> + \<bar>e x\<bar>" by linarith
    then show ?thesis using prev sumE tx tot ex u0 by linarith
  qed
  then have r: "\<bar>rnd (?S + val (t x)) - (?S + val (t x))\<bar> \<le> ?u" by (rule rnd_error_le)
  have "\<bar>rnd (?S + val (t x)) - (A + (?E + e x))\<bar> \<le>
    \<bar>rnd (?S + val (t x)) - (?S + val (t x))\<bar> + \<bar>?S - (A + ?E)\<bar> + \<bar>val (t x) - e x\<bar>" by linarith
  also have "\<dots> \<le> ?u + n * (d + ?u) + d" using r prev tx by linarith
  also have "\<dots> = (n + 1) * (d + ?u)" by (simp add: algebra_simps)
  finally show ?case by (simp add: val_add n_def add.commute)
qed

text \<open>A product of a rounded factor and a rounded distance.\<close>

lemma prod_drift:
  fixes x y x0 y0 :: rat
  assumes "\<bar>x - x0\<bar> \<le> X / 2 ^ 53" "\<bar>x0\<bar> \<le> X" "\<bar>y - y0\<bar> \<le> Y / 2 ^ 53" "\<bar>y0\<bar> \<le> Y"
  shows "\<bar>rnd (x * y) - x0 * y0\<bar> \<le> 4 * (X * Y) / 2 ^ 53"
proof -
  let ?u = "1 / 2 ^ 53 :: rat"
  have X: "0 \<le> X" and Y: "0 \<le> Y" using assms(2,4) abs_ge_zero order_trans by blast+
  have x: "\<bar>x\<bar> \<le> X * (1 + ?u)"
    using add_mono [OF assms(1,2)] abs_triangle_ineq [of "x - x0" x0] by (simp add: distrib_left)
  have y: "\<bar>y\<bar> \<le> Y * (1 + ?u)"
    using add_mono [OF assms(3,4)] abs_triangle_ineq [of "y - y0" y0] by (simp add: distrib_left)
  have "x * y - x0 * y0 = x * (y - y0) + (x - x0) * y0" by algebra
  then have "\<bar>x * y - x0 * y0\<bar> \<le> \<bar>x\<bar> * \<bar>y - y0\<bar> + \<bar>x - x0\<bar> * \<bar>y0\<bar>"
    by (metis abs_mult abs_triangle_ineq)
  also have "\<dots> \<le> (X * (1 + ?u)) * (Y * ?u) + (X * ?u) * Y"
    using assms x X Y by (intro add_mono mult_mono) auto
  finally have p: "\<bar>x * y - x0 * y0\<bar> \<le> (X * Y) * ((1 + ?u) * ?u + ?u)" by (simp add: algebra_simps)
  have "\<bar>x * y\<bar> \<le> (X * (1 + ?u)) * (Y * (1 + ?u))"
    unfolding abs_mult using x y X by (intro mult_mono) auto
  then have "\<bar>rnd (x * y) - x * y\<bar> \<le> (X * (1 + ?u)) * (Y * (1 + ?u)) / 2 ^ 53"
    by (rule rnd_error_le)
  then have r: "\<bar>rnd (x * y) - x * y\<bar> \<le> (X * Y) * ((1 + ?u) * (1 + ?u) * ?u)" by (simp add: algebra_simps)
  have "\<bar>rnd (x * y) - x0 * y0\<bar> \<le> (X * Y) * ((1 + ?u) * (1 + ?u) * ?u) + (X * Y) * ((1 + ?u) * ?u + ?u)"
    using p r by linarith
  also have "\<dots> = (X * Y) * ((1 + ?u) * (1 + ?u) * ?u + ((1 + ?u) * ?u + ?u))" by (simp only: distrib_left)
  also have "\<dots> \<le> (X * Y) * (4 * ?u)"
    using X Y by (intro mult_left_mono) auto
  finally show ?thesis by simp
qed

lemma max0_lipschitz: "\<bar>max 0 x - max 0 y\<bar> \<le> \<bar>x - y :: rat\<bar>"
  by (auto simp: max_def)


lemma sum_abs_bound:
  "\<forall>x \<in> set xs. \<bar>e x\<bar> \<le> T \<Longrightarrow> \<bar>\<Sum>x \<leftarrow> xs. e x\<bar> \<le> of_nat (length xs) * (T :: rat)"
  by (induction xs) (auto simp: algebra_simps intro: order.trans [OF abs_triangle_ineq])

lemma sum_list_abs_le:
  assumes "\<forall>x \<in> set xs. \<bar>e x\<bar> \<le> T" "length xs \<le> n" "0 \<le> T"
  shows "\<bar>\<Sum>x \<leftarrow> xs. e x\<bar> \<le> of_nat n * (T :: rat)"
proof -
  have "of_nat (length xs) * T \<le> of_nat n * T"
    using assms(2,3) by (intro mult_right_mono) auto
  then show ?thesis using sum_abs_bound [OF assms(1)] by linarith
qed

text \<open>\<open>sum_drift\<close> from zero, over at most \<open>n\<close> terms.\<close>

lemma sum_drift_at_most:
  fixes t :: "'a \<Rightarrow> f64" and e :: "'a \<Rightarrow> rat"
  assumes "\<forall>x \<in> set xs. \<bar>val (t x) - e x\<bar> \<le> d \<and> \<bar>e x\<bar> \<le> T" "0 \<le> d" "0 \<le> T" "0 \<le> M"
    and "length xs \<le> n" "of_nat n * (T + d + M / 2 ^ 53) \<le> M"
  shows "\<bar>val (foldl (\<lambda>s x. s + t x) 0 xs) - (\<Sum>x \<leftarrow> xs. e x)\<bar> \<le> of_nat n * (d + M / 2 ^ 53)"
proof -
  have le: "of_nat (length xs) * y \<le> of_nat n * y" if "0 \<le> y" for y :: rat
    using assms(5) that by (intro mult_right_mono) auto
  have "0 \<le> M / 2 ^ 53" using assms(4) by simp
  then have "\<bar>0\<bar> + of_nat (length xs) * (T + d + M / 2 ^ 53) \<le> M"
    using le [of "T + d + M / 2 ^ 53"] assms(2,3,6) by auto
  then have "\<bar>val (foldl (\<lambda>s x. s + t x) 0 xs) - (0 + (\<Sum>x \<leftarrow> xs. e x))\<bar>
      \<le> of_nat (length xs) * (d + M / 2 ^ 53)"
    by (intro sum_drift [OF assms(1-4)]) auto
  also have "\<dots> \<le> of_nat n * (d + M / 2 ^ 53)"
    using assms(2) \<open>0 \<le> M / 2 ^ 53\<close> by (intro le) auto
  finally show ?thesis by simp
qed

text \<open>Regrouping a sum by a key.\<close>

lemma sum_grouped:
  assumes "distinct ks" "key ` set xs \<subseteq> set ks"
  shows "(\<Sum>k \<leftarrow> ks. \<Sum>x \<leftarrow> grouped key xs k. f x) = (\<Sum>x \<leftarrow> xs. f x :: rat)"
  using assms(2)
proof (induction xs)
  case (Cons x xs)
  have "(\<Sum>k \<leftarrow> ks. \<Sum>y \<leftarrow> grouped key (x # xs) k. f y) =
      (\<Sum>k \<leftarrow> ks. (if k = key x then f x else 0) + (\<Sum>y \<leftarrow> grouped key xs k. f y))"
    by (auto simp: grouped_def intro!: arg_cong [where f = sum_list])
  also have "\<dots> = (\<Sum>k \<leftarrow> ks. if k = key x then f x else 0) + (\<Sum>x \<leftarrow> xs. f x)"
    using Cons by (simp add: sum_list_addf)
  also have "(\<Sum>k \<leftarrow> ks. if k = key x then f x else 0) = f x"
    using assms(1) Cons.prems by (simp add: sum_list_distinct_conv_sum_set)
  finally show ?case by simp
qed (simp add: grouped_def)


lemma abs_sum_near_le:
  "\<bar>x - x0\<bar> \<le> a \<Longrightarrow> \<bar>y - y0\<bar> \<le> b \<Longrightarrow> \<bar>x0\<bar> \<le> c \<Longrightarrow> \<bar>y0\<bar> \<le> d \<Longrightarrow> \<bar>x + y :: rat\<bar> \<le> a + b + c + d"
  by linarith

lemma near_sum:
  "\<bar>r - (x + y)\<bar> \<le> e \<Longrightarrow> \<bar>x - x0\<bar> \<le> a \<Longrightarrow> \<bar>y - y0\<bar> \<le> b \<Longrightarrow> \<bar>r - (x0 + y0 :: rat)\<bar> \<le> e + a + b"
  by linarith

lemma near_bound: "\<bar>x - y\<bar> \<le> a \<Longrightarrow> \<bar>y\<bar> \<le> b \<Longrightarrow> \<bar>x :: rat\<bar> \<le> a + b"
  by linarith

lemma near_upper: "x \<le> y \<Longrightarrow> \<bar>y - z\<bar> \<le> a \<Longrightarrow> x \<le> z + (a :: rat)"
  by linarith


lemma abs_min0_le: "- b \<le> x \<Longrightarrow> 0 \<le> b \<Longrightarrow> \<bar>min 0 x\<bar> \<le> (b :: rat)"
  by (auto simp: min_def)


subsection \<open>The loop both worst cases run at a probe\<close>

type_synonym fleg = "bool \<times> f64 \<times> f64"

definition fintr :: "bool \<Rightarrow> f64 \<Rightarrow> f64 \<Rightarrow> f64" where
  "fintr call k s = (if call then max 0 (s - k) else max 0 (k - s))"

definition fpayoff :: "fleg list \<Rightarrow> f64 \<Rightarrow> f64" where
  "fpayoff legs s = foldl (\<lambda>acc (c, k, q). acc + q * lit 100 * fintr c k s) 0 legs"

definition exact_of :: "fleg list \<Rightarrow> pleg list" where
  "exact_of legs = map (\<lambda>(c, k, q). (c, val k, val q)) legs"

definition small_leg :: "fleg \<Rightarrow> bool" where
  "small_leg l = (case l of (c, k, q) \<Rightarrow> 0 \<le> val k \<and> val k \<le> 10000 \<and> \<bar>val q\<bar> \<le> 1000)"

definition exact_value :: "rat \<Rightarrow> fleg \<Rightarrow> rat" where
  "exact_value s l = (case l of (c, k, q) \<Rightarrow> 100 * (val q * intr c (val k) s))"

lemma fintr_drift:
  assumes "0 \<le> val k" "val k \<le> 10000" "0 \<le> val s" "val s \<le> 20000"
  shows "\<bar>val (fintr c k s) - intr c (val k) (val s)\<bar> \<le> 20000 / 2 ^ 53"
    and "\<bar>intr c (val k) (val s)\<bar> \<le> 20000"
proof -
  have a: "\<bar>val s - val k\<bar> \<le> 20000" "\<bar>val k - val s\<bar> \<le> 20000" using assms by linarith+
  show "\<bar>val (fintr c k s) - intr c (val k) (val s)\<bar> \<le> 20000 / 2 ^ 53"
    using order.trans [OF max0_lipschitz rnd_error_le [OF a(1)]]
      order.trans [OF max0_lipschitz rnd_error_le [OF a(2)]]
    by (auto simp: fintr_def intr_def val_diff)
  show "\<bar>intr c (val k) (val s)\<bar> \<le> 20000" using a by (auto simp: intr_def max_def)
qed

lemma leg_drift:
  assumes "small_leg (c, k, q)" "0 \<le> val s" "val s \<le> 20000"
  shows "\<bar>val (q * lit 100 * fintr c k s) - exact_value (val s) (c, k, q)\<bar> \<le> 8 * 10 ^ 9 / 2 ^ 53"
    and "\<bar>exact_value (val s) (c, k, q)\<bar> \<le> 2 * 10 ^ 9"
proof -
  define i0 where "i0 = intr c (val k) (val s)"
  have k: "0 \<le> val k" "val k \<le> 10000" and "\<bar>val q\<bar> \<le> 1000" using assms(1) by (auto simp: small_leg_def)
  then have q: "\<bar>val q * 100\<bar> \<le> 100000" by (simp add: abs_mult)
  have i: "\<bar>val (fintr c k s) - i0\<bar> \<le> 20000 / 2 ^ 53" "\<bar>i0\<bar> \<le> 20000"
    using fintr_drift [OF k assms(2,3)] by (simp_all add: i0_def)
  have "\<bar>rnd (val (q * lit 100) * val (fintr c k s)) - val q * 100 * i0\<bar> \<le> 4 * (100000 * 20000) / 2 ^ 53"
    by (rule prod_drift [OF _ q i(1) i(2)]) (use rnd_error_le [OF q] in \<open>simp add: val_mult\<close>)
  then show "\<bar>val (q * lit 100 * fintr c k s) - exact_value (val s) (c, k, q)\<bar> \<le> 8 * 10 ^ 9 / 2 ^ 53"
    by (simp add: val_mult [of _ "fintr c k s"] exact_value_def i0_def ac_simps)
  have "\<bar>val q * 100\<bar> * \<bar>i0\<bar> \<le> 100000 * 20000" using q i(2) by (intro mult_mono) auto
  then show "\<bar>exact_value (val s) (c, k, q)\<bar> \<le> 2 * 10 ^ 9"
    by (simp add: exact_value_def i0_def abs_mult ac_simps)
qed

lemma exact_value_sum: "(\<Sum>l \<leftarrow> legs. exact_value s l) = 100 * payoff (exact_of legs) s"
  by (induction legs) (auto simp: exact_value_def exact_of_def distrib_left)

lemma fpayoff_drift:
  assumes "length legs \<le> 50" "\<forall>l \<in> set legs. small_leg l" "0 \<le> val s" "val s \<le> 20000"
  shows "\<bar>val (fpayoff legs s) - 100 * payoff (exact_of legs) (val s)\<bar> \<le> 1 / 500"
    and "\<bar>100 * payoff (exact_of legs) (val s)\<bar> \<le> 10 ^ 11"
proof -
  define t where "t = (\<lambda>l :: fleg. case l of (c, k, q) \<Rightarrow> q * lit 100 * fintr c k s)"
  have te: "\<forall>l \<in> set legs. \<bar>val (t l) - exact_value (val s) l\<bar> \<le> 8 * 10 ^ 9 / 2 ^ 53 \<and>
      \<bar>exact_value (val s) l\<bar> \<le> 2 * 10 ^ 9"
  proof
    fix l assume "l \<in> set legs"
    then have "small_leg l" using assms(2) by blast
    then show "\<bar>val (t l) - exact_value (val s) l\<bar> \<le> 8 * 10 ^ 9 / 2 ^ 53 \<and> \<bar>exact_value (val s) l\<bar> \<le> 2 * 10 ^ 9"
      using leg_drift [OF _ assms(3,4)] by (cases l) (simp add: t_def)
  qed
  have "\<bar>val (foldl (\<lambda>a x. a + t x) 0 legs) - (\<Sum>l \<leftarrow> legs. exact_value (val s) l)\<bar>
      \<le> of_nat 50 * (8 * 10 ^ 9 / 2 ^ 53 + 2 * 10 ^ 11 / 2 ^ 53)"
    by (rule sum_drift_at_most [OF te _ _ _ assms(1)]) auto
  moreover have "foldl (\<lambda>a x. a + t x) 0 legs = fpayoff legs s"
    unfolding fpayoff_def t_def by (rule arg_cong [where f = "\<lambda>f. foldl f 0 legs"]) (auto simp: fun_eq_iff)
  ultimately show "\<bar>val (fpayoff legs s) - 100 * payoff (exact_of legs) (val s)\<bar> \<le> 1 / 500"
    by (simp add: exact_value_sum)
  have "\<bar>\<Sum>l \<leftarrow> legs. exact_value (val s) l\<bar> \<le> of_nat 50 * (2 * 10 ^ 9)"
    by (rule sum_list_abs_le [OF _ assms(1)]) (use te in auto)
  then show "\<bar>100 * payoff (exact_of legs) (val s)\<bar> \<le> 10 ^ 11" by (simp add: exact_value_sum)
qed

lemma strikes_exact_of: "set (strikes (exact_of legs)) = (\<lambda>(c, k, q). val k) ` set legs"
  by (induction legs) (force simp: exact_of_def)+

text \<open>The loop that keeps the least value over the probes.\<close>

lemma min_fold_le_probe:
  assumes "price \<in> set probes"
  shows "foldl (\<lambda>worst q. min worst (f q)) w probes \<le> (f price :: f64)"
proof -
  have mono: "foldl (\<lambda>worst q. min worst (f q)) x ps \<le> x" for x ps
    by (induction ps arbitrary: x) (auto intro: order.trans [OF _ min.cobounded1])
  have "foldl (\<lambda>worst q. min worst (f q)) x ps \<le> f price" if "price \<in> set ps" for x ps
    using that by (induction ps arbitrary: x) (auto intro: order.trans [OF mono])
  then show ?thesis using assms .
qed

end
