(* ===== verification/Exposure.thy ===== *)
theory Exposure
  imports Market Payoff
begin

text \<open>
  What everything open may lose (\<open>golang/internal/marketdata/exposure.go\<close>): the positions
  grouped into series of one underlying and one day, each series priced at its worst probe, and
  the series whose loss has no floor. The lemmas bound the rounding of the computation and show
  the figure to be a bound on the loss at any price.
\<close>

definition max_float64 :: f64 where
  "max_float64 = lit ((2 ^ 53 - 1) * 2 ^ 971)"

lemma max_float64_code [code abstract]: "val max_float64 = of_int (18014398509481982 * 1024 ^ 97)"
proof -
  have "(1024 :: rat) = 2 ^ 10" by simp
  then have "(1024 :: rat) ^ 97 = 2 ^ 970" by (simp only: power_mult [symmetric]) simp
  then have e: "of_int (18014398509481982 * 1024 ^ 97) = ((2 ^ 53 - 1) * 2 ^ 971 :: rat)" by simp
  have "dbl ((2 ^ 53 - 1) * 2 ^ 971)"
    by (rule dblI [of _ "2 ^ 53 - 1" 971]) (simp_all add: pow2_def)
  then show ?thesis unfolding max_float64_def val_lit e by (rule rnd_dbl)
qed

lemma min_max_float64 [simp]: "x \<le> 10000000000000000 \<Longrightarrow> min (val max_float64) x = x"
proof -
  assume x: "x \<le> 10000000000000000"
  have "(10000000000000000 :: int) * 1 \<le> 18014398509481982 * 1024 ^ 97" by (rule mult_mono) simp_all
  then have "(of_int 10000000000000000 :: rat) \<le> val max_float64"
    unfolding max_float64_code by (simp only: of_int_le_iff mult_1_right)
  then show ?thesis using x by (simp add: min_def)
qed

text \<open>The positions whose symbol reads as a contract, each with the contract.\<close>

definition contracts_of :: "Position list \<Rightarrow> (Contract \<times> Position) list" where
  "contracts_of held = List.map_filter
     (\<lambda>p. map_option (\<lambda>c. (c, p)) (ContractFrom (p_Symbol p))) held"

definition intrinsic_at :: "f64 \<Rightarrow> Contract \<Rightarrow> f64" where
  "intrinsic_at price c =
     (if c_Type c \<noteq> ''put'' then max 0 (price - c_Strike c) else max 0 (c_Strike c - price))"

definition payoff_at :: "(Contract \<times> Position) list \<Rightarrow> f64 \<Rightarrow> f64" where
  "payoff_at cs price = foldl (\<lambda>acc (c, p). acc + p_Quantity p * lit 100 * intrinsic_at price c) 0 cs"

definition worstAtExpiry :: "Position list \<Rightarrow> f64" where
  "worstAtExpiry held =
     (let cs = contracts_of held;
          highest = foldl (\<lambda>h (c, p). max h (c_Strike c)) 0 cs;
          settled = foldl (\<lambda>s (c, p). s - p_CostBasis p) 0 cs;
          probes = 0 # map (\<lambda>(c, p). c_Strike c) cs @ [highest * lit 2]
      in foldl (\<lambda>worst price. min worst (payoff_at cs price + settled)) max_float64 probes)"

definition series_of :: "Contract \<Rightarrow> string \<times> string" where
  "series_of c = (root_of (c_Symbol c), fmt_date (c_Expiration c))"

definition AtRisk :: "(string \<times> string) iteration \<Rightarrow> Position list \<Rightarrow> f64" where
  "AtRisk it positions =
     (let cs = contracts_of positions;
          key = (\<lambda>(c, p). series_of c)
      in - foldl (\<lambda>total k. total + min 0 (worstAtExpiry (map snd (grouped key cs k))))
             0 (it (keys_of key cs)))"

definition series_name :: "Contract \<Rightarrow> string" where
  "series_name c = root_of (c_Symbol c) @ CHR '' '' # fmt_date (c_Expiration c)"

definition net_step :: "(string \<rightharpoonup> f64) \<times> string list \<Rightarrow> Position \<Rightarrow> (string \<rightharpoonup> f64) \<times> string list" where
  "net_step st p = (case st of (net, order) \<Rightarrow>
     (case ContractFrom (p_Symbol p) of
        None \<Rightarrow> (net, order)
      | Some c \<Rightarrow>
          if c_Type c \<noteq> ''call'' then (net, order) else
          let key = series_name c;
              before = (case net key of None \<Rightarrow> 0 | Some x \<Rightarrow> x)
          in (net(key \<mapsto> before + p_Quantity p),
              if net key = None then order @ [key] else order)))"

definition WithoutAFloor :: "Position list \<Rightarrow> string list" where
  "WithoutAFloor positions = (case foldl net_step (Map.empty, []) positions of
     (net, order) \<Rightarrow> filter (\<lambda>key. case net key of None \<Rightarrow> False | Some x \<Rightarrow> x < 0) order)"

text \<open>One underlying and one side of the market.\<close>

type_synonym Side = "string \<times> string"

definition sides_step :: "Side list \<Rightarrow> OrderLeg \<Rightarrow> Side list" where
  "sides_step sides leg = (case ContractFrom (o_Symbol leg) of
     None \<Rightarrow> sides
   | Some c \<Rightarrow> let side = (root_of (c_Symbol c), c_Type c)
       in if side \<in> set sides then sides else sides @ [side])"

definition legs_or_self :: "Order \<Rightarrow> OrderLeg list" where
  "legs_or_self ord = (if o_Legs ord = [] then [OrderLeg.truncate ord] else o_Legs ord)"

definition RestingSides :: "Order list \<Rightarrow> Side list" where
  "RestingSides orders =
     foldl (\<lambda>sides ord. if Active ord then foldl sides_step sides (legs_or_self ord) else sides) [] orders"

subsection \<open>Reading positions\<close>

lemma contracts_of_simps [simp]: "contracts_of [] = []"
  "contracts_of (p # ps) = (case ContractFrom (p_Symbol p) of None \<Rightarrow> contracts_of ps
     | Some c \<Rightarrow> (c, p) # contracts_of ps)"
  by (simp_all add: contracts_of_def map_filter_simps split: option.splits)

lemma contracts_of_mem: "(c, p) \<in> set (contracts_of ps) \<longleftrightarrow> p \<in> set ps \<and> ContractFrom (p_Symbol p) = Some c"
  by (induction ps) (auto split: option.splits)

lemma contracts_of_length: "length (contracts_of ps) \<le> length ps"
  by (induction ps) (auto split: option.splits)

lemma contracts_of_snd: "\<forall>x \<in> set cs. ContractFrom (p_Symbol (snd x)) = Some (fst x) \<Longrightarrow>
  contracts_of (map snd cs) = cs"
  by (induction cs) auto

lemma contracts_of_group:
  "contracts_of (map snd (grouped key (contracts_of ps) k)) = grouped key (contracts_of ps) k"
  by (rule contracts_of_snd) (auto simp: grouped_def contracts_of_mem)

subsection \<open>The figure never goes below zero, and what is not an option is skipped\<close>

lemma total_nonpos:
  "a \<le> 0 \<Longrightarrow> foldl (\<lambda>total k. total + min 0 (g k)) a ks \<le> (0 :: f64)"
proof (induction ks arbitrary: a)
  case (Cons k ks)
  have "a + min 0 (g k) \<le> 0" by (rule f64_add_nonpos [OF Cons.prems]) simp
  then show ?case using Cons.IH by simp
qed simp

lemma AtRisk_ge_0: "0 \<le> AtRisk it positions"
  unfolding AtRisk_def Let_def f64_minus_le_0 by (rule total_nonpos) simp

subsection \<open>Rounding of the worst point\<close>

definition sane :: "Position \<Rightarrow> bool" where
  "sane p \<longleftrightarrow> val (p_Quantity p) = of_int \<lfloor>val (p_Quantity p)\<rfloor> \<and> \<bar>val (p_Quantity p)\<bar> \<le> 1000 \<and>
     \<bar>val (p_CostBasis p)\<bar> \<le> 10 ^ 9 \<and>
     (case ContractFrom (p_Symbol p) of None \<Rightarrow> True | Some c \<Rightarrow> val (c_Strike c) \<le> 10000)"

definition sane_book :: "Position list \<Rightarrow> bool" where
  "sane_book ps \<longleftrightarrow> length ps \<le> 50 \<and> list_all sane ps"

definition fleg_of :: "Contract \<times> Position \<Rightarrow> fleg" where
  "fleg_of cp = (c_Type (fst cp) \<noteq> ''put'', c_Strike (fst cp), p_Quantity (snd cp))"

definition exact_legs :: "Position list \<Rightarrow> pleg list" where
  "exact_legs ps = exact_of (map fleg_of (contracts_of ps))"

definition exact_settled :: "Position list \<Rightarrow> rat" where
  "exact_settled ps = (\<Sum>(c, p) \<leftarrow> contracts_of ps. - val (p_CostBasis p))"

lemma ContractFrom_strike_nonneg: "ContractFrom s = Some c \<Longrightarrow> 0 \<le> val (c_Strike c)"
  using ContractFrom_Some(3) [of s c] by (simp add: less_f64_iff)

lemma strikes_exact_legs:
  "k \<in> set (strikes (exact_legs ps)) \<longleftrightarrow> (\<exists>(c, p) \<in> set (contracts_of ps). k = val (c_Strike c))"
  by (force simp: exact_legs_def strikes_exact_of fleg_of_def)

lemma sane_strike:
  "sane_book ps \<Longrightarrow> (c, p) \<in> set (contracts_of ps) \<Longrightarrow>
    0 \<le> val (c_Strike c) \<and> val (c_Strike c) \<le> 10000 \<and> sane p"
  by (auto simp: sane_book_def contracts_of_mem list_all_iff sane_def
      intro: ContractFrom_strike_nonneg dest!: bspec)

lemma payoff_at_fpayoff: "payoff_at cs s = fpayoff (map fleg_of cs) s"
proof -
  have "foldl (\<lambda>acc (c, p). acc + p_Quantity p * lit 100 * intrinsic_at s c) a cs =
      foldl (\<lambda>acc (c, k, q). acc + q * lit 100 * fintr c k s) a (map fleg_of cs)" for a
    by (induction cs arbitrary: a) (auto simp: fleg_of_def fintr_def intrinsic_at_def)
  then show ?thesis by (simp add: payoff_at_def fpayoff_def)
qed

lemma payoff_drift:
  assumes "sane_book ps" "0 \<le> val s" "val s \<le> 20000"
  shows "\<bar>val (payoff_at (contracts_of ps) s) - 100 * payoff (exact_legs ps) (val s)\<bar> \<le> 1 / 500"
    and "\<bar>100 * payoff (exact_legs ps) (val s)\<bar> \<le> 10 ^ 11"
proof -
  have n: "length (map fleg_of (contracts_of ps)) \<le> 50"
    using contracts_of_length [of ps] assms(1) by (simp add: sane_book_def)
  have small: "\<forall>l \<in> set (map fleg_of (contracts_of ps)). small_leg l"
  proof
    fix l assume "l \<in> set (map fleg_of (contracts_of ps))"
    then obtain c p where cp: "(c, p) \<in> set (contracts_of ps)" and l: "l = fleg_of (c, p)" by auto
    show "small_leg l"
      using sane_strike [OF assms(1) cp] by (simp add: l fleg_of_def small_leg_def sane_def)
  qed
  show "\<bar>val (payoff_at (contracts_of ps) s) - 100 * payoff (exact_legs ps) (val s)\<bar> \<le> 1 / 500"
    "\<bar>100 * payoff (exact_legs ps) (val s)\<bar> \<le> 10 ^ 11"
    unfolding payoff_at_fpayoff exact_legs_def
    by (rule fpayoff_drift [OF n small assms(2,3)])+
qed

lemma settled_drift:
  assumes "sane_book ps"
  shows "\<bar>val (foldl (\<lambda>s (c, p). s - p_CostBasis p) 0 (contracts_of ps)) - exact_settled ps\<bar> \<le> 1 / 1000"
    and "\<bar>exact_settled ps\<bar> \<le> 50 * 10 ^ 9"
proof -
  let ?cs = "contracts_of ps"
  define e where "e = (\<lambda>x :: Contract \<times> Position. - val (p_CostBasis (snd x)))"
  define t where "t = (\<lambda>x :: Contract \<times> Position. - p_CostBasis (snd x))"
  have n: "length ?cs \<le> 50" using contracts_of_length [of ps] assms(1) by (simp add: sane_book_def)
  have te: "\<forall>x \<in> set ?cs. \<bar>val (t x) - e x\<bar> \<le> 0 \<and> \<bar>e x\<bar> \<le> 10 ^ 9"
    using sane_strike [OF assms] by (auto simp: e_def t_def sane_def)
  have E: "(\<Sum>x \<leftarrow> ?cs. e x) = exact_settled ps"
    by (simp add: e_def exact_settled_def case_prod_unfold)
  have "\<bar>val (foldl (\<lambda>a x. a + t x) 0 ?cs) - (\<Sum>x \<leftarrow> ?cs. e x)\<bar> \<le> of_nat 50 * (0 + 10 ^ 11 / 2 ^ 53)"
    by (rule sum_drift_at_most [OF te _ _ _ n]) auto
  moreover have "foldl (\<lambda>s (c, p). s - p_CostBasis p) 0 ?cs = foldl (\<lambda>a x. a + t x) 0 ?cs"
    by (simp add: t_def case_prod_unfold f64_diff_minus)
  ultimately show "\<bar>val (foldl (\<lambda>s (c, p). s - p_CostBasis p) 0 ?cs) - exact_settled ps\<bar> \<le> 1 / 1000"
    by (simp add: E)
  have "\<bar>\<Sum>x \<leftarrow> ?cs. e x\<bar> \<le> of_nat 50 * 10 ^ 9"
    by (rule sum_list_abs_le [OF _ n]) (use te in auto)
  then show "\<bar>exact_settled ps\<bar> \<le> 50 * 10 ^ 9" by (simp add: E)
qed

text \<open>What the code adds up at one probe, and the exact value of the series there.\<close>

definition probe_value :: "Position list \<Rightarrow> f64 \<Rightarrow> f64" where
  "probe_value ps s = payoff_at (contracts_of ps) s +
     foldl (\<lambda>s (c, p). s - p_CostBasis p) 0 (contracts_of ps)"

lemma probe_drift:
  assumes "sane_book ps" "0 \<le> val s" "val s \<le> 20000"
  shows "\<bar>val (probe_value ps s) - (100 * payoff (exact_legs ps) (val s) + exact_settled ps)\<bar> \<le> 1 / 200"
    and "\<bar>val (probe_value ps s)\<bar> \<le> 2 * 10 ^ 11"
proof -
  let ?p = "val (payoff_at (contracts_of ps) s)"
  let ?s = "val (foldl (\<lambda>s (c, p). s - p_CostBasis p) 0 (contracts_of ps))"
  note a = payoff_drift [OF assms] settled_drift [OF assms(1)]
  have "\<bar>?p + ?s\<bar> \<le> 1 / 500 + 1 / 1000 + 10 ^ 11 + 50 * 10 ^ 9"
    by (rule abs_sum_near_le [OF a(1) a(3) a(2) a(4)])
  also have "\<dots> \<le> 16 * 10 ^ 10" by simp
  finally have m: "\<bar>?p + ?s\<bar> \<le> 16 * 10 ^ 10" .
  have r: "\<bar>rnd (?p + ?s) - (?p + ?s)\<bar> \<le> 1 / 1000"
    by (rule order.trans [OF rnd_error_le [OF m]]) simp
  have v: "val (probe_value ps s) = rnd (?p + ?s)" by (simp add: probe_value_def val_add)
  have "\<bar>rnd (?p + ?s) - (100 * payoff (exact_legs ps) (val s) + exact_settled ps)\<bar> \<le>
      1 / 1000 + 1 / 500 + 1 / 1000"
    by (rule near_sum [OF r a(1) a(3)])
  also have "\<dots> \<le> 1 / 200" by simp
  finally show "\<bar>val (probe_value ps s) - (100 * payoff (exact_legs ps) (val s) + exact_settled ps)\<bar> \<le> 1 / 200"
    by (simp add: v)
  have "\<bar>rnd (?p + ?s)\<bar> \<le> 1 / 1000 + 16 * 10 ^ 10" by (rule near_bound [OF r m])
  also have "\<dots> \<le> 2 * 10 ^ 11" by simp
  finally show "\<bar>val (probe_value ps s)\<bar> \<le> 2 * 10 ^ 11" by (simp add: v)
qed

lemma worstAtExpiry_eq: "worstAtExpiry ps = foldl (\<lambda>worst s. min worst (probe_value ps s)) max_float64
    (0 # map (\<lambda>(c, p). c_Strike c) (contracts_of ps) @
      [foldl (\<lambda>h (c, p). max h (c_Strike c)) 0 (contracts_of ps) * lit 2])"
  by (simp add: worstAtExpiry_def probe_value_def Let_def)

lemma worst_below_probes:
  assumes "sane_book ps" "p \<in> set (0 # strikes (exact_legs ps))"
  shows "val (worstAtExpiry ps) \<le> 100 * payoff (exact_legs ps) p + exact_settled ps + 1 / 200"
proof -
  obtain s where s: "val s = p" "0 \<le> p" "p \<le> 20000"
    "s \<in> set (0 # map (\<lambda>(c, p). c_Strike c) (contracts_of ps))"
  proof (cases "p = 0")
    case True
    then show ?thesis using that [of 0] by simp
  next
    case False
    then obtain c q where cq: "(c, q) \<in> set (contracts_of ps)" "p = val (c_Strike c)"
      using assms(2) by (auto simp: strikes_exact_legs)
    then show ?thesis
      using that [of "c_Strike c"] sane_strike [OF assms(1) cq(1)] by force
  qed
  have "worstAtExpiry ps \<le> probe_value ps s"
    unfolding worstAtExpiry_eq by (rule min_fold_le_probe) (use s(4) in auto)
  then have "val (worstAtExpiry ps) \<le> val (probe_value ps s)" by (simp add: le_f64_iff)
  then show ?thesis using near_upper [OF _ probe_drift(1) [OF assms(1), of s]] s by simp
qed

interpretation exposure: probed_worst exact_legs exact_settled
  "\<lambda>ps. val (worstAtExpiry ps)" sane_book "1 / 200"
proof
  fix b k
  assume "sane_book b" "k \<in> set (strikes (exact_legs b))"
  then show "0 \<le> k" by (auto simp: strikes_exact_legs dest!: sane_strike)
next
  fix b p
  assume "sane_book b" "p \<in> set (0 # strikes (exact_legs b))"
  then show "val (worstAtExpiry b) \<le> 100 * payoff (exact_legs b) p + exact_settled b + 1 / 200"
    by (rule worst_below_probes)
qed


lemma worst_lower:
  assumes "sane_book ps"
  shows "\<bar>min 0 (val (worstAtExpiry ps))\<bar> \<le> 2 * 10 ^ 11"
proof -
  let ?cs = "contracts_of ps"
  let ?h = "foldl (\<lambda>h (c, p). max h (c_Strike c)) 0 ?cs"
  let ?probes = "0 # map (\<lambda>(c, p). c_Strike c) ?cs @ [?h * lit 2]"
  have h: "0 \<le> val ?h \<and> val ?h \<le> 10000"
  proof (rule foldl_invariant)
    fix h x assume "x \<in> set ?cs" "0 \<le> val h \<and> val h \<le> 10000"
    then show "0 \<le> val (case x of (c, p) \<Rightarrow> max h (c_Strike c)) \<and>
        val (case x of (c, p) \<Rightarrow> max h (c_Strike c)) \<le> 10000"
      using sane_strike [OF assms, of "fst x" "snd x"] by (auto simp: case_prod_unfold)
  qed simp
  have h2: "0 \<le> val (?h * lit 2) \<and> val (?h * lit 2) \<le> 20000"
  proof -
    have "val ?h * 2 \<le> 20000" using h by simp
    then have "rnd (val ?h * 2) \<le> rnd 20000" by (rule rnd_mono)
    then show ?thesis using h by (simp add: val_mult val_lit)
  qed
  have lo: "- (2 * 10 ^ 11) \<le> val (probe_value ps s)" if "s \<in> set ?probes" for s
  proof -
    have "0 \<le> val s \<and> val s \<le> 20000"
      using that h2 by (force dest: sane_strike [OF assms])
    then show ?thesis using probe_drift(2) [OF assms, of s] by linarith
  qed
  have "- (2 * 10 ^ 11) \<le> val (foldl (\<lambda>worst s. min worst (probe_value ps s)) max_float64 ?probes)"
  proof (rule foldl_invariant)
    show "- (2 * 10 ^ 11) \<le> val max_float64"
    proof -
      have "0 \<le> val max_float64" by (simp add: max_float64_def val_lit)
      then show ?thesis by (rule order.trans [rotated]) simp
    qed
  next
    fix w s assume "s \<in> set ?probes" "- (2 * 10 ^ 11) \<le> val w"
    then show "- (2 * 10 ^ 11) \<le> val (min w (probe_value ps s))" using lo [of s] by simp
  qed
  then have "- (2 * 10 ^ 11) \<le> val (worstAtExpiry ps)" by (simp only: worstAtExpiry_eq)
  then show ?thesis by (rule abs_min0_le) simp
qed

subsection \<open>Series without a floor\<close>

definition calls_in :: "Position list \<Rightarrow> string \<Rightarrow> f64 list" where
  "calls_in ps key = map (\<lambda>(c, p). p_Quantity p)
     (filter (\<lambda>(c, p). c_Type c = ''call'' \<and> series_name c = key) (contracts_of ps))"

lemma contracts_of_append: "contracts_of (xs @ ys) = contracts_of xs @ contracts_of ys"
  by (induction xs) (auto split: option.splits)

lemma net_fold_both:
  "foldl net_step (Map.empty, []) ps = (net, order) \<Longrightarrow> set order = dom net \<and>
    (\<forall>key. net key = (if calls_in ps key = [] then None else Some (foldl (+) 0 (calls_in ps key))))"
proof (induction ps arbitrary: net order rule: rev_induct)
  case (snoc p ps)
  obtain net0 order0 where st: "foldl net_step (Map.empty, []) ps = (net0, order0)" by fastforce
  note IH = snoc.IH [OF st]
  have step: "net_step (net0, order0) p = (net, order)" using snoc.prems st by simp
  show ?case
  proof (cases "ContractFrom (p_Symbol p)")
    case None
    then show ?thesis using step IH by (simp add: net_step_def calls_in_def contracts_of_append)
  next
    case (Some c)
    have calls: "calls_in (ps @ [p]) key = calls_in ps key @
        (if c_Type c = ''call'' \<and> series_name c = key then [p_Quantity p] else [])" for key
      by (simp add: calls_in_def contracts_of_append Some)
    show ?thesis
    proof (cases "c_Type c = ''call''")
      case True
      define key where "key = series_name c"
      have net: "net = net0(key \<mapsto> (case net0 key of None \<Rightarrow> 0 | Some x \<Rightarrow> x) + p_Quantity p)"
        and ord: "order = (if net0 key = None then order0 @ [key] else order0)"
        using step Some True by (auto simp: net_step_def key_def Let_def)
      have "set order = dom net" using IH by (auto simp: net ord dom_def)
      moreover have "net k = (if calls_in (ps @ [p]) k = [] then None
          else Some (foldl (+) 0 (calls_in (ps @ [p]) k)))" for k
        using IH by (auto simp: net calls True key_def [symmetric])
      ultimately show ?thesis by blast
    next
      case False
      then show ?thesis using step IH Some by (simp add: net_step_def calls)
    qed
  qed
qed (simp add: calls_in_def)

lemmas net_fold = net_fold_both [THEN conjunct2, rule_format]
lemmas net_order = net_fold_both [THEN conjunct1]

lemma length_fmt_date [simp]: "length (fmt_date d) = 10"
  by (simp add: fmt_date_def digits2_def)

lemma series_name_iff: "series_name c = series_name c' \<longleftrightarrow> series_of c = series_of c'"
proof -
  have "r @ CHR '' '' # fmt_date d = r' @ CHR '' '' # fmt_date d' \<longleftrightarrow> r = r' \<and> fmt_date d = fmt_date d'"
    for r r' d d'
    using append_eq_append_conv [of r r' "CHR '' '' # fmt_date d" "CHR '' '' # fmt_date d'"]
    by (metis append_eq_append_conv length_Cons length_fmt_date list.inject)
  then show ?thesis by (auto simp: series_name_def series_of_def)
qed

text \<open>Sums of whole contracts are exact.\<close>

lemma whole_sum:
  assumes "\<forall>q \<in> set qs. \<exists>z. val q = of_int z \<and> \<bar>z\<bar> \<le> 1000" "length qs \<le> 50"
  shows "val (foldl (+) 0 qs) = (\<Sum>q \<leftarrow> qs. val q)"
proof -
  have "val (foldl (+) 0 qs) = (\<Sum>q \<leftarrow> qs. val q) \<and>
    (\<exists>z. (\<Sum>q \<leftarrow> qs. val q) = of_int z \<and> \<bar>z\<bar> \<le> 1000 * int (length qs))" (is "?P qs")
    using assms
  proof (induction qs rule: rev_induct)
    case (snoc q qs)
    then obtain y z where y: "val q = of_int y" "\<bar>y\<bar> \<le> 1000"
      and z: "(\<Sum>q \<leftarrow> qs. val q) = of_int z" "\<bar>z\<bar> \<le> 1000 * int (length qs)"
      and s: "val (foldl (+) 0 qs) = (\<Sum>q \<leftarrow> qs. val q)" by auto
    have b: "\<bar>z + y\<bar> \<le> 1000 * int (length (qs @ [q]))" using y z by simp
    also have "\<dots> \<le> 2 ^ 53" using snoc.prems(2) by simp
    finally have "rnd (of_int (z + y)) = of_int (z + y)" by (rule rnd_of_int)
    then have "val (foldl (+) 0 (qs @ [q])) = of_int (z + y)" using s z y by (simp add: val_add)
    then show ?case using z y b by (auto intro!: exI [of _ "z + y"])
  qed auto
  then show ?thesis by blast
qed

lemma sane_whole: "sane p \<Longrightarrow> \<exists>z. val (p_Quantity p) = of_int z \<and> \<bar>z\<bar> \<le> 1000"
proof -
  assume "sane p"
  then have a: "val (p_Quantity p) = of_int \<lfloor>val (p_Quantity p)\<rfloor>" "\<bar>val (p_Quantity p)\<bar> \<le> 1000"
    by (auto simp: sane_def)
  then have "\<bar>of_int \<lfloor>val (p_Quantity p)\<rfloor> :: rat\<bar> \<le> of_int 1000" by simp
  then have "\<bar>\<lfloor>val (p_Quantity p)\<rfloor>\<bar> \<le> 1000" by (simp only: of_int_le_iff flip: of_int_abs)
  then show ?thesis using a(1) by blast
qed

lemma calls_in_sum:
  assumes "sane_book ps"
  shows "val (foldl (+) 0 (calls_in ps key)) =
    (\<Sum>(c, p) \<leftarrow> filter (\<lambda>(c, p). c_Type c = ''call'' \<and> series_name c = key) (contracts_of ps). val (p_Quantity p))"
proof -
  have "length (calls_in ps key) \<le> length (contracts_of ps)"
    unfolding calls_in_def length_map by (rule length_filter_le)
  then have "length (calls_in ps key) \<le> 50"
    using contracts_of_length [of ps] assms by (simp add: sane_book_def)
  moreover have "\<forall>q \<in> set (calls_in ps key). \<exists>z. val q = of_int z \<and> \<bar>z\<bar> \<le> 1000"
    using sane_strike [OF assms] sane_whole by (fastforce simp: calls_in_def)
  ultimately have "val (foldl (+) 0 (calls_in ps key)) = (\<Sum>q \<leftarrow> calls_in ps key. val q)"
    by (intro whole_sum)
  then show ?thesis by (simp add: calls_in_def comp_def case_prod_unfold)
qed

abbreviation series_key :: "Contract \<times> Position \<Rightarrow> string \<times> string" where
  "series_key cp \<equiv> series_of (fst cp)"

definition series_legs :: "Position list \<Rightarrow> string \<times> string \<Rightarrow> Position list" where
  "series_legs ps k = map snd (grouped series_key (contracts_of ps) k)"

lemma slope_series:
  "slope (exact_legs (series_legs ps (series_of c))) =
    (\<Sum>(c', p) \<leftarrow> filter (\<lambda>(c', p). c_Type c' = ''call'' \<and> series_name c' = series_name c) (contracts_of ps).
      val (p_Quantity p))"
proof -
  have kind: "c_Type c' = ''call'' \<longleftrightarrow> c_Type c' \<noteq> ''put''" if "(c', p) \<in> set (contracts_of ps)" for c' p
    using that ContractFrom_Some(4) [of "p_Symbol p" c'] by (auto simp: contracts_of_mem)
  have "slope (exact_of (map fleg_of (grouped series_key xs (series_of c)))) =
      (\<Sum>(c', p) \<leftarrow> filter (\<lambda>(c', p). c_Type c' = ''call'' \<and> series_name c' = series_name c) xs. val (p_Quantity p))"
    if "\<forall>(c', p) \<in> set xs. c_Type c' = ''call'' \<longleftrightarrow> c_Type c' \<noteq> ''put''" for xs
    using that by (induction xs) (auto simp: grouped_def exact_of_def fleg_of_def series_name_iff)
  then show ?thesis
    using kind by (fastforce simp: exact_legs_def series_legs_def contracts_of_group)
qed

lemma WithoutAFloor_iff:
  assumes "sane_book ps" "(c, p) \<in> set (contracts_of ps)"
  shows "series_name c \<in> set (WithoutAFloor ps) \<longleftrightarrow> slope (exact_legs (series_legs ps (series_of c))) < 0"
proof -
  obtain net order where st: "foldl net_step (Map.empty, []) ps = (net, order)" by fastforce
  have sl: "slope (exact_legs (series_legs ps (series_of c))) = val (foldl (+) 0 (calls_in ps (series_name c)))"
    by (simp add: slope_series calls_in_sum [OF assms(1)])
  have "series_name c \<in> set (WithoutAFloor ps) \<longleftrightarrow>
      calls_in ps (series_name c) \<noteq> [] \<and> foldl (+) 0 (calls_in ps (series_name c)) < 0"
    using net_fold [OF st, of "series_name c"] net_order [OF st]
    by (auto simp: WithoutAFloor_def st dom_def split: option.splits if_splits)
  also have "\<dots> \<longleftrightarrow> foldl (+) 0 (calls_in ps (series_name c)) < 0"
    by (cases "calls_in ps (series_name c) = []") auto
  finally show ?thesis by (simp add: sl less_f64_iff)
qed

subsection \<open>The whole book\<close>

lemma sane_series: "sane_book ps \<Longrightarrow> sane_book (series_legs ps k)"
proof -
  assume s: "sane_book ps"
  have "length (series_legs ps k) \<le> length (contracts_of ps)"
    by (simp add: series_legs_def grouped_def)
  then have "length (series_legs ps k) \<le> 50" using contracts_of_length [of ps] s by (simp add: sane_book_def)
  moreover have "list_all sane (series_legs ps k)"
    using s by (auto simp: list_all_iff series_legs_def set_grouped sane_book_def contracts_of_mem)
  ultimately show ?thesis by (simp add: sane_book_def)
qed

text \<open>
  What the book is worth when every series expires, at a price for each of them, less what was
  paid for it.
\<close>

definition book_value :: "(string \<times> string \<Rightarrow> rat) \<Rightarrow> Position list \<Rightarrow> rat" where
  "book_value px ps = (\<Sum>x \<leftarrow> contracts_of ps. exact_value (px (series_key x)) (fleg_of x) - val (p_CostBasis (snd x)))"

lemma book_value_series:
  "(\<Sum>x \<leftarrow> grouped series_key (contracts_of ps) k. exact_value (px (series_key x)) (fleg_of x) - val (p_CostBasis (snd x)))
    = 100 * payoff (exact_legs (series_legs ps k)) (px k) + exact_settled (series_legs ps k)"
proof -
  let ?g = "grouped series_key (contracts_of ps) k"
  have g: "contracts_of (series_legs ps k) = ?g" by (simp add: series_legs_def contracts_of_group)
  have "(\<Sum>x \<leftarrow> ?g. exact_value (px (series_key x)) (fleg_of x) - val (p_CostBasis (snd x)))
      = (\<Sum>x \<leftarrow> ?g. exact_value (px k) (fleg_of x) + - val (p_CostBasis (snd x)))"
    by (intro arg_cong [where f = sum_list] map_cong) (auto simp: set_grouped)
  also have "\<dots> = (\<Sum>x \<leftarrow> ?g. exact_value (px k) (fleg_of x)) + (\<Sum>x \<leftarrow> ?g. - val (p_CostBasis (snd x)))"
    by (rule sum_list_addf)
  finally show ?thesis
    using exact_value_sum [of "px k" "map fleg_of ?g"]
    by (simp add: g exact_settled_def exact_legs_def case_prod_unfold comp_def)
qed

text \<open>C27. Whatever price each underlying settles at on each expiration, what the book loses against what
  was paid for it is at most \<open>AtRisk\<close>, to one dollar of rounding, provided no series is left
  without a floor; and this in whatever order the map of series is ranged over.\<close>

theorem AtRisk_bounds_the_loss:
  assumes "sane_book ps" "iterates it" "WithoutAFloor ps = []" "\<forall>k. 0 \<le> px k"
  shows "- book_value px ps \<le> val (AtRisk it ps) + 1"
proof -
  let ?cs = "contracts_of ps"
  define ks where "ks = it (keys_of series_key ?cs)"
  define e where "e = (\<lambda>k. val (min 0 (worstAtExpiry (series_legs ps k))))"
  define v where "v = (\<lambda>k. 100 * payoff (exact_legs (series_legs ps k)) (px k) + exact_settled (series_legs ps k))"
  have ks: "distinct ks" "set ks = series_key ` set ?cs"
    using assms(2) by (simp_all add: ks_def iterates_distinct iterates_set)
  have len: "length ks \<le> 50"
  proof -
    have "length ks = card (set ks)" using ks(1) by (simp add: distinct_card)
    also have "\<dots> \<le> length ?cs" unfolding ks(2) by (rule order.trans [OF card_image_le card_length]) simp
    finally show ?thesis using contracts_of_length [of ps] assms(1) by (simp add: sane_book_def)
  qed
  have low: "e k \<le> v k + 1 / 200" if "k \<in> set ks" for k
  proof -
    from that obtain c p where cp: "(c, p) \<in> set ?cs" "k = series_of c" by (force simp: ks(2))
    have "0 \<le> slope (exact_legs (series_legs ps k))"
      using WithoutAFloor_iff [OF assms(1) cp(1)] assms(3) cp(2) by simp
    then have "val (worstAtExpiry (series_legs ps k)) \<le> v k + 1 / 200"
      unfolding v_def
      by (intro exposure.worst_below_every_price sane_series [OF assms(1)] assms(4) [rule_format])
    then show ?thesis by (simp add: e_def)
  qed
  have "\<bar>val (foldl (\<lambda>s k. s + min 0 (worstAtExpiry (series_legs ps k))) 0 ks) - (\<Sum>k \<leftarrow> ks. e k)\<bar>
      \<le> of_nat 50 * (0 + 2 * 10 ^ 13 / 2 ^ 53)"
  proof (rule sum_drift_at_most [OF _ _ _ _ len, where T = "2 * 10 ^ 11"])
    show "\<forall>x \<in> set ks. \<bar>val (min 0 (worstAtExpiry (series_legs ps x))) - e x\<bar> \<le> 0 \<and> \<bar>e x\<bar> \<le> 2 * 10 ^ 11"
      using worst_lower [OF sane_series [OF assms(1)]] by (simp add: e_def)
  qed auto
  also have "\<dots> \<le> 1 / 2" by simp
  finally have near: "\<bar>val (foldl (\<lambda>s k. s + min 0 (worstAtExpiry (series_legs ps k))) 0 ks) -
      (\<Sum>k \<leftarrow> ks. e k)\<bar> \<le> 1 / 2" .
  have "AtRisk it ps = - foldl (\<lambda>s k. s + min 0 (worstAtExpiry (series_legs ps k))) 0 ks"
    by (simp add: AtRisk_def ks_def series_legs_def case_prod_unfold Let_def)
  then have a: "- val (AtRisk it ps) \<le> (\<Sum>k \<leftarrow> ks. e k) + 1 / 2"
    using near unfolding abs_le_iff by simp
  have "(\<Sum>k \<leftarrow> ks. e k) \<le> (\<Sum>k \<leftarrow> ks. v k + 1 / 200)" by (rule sum_list_mono) (rule low)
  also have "\<dots> = (\<Sum>k \<leftarrow> ks. v k) + of_nat (length ks) * (1 / 200)"
    by (simp add: sum_list_addf sum_list_triv)
  also have "(\<Sum>k \<leftarrow> ks. v k) = book_value px ps"
    unfolding v_def book_value_def book_value_series [symmetric]
    by (rule sum_grouped [OF ks(1)]) (simp add: ks(2))
  finally have "(\<Sum>k \<leftarrow> ks. e k) \<le> book_value px ps + 1 / 2"
    using len by simp
  then show ?thesis using a by linarith
qed

end
