(* ===== verification/OrderChecks.thy ===== *)
theory OrderChecks
  imports Reservation Payoff Exposure
begin

text \<open>
  The judgements the ladder makes of one order (\<open>golang/internal/execution/toobig.go\<close> and the
  pricing functions of \<open>execution.go\<close>): whether it only opens or only closes, whether its loss has
  a floor, the most it can lose, what the book shows for it, one step of its price, and what a
  fill pays above the risk it takes.
\<close>

definition OnlyCloses :: "Order \<Rightarrow> bool" where
  "OnlyCloses ord \<longleftrightarrow> o_Legs ord \<noteq> [] \<and>
     list_all (\<lambda>leg. HasSuffix (o_PositionIntent leg) ''_to_close'') (o_Legs ord)"

definition OnlyOpens :: "Order \<Rightarrow> bool" where
  "OnlyOpens ord \<longleftrightarrow> o_Legs ord \<noteq> [] \<and>
     list_all (\<lambda>leg. HasSuffix (o_PositionIntent leg) ''_to_open'') (o_Legs ord)"

definition net_calls :: "Order \<Rightarrow> f64" where
  "net_calls ord = foldl (\<lambda>net one.
     (case ContractFrom (o_Symbol one) of
        None \<Rightarrow> net
      | Some c \<Rightarrow>
          if \<not> EqualFold (c_Type c) ''call'' then net else
          let held = (if o_Quantity one \<le> 0 then o_Quantity ord else o_Quantity one);
              held = (if o_Side one = ''sell'' then - held else held)
          in net + held)) 0 (o_Legs ord)"

definition Unbounded :: "Order \<Rightarrow> bool" where
  "Unbounded ord \<longleftrightarrow> net_calls ord < 0"

text \<open>The legs the worst case is worked out on; one unreadable symbol and there are none.\<close>

definition leg_held :: "Order \<Rightarrow> f64 \<Rightarrow> OrderLeg \<Rightarrow> f64" where
  "leg_held ord resting one =
     (let held = (if 0 < o_Quantity one then o_Quantity one / o_Quantity ord * resting else resting)
      in if o_Side one = ''sell'' then - held else held)"

fun read_legs :: "Order \<Rightarrow> f64 \<Rightarrow> OrderLeg list \<Rightarrow> (Contract \<times> f64) list option" where
  "read_legs ord resting [] = Some []"
| "read_legs ord resting (one # rest) =
     (case ContractFrom (o_Symbol one) of
        None \<Rightarrow> None
      | Some c \<Rightarrow> map_option (\<lambda>ls. (c, leg_held ord resting one) # ls) (read_legs ord resting rest))"

definition order_payoff :: "(Contract \<times> f64) list \<Rightarrow> f64 \<Rightarrow> f64" where
  "order_payoff legs price = foldl (\<lambda>payoff (c, held).
     payoff + held * lit 100 *
       (if c_Type c = ''call'' then max 0 (price - c_Strike c) else max 0 (c_Strike c - price))) 0 legs"

definition worst_price :: "Order \<Rightarrow> f64" where
  "worst_price ord = (case Reservation ord of Some worst \<Rightarrow> worst | None \<Rightarrow> o_LimitPrice ord)"

definition WorstCase :: "Order \<Rightarrow> f64 option" where
  "WorstCase ord =
     (if o_Legs ord = [] \<or> o_Quantity ord \<le> 0 then None else
      let resting = o_Quantity ord - o_FilledQuantity ord in
      if resting \<le> 0 then None else
      (case read_legs ord resting (o_Legs ord) of
         None \<Rightarrow> None
       | Some legs \<Rightarrow>
           let highest = foldl (\<lambda>h (c, held). max h (c_Strike c)) 0 legs;
               probes = 0 # map (\<lambda>(c, held). c_Strike c) legs @ [highest * lit 2];
               settled = - worst_price ord * lit 100 * resting;
               worst = foldl (\<lambda>worst price. min worst (order_payoff legs price + settled))
                         max_float64 probes
           in Some (min 0 worst)))"

definition showing_ratio :: "OrderLeg \<Rightarrow> f64" where
  "showing_ratio leg = (if 0 < o_Ratio leg then o_Ratio leg
     else if 0 < o_Quantity leg then o_Quantity leg else 1)"

fun showing_legs :: "(string \<rightharpoonup> Quote) \<Rightarrow> OrderLeg list \<Rightarrow> f64 \<Rightarrow> f64 option" where
  "showing_legs quotes [] tot = Some tot"
| "showing_legs quotes (leg # legs) tot =
     (case quotes (o_Symbol leg) of
        None \<Rightarrow> None
      | Some q \<Rightarrow>
          if q_Bid q \<le> 0 \<or> q_Ask q \<le> 0 then None
          else if o_Side leg = ''sell''
            then showing_legs quotes legs (tot - q_Bid q * showing_ratio leg)
            else showing_legs quotes legs (tot + q_Ask q * showing_ratio leg))"

definition Showing :: "Order \<Rightarrow> (string \<rightharpoonup> Quote) \<Rightarrow> f64 option" where
  "Showing ord quotes = map_option round_cents (showing_legs quotes (o_Legs ord) 0)"

definition Toward :: "f64 \<Rightarrow> f64 \<Rightarrow> f64 \<Rightarrow> f64" where
  "Toward limit target step =
     (if \<bar>target - limit\<bar> < step / lit 2 then round_cents target
      else if target > limit then round_cents (min (limit + step) target)
      else round_cents (max (limit - step) target))"

definition worseThan :: "f64 \<Rightarrow> f64 \<Rightarrow> bool" where
  "worseThan price than \<longleftrightarrow> price > than"

text \<open>The sold and the bought symbol of a two-legged structure at one set per leg.\<close>

fun edge_pair :: "OrderLeg list \<Rightarrow> string \<times> string \<Rightarrow> (string \<times> string) option" where
  "edge_pair [] sl = Some sl"
| "edge_pair (leg # legs) sl =
     (let ratio = (if o_Ratio leg \<le> 0 then o_Quantity leg else o_Ratio leg) in
      if ratio \<noteq> 1 then None
      else if o_Side leg = ''sell'' then edge_pair legs (o_Symbol leg, snd sl)
      else edge_pair legs (fst sl, o_Symbol leg))"

definition EdgeAt :: "Order \<Rightarrow> f64 \<Rightarrow> (string \<rightharpoonup> Quote) \<Rightarrow> f64 option" where
  "EdgeAt ord price quotes =
     (if length (o_Legs ord) \<noteq> 2 \<or> 0 \<le> price then None else
      (case edge_pair (o_Legs ord) ([], []) of
         None \<Rightarrow> None
       | Some (short, long) \<Rightarrow>
           if short = [] \<or> long = [] then None else
           (case (ContractFrom short, ContractFrom long) of
              (Some sold, Some bought) \<Rightarrow>
                let width = \<bar>c_Strike sold - c_Strike bought\<bar> in
                if width \<le> 0 then None else
                (case quotes short of
                   None \<Rightarrow> None
                 | Some q \<Rightarrow>
                     (case q_Delta q of
                        None \<Rightarrow> None
                      | Some delta \<Rightarrow> Some (lit 100 * \<bar>price\<bar> / width - lit 100 * \<bar>delta\<bar>)))
            | _ \<Rightarrow> None)))"

subsection \<open>Opening and closing exclude each other\<close>

lemma suffix_exclusive: "\<not> (HasSuffix s ''_to_close'' \<and> HasSuffix s ''_to_open'')"
proof (cases "rev s")
  case (Cons c cs)
  then show ?thesis by (auto simp: HasSuffix_def HasPrefix_def)
qed (simp add: HasSuffix_def HasPrefix_def)

lemma closes_not_opens: "OnlyCloses ord \<Longrightarrow> \<not> OnlyOpens ord"
  using suffix_exclusive by (cases "o_Legs ord") (auto simp: OnlyCloses_def OnlyOpens_def)

subsection \<open>One step of the price\<close>

lemma f64_le_add: "0 \<le> b \<Longrightarrow> a \<le> a + (b :: f64)"
  using rnd_mono [of "val a" "val a + val b"] by (simp add: le_f64_iff val_add)

lemma f64_diff_le: "0 \<le> b \<Longrightarrow> a - b \<le> (a :: f64)"
  using rnd_mono [of "val a - val b" "val a"] by (simp add: le_f64_iff val_diff)

lemma Toward_up:
  assumes "limit \<le> cent k" "\<bar>k\<bar> \<le> 2 ^ 50" "0 \<le> step"
  shows "round_cents limit \<le> Toward limit (cent k) step" "Toward limit (cent k) step \<le> cent k"
proof -
  have t: "round_cents (cent k) = cent k" by (rule round_cents_cent [OF assms(2)])
  have l: "round_cents limit \<le> cent k" using round_cents_mono [OF assms(1)] t by simp
  have "round_cents limit \<le> round_cents (min (limit + step) (cent k))"
    using assms f64_le_add by (intro round_cents_mono) auto
  moreover have "round_cents (min (limit + step) (cent k)) \<le> cent k"
    using round_cents_mono [of "min (limit + step) (cent k)" "cent k"] t by simp
  ultimately show "round_cents limit \<le> Toward limit (cent k) step" "Toward limit (cent k) step \<le> cent k"
    using l t assms(1) max_absorb2 [OF f64_diff_le [OF assms(3), of limit]]
    by (auto simp: Toward_def max_def)
qed

lemma Toward_down:
  assumes "cent k \<le> limit" "\<bar>k\<bar> \<le> 2 ^ 50" "0 \<le> step"
  shows "Toward limit (cent k) step \<le> round_cents limit" "cent k \<le> Toward limit (cent k) step"
proof -
  have t: "round_cents (cent k) = cent k" by (rule round_cents_cent [OF assms(2)])
  have l: "cent k \<le> round_cents limit" using round_cents_mono [OF assms(1)] t by simp
  have "round_cents (max (limit - step) (cent k)) \<le> round_cents limit"
    using assms f64_diff_le by (intro round_cents_mono) auto
  moreover have "cent k \<le> round_cents (max (limit - step) (cent k))"
    using round_cents_mono [of "cent k" "max (limit - step) (cent k)"] t by simp
  ultimately show "Toward limit (cent k) step \<le> round_cents limit" "cent k \<le> Toward limit (cent k) step"
    using l t assms(1) by (auto simp: Toward_def)
qed

lemma Showing_cent: "Showing ord quotes = Some s \<Longrightarrow> \<exists>k. s = cent k"
  by (auto simp: Showing_def round_cents_eq)

subsection \<open>The worst case of an order\<close>

lemma WorstCase_le_0: "WorstCase ord = Some w \<Longrightarrow> w \<le> 0"
  by (auto simp: WorstCase_def Let_def split: if_splits option.splits)

definition order_fleg :: "Contract \<times> f64 \<Rightarrow> fleg" where
  "order_fleg l = (c_Type (fst l) = ''call'', c_Strike (fst l), snd l)"

definition resting_of :: "Order \<Rightarrow> f64" where
  "resting_of ord = o_Quantity ord - o_FilledQuantity ord"

definition order_legs :: "Order \<Rightarrow> (Contract \<times> f64) list" where
  "order_legs ord = (case read_legs ord (resting_of ord) (o_Legs ord) of None \<Rightarrow> [] | Some ls \<Rightarrow> ls)"

definition exact_order_legs :: "Order \<Rightarrow> pleg list" where
  "exact_order_legs ord = exact_of (map order_fleg (order_legs ord))"

definition exact_order_settled :: "Order \<Rightarrow> rat" where
  "exact_order_settled ord = - (val (worst_price ord) * 100 * val (resting_of ord))"

definition order_worst :: "Order \<Rightarrow> rat" where
  "order_worst ord = (case WorstCase ord of None \<Rightarrow> 0 | Some w \<Rightarrow> val w)"

definition readable_order :: "Order \<Rightarrow> bool" where
  "readable_order ord \<longleftrightarrow> WorstCase ord \<noteq> None \<and> length (o_Legs ord) \<le> 50 \<and>
     list_all (\<lambda>l. small_leg (order_fleg l)) (order_legs ord) \<and>
     \<bar>val (worst_price ord)\<bar> \<le> 10000 \<and> \<bar>val (resting_of ord)\<bar> \<le> 1000"

lemma order_payoff_fpayoff: "order_payoff ls s = fpayoff (map order_fleg ls) s"
proof -
  have "foldl (\<lambda>payoff (c, held). payoff + held * lit 100 *
       (if c_Type c = ''call'' then max 0 (s - c_Strike c) else max 0 (c_Strike c - s))) a ls =
      foldl (\<lambda>acc (c, k, q). acc + q * lit 100 * fintr c k s) a (map order_fleg ls)" for a
    by (induction ls arbitrary: a) (auto simp: order_fleg_def fintr_def)
  then show ?thesis by (simp add: order_payoff_def fpayoff_def)
qed

lemma read_legs_length: "read_legs ord r ls = Some xs \<Longrightarrow> length xs = length ls"
  by (induction ls arbitrary: xs) (auto split: option.splits)

lemma order_settled_drift:
  assumes "\<bar>val w\<bar> \<le> 10000" "\<bar>val r\<bar> \<le> 1000"
  shows "\<bar>val (- w * lit 100 * r) - (- (val w * 100 * val r))\<bar> \<le> 1 / 1000"
    and "\<bar>val w * 100 * val r\<bar> \<le> 10 ^ 9"
proof -
  have a: "\<bar>- val w * 100\<bar> \<le> 10 ^ 6" using assms(1) by (simp add: abs_mult)
  have "\<bar>rnd (val (- w * lit 100) * val r) - (- val w * 100) * val r\<bar> \<le> 4 * (10 ^ 6 * 1000) / 2 ^ 53"
    by (rule prod_drift [OF _ a _ assms(2)])
      (use rnd_error_le [OF a] in \<open>simp_all add: val_mult\<close>)
  then have "\<bar>val (- w * lit 100 * r) - (- (val w * 100 * val r))\<bar> \<le> 4 * (10 ^ 6 * 1000) / 2 ^ 53"
    by (simp add: val_mult [of _ r])
  also have "\<dots> \<le> 1 / 1000" by simp
  finally show "\<bar>val (- w * lit 100 * r) - (- (val w * 100 * val r))\<bar> \<le> 1 / 1000" .
  have "\<bar>- val w * 100\<bar> * \<bar>val r\<bar> \<le> 10 ^ 6 * 1000" using a assms(2) by (intro mult_mono) auto
  then show "\<bar>val w * 100 * val r\<bar> \<le> 10 ^ 9" by (simp add: abs_mult)
qed

lemma order_below_probes:
  assumes "readable_order ord" "p \<in> set (0 # strikes (exact_order_legs ord))"
  shows "order_worst ord \<le> 100 * payoff (exact_order_legs ord) p + exact_order_settled ord + 1 / 200"
proof -
  let ?fl = "map order_fleg (order_legs ord)"
  let ?set = "- worst_price ord * lit 100 * resting_of ord"
  let ?probes = "0 # map (\<lambda>(c, held). c_Strike c) (order_legs ord) @
    [foldl (\<lambda>h (c, held). max h (c_Strike c)) 0 (order_legs ord) * lit 2]"
  obtain ls where ls: "read_legs ord (resting_of ord) (o_Legs ord) = Some ls" "order_legs ord = ls"
    using assms(1)
    by (auto simp: readable_order_def WorstCase_def order_legs_def resting_of_def Let_def
        split: if_splits option.splits)
  have w: "order_worst ord = min 0 (val (foldl (\<lambda>worst price.
      min worst (order_payoff (order_legs ord) price + ?set)) max_float64 ?probes))"
    using assms(1) ls
    by (auto simp: readable_order_def order_worst_def WorstCase_def resting_of_def Let_def
        split: if_splits option.splits)
  have len: "length ?fl \<le> 50"
    using assms(1) read_legs_length [OF ls(1)] by (simp add: ls(2) readable_order_def)
  have small: "\<forall>l \<in> set ?fl. small_leg l"
    using assms(1) by (auto simp: readable_order_def list_all_iff)
  obtain s where s: "val s = p" "0 \<le> p" "p \<le> 10000" "s \<in> set ?probes"
  proof (cases "p = 0")
    case True
    then show ?thesis using that [of 0] by simp
  next
    case False
    then obtain c k q where l: "(c, k, q) \<in> set ?fl" "p = val k"
      using assms(2) by (auto simp: exact_order_legs_def strikes_exact_of)
    then have "k \<in> (\<lambda>(c, held). c_Strike c) ` set (order_legs ord)"
      by (force simp: order_fleg_def)
    then show ?thesis using that [of k] small l by (fastforce simp: small_leg_def)
  qed
  have v: "val s \<le> 20000" "0 \<le> val s" using s by auto
  note a = fpayoff_drift [OF len small v(2,1)]
  have wr: "\<bar>val (worst_price ord)\<bar> \<le> 10000" "\<bar>val (resting_of ord)\<bar> \<le> 1000"
    using assms(1) by (auto simp: readable_order_def)
  note b = order_settled_drift [OF wr]
  have m: "\<bar>val (fpayoff ?fl s) + val ?set\<bar> \<le> 1 / 500 + 1 / 1000 + 10 ^ 11 + 10 ^ 9"
    by (rule abs_sum_near_le [OF a(1) b(1) a(2)]) (use b(2) in simp)
  have r: "\<bar>rnd (val (fpayoff ?fl s) + val ?set) - (val (fpayoff ?fl s) + val ?set)\<bar> \<le> 1 / 1000"
    by (rule order.trans [OF rnd_error_le [OF m]]) simp
  have near: "\<bar>rnd (val (fpayoff ?fl s) + val ?set) -
      (100 * payoff (exact_of ?fl) (val s) + - (val (worst_price ord) * 100 * val (resting_of ord)))\<bar>
      \<le> 1 / 1000 + 1 / 500 + 1 / 1000"
    by (rule near_sum [OF r a(1) b(1)])
  have "foldl (\<lambda>worst price. min worst (order_payoff (order_legs ord) price + ?set)) max_float64 ?probes
      \<le> order_payoff (order_legs ord) s + ?set"
    by (rule min_fold_le_probe [OF s(4)])
  then have "order_worst ord \<le> rnd (val (fpayoff ?fl s) + val ?set)"
    by (simp add: w le_f64_iff val_add order_payoff_fpayoff min.coboundedI2)
  from near_upper [OF this near] show ?thesis
    by (simp add: exact_order_legs_def exact_order_settled_def s(1))
qed

interpretation resting_order: probed_worst exact_order_legs exact_order_settled
  order_worst readable_order "1 / 200"
proof
  fix ord k
  assume "readable_order ord" "k \<in> set (strikes (exact_order_legs ord))"
  then show "0 \<le> k"
    by (fastforce simp: readable_order_def exact_order_legs_def strikes_exact_of list_all_iff small_leg_def)
qed (rule order_below_probes)

subsection \<open>An order in whole sets\<close>

text \<open>
  What a session really sends: a whole number of sets, each leg a whole multiple of it, and a
  whole number of sets still resting. On such an order the check for a loss without a floor and
  the slope of the payoff the worst case is worked out on agree, although one reads the legs'
  quantities and the other their share of what rests.
\<close>

definition leg_sets :: "Order \<Rightarrow> OrderLeg \<Rightarrow> int" where
  "leg_sets ord one = \<lfloor>val (o_Quantity one)\<rfloor> div \<lfloor>val (o_Quantity ord)\<rfloor>"

definition whole_leg :: "Order \<Rightarrow> OrderLeg \<Rightarrow> bool" where
  "whole_leg ord one \<longleftrightarrow> 0 \<le> leg_sets ord one \<and> leg_sets ord one \<le> 100 \<and>
     val (o_Quantity one) = of_int (leg_sets ord one) * val (o_Quantity ord)"

definition whole_order :: "Order \<Rightarrow> bool" where
  "whole_order ord \<longleftrightarrow> val (o_Quantity ord) = of_int \<lfloor>val (o_Quantity ord)\<rfloor> \<and>
     0 < val (o_Quantity ord) \<and> val (o_Quantity ord) \<le> 1000 \<and>
     val (resting_of ord) = of_int \<lfloor>val (resting_of ord)\<rfloor> \<and>
     0 < val (resting_of ord) \<and> val (resting_of ord) \<le> 1000 \<and>
     list_all (whole_leg ord) (o_Legs ord)"

definition signed_sets :: "Order \<Rightarrow> OrderLeg \<Rightarrow> int" where
  "signed_sets ord one = (let n = max 1 (leg_sets ord one) in if o_Side one = ''sell'' then - n else n)"

lemma whole_positive:
  "x = of_int \<lfloor>x\<rfloor> \<Longrightarrow> 0 < (x :: rat) \<Longrightarrow> x \<le> 1000 \<Longrightarrow> \<exists>z. x = of_int z \<and> 0 < z \<and> z \<le> 1000"
  by (metis of_int_0_less_iff of_int_le_iff of_int_numeral)

lemma whole_bounds:
  assumes "whole_order ord"
  obtains Q R where "val (o_Quantity ord) = of_int Q" "0 < Q" "Q \<le> 1000"
    "val (resting_of ord) = of_int R" "0 < R" "R \<le> 1000"
  using assms whole_positive unfolding whole_order_def by metis

lemma whole_leg_held:
  assumes "whole_order ord" "one \<in> set (o_Legs ord)"
  shows "val (leg_held ord (resting_of ord) one) = of_int (signed_sets ord one) * val (resting_of ord)"
    "val (let held = (if o_Quantity one \<le> 0 then o_Quantity ord else o_Quantity one)
       in if o_Side one = ''sell'' then - held else held) = of_int (signed_sets ord one) * val (o_Quantity ord)"
proof -
  obtain Q R where QR: "val (o_Quantity ord) = of_int Q" "0 < Q" "Q \<le> 1000"
    "val (resting_of ord) = of_int R" "0 < R" "R \<le> 1000"
    using whole_bounds [OF assms(1)] .
  define n where "n = leg_sets ord one"
  have n: "0 \<le> n" "n \<le> 100" "val (o_Quantity one) = of_int (n * Q)"
    using assms by (auto simp: whole_order_def whole_leg_def list_all_iff n_def QR(1))
  have "n * R \<le> 100 * 1000" "0 \<le> n * R" using n QR mult_mono [of n 100 R 1000] by auto
  then have "\<bar>n * R\<bar> \<le> 100000" by simp
  then have r: "rnd (of_int n * of_int R) = of_int n * of_int R" "rnd (of_int n) = of_int n"
    using rnd_of_int [of "n * R"] rnd_of_int [of n] n by auto
  have q: "0 < o_Quantity one \<longleftrightarrow> 0 < n" using n QR by (simp add: less_f64_iff zero_less_mult_iff)
  have d: "(of_int n * of_int Q :: rat) / of_int Q = of_int n" using QR by simp
  show "val (leg_held ord (resting_of ord) one) = of_int (signed_sets ord one) * val (resting_of ord)"
    using n QR r q d
    by (cases "0 < n") (simp_all add: leg_held_def signed_sets_def Let_def n_def [symmetric] val_mult val_divide max_def)
  show "val (let held = (if o_Quantity one \<le> 0 then o_Quantity ord else o_Quantity one)
       in if o_Side one = ''sell'' then - held else held) = of_int (signed_sets ord one) * val (o_Quantity ord)"
    using n QR q
    by (cases "0 < n") (simp_all add: signed_sets_def Let_def n_def [symmetric] max_def flip: linorder_not_less)
qed

text \<open>The net of the calls is exact, a whole number of sets of each.\<close>

definition call_legs :: "Order \<Rightarrow> OrderLeg list" where
  "call_legs ord = filter (\<lambda>one. case ContractFrom (o_Symbol one) of None \<Rightarrow> False
     | Some c \<Rightarrow> c_Type c = ''call'') (o_Legs ord)"

lemma EqualFold_call: "ContractFrom s = Some c \<Longrightarrow> EqualFold (c_Type c) ''call'' \<longleftrightarrow> c_Type c = ''call''"
  using ContractFrom_Some(4) [of s c] by (auto simp: EqualFold_def ToUpper_def upper_def)

lemma net_calls_sum:
  assumes "whole_order ord" "length (o_Legs ord) \<le> 50"
  shows "val (net_calls ord) = of_int (\<Sum>one \<leftarrow> call_legs ord. signed_sets ord one) * val (o_Quantity ord)"
proof -
  obtain Q R where QR: "val (o_Quantity ord) = of_int Q" "0 < Q" "Q \<le> 1000"
    using whole_bounds [OF assms(1)] by metis
  let ?held = "\<lambda>one. let held = (if o_Quantity one \<le> 0 then o_Quantity ord else o_Quantity one)
       in if o_Side one = ''sell'' then - held else held"
  let ?net = "\<lambda>net one. (case ContractFrom (o_Symbol one) of None \<Rightarrow> net
      | Some c \<Rightarrow> if \<not> EqualFold (c_Type c) ''call'' then net else net + ?held one)"
  let ?calls = "filter (\<lambda>one. case ContractFrom (o_Symbol one) of None \<Rightarrow> False | Some c \<Rightarrow> c_Type c = ''call'')"
  have "val (foldl ?net 0 ls) = of_int ((\<Sum>one \<leftarrow> ?calls ls. signed_sets ord one) * Q) \<and>
      \<bar>\<Sum>one \<leftarrow> ?calls ls. signed_sets ord one\<bar> \<le> 100 * int (length ls)"
    if "set ls \<subseteq> set (o_Legs ord)" "length ls \<le> 50" for ls
    using that
  proof (induction ls rule: rev_induct)
    case (snoc one ls)
    let ?S = "\<Sum>one \<leftarrow> ?calls ls. signed_sets ord one"
    have IH: "val (foldl ?net 0 ls) = of_int (?S * Q)" "\<bar>?S\<bar> \<le> 100 * int (length ls)"
      using snoc by auto
    have h: "val (?held one) = of_int (signed_sets ord one * Q)"
      using whole_leg_held(2) [OF assms(1), of one] snoc.prems(1) by (simp add: QR(1))
    have s: "\<bar>signed_sets ord one\<bar> \<le> 100"
      using assms(1) snoc.prems(1)
      by (auto simp: signed_sets_def whole_order_def list_all_iff whole_leg_def Let_def)
    have S: "\<bar>?S + signed_sets ord one\<bar> \<le> 100 * int (length (ls @ [one]))" using IH(2) s by simp
    then have "\<bar>?S + signed_sets ord one\<bar> \<le> 5000" using snoc.prems(2) by simp
    then have "\<bar>?S + signed_sets ord one\<bar> * Q \<le> 5000 * 1000" using QR by (intro mult_mono) auto
    then have "\<bar>(?S + signed_sets ord one) * Q\<bar> \<le> 2 ^ 53" using QR by (simp add: abs_mult)
    from rnd_of_int [OF this]
    have r: "rnd (of_int (?S * Q) + of_int (signed_sets ord one * Q)) = of_int ((?S + signed_sets ord one) * Q)"
      by (simp add: algebra_simps)
    show ?case
      using IH(1,2) S r h
      by (cases "ContractFrom (o_Symbol one)")
        (simp_all add: EqualFold_call val_add algebra_simps del: of_int_mult)
  qed simp
  from this [of "o_Legs ord"] show ?thesis
    using assms(2) unfolding net_calls_def Let_def by (simp add: call_legs_def QR(1))
qed

lemma slope_read_legs:
  assumes "read_legs ord r ls = Some xs"
  shows "slope (exact_of (map order_fleg xs)) =
    (\<Sum>one \<leftarrow> filter (\<lambda>one. case ContractFrom (o_Symbol one) of None \<Rightarrow> False
       | Some c \<Rightarrow> c_Type c = ''call'') ls. val (leg_held ord r one))"
  using assms
  by (induction ls arbitrary: xs) (auto simp: exact_of_def order_fleg_def split: option.splits)

lemma bounded_slope:
  assumes "whole_order ord" "readable_order ord" "\<not> Unbounded ord"
  shows "0 \<le> slope (exact_order_legs ord)"
proof -
  obtain Q R where QR: "val (o_Quantity ord) = of_int Q" "0 < Q" "val (resting_of ord) = of_int R" "0 < R"
    using whole_bounds [OF assms(1)] by metis
  have len: "length (o_Legs ord) \<le> 50" using assms(2) by (simp add: readable_order_def)
  let ?S = "\<Sum>one \<leftarrow> call_legs ord. signed_sets ord one"
  have "0 \<le> of_int ?S * val (o_Quantity ord)"
    using assms(3) net_calls_sum [OF assms(1) len] by (simp add: Unbounded_def less_f64_iff)
  then have S: "0 \<le> ?S" using QR by (simp add: zero_le_mult_iff flip: of_int_mult)
  have of_int_sum_list: "of_int (\<Sum>x \<leftarrow> xs. f x) = (\<Sum>x \<leftarrow> xs. of_int (f x) :: rat)" for f and xs :: "OrderLeg list"
    by (induction xs) auto
  obtain ls where ls: "read_legs ord (resting_of ord) (o_Legs ord) = Some ls" "order_legs ord = ls"
    using assms(2)
    by (auto simp: readable_order_def WorstCase_def order_legs_def resting_of_def Let_def
        split: if_splits option.splits)
  have "slope (exact_order_legs ord) = (\<Sum>one \<leftarrow> call_legs ord. val (leg_held ord (resting_of ord) one))"
    using slope_read_legs [OF ls(1)] by (simp add: exact_order_legs_def ls(2) call_legs_def)
  also have "\<dots> = (\<Sum>one \<leftarrow> call_legs ord. of_int (signed_sets ord one) * val (resting_of ord))"
    by (intro arg_cong [where f = sum_list] map_cong refl whole_leg_held(1) [OF assms(1)])
      (simp add: call_legs_def)
  also have "\<dots> = of_int ?S * val (resting_of ord)"
    by (simp add: sum_list_mult_const of_int_sum_list comp_def)
  finally show ?thesis using S QR by simp
qed

end
