(* ===== verification/Ladder.thy ===== *)
theory Ladder
  imports OrderChecks
begin

text \<open>
  The execution ladder (\<open>golang/internal/execution/execution.go\<close>): one pass over the orders in
  the book, what it cancels, what it walks and by how much, and the memory it keeps of each
  order's chain of replacements. The broker, the record and the limits are the environment of a
  pass: each answer is an argument, and those of calls made in the middle of a pass may depend
  on everything the ladder did before. What the ladder does is a list of effects, in order. The
  lines written to the process log are left out; the sentences sent to the session are values
  that hold what the sentence states.
\<close>

subsection \<open>State, effects and environment\<close>

record orderAge =
  placed :: time
  movedOn :: int

record Ladder =
  l_Every :: duration
  l_Step :: f64
  l_Stride :: string
  l_Patience :: duration
  l_Reads :: int
  l_watching :: time
  l_passes :: int
  l_ages :: "string \<rightharpoonup> orderAge"

record ExecutionStep =
  x_OrderRef :: string
  x_At :: time
  x_Action :: string
  x_Was :: f64
  x_Became :: "f64 option"
  x_Showing :: "f64 option"
  x_Floor :: "f64 option"
  x_Quantity :: "f64 option"
  x_ReplacedBy :: "string option"

datatype fill_line =
    Bare f64 f64
  | Named string "f64 list" string f64 string f64

datatype told =
    BookIsFull string "f64 option" f64 f64
  | NoLimitToTheLoss string
  | TooLarge string f64 f64
  | DidNotHappen "Order list"

datatype effect =
    CancelOrder string bool
  | ReplaceOrder string f64 string "string option"
  | AppendExecutionStep ExecutionStep
  | NoteFill ExecutionStep
  | Wake told
  | Say fill_line

text \<open>
  A verb sent to the broker is kept with how it was answered: whether a cancellation was taken,
  and the name of the replacement when there is one. An absent function field of the struct (\<open>nil\<close> in the code) is \<open>None\<close>. The answer of a call
  that is made per order takes the effects of the pass so far.
\<close>

record env =
  e_now :: time
  e_orders :: "int \<Rightarrow> (string, Order list) result"
  e_positions :: "(string, Position list) result"
  e_Ceiling :: "(string, f64) result option"
  e_Book :: "(string, f64) result option"
  e_Fuse :: "(string, bool \<times> string) result option"
  e_MinEdge :: "(string, f64) result option"
  e_quotes :: "effect list \<Rightarrow> string list \<Rightarrow> (string, string \<rightharpoonup> Quote) result"
  e_replace :: "effect list \<Rightarrow> string \<Rightarrow> f64 \<Rightarrow> string \<Rightarrow> (string, string) result"
  e_cancel :: "effect list \<Rightarrow> string \<Rightarrow> (string, unit) result"
  e_note :: "(effect list \<Rightarrow> ExecutionStep \<Rightarrow> (string, bool) result) option"
  e_Wake :: bool
  e_Say :: bool
  e_it :: "(string \<times> string) iteration"

record pass =
  s_ladder :: Ladder
  s_done :: "effect list"
  s_atRisk :: "f64 option"
  s_cancelled :: "Order list"

definition did :: "effect \<Rightarrow> pass \<Rightarrow> pass" where
  "did e s = s\<lparr>s_done := s_done s @ [e]\<rparr>"

definition StrideByTick :: string where "StrideByTick = ''tick''"
definition StrideToArrive :: string where "StrideToArrive = ''arrive''"
definition defaultReads :: int where "defaultReads = 50"

subsection \<open>The life of an order across its replacements\<close>

definition working :: "Order \<Rightarrow> bool" where
  "working ord \<longleftrightarrow> \<not> (o_Class ord \<noteq> ''mleg'' \<or> o_Legs ord = [] \<or> o_SubmittedAt ord = None) \<and> Active ord"

definition lifeOf :: "Ladder \<Rightarrow> Order \<Rightarrow> time \<Rightarrow> orderAge \<times> Ladder" where
  "lifeOf l ord now =
     (case l_ages l (o_ID ord) of
        Some known \<Rightarrow> (known, l)
      | None \<Rightarrow>
          let life = (case o_SubmittedAt ord of
                        None \<Rightarrow> \<lparr>placed = now, movedOn = 0\<rparr>
                      | Some t \<Rightarrow> \<lparr>placed = t, movedOn = 0\<rparr>)
          in (life, l\<lparr>l_ages := (l_ages l)(o_ID ord \<mapsto> life)\<rparr>))"

definition forget :: "string \<Rightarrow> Ladder \<Rightarrow> Ladder" where
  "forget i l = l\<lparr>l_ages := (l_ages l)(i := None)\<rparr>"

definition carried :: "Ladder \<Rightarrow> string \<Rightarrow> string \<Rightarrow> Ladder" where
  "carried l from' to =
     (let life = (case l_ages l from' of Some life \<Rightarrow> life | None \<Rightarrow> \<lparr>placed = 0, movedOn = 0\<rparr>);
          l = forget from' l in
      if to = [] then l
      else l\<lparr>l_ages := (l_ages l)(to \<mapsto> life\<lparr>movedOn := l_passes l\<rparr>)\<rparr>)"

text \<open>
  First every order the broker shows as over is dropped; then what the broker no longer shows as
  working, if it is older than any order of the ladder's can be. The second deletion ranges over
  the map, one key at a time and each on its own, so it is a filter.
\<close>

definition alive_in :: "Order list \<Rightarrow> string set" where
  "alive_in shown = o_ID ` set (filter working shown)"

definition forgetWhatIsDone :: "Ladder \<Rightarrow> Order list \<Rightarrow> time \<Rightarrow> Ladder" where
  "forgetWhatIsDone l shown now =
     (let l = foldl (\<lambda>l ord. if working ord then l else forget (o_ID ord) l) l shown;
          stale = now + - (l_Patience l + l_Every l)
      in l\<lparr>l_ages := (\<lambda>i. case l_ages l i of
             None \<Rightarrow> None
           | Some life \<Rightarrow> if i \<notin> alive_in shown \<and> placed life < stale then None else Some life)\<rparr>)"

subsection \<open>Walking a price\<close>

definition stride :: "Ladder \<Rightarrow> Order \<Rightarrow> f64 \<Rightarrow> time \<Rightarrow> f64 \<times> Ladder" where
  "stride l ord target now =
     (if l_Stride l = StrideByTick then (l_Step l, l) else
      let distance = \<bar>target - o_LimitPrice ord\<bar>;
          (life, l) = lifeOf l ord now;
          left = l_Patience l - (now - placed life);
          steps = go_div left (l_Every l);
          steps = (if steps < 1 then 1 else steps);
          st = distance / f64_of_int steps
      in (if st > l_Step l then st else l_Step l, l))"

definition refusesTheFloor :: "env \<Rightarrow> Order \<Rightarrow> f64 \<Rightarrow> (string \<rightharpoonup> Quote) \<Rightarrow> bool" where
  "refusesTheFloor e ord floor' quotes =
     (case e_MinEdge e of
        None \<Rightarrow> False
      | Some answer \<Rightarrow>
          if \<not> OnlyOpens ord then False else
          (case EdgeAt ord floor' quotes of
             None \<Rightarrow> False
           | Some edge \<Rightarrow> (case answer of Err err \<Rightarrow> False | Ok least \<Rightarrow> \<not> edge \<ge> least)))"

definition wroteDown :: "env \<Rightarrow> ExecutionStep \<Rightarrow> pass \<Rightarrow> pass" where
  "wroteDown e x s = (if e_note e = None then s else did (AppendExecutionStep x) s)"

definition cancelled_step :: "env \<Rightarrow> Order \<Rightarrow> ExecutionStep" where
  "cancelled_step e ord = \<lparr>x_OrderRef = o_ID ord, x_At = e_now e, x_Action = ''cancelled'',
     x_Was = o_LimitPrice ord, x_Became = None, x_Showing = None, x_Floor = None,
     x_Quantity = None, x_ReplacedBy = None\<rparr>"

definition walked_step :: "env \<Rightarrow> Order \<Rightarrow> f64 \<Rightarrow> f64 \<Rightarrow> f64 \<Rightarrow> string \<Rightarrow> ExecutionStep" where
  "walked_step e ord next' showing floor' replacement =
     \<lparr>x_OrderRef = o_ID ord, x_At = e_now e, x_Action = ''walked'',
      x_Was = o_LimitPrice ord, x_Became = Some next', x_Showing = Some showing,
      x_Floor = Some floor', x_Quantity = None,
      x_ReplacedBy = (if replacement \<noteq> [] then Some replacement else None)\<rparr>"

text \<open>The price an order is walked toward: what the book shows, but never past the floor.\<close>

definition target_of :: "f64 \<Rightarrow> f64 \<Rightarrow> f64" where
  "target_of showing floor' = (if worseThan showing floor' then floor' else showing)"

definition walk :: "env \<Rightarrow> Order \<Rightarrow> pass \<Rightarrow> pass" where
  "walk e ord s =
     (case e_quotes e (s_done s) (map o_Symbol (o_Legs ord)) of
        Err err \<Rightarrow> s
      | Ok quotes \<Rightarrow>
          (case Showing ord quotes of
             None \<Rightarrow> s
           | Some showing \<Rightarrow>
               if \<not> worseThan showing (o_LimitPrice ord) then s else
               (case Reservation ord of
                  None \<Rightarrow> s
                | Some floor' \<Rightarrow>
                    if refusesTheFloor e ord floor' quotes then s else
                    let target = target_of showing floor';
                        (step, l) = stride (s_ladder s) ord target (e_now e);
                        next' = Toward (o_LimitPrice ord) target step;
                        s = s\<lparr>s_ladder := l\<rparr> in
                    if next' = o_LimitPrice ord then s else
                    let name = NameCarrying ord (e_now e);
                        answer = e_replace e (s_done s) (o_ID ord) next' name;
                        verb = ReplaceOrder (o_ID ord) next' name in
                    (case answer of
                       Err err \<Rightarrow> did (verb None) s
                     | Ok replacement \<Rightarrow>
                         wroteDown e (walked_step e ord next' showing floor' replacement)
                           ((did (verb (Some replacement)) s)
                             \<lparr>s_ladder := carried (s_ladder s) (o_ID ord) replacement\<rparr>)))))"

subsection \<open>Reporting a fill\<close>

fun named_legs :: "OrderLeg list \<Rightarrow> string \<times> string \<times> f64 list \<Rightarrow> (string \<times> string \<times> f64 list) option" where
  "named_legs [] acc = Some acc"
| "named_legs (leg # legs) (underlying, kind, strikes') =
     (case ContractFrom (o_Symbol leg) of
        None \<Rightarrow> None
      | Some c \<Rightarrow>
          if underlying = []
          then named_legs legs (root_of (o_Symbol leg), c_Type c, strikes' @ [c_Strike c])
          else named_legs legs (underlying, kind, strikes' @ [c_Strike c]))"

definition whatFilled :: "Order \<Rightarrow> fill_line" where
  "whatFilled ord =
     (if o_Legs ord = [] then Bare (o_FilledQuantity ord) (o_FilledPrice ord) else
      (case named_legs (o_Legs ord) ([], [], []) of
         None \<Rightarrow> Bare (o_FilledQuantity ord) (o_FilledPrice ord)
       | Some (underlying, kind, strikes') \<Rightarrow>
           let price = o_FilledPrice ord;
               money = (if price > 0 then ''debit'' else ''credit'');
               price = (if price < 0 then - price else price)
           in Named underlying strikes' kind (o_FilledQuantity ord) money price))"

definition filled_step :: "env \<Rightarrow> Order \<Rightarrow> ExecutionStep" where
  "filled_step e ord = \<lparr>x_OrderRef = o_ID ord, x_At = e_now e, x_Action = ''filled'',
     x_Was = o_LimitPrice ord, x_Became = Some (o_FilledPrice ord), x_Showing = None,
     x_Floor = None, x_Quantity = Some (o_FilledQuantity ord), x_ReplacedBy = None\<rparr>"

definition report :: "env \<Rightarrow> Order \<Rightarrow> pass \<Rightarrow> pass" where
  "report e ord s =
     (case e_note e of
        None \<Rightarrow> s
      | Some note \<Rightarrow>
          let answer = note (s_done s) (filled_step e ord);
              s = did (NoteFill (filled_step e ord)) s in
          (case answer of
             Err err \<Rightarrow> s
           | Ok first \<Rightarrow>
               if \<not> first \<or> \<not> e_Say e then s else
               (case o_FilledAt ord of
                  None \<Rightarrow> s
                | Some at' \<Rightarrow>
                    if \<not> at' > l_watching (s_ladder s) then s
                    else did (Say (whatFilled ord)) s)))"

subsection \<open>The checks that cancel\<close>

text \<open>Each answers whether the order was taken out of the ladder's hands.\<close>

definition wake :: "env \<Rightarrow> told \<Rightarrow> pass \<Rightarrow> pass" where
  "wake e m s = (if e_Wake e then did (Wake m) s else s)"

definition try_cancel :: "env \<Rightarrow> Order \<Rightarrow> pass \<Rightarrow> bool \<times> pass" where
  "try_cancel e ord s =
     (case e_cancel e (s_done s) (o_ID ord) of
        Err err \<Rightarrow> (False, did (CancelOrder (o_ID ord) False) s)
      | Ok u \<Rightarrow> (True, did (CancelOrder (o_ID ord) True) s))"

definition unbounded :: "env \<Rightarrow> Order \<Rightarrow> pass \<Rightarrow> bool \<times> pass" where
  "unbounded e ord s =
     (if \<not> Unbounded ord then (False, s) else
      (case try_cancel e ord s of
         (False, s) \<Rightarrow> (False, s)
       | (True, s) \<Rightarrow> (True, wake e (NoLimitToTheLoss (o_ID ord)) (wroteDown e (cancelled_step e ord) s))))"

definition too_large :: "Order \<Rightarrow> f64 \<Rightarrow> bool" where
  "too_large ord ceiling' =
     (case WorstCase ord of
        None \<Rightarrow> False
      | Some worst \<Rightarrow>
          if - worst \<le> ceiling' then False else
          let resting = o_Quantity ord - o_FilledQuantity ord
          in \<not> (resting > 1 \<and> - worst - ceiling' < - worst / resting))"

definition tooBig :: "env \<Rightarrow> Order \<Rightarrow> f64 \<Rightarrow> pass \<Rightarrow> bool \<times> pass" where
  "tooBig e ord ceiling' s =
     (if \<not> too_large ord ceiling' then (False, s) else
      let worst = (case WorstCase ord of None \<Rightarrow> 0 | Some w \<Rightarrow> w) in
      (case try_cancel e ord s of
         (False, s) \<Rightarrow> (False, s)
       | (True, s) \<Rightarrow>
           (True, wake e (TooLarge (o_ID ord) (- worst) ceiling') (wroteDown e (cancelled_step e ord) s))))"

definition overBook :: "env \<Rightarrow> Order \<Rightarrow> f64 option \<Rightarrow> f64 \<Rightarrow> f64 \<Rightarrow> pass \<Rightarrow> pass" where
  "overBook e ord held adds allowed s =
     (case try_cancel e ord s of
        (False, s) \<Rightarrow> s
      | (True, s) \<Rightarrow>
          wake e (BookIsFull (o_ID ord) held adds allowed) (wroteDown e (cancelled_step e ord) s))"

text \<open>
  Whether an order takes the book past its limit by a whole set or more. What is at risk is
  \<open>None\<close> when the code has it as positive infinity.
\<close>

definition over_book :: "f64 option \<Rightarrow> f64 \<Rightarrow> f64 \<Rightarrow> f64 \<Rightarrow> bool" where
  "over_book atRisk worst book resting =
     (case atRisk of
        None \<Rightarrow> True
      | Some r \<Rightarrow>
          let over = r - worst - book in over > 0 \<and> (resting \<le> 1 \<or> over \<ge> - worst / resting))"

subsection \<open>One pass\<close>

record limits =
  m_ceiling :: "f64 option"
  m_book :: "f64 option"
  m_fused :: bool

definition pass_limits :: "env \<Rightarrow> limits \<times> f64 option" where
  "pass_limits e =
     (let c = (case e_Ceiling e of Some (Ok limit) \<Rightarrow> Some limit | _ \<Rightarrow> None);
          (b, r) = (case e_Book e of
             Some (Ok limit) \<Rightarrow>
               (case e_positions e of
                  Err err \<Rightarrow> (None, Some 0)
                | Ok positions \<Rightarrow>
                    (Some limit, if WithoutAFloor positions \<noteq> [] then None else Some (AtRisk (e_it e) positions)))
           | _ \<Rightarrow> (None, Some 0));
          f = (case e_Fuse e of Some (Ok (over, said)) \<Rightarrow> over | _ \<Rightarrow> False)
      in (\<lparr>m_ceiling = c, m_book = b, m_fused = f\<rparr>, r))"

text \<open>What the fuse and patience do with an order; the session is told once, after the pass.\<close>

definition cancel_and_tell :: "env \<Rightarrow> Order \<Rightarrow> pass \<Rightarrow> pass" where
  "cancel_and_tell e ord s =
     (case try_cancel e ord s of
        (False, s) \<Rightarrow> s
      | (True, s) \<Rightarrow>
          let s = wroteDown e (cancelled_step e ord) (s\<lparr>s_ladder := forget (o_ID ord) (s_ladder s)\<rparr>)
          in s\<lparr>s_cancelled := s_cancelled s @ [ord]\<rparr>)"

text \<open>The checks in the code's order; \<open>True\<close> is the \<open>continue\<close> of the loop.\<close>

definition ceiling_check :: "env \<Rightarrow> limits \<Rightarrow> Order \<Rightarrow> pass \<Rightarrow> bool \<times> pass" where
  "ceiling_check e m ord s =
     (case m_ceiling m of None \<Rightarrow> (False, s) | Some limit \<Rightarrow> tooBig e ord limit s)"

definition book_check :: "env \<Rightarrow> limits \<Rightarrow> Order \<Rightarrow> pass \<Rightarrow> bool \<times> pass" where
  "book_check e m ord s =
     (case m_book m of
        None \<Rightarrow> (False, s)
      | Some book \<Rightarrow>
          (case WorstCase ord of
             None \<Rightarrow> (False, s)
           | Some worst \<Rightarrow>
               let resting = o_Quantity ord - o_FilledQuantity ord in
               if over_book (s_atRisk s) worst book resting
               then (True, overBook e ord (s_atRisk s) (- worst) book s)
               else (False, s\<lparr>s_atRisk := map_option (\<lambda>r. r - worst) (s_atRisk s)\<rparr>)))"

definition patience_or_walk :: "env \<Rightarrow> Order \<Rightarrow> pass \<Rightarrow> pass" where
  "patience_or_walk e ord s =
     (let now = e_now e;
          (life, l) = lifeOf (s_ladder s) ord now;
          s = s\<lparr>s_ladder := l\<rparr> in
      if movedOn life = 0 \<and> now - placed life < l_Every l then s
      else if movedOn life = l_passes l then s
      else if now - placed life > l_Patience l then cancel_and_tell e ord s
      else walk e ord s)"

definition then_check :: "bool \<times> pass \<Rightarrow> (pass \<Rightarrow> bool \<times> pass) \<Rightarrow> bool \<times> pass" where
  "then_check r f = (if fst r then r else f (snd r))"

definition checks :: "env \<Rightarrow> limits \<Rightarrow> Order \<Rightarrow> pass \<Rightarrow> bool \<times> pass" where
  "checks e m ord s =
     (if OnlyCloses ord then (False, s)
      else then_check (then_check (unbounded e ord s) (ceiling_check e m ord)) (book_check e m ord))"

definition reported :: "env \<Rightarrow> Order \<Rightarrow> pass \<Rightarrow> pass" where
  "reported e ord s =
     (if o_Status ord = ''filled'' \<or> o_FilledQuantity ord > 0 then report e ord s else s)"

definition visit :: "env \<Rightarrow> limits \<Rightarrow> pass \<Rightarrow> Order \<Rightarrow> pass" where
  "visit e m s ord =
     (let s = reported e ord s in
      if \<not> working ord then s
      else if m_fused m \<and> \<not> OnlyCloses ord then cancel_and_tell e ord s
      else (case checks e m ord s of (continue, s) \<Rightarrow>
              if continue then s else patience_or_walk e ord s))"

definition step :: "env \<Rightarrow> Ladder \<Rightarrow> Ladder \<times> effect list" where
  "step e l0 =
     (let l = l0\<lparr>l_passes := l_passes l0 + 1\<rparr> in
      (case e_orders e (l_Reads l) of
         Err err \<Rightarrow> (l, [])
       | Ok orders \<Rightarrow>
           let (m, r) = pass_limits e;
               l = forgetWhatIsDone l orders (e_now e);
               s = foldl (visit e m) \<lparr>s_ladder = l, s_done = [], s_atRisk = r, s_cancelled = []\<rparr> orders;
               s = (if s_cancelled s \<noteq> [] then wake e (DidNotHappen (s_cancelled s)) s else s)
           in (s_ladder s, s_done s)))"

text \<open>What \<open>Run\<close> refuses to start with, what it fills in, and one pass per tick.\<close>

datatype refusal = NoBroker | NoEvery | NoStep | NoPatience | NoClock

definition Run_start :: "bool \<Rightarrow> time option \<Rightarrow> Ladder \<Rightarrow> (refusal, Ladder) result" where
  "Run_start broker clock l =
     (if \<not> broker then Err NoBroker
      else if l_Every l \<le> 0 then Err NoEvery
      else if l_Step l \<le> 0 then Err NoStep
      else if l_Patience l \<le> 0 then Err NoPatience
      else (case clock of
              None \<Rightarrow> Err NoClock
            | Some now \<Rightarrow> Ok (l\<lparr>l_Reads := (if l_Reads l \<le> 0 then defaultReads else l_Reads l),
                                l_watching := now\<rparr>)))"

fun Run_ticks :: "env list \<Rightarrow> Ladder \<Rightarrow> Ladder \<times> effect list list" where
  "Run_ticks [] l = (l, [])"
| "Run_ticks (e # es) l =
     (case step e l of (l, done) \<Rightarrow> (case Run_ticks es l of (l, rest) \<Rightarrow> (l, done # rest)))"

subsection \<open>What each operation leaves alone\<close>

fun is_verb :: "effect \<Rightarrow> bool" where
  "is_verb (CancelOrder i ok) = True"
| "is_verb (ReplaceOrder i p n r) = True"
| "is_verb _ = False"

definition verbs :: "pass \<Rightarrow> effect list" where
  "verbs s = filter is_verb (s_done s)"

lemma did_simps [simp]:
  "s_done (did x s) = s_done s @ [x]" "s_ladder (did x s) = s_ladder s"
  "s_atRisk (did x s) = s_atRisk s" "s_cancelled (did x s) = s_cancelled s"
  "verbs (did x s) = verbs s @ (if is_verb x then [x] else [])"
  by (simp_all add: did_def verbs_def)

lemma verbs_update [simp]:
  "verbs (s\<lparr>s_ladder := l\<rparr>) = verbs s" "verbs (s\<lparr>s_atRisk := r\<rparr>) = verbs s"
  "verbs (s\<lparr>s_cancelled := c\<rparr>) = verbs s"
  by (simp_all add: verbs_def)

lemma wroteDown_simps [simp]:
  "s_ladder (wroteDown e x s) = s_ladder s" "s_atRisk (wroteDown e x s) = s_atRisk s"
  "s_cancelled (wroteDown e x s) = s_cancelled s" "verbs (wroteDown e x s) = verbs s"
  by (simp_all add: wroteDown_def)

lemma wake_simps [simp]:
  "s_ladder (wake e w s) = s_ladder s" "s_atRisk (wake e w s) = s_atRisk s"
  "s_cancelled (wake e w s) = s_cancelled s" "verbs (wake e w s) = verbs s"
  by (simp_all add: wake_def)

lemma report_simps [simp]:
  "s_ladder (report e ord s) = s_ladder s" "s_atRisk (report e ord s) = s_atRisk s"
  "s_cancelled (report e ord s) = s_cancelled s" "verbs (report e ord s) = verbs s"
  by (simp_all add: report_def Let_def split: option.splits sum.splits)

definition cancel_ok :: "env \<Rightarrow> Order \<Rightarrow> pass \<Rightarrow> bool" where
  "cancel_ok e ord s \<longleftrightarrow> (case e_cancel e (s_done s) (o_ID ord) of Err x \<Rightarrow> False | Ok u \<Rightarrow> True)"

lemma try_cancel_eq:
  "try_cancel e ord s = (cancel_ok e ord s, did (CancelOrder (o_ID ord) (cancel_ok e ord s)) s)"
  by (simp add: try_cancel_def cancel_ok_def split: sum.splits)

lemma unbounded_simps [simp]:
  "fst (unbounded e ord s) \<longleftrightarrow> Unbounded ord \<and> cancel_ok e ord s"
  "s_ladder (snd (unbounded e ord s)) = s_ladder s" "s_atRisk (snd (unbounded e ord s)) = s_atRisk s"
  "verbs (snd (unbounded e ord s)) =
     verbs s @ (if Unbounded ord then [CancelOrder (o_ID ord) (cancel_ok e ord s)] else [])"
  by (simp_all add: unbounded_def try_cancel_eq split: bool.splits)

lemma tooBig_simps [simp]:
  "fst (tooBig e ord c s) \<longleftrightarrow> too_large ord c \<and> cancel_ok e ord s"
  "s_ladder (snd (tooBig e ord c s)) = s_ladder s" "s_atRisk (snd (tooBig e ord c s)) = s_atRisk s"
  "verbs (snd (tooBig e ord c s)) =
     verbs s @ (if too_large ord c then [CancelOrder (o_ID ord) (cancel_ok e ord s)] else [])"
  by (simp_all add: tooBig_def try_cancel_eq Let_def split: bool.splits)

lemma overBook_simps [simp]:
  "s_ladder (overBook e ord h a b s) = s_ladder s" "s_atRisk (overBook e ord h a b s) = s_atRisk s"
  "verbs (overBook e ord h a b s) = verbs s @ [CancelOrder (o_ID ord) (cancel_ok e ord s)]"
  by (simp_all add: overBook_def try_cancel_eq split: bool.splits)

lemma cancel_and_tell_simps [simp]:
  "s_ladder (cancel_and_tell e ord s) =
     (if cancel_ok e ord s then forget (o_ID ord) (s_ladder s) else s_ladder s)"
  "s_atRisk (cancel_and_tell e ord s) = s_atRisk s"
  "verbs (cancel_and_tell e ord s) = verbs s @ [CancelOrder (o_ID ord) (cancel_ok e ord s)]"
  by (simp_all add: cancel_and_tell_def try_cancel_eq Let_def split: bool.splits)

lemma reported_simps [simp]:
  "s_ladder (reported e ord s) = s_ladder s" "s_atRisk (reported e ord s) = s_atRisk s"
  "s_cancelled (reported e ord s) = s_cancelled s" "verbs (reported e ord s) = verbs s"
  by (simp_all add: reported_def)

lemma ceiling_check_simps [simp]:
  "fst (ceiling_check e m ord s) \<longleftrightarrow>
     (\<exists>c. m_ceiling m = Some c \<and> too_large ord c \<and> cancel_ok e ord s)"
  "s_ladder (snd (ceiling_check e m ord s)) = s_ladder s"
  "s_atRisk (snd (ceiling_check e m ord s)) = s_atRisk s"
  "verbs (snd (ceiling_check e m ord s)) = verbs s @
     (case m_ceiling m of None \<Rightarrow> []
      | Some c \<Rightarrow> if too_large ord c then [CancelOrder (o_ID ord) (cancel_ok e ord s)] else [])"
  by (auto simp: ceiling_check_def split: option.splits)

text \<open>Whether the book check takes the order, and what it leaves at risk when it does not.\<close>

definition book_full :: "limits \<Rightarrow> Order \<Rightarrow> pass \<Rightarrow> bool" where
  "book_full m ord s \<longleftrightarrow> (case (m_book m, WorstCase ord) of
     (Some book, Some worst) \<Rightarrow> over_book (s_atRisk s) worst book (o_Quantity ord - o_FilledQuantity ord)
   | _ \<Rightarrow> False)"

lemma book_check_simps [simp]:
  "fst (book_check e m ord s) \<longleftrightarrow> book_full m ord s"
  "s_ladder (snd (book_check e m ord s)) = s_ladder s"
  "verbs (snd (book_check e m ord s)) = verbs s @
     (if book_full m ord s then [CancelOrder (o_ID ord) (cancel_ok e ord s)] else [])"
  "s_atRisk (snd (book_check e m ord s)) =
     (case (m_book m, WorstCase ord) of
        (Some book, Some worst) \<Rightarrow>
          if book_full m ord s then s_atRisk s else map_option (\<lambda>r. r - worst) (s_atRisk s)
      | _ \<Rightarrow> s_atRisk s)"
  by (auto simp: book_check_def book_full_def Let_def split: option.splits)

lemma book_full_cong: "s_atRisk s = s_atRisk t \<Longrightarrow> book_full m ord s = book_full m ord t"
  by (simp add: book_full_def split: option.splits)

lemma checks_ladder [simp]: "s_ladder (snd (checks e m ord s)) = s_ladder s"
  by (simp add: checks_def then_check_def)

lemma checks_closing: "OnlyCloses ord \<Longrightarrow> checks e m ord s = (False, s)"
  by (simp add: checks_def)

definition refused :: "Order \<Rightarrow> effect list \<Rightarrow> bool" where
  "refused ord new \<longleftrightarrow> CancelOrder (o_ID ord) False \<in> set new"

lemma checks_verbs:
  "\<exists>new. verbs (snd (checks e m ord s)) = verbs s @ new \<and>
     set new \<subseteq> range (CancelOrder (o_ID ord)) \<and> set (butlast new) \<subseteq> {CancelOrder (o_ID ord) False} \<and>
     (OnlyCloses ord \<longrightarrow> new = []) \<and>
     (\<not> fst (checks e m ord s) \<longrightarrow> set new \<subseteq> {CancelOrder (o_ID ord) False}) \<and>
     (fst (checks e m ord s) \<longrightarrow> new \<noteq> []) \<and>
     (\<not> fst (checks e m ord s) \<and> \<not> OnlyCloses ord \<longrightarrow>
        (Unbounded ord \<longrightarrow> refused ord new) \<and>
        (\<forall>c. m_ceiling m = Some c \<and> too_large ord c \<longrightarrow> refused ord new) \<and>
        \<not> book_full m ord s)"
proof (cases "OnlyCloses ord")
  case False
  let ?c = "\<lambda>s. CancelOrder (o_ID ord) (cancel_ok e ord s)"
  let ?s1 = "snd (unbounded e ord s)"
  let ?s2 = "snd (ceiling_check e m ord ?s1)"
  have full: "book_full m ord ?s2 = book_full m ord s" by (rule book_full_cong) simp
  show ?thesis
    using False full
    by (cases "m_ceiling m"; cases "Unbounded ord"; cases "cancel_ok e ord s"; cases "cancel_ok e ord ?s1")
      (auto simp: checks_def then_check_def refused_def)
qed (simp add: checks_def)

lemma checks_atRisk:
  "s_atRisk (snd (checks e m ord s)) = s_atRisk s \<or>
   (\<exists>book worst. m_book m = Some book \<and> WorstCase ord = Some worst \<and> \<not> fst (checks e m ord s) \<and>
      \<not> book_full m ord s \<and> s_atRisk (snd (checks e m ord s)) = map_option (\<lambda>r. r - worst) (s_atRisk s))"
  using book_full_cong [of "snd (ceiling_check e m ord (snd (unbounded e ord s)))" s m ord]
    book_full_cong [of "snd (unbounded e ord s)" s m ord]
  by (auto simp: checks_def then_check_def split: option.splits)

subsection \<open>The life of a chain\<close>

lemma lifeOf_life: "fst (lifeOf l ord now) = (case l_ages l (o_ID ord) of Some k \<Rightarrow> k
    | None \<Rightarrow> \<lparr>placed = (case o_SubmittedAt ord of Some t \<Rightarrow> t | None \<Rightarrow> now), movedOn = 0\<rparr>)"
  by (simp add: lifeOf_def Let_def split: option.splits)

lemma lifeOf_ladder [simp]:
  "l_passes (snd (lifeOf l ord now)) = l_passes l" "l_Every (snd (lifeOf l ord now)) = l_Every l"
  "l_Step (snd (lifeOf l ord now)) = l_Step l" "l_Patience (snd (lifeOf l ord now)) = l_Patience l"
  "l_Stride (snd (lifeOf l ord now)) = l_Stride l" "l_watching (snd (lifeOf l ord now)) = l_watching l"
  "l_Reads (snd (lifeOf l ord now)) = l_Reads l"
  "l_ages (snd (lifeOf l ord now)) = (l_ages l)(o_ID ord \<mapsto> fst (lifeOf l ord now))"
  by (auto simp: lifeOf_def Let_def split: option.splits)

lemma lifeOf_again [simp]: "lifeOf (snd (lifeOf l ord now)) ord now = lifeOf l ord now"
  by (auto simp: lifeOf_def Let_def split: option.splits)

lemma forget_simps [simp]:
  "l_passes (forget i l) = l_passes l" "l_Every (forget i l) = l_Every l" "l_Step (forget i l) = l_Step l"
  "l_Patience (forget i l) = l_Patience l" "l_Stride (forget i l) = l_Stride l"
  "l_watching (forget i l) = l_watching l" "l_Reads (forget i l) = l_Reads l"
  "l_ages (forget i l) = (l_ages l)(i := None)"
  by (simp_all add: forget_def)

lemma carried_simps [simp]:
  "l_passes (carried l i j) = l_passes l" "l_Every (carried l i j) = l_Every l"
  "l_Step (carried l i j) = l_Step l" "l_Patience (carried l i j) = l_Patience l"
  "l_Stride (carried l i j) = l_Stride l" "l_watching (carried l i j) = l_watching l"
  "l_Reads (carried l i j) = l_Reads l"
  by (simp_all add: carried_def Let_def)

lemma carried_ages:
  assumes "l_ages l i = Some life"
  shows "l_ages (carried l i j) =
    (if j = [] then (l_ages l)(i := None) else ((l_ages l)(i := None))(j \<mapsto> life\<lparr>movedOn := l_passes l\<rparr>))"
  using assms by (simp add: carried_def Let_def)

lemma stride_ladder:
  "snd (stride l ord t now) = (if l_Stride l = StrideByTick then l else snd (lifeOf l ord now))"
  by (simp add: stride_def Let_def case_prod_unfold)

lemma stride_ge: "l_Step l \<le> fst (stride l ord t now)"
  by (simp add: stride_def Let_def case_prod_unfold less_imp_le)

subsection \<open>What a walk sends\<close>

text \<open>
  A price the ladder concedes: the book shows worse than the order asks, the order's name states
  a floor, that floor still pays what the entry rule demands, and the price is one step toward
  the book or the floor, whichever is nearer.
\<close>

definition conceded :: "env \<Rightarrow> f64 \<Rightarrow> Order \<Rightarrow> f64 \<Rightarrow> bool" where
  "conceded e tick ord p \<longleftrightarrow> (\<exists>sent quotes showing floor' st.
     e_quotes e sent (map o_Symbol (o_Legs ord)) = Ok quotes \<and> Showing ord quotes = Some showing \<and> o_LimitPrice ord < showing \<and>
     Reservation ord = Some floor' \<and> \<not> refusesTheFloor e ord floor' quotes \<and>
     tick \<le> st \<and> p = Toward (o_LimitPrice ord) (target_of showing floor') st \<and>
     p \<noteq> o_LimitPrice ord)"

lemma walk_cases:
  assumes "l_ages (s_ladder s) (o_ID ord) = Some life"
  obtains
    (stays) "verbs (walk e ord s) = verbs s" "s_ladder (walk e ord s) = s_ladder s"
  | (refused) p where "conceded e (l_Step (s_ladder s)) ord p" "s_ladder (walk e ord s) = s_ladder s"
      "verbs (walk e ord s) = verbs s @ [ReplaceOrder (o_ID ord) p (NameCarrying ord (e_now e)) None]"
  | (moved) p new sent where "e_replace e sent (o_ID ord) p (NameCarrying ord (e_now e)) = Ok new" "conceded e (l_Step (s_ladder s)) ord p"
      "s_ladder (walk e ord s) = carried (s_ladder s) (o_ID ord) new"
      "verbs (walk e ord s) = verbs s @ [ReplaceOrder (o_ID ord) p (NameCarrying ord (e_now e)) (Some new)]"
proof (cases "verbs (walk e ord s) = verbs s \<and> s_ladder (walk e ord s) = s_ladder s")
  case True
  then show ?thesis using stays by blast
next
  case False
  have same: "snd (lifeOf (s_ladder s) ord (e_now e)) = s_ladder s"
    using assms by (simp add: lifeOf_def)
  obtain quotes where q: "e_quotes e (s_done s) (map o_Symbol (o_Legs ord)) = Ok quotes"
    using False by (auto simp: walk_def split: sum.splits)
  obtain showing where sh: "Showing ord quotes = Some showing" "o_LimitPrice ord < showing"
    using False q by (auto simp: walk_def worseThan_def split: option.splits if_splits)
  obtain floor' where fl: "Reservation ord = Some floor'" "\<not> refusesTheFloor e ord floor' quotes"
    using False q sh by (auto simp: walk_def worseThan_def split: option.splits if_splits)
  define st where "st = fst (stride (s_ladder s) ord (target_of showing floor') (e_now e))"
  define p where "p = Toward (o_LimitPrice ord) (target_of showing floor') st"
  have l: "stride (s_ladder s) ord (target_of showing floor') (e_now e) = (st, s_ladder s)"
    by (simp add: st_def prod_eq_iff stride_ladder same)
  have ne: "p \<noteq> o_LimitPrice ord"
    using False q sh fl by (auto simp: walk_def worseThan_def Let_def l p_def)
  have c: "conceded e (l_Step (s_ladder s)) ord p"
    unfolding conceded_def using q sh fl ne stride_ge [of "s_ladder s" ord _ "e_now e"] p_def st_def by blast
  show ?thesis
  proof (cases "e_replace e (s_done s) (o_ID ord) p (NameCarrying ord (e_now e))")
    case (Inl err)
    then show ?thesis
      using c ne by (intro refused) (simp_all add: walk_def q sh fl worseThan_def Let_def l p_def)
  next
    case (Inr new)
    show ?thesis
      using Inr c ne by (intro moved [OF Inr]) (simp_all add: walk_def q sh fl worseThan_def Let_def l p_def)
  qed
qed

lemma walk_atRisk [simp]: "s_atRisk (walk e ord s) = s_atRisk s" "s_cancelled (walk e ord s) = s_cancelled s"
  by (auto simp: walk_def Let_def split: sum.splits option.splits prod.splits)

subsection \<open>What a visit does\<close>

definition life_at :: "env \<Rightarrow> Ladder \<Rightarrow> Order \<Rightarrow> orderAge" where
  "life_at e l ord = fst (lifeOf l ord (e_now e))"

text \<open>An order whose interval has passed: the two early \<open>continue\<close>s are behind it.\<close>

definition due :: "env \<Rightarrow> Ladder \<Rightarrow> Order \<Rightarrow> bool" where
  "due e l ord \<longleftrightarrow> \<not> (movedOn (life_at e l ord) = 0 \<and> e_now e - placed (life_at e l ord) < l_Every l) \<and>
     movedOn (life_at e l ord) \<noteq> l_passes l"

definition out_of_patience :: "env \<Rightarrow> Ladder \<Rightarrow> Order \<Rightarrow> bool" where
  "out_of_patience e l ord \<longleftrightarrow> l_Patience l < e_now e - placed (life_at e l ord)"

lemma patience_or_walk_eq:
  "patience_or_walk e ord s =
     (let s' = s\<lparr>s_ladder := snd (lifeOf (s_ladder s) ord (e_now e))\<rparr> in
      if \<not> due e (s_ladder s) ord then s'
      else if out_of_patience e (s_ladder s) ord then cancel_and_tell e ord s'
      else walk e ord s')"
  by (auto simp: patience_or_walk_def due_def out_of_patience_def life_at_def Let_def case_prod_unfold)

definition config :: "Ladder \<Rightarrow> Ladder" where
  "config l = l\<lparr>l_ages := Map.empty\<rparr>"

lemma config_simps [simp]:
  "config (forget i l) = config l" "config (snd (lifeOf l ord now)) = config l"
  "config (carried l i j) = config l" "config (l\<lparr>l_ages := a\<rparr>) = config l"
  by (auto simp: config_def forget_def lifeOf_def carried_def Let_def split: option.splits)

lemma config_fields:
  assumes "config l = config l'"
  shows "l_Every l = l_Every l'" "l_Step l = l_Step l'" "l_Patience l = l_Patience l'"
    "l_passes l = l_passes l'" "l_watching l = l_watching l'" "l_Stride l = l_Stride l'"
    "l_Reads l = l_Reads l'"
  using assms by (cases l; cases l'; simp add: config_def)+

text \<open>What one visit may add to what the ladder sends, and when.\<close>

definition visit_sends :: "env \<Rightarrow> limits \<Rightarrow> pass \<Rightarrow> Order \<Rightarrow> effect list \<Rightarrow> bool" where
  "visit_sends e m s ord new \<longleftrightarrow>
     set (butlast new) \<subseteq> {CancelOrder (o_ID ord) False} \<and>
     (\<forall>v \<in> set new. working ord \<and>
        (case v of
           CancelOrder i ok \<Rightarrow> i = o_ID ord \<and> (OnlyCloses ord \<longrightarrow> out_of_patience e (s_ladder s) ord)
         | ReplaceOrder i p n r \<Rightarrow> i = o_ID ord \<and> n = NameCarrying ord (e_now e) \<and>
             conceded e (l_Step (s_ladder s)) ord p \<and>
             due e (s_ladder s) ord \<and> \<not> out_of_patience e (s_ladder s) ord \<and>
             (OnlyCloses ord \<or> \<not> m_fused m \<and> (Unbounded ord \<longrightarrow> refused ord new) \<and>
               (\<forall>c. m_ceiling m = Some c \<and> too_large ord c \<longrightarrow> refused ord new) \<and>
               \<not> book_full m ord s)
         | _ \<Rightarrow> False))"

lemma visit_verbs:
  obtains new where "verbs (visit e m s ord) = verbs s @ new" "visit_sends e m s ord new"
proof -
  have "\<exists>new. verbs (visit e m s ord) = verbs s @ new \<and> visit_sends e m s ord new"
  proof (cases "\<not> working ord \<or> m_fused m \<and> \<not> OnlyCloses ord")
    case True
    then show ?thesis by (auto simp: visit_def Let_def visit_sends_def)
  next
    case False': False
    then have False: "working ord" "\<not> (m_fused m \<and> \<not> OnlyCloses ord)" by auto
    define r where "r = reported e ord s"
    obtain new where new: "verbs (snd (checks e m ord r)) = verbs s @ new"
      "set new \<subseteq> range (CancelOrder (o_ID ord))" "set (butlast new) \<subseteq> {CancelOrder (o_ID ord) False}"
      "OnlyCloses ord \<Longrightarrow> new = []"
      "\<not> fst (checks e m ord r) \<Longrightarrow> set new \<subseteq> {CancelOrder (o_ID ord) False}"
      "\<not> fst (checks e m ord r) \<Longrightarrow> \<not> OnlyCloses ord \<Longrightarrow>
        (Unbounded ord \<longrightarrow> refused ord new) \<and> \<not> book_full m ord r \<and>
        (\<forall>c. m_ceiling m = Some c \<and> too_large ord c \<longrightarrow> refused ord new)"
      using checks_verbs [of e m ord r] by (auto simp: r_def)
    have cancels: "visit_sends e m s ord new"
      using new False by (fastforce simp: visit_sends_def)
    show ?thesis
    proof (cases "fst (checks e m ord r)")
      case True
      then have "visit e m s ord = snd (checks e m ord r)"
        using False unfolding visit_def r_def [symmetric] by (auto simp: case_prod_unfold Let_def)
      then show ?thesis using new(1) cancels by auto
    next
      case go: False
      let ?s = "(snd (checks e m ord r))\<lparr>s_ladder := snd (lifeOf (s_ladder s) ord (e_now e))\<rparr>"
      have v: "visit e m s ord = (if \<not> due e (s_ladder s) ord then ?s
          else if out_of_patience e (s_ladder s) ord then cancel_and_tell e ord ?s else walk e ord ?s)"
        using False go unfolding visit_def r_def [symmetric]
        by (auto simp: case_prod_unfold patience_or_walk_eq Let_def) (simp_all add: r_def)
      have full: "book_full m ord r = book_full m ord s" by (rule book_full_cong) (simp add: r_def)
      consider "\<not> due e (s_ladder s) ord" | "due e (s_ladder s) ord" "out_of_patience e (s_ladder s) ord"
        | "due e (s_ladder s) ord" "\<not> out_of_patience e (s_ladder s) ord" by blast
      then show ?thesis
      proof cases
        case 1
        then show ?thesis using v new(1) cancels by auto
      next
        case 2
        then show ?thesis using v new go False
          by (intro exI [of _ "new @ [CancelOrder (o_ID ord) (cancel_ok e ord ?s)]"])
            (auto simp: visit_sends_def)
      next
        case 3
        have some: "l_ages (s_ladder ?s) (o_ID ord) = Some (life_at e (s_ladder s) ord)"
          by (simp add: life_at_def)
        have sends: "visit_sends e m s ord (new @ [ReplaceOrder (o_ID ord) p (NameCarrying ord (e_now e)) ans])"
          if "conceded e (l_Step (s_ladder s)) ord p" for p ans
        proof (cases "OnlyCloses ord")
          case True
          then show ?thesis using that new(4) False 3 by (simp add: visit_sends_def)
        next
          case opens: False
          have set_new: "set new = {} \<or> set new = {CancelOrder (o_ID ord) False}"
            using new(5) [OF go] by (rule subset_singletonD)
          have "set (butlast (new @ [v])) \<subseteq> {CancelOrder (o_ID ord) False}" for v
            using new(5) [OF go] by simp
          with set_new show ?thesis
            using that new(6) [OF go opens] False 3 opens
            unfolding visit_sends_def refused_def full by fastforce
        qed
        from some show ?thesis
        proof (cases rule: walk_cases [where e = e])
          case stays
          then show ?thesis using v 3 new(1) cancels by auto
        next
          case (refused p)
          then show ?thesis using v 3 new(1) sends [of p None] by auto
        next
          case (moved p ans sent)
          then show ?thesis using v 3 new(1) sends [of p "Some ans"] by auto
        qed
      qed
    qed
  qed
  then show ?thesis using that by blast
qed

subsection \<open>What a visit leaves in the ladder's memory\<close>

text \<open>
  What is assumed of the broker where a property speaks of one order's chain: a replacement's id
  is none of the ids shown in the pass, and one id is given to the replacement of one order.
\<close>

definition fresh_ids :: "env \<Rightarrow> Order list \<Rightarrow> bool" where
  "fresh_ids e orders \<longleftrightarrow>
     (\<forall>sent i p n r. e_replace e sent i p n = Ok r \<longrightarrow> r \<notin> o_ID ` set orders) \<and>
     (\<forall>sent sent' i i' p p' n n' r. e_replace e sent i p n = Ok r \<and> e_replace e sent' i' p' n' = Ok r \<longrightarrow> i = i')"

lemma walk_config [simp]: "config (s_ladder (walk e ord s)) = config (s_ladder s)"
proof -
  have "config (snd (stride l ord t now)) = config l" for l t now by (simp add: stride_ladder)
  then show ?thesis
    by (auto simp: walk_def Let_def case_prod_unfold split: sum.splits option.splits)
qed

lemma visit_config [simp]: "config (s_ladder (visit e m s ord)) = config (s_ladder s)"
  by (auto simp: visit_def Let_def case_prod_unfold patience_or_walk_eq)

lemma visit_memory:
  obtains
    (kept) "\<forall>j. j \<noteq> o_ID ord \<longrightarrow> l_ages (s_ladder (visit e m s ord)) j = l_ages (s_ladder s) j"
      "l_ages (s_ladder (visit e m s ord)) (o_ID ord) = l_ages (s_ladder s) (o_ID ord) \<or>
       l_ages (s_ladder (visit e m s ord)) (o_ID ord) = Some (life_at e (s_ladder s) ord) \<or>
       l_ages (s_ladder (visit e m s ord)) (o_ID ord) = None \<and>
         CancelOrder (o_ID ord) True \<in> set (verbs (visit e m s ord))"
      "\<forall>p n r. ReplaceOrder (o_ID ord) p n (Some r) \<in> set (verbs (visit e m s ord)) \<longrightarrow>
         ReplaceOrder (o_ID ord) p n (Some r) \<in> set (verbs s)"
  | (moved) p n new sent where "e_replace e sent (o_ID ord) p n = Ok new"
      "verbs (visit e m s ord) = verbs (snd (checks e m ord (reported e ord s))) @ [ReplaceOrder (o_ID ord) p n (Some new)]"
      "l_ages (s_ladder (visit e m s ord)) =
        (if new = [] then (l_ages (s_ladder s))(o_ID ord := None)
         else ((l_ages (s_ladder s))(o_ID ord := None))
           (new \<mapsto> (life_at e (s_ladder s) ord)\<lparr>movedOn := l_passes (s_ladder s)\<rparr>))"
proof (cases "\<not> working ord \<or> m_fused m \<and> \<not> OnlyCloses ord")
  case True
  then show ?thesis by (intro kept) (auto simp: visit_def Let_def)
next
  case False': False
  then have False: "working ord" "\<not> (m_fused m \<and> \<not> OnlyCloses ord)" by auto
  define r where "r = reported e ord s"
  let ?s = "(snd (checks e m ord r))\<lparr>s_ladder := snd (lifeOf (s_ladder s) ord (e_now e))\<rparr>"
  obtain new where new: "verbs (snd (checks e m ord r)) = verbs s @ new"
      "set new \<subseteq> range (CancelOrder (o_ID ord))"
    using checks_verbs [of e m ord r] by (auto simp: r_def)
  have v: "visit e m s ord =
      (if fst (checks e m ord r) then snd (checks e m ord r)
       else if \<not> due e (s_ladder s) ord then ?s
       else if out_of_patience e (s_ladder s) ord then cancel_and_tell e ord ?s else walk e ord ?s)"
    using False unfolding visit_def r_def [symmetric]
    by (auto simp: case_prod_unfold patience_or_walk_eq Let_def) (simp_all add: r_def)
  have noreplace: "ReplaceOrder i p n ans \<in> set (verbs (snd (checks e m ord r))) \<longleftrightarrow>
      ReplaceOrder i p n ans \<in> set (verbs s)" for i p n ans
    using new by auto
  have some: "l_ages (s_ladder ?s) (o_ID ord) = Some (life_at e (s_ladder s) ord)" by (simp add: life_at_def)
  have known: "l_ages (snd (lifeOf (s_ladder s) ord (e_now e))) (o_ID ord) = Some (life_at e (s_ladder s) ord)"
    by (simp add: life_at_def)
  consider "fst (checks e m ord r)"
    | "\<not> fst (checks e m ord r)" "\<not> due e (s_ladder s) ord"
    | "\<not> fst (checks e m ord r)" "due e (s_ladder s) ord" "out_of_patience e (s_ladder s) ord"
    | "\<not> fst (checks e m ord r)" "due e (s_ladder s) ord" "\<not> out_of_patience e (s_ladder s) ord" by blast
  then show ?thesis
  proof cases
    case 1
    then show ?thesis by (intro kept) (simp_all add: v noreplace, simp_all add: r_def)
  next
    case 2
    then show ?thesis by (intro kept) (simp_all add: v noreplace life_at_def)
  next
    case 3
    then show ?thesis by (intro kept) (auto simp: v noreplace life_at_def)
  next
    case 4
    from some show ?thesis
    proof (cases rule: walk_cases [where e = e])
      case stays
      then show ?thesis using 4 by (intro kept) (simp_all add: v noreplace life_at_def)
    next
      case (refused p)
      then show ?thesis using 4 by (intro kept) (simp_all add: v noreplace life_at_def)
    next
      case (moved p ans sent)
      then show ?thesis using 4
        by (intro that(2) [OF moved(1)])
          (simp_all add: v carried_ages [OF known] r_def [symmetric])
    qed
  qed
qed

subsection \<open>One pass\<close>

definition tick :: "Ladder \<Rightarrow> Ladder" where
  "tick l = l\<lparr>l_passes := l_passes l + 1\<rparr>"

text \<open>The memory a pass starts with, and the pass after it has visited some of the orders.\<close>

definition remembered :: "env \<Rightarrow> Ladder \<Rightarrow> Order list \<Rightarrow> Ladder" where
  "remembered e l orders = forgetWhatIsDone (tick l) orders (e_now e)"

definition begun :: "env \<Rightarrow> Ladder \<Rightarrow> Order list \<Rightarrow> pass" where
  "begun e l orders = \<lparr>s_ladder = remembered e l orders, s_done = [],
     s_atRisk = snd (pass_limits e), s_cancelled = []\<rparr>"

definition after :: "env \<Rightarrow> Ladder \<Rightarrow> Order list \<Rightarrow> Order list \<Rightarrow> pass" where
  "after e l orders seen = foldl (visit e (fst (pass_limits e))) (begun e l orders) seen"

lemma begun_simps [simp]:
  "s_ladder (begun e l orders) = remembered e l orders" "verbs (begun e l orders) = []"
  "s_atRisk (begun e l orders) = snd (pass_limits e)" "s_done (begun e l orders) = []"
  by (simp_all add: begun_def verbs_def)

lemma after_Nil [simp]: "after e l orders [] = begun e l orders"
  by (simp add: after_def)

lemma after_snoc [simp]: "after e l orders (seen @ [ord]) = visit e (fst (pass_limits e)) (after e l orders seen) ord"
  by (simp add: after_def)

lemma step_Ok:
  assumes "e_orders e (l_Reads l) = Ok orders"
  shows "s_ladder (after e l orders orders) = fst (step e l)"
    "filter is_verb (snd (step e l)) = verbs (after e l orders orders)"
  using assms
  by (simp_all add: step_def after_def begun_def remembered_def tick_def Let_def case_prod_unfold wake_def verbs_def)

lemma step_Err:
  assumes "e_orders e (l_Reads l) = Err err"
  shows "step e l = (tick l, [])"
  using assms by (simp add: step_def tick_def Let_def)

lemma remembered_config [simp]: "config (remembered e l orders) = config (tick l)"
proof -
  have "config (foldl (\<lambda>l ord. if working ord then l else forget (o_ID ord) l) l os) = config l" for l os
    by (induction os arbitrary: l) auto
  then show ?thesis by (simp add: remembered_def forgetWhatIsDone_def Let_def)
qed

lemma after_config: "config (s_ladder (after e l orders seen)) = config (tick l)"
  by (induction seen rule: rev_induct) simp_all

lemma tick_simps [simp]:
  "l_Every (tick l) = l_Every l" "l_Step (tick l) = l_Step l" "l_Patience (tick l) = l_Patience l"
  "l_passes (tick l) = l_passes l + 1" "l_ages (tick l) = l_ages l" "l_watching (tick l) = l_watching l"
  "l_Stride (tick l) = l_Stride l" "l_Reads (tick l) = l_Reads l"
  by (simp_all add: tick_def)

lemmas after_fields [simp] =
  config_fields [OF after_config [of e l orders seen], unfolded tick_simps] for e l orders seen

lemmas remembered_fields [simp] =
  config_fields [OF remembered_config [of e l orders], unfolded tick_simps] for e l orders

lemma after_verbs_mono: "set (verbs (after e l orders pre)) \<subseteq> set (verbs (after e l orders (pre @ post)))"
proof (induction post rule: rev_induct)
  case (snoc x xs)
  obtain new where "verbs (after e l orders ((pre @ xs) @ [x])) = verbs (after e l orders (pre @ xs)) @ new"
    using visit_verbs by (metis after_snoc)
  then show ?case using snoc by auto
qed simp

lemma after_verbs_split:
  assumes "v \<in> set (verbs (after e l orders seen))"
  obtains pre ord post new where "seen = pre @ ord # post" "v \<in> set new"
    "visit_sends e (fst (pass_limits e)) (after e l orders pre) ord new"
    "set new \<subseteq> set (verbs (after e l orders seen))"
  using assms
proof (induction seen arbitrary: thesis rule: rev_induct)
  case (snoc x xs)
  obtain new where new: "verbs (after e l orders (xs @ [x])) = verbs (after e l orders xs) @ new"
    "visit_sends e (fst (pass_limits e)) (after e l orders xs) x new"
    using visit_verbs by (metis after_snoc)
  show ?case
  proof (cases "v \<in> set new")
    case True
    then show ?thesis using new snoc.prems(1) [of xs x "[]" new] by simp
  next
    case False
    then have "v \<in> set (verbs (after e l orders xs))" using snoc.prems(2) new(1) by simp
    from snoc.IH [OF _ this] obtain pre ord post new' where "xs = pre @ ord # post" "v \<in> set new'"
      "visit_sends e (fst (pass_limits e)) (after e l orders pre) ord new'"
      "set new' \<subseteq> set (verbs (after e l orders xs))" by blast
    then show ?thesis using new(1) snoc.prems(1) [of pre ord "post @ [x]" new'] by auto
  qed
qed simp

lemma step_verb:
  assumes "v \<in> set (snd (step e l))" "is_verb v"
  obtains orders pre ord post new where "e_orders e (l_Reads l) = Ok orders" "orders = pre @ ord # post"
    "v \<in> set new" "visit_sends e (fst (pass_limits e)) (after e l orders pre) ord new"
    "set new \<subseteq> set (snd (step e l))"
proof (cases "e_orders e (l_Reads l)")
  case (Inl err)
  then show ?thesis using assms by (simp add: step_Err)
next
  case (Inr orders)
  have set_verbs: "set (verbs (after e l orders orders)) = {v \<in> set (snd (step e l)). is_verb v}"
    using arg_cong [OF step_Ok(2) [OF Inr], of set] by auto
  then have "v \<in> set (verbs (after e l orders orders))" using assms by simp
  then obtain pre ord post new where split: "orders = pre @ ord # post" "v \<in> set new"
    "visit_sends e (fst (pass_limits e)) (after e l orders pre) ord new"
    and sub: "set new \<subseteq> set (verbs (after e l orders orders))"
    by (rule after_verbs_split)
  from sub set_verbs have "set new \<subseteq> set (snd (step e l))" by blast
  then show ?thesis using that [OF Inr split] by blast
qed

end
