(* ===== verification/LadderLaws.thy ===== *)
theory LadderLaws
  imports Ladder "HOL-Library.Sublist"
begin

text \<open>
  What a pass of the execution ladder guarantees: the prices and the names it sends, the orders
  it may cancel, the orders it may not walk, how long an order lives, and that an order's age
  survives its replacements.
\<close>

subsection \<open>Prices\<close>

text \<open>Prices far beyond any option's; below them a cent is always representable.\<close>

definition small_price :: "f64 \<Rightarrow> bool" where
  "small_price x \<longleftrightarrow> \<bar>val x\<bar> \<le> 10 ^ 12"

definition small_prices :: "Order list \<Rightarrow> bool" where
  "small_prices orders \<longleftrightarrow> list_all (\<lambda>ord. small_price (o_LimitPrice ord) \<and>
     (case Reservation ord of None \<Rightarrow> True | Some floor' \<Rightarrow> small_price floor')) orders"

lemma cent_small: "val (cent k) \<le> 10 ^ 12 \<Longrightarrow> - (10 ^ 12) \<le> val (cent k) \<Longrightarrow> \<bar>k\<bar> \<le> 2 ^ 50"
  using cent_bound [of k] by (simp add: abs_le_iff)

lemma round_limit_le:
  assumes "limit \<le> cent j" "small_price limit"
  shows "round_cents limit \<le> cent j"
proof -
  let ?j = "min j (10 ^ 14)"
  have top: "val (cent (10 ^ 14)) = 10 ^ 12" by (simp add: cent_def val_lit)
  have le: "limit \<le> cent ?j"
    using assms top by (auto simp: min_def le_f64_iff small_price_def abs_le_iff)
  have "cent ?j \<le> cent (10 ^ 14)" by (rule cent_mono) simp
  then have "\<bar>?j\<bar> \<le> 2 ^ 50"
    using le assms(2) top by (intro cent_small) (auto simp: le_f64_iff small_price_def abs_le_iff)
  then have "round_cents limit \<le> cent ?j"
    using round_cents_mono [OF le] round_cents_cent [of ?j] by simp
  also have "\<dots> \<le> cent j" by (rule cent_mono) simp
  finally show ?thesis .
qed

text \<open>What a price was conceded for, with the quotes that were read after \<open>sent\<close> in the same pass.\<close>

definition conceded_after :: "env \<Rightarrow> effect list \<Rightarrow> f64 \<Rightarrow> Order \<Rightarrow> f64 \<Rightarrow> bool" where
  "conceded_after e sent tick' ord p \<longleftrightarrow> (\<exists>quotes showing floor' st.
     e_quotes e sent (map o_Symbol (o_Legs ord)) = Ok quotes \<and> Showing ord quotes = Some showing \<and> o_LimitPrice ord < showing \<and>
     Reservation ord = Some floor' \<and> \<not> refusesTheFloor e ord floor' quotes \<and>
     tick' \<le> st \<and> p = Toward (o_LimitPrice ord) (target_of showing floor') st \<and> p \<noteq> o_LimitPrice ord)"

lemma conceded_price:
  assumes "conceded_after e sent tick' ord p" "0 \<le> tick'" "small_price (o_LimitPrice ord)"
    "\<And>floor'. Reservation ord = Some floor' \<Longrightarrow> small_price floor'"
  obtains floor' showing quotes where "Reservation ord = Some floor'"
    "e_quotes e sent (map o_Symbol (o_Legs ord)) = Ok quotes" "Showing ord quotes = Some showing"
    "o_LimitPrice ord < showing" "p \<le> showing"
    "o_LimitPrice ord \<le> floor' \<Longrightarrow> round_cents (o_LimitPrice ord) \<le> p \<and> p \<le> floor'"
    "floor' < o_LimitPrice ord \<Longrightarrow> floor' \<le> p \<and> p \<le> round_cents (o_LimitPrice ord)"
    "p \<noteq> o_LimitPrice ord" "\<not> refusesTheFloor e ord floor' quotes"
proof -
  let ?limit = "o_LimitPrice ord"
  obtain quotes showing floor' st where c:
    "e_quotes e sent (map o_Symbol (o_Legs ord)) = Ok quotes" "Showing ord quotes = Some showing"
    "?limit < showing" "Reservation ord = Some floor'" "\<not> refusesTheFloor e ord floor' quotes"
    "tick' \<le> st" "p = Toward ?limit (target_of showing floor') st" "p \<noteq> ?limit"
    using assms(1) unfolding conceded_after_def by blast
  obtain j k where jk: "showing = cent j" "floor' = cent k"
    using Showing_cent [OF c(2)] stated_cent c(4) unfolding Reservation_def by blast
  have st: "0 \<le> st" using assms(2) c(6) by simp
  have fl: "small_price floor'" by (rule assms(4) [OF c(4)])
  define t where "t = (if floor' < showing then k else j)"
  have t: "target_of showing floor' = cent t" "cent t \<le> showing" "cent t \<le> floor'"
    by (auto simp: target_of_def worseThan_def t_def jk)
  have tb: "\<bar>t\<bar> \<le> 2 ^ 50"
  proof (rule cent_small)
    show "val (cent t) \<le> 10 ^ 12"
      using t(3) fl by (simp add: le_f64_iff small_price_def abs_le_iff)
    have "floor' = cent t \<or> ?limit < cent t" using c(3) by (auto simp: t_def jk)
    then show "- (10 ^ 12) \<le> val (cent t)"
      using fl assms(3) by (auto simp: less_f64_iff small_price_def abs_le_iff)
  qed
  show ?thesis
  proof (cases "?limit \<le> cent t")
    case True
    note up = Toward_up [OF True tb st]
    show ?thesis
      by (rule that [OF c(4,1,2,3) _ _ _ c(8,5)])
        (use up t c(7) True in \<open>auto simp: not_less [symmetric]\<close>)
  next
    case False
    then have down: "cent t \<le> ?limit" "floor' = cent t"
      using c(3) by (auto simp: t_def jk split: if_splits)
    note dn = Toward_down [OF down(1) tb st]
    have "round_cents ?limit \<le> showing"
      using round_limit_le [of ?limit j] c(3) assms(3) by (simp add: jk)
    then show ?thesis
      by (intro that [OF c(4,1,2,3) _ _ _ c(8,5)])
        (use dn t c(7) down False in \<open>auto simp: not_less\<close>)
  qed
qed

lemma small_pricesD:
  assumes "small_prices orders" "ord \<in> set orders"
  shows "small_price (o_LimitPrice ord)" "Reservation ord = Some floor' \<Longrightarrow> small_price floor'"
  using assms by (auto simp: small_prices_def list_all_iff split: option.splits)

lemma step_replace:
  assumes "ReplaceOrder i p n r \<in> set (snd (step e l))" "e_orders e (l_Reads l) = Ok orders"
  obtains pre ord post new where "orders = pre @ ord # post" "o_ID ord = i" "working ord"
    "n = NameCarrying ord (e_now e)" "conceded e (l_Step l) ord p"
    "due e (s_ladder (after e l orders pre)) ord" "\<not> out_of_patience e (s_ladder (after e l orders pre)) ord"
    "OnlyCloses ord \<or> \<not> m_fused (fst (pass_limits e)) \<and> (Unbounded ord \<longrightarrow> refused ord new) \<and>
       (\<forall>c. m_ceiling (fst (pass_limits e)) = Some c \<and> too_large ord c \<longrightarrow> refused ord new) \<and>
       \<not> book_full (fst (pass_limits e)) ord (after e l orders pre)"
    "set new \<subseteq> set (snd (step e l))"
  using assms(1)
proof (rule step_verb)
  fix orders' pre ord post new
  assume o: "e_orders e (l_Reads l) = Ok orders'" "orders' = pre @ ord # post"
    and v: "ReplaceOrder i p n r \<in> set new"
    and sends: "visit_sends e (fst (pass_limits e)) (after e l orders' pre) ord new"
    and sub: "set new \<subseteq> set (snd (step e l))"
  have same: "orders' = orders" using o(1) assms(2) by simp
  have "working ord \<and> i = o_ID ord \<and> n = NameCarrying ord (e_now e) \<and>
      conceded e (l_Step (s_ladder (after e l orders' pre))) ord p \<and>
      due e (s_ladder (after e l orders' pre)) ord \<and> \<not> out_of_patience e (s_ladder (after e l orders' pre)) ord \<and>
      (OnlyCloses ord \<or> \<not> m_fused (fst (pass_limits e)) \<and> (Unbounded ord \<longrightarrow> refused ord new) \<and>
       (\<forall>c. m_ceiling (fst (pass_limits e)) = Some c \<and> too_large ord c \<longrightarrow> refused ord new) \<and>
       \<not> book_full (fst (pass_limits e)) ord (after e l orders' pre))"
    using sends v unfolding visit_sends_def by fastforce
  then show thesis using that [of pre ord post new] o(2) sub by (simp add: same)
qed simp

lemma step_cancel:
  assumes "CancelOrder i ok \<in> set (snd (step e l))" "e_orders e (l_Reads l) = Ok orders"
  obtains pre ord post where "orders = pre @ ord # post" "o_ID ord = i" "working ord"
    "OnlyCloses ord \<longrightarrow> out_of_patience e (s_ladder (after e l orders pre)) ord"
  using assms(1)
proof (rule step_verb)
  fix orders' pre ord post new
  assume o: "e_orders e (l_Reads l) = Ok orders'" "orders' = pre @ ord # post"
    and v: "CancelOrder i ok \<in> set new"
    and sends: "visit_sends e (fst (pass_limits e)) (after e l orders' pre) ord new"
  have same: "orders' = orders" using o(1) assms(2) by simp
  have "working ord \<and> i = o_ID ord \<and> (OnlyCloses ord \<longrightarrow> out_of_patience e (s_ladder (after e l orders' pre)) ord)"
    using sends v unfolding visit_sends_def by fastforce
  then show thesis using that [of pre ord post] o(2) by (auto simp: same)
qed simp

subsection \<open>What was read before a replacement was sent\<close>

fun is_replace :: "effect \<Rightarrow> bool" where
  "is_replace (ReplaceOrder i p n r) = True"
| "is_replace _ = False"

text \<open>Every replacement among the effects was priced on the quotes as they were read right before it.\<close>

definition priced_right :: "env \<Rightarrow> f64 \<Rightarrow> Order list \<Rightarrow> effect list \<Rightarrow> bool" where
  "priced_right e tick' orders xs \<longleftrightarrow> (\<forall>before i p n r rest. xs = before @ ReplaceOrder i p n r # rest \<longrightarrow>
     (\<exists>ord \<in> set orders. o_ID ord = i \<and> working ord \<and> conceded_after e before tick' ord p))"

text \<open>What is done sends_on effects, none of them a replacement.\<close>

definition sends_on :: "pass \<Rightarrow> pass \<Rightarrow> bool" where
  "sends_on s s' \<longleftrightarrow> (\<exists>new. s_done s' = s_done s @ new \<and> (\<forall>v \<in> set new. \<not> is_replace v))"

lemma sends_on_refl [simp]: "s_done s' = s_done s \<Longrightarrow> sends_on s s'"
  by (simp add: sends_on_def)

lemma sends_on_trans: "sends_on s t \<Longrightarrow> sends_on t u \<Longrightarrow> sends_on s u"
  unfolding sends_on_def by (metis append.assoc set_append Un_iff)

lemma sends_on_did: "\<not> is_replace v \<Longrightarrow> s_done t = s_done s @ [v] \<Longrightarrow> sends_on s t"
  by (simp add: sends_on_def)

lemma sends_on_wroteDown: "sends_on s t \<Longrightarrow> sends_on s (wroteDown e x t)"
  by (rule sends_on_trans) (auto simp: wroteDown_def sends_on_def)

lemma sends_on_wake: "sends_on s t \<Longrightarrow> sends_on s (wake e w t)"
  by (rule sends_on_trans) (auto simp: wake_def sends_on_def)

lemma sends_on_report: "sends_on s (reported e ord s)"
  by (auto simp: reported_def report_def Let_def sends_on_def split: option.split sum.split)

lemma sends_on_cancel_and_tell: "sends_on s (cancel_and_tell e ord s)"
  by (auto simp: cancel_and_tell_def try_cancel_eq Let_def wroteDown_def sends_on_def split: bool.split)

lemma sends_on_checks: "sends_on s (snd (checks e m ord s))"
proof -
  have c: "sends_on t (did (CancelOrder i ok) t)" for t i ok by (simp add: sends_on_def)
  have u: "sends_on t (snd (unbounded e ord t))" for t
    by (auto simp: unbounded_def try_cancel_eq intro: c sends_on_wake sends_on_wroteDown split: bool.split)
  have b: "sends_on t (snd (ceiling_check e m ord t))" for t
    by (auto simp: ceiling_check_def tooBig_def try_cancel_eq Let_def intro: c sends_on_wake sends_on_wroteDown split: bool.split option.split)
  have k: "sends_on t (snd (book_check e m ord t))" for t
    by (auto simp: book_check_def overBook_def try_cancel_eq Let_def intro: c sends_on_wake sends_on_wroteDown split: bool.split option.split)
  show ?thesis using sends_on_trans [OF u b] sends_on_trans [OF sends_on_trans [OF u b] k] u by (auto simp: checks_def then_check_def)
qed

lemma walk_sends:
  "sends_on s (walk e ord s) \<or> (\<exists>p n r rest. s_done (walk e ord s) = s_done s @ ReplaceOrder (o_ID ord) p n r # rest \<and>
     (\<forall>v \<in> set rest. \<not> is_replace v) \<and> conceded_after e (s_done s) (l_Step (s_ladder s)) ord p)"
proof (cases "sends_on s (walk e ord s)")
  case False
  obtain quotes where q: "e_quotes e (s_done s) (map o_Symbol (o_Legs ord)) = Ok quotes"
    using False by (auto simp: walk_def split: sum.splits)
  obtain showing where sh: "Showing ord quotes = Some showing" "o_LimitPrice ord < showing"
    using False q by (auto simp: walk_def worseThan_def split: option.splits if_splits)
  obtain floor' where fl: "Reservation ord = Some floor'" "\<not> refusesTheFloor e ord floor' quotes"
    using False q sh by (auto simp: walk_def worseThan_def split: option.splits if_splits)
  obtain st l where l: "stride (s_ladder s) ord (target_of showing floor') (e_now e) = (st, l)" by fastforce
  have st: "l_Step (s_ladder s) \<le> st" using stride_ge [of "s_ladder s" ord "target_of showing floor'" "e_now e"] l by simp
  define p where "p = Toward (o_LimitPrice ord) (target_of showing floor') st"
  have ne: "p \<noteq> o_LimitPrice ord"
    using False q sh fl by (auto simp: walk_def worseThan_def Let_def l p_def)
  have "conceded_after e (s_done s) (l_Step (s_ladder s)) ord p"
    unfolding conceded_after_def using q sh fl ne st p_def by blast
  moreover have "\<exists>n r rest. s_done (walk e ord s) = s_done s @ ReplaceOrder (o_ID ord) p n r # rest \<and>
      (\<forall>v \<in> set rest. \<not> is_replace v)"
    using ne by (auto simp: walk_def q sh fl worseThan_def Let_def l wroteDown_def simp flip: p_def split: sum.split)
  ultimately show ?thesis by blast
qed simp

lemma priced_right_adds: "priced_right e tick' orders (s_done s) \<Longrightarrow> sends_on s t \<Longrightarrow> priced_right e tick' orders (s_done t)"
proof -
  have more: "priced_right e tick' orders (xs @ new)"
    if "priced_right e tick' orders xs" "\<forall>v \<in> set new. \<not> is_replace v" for xs new
    unfolding priced_right_def
  proof (intro allI impI)
    fix before i p n r rest
    assume "xs @ new = before @ ReplaceOrder i p n r # rest"
    then consider us where "xs = before @ us" "us @ new = ReplaceOrder i p n r # rest"
      | us where "xs @ us = before" "new = us @ ReplaceOrder i p n r # rest"
      by (auto simp: append_eq_append_conv2)
    then show "\<exists>ord \<in> set orders. o_ID ord = i \<and> working ord \<and> conceded_after e before tick' ord p"
    proof cases
      case (1 us)
      then have "us \<noteq> []" using that(2) by (cases us) auto
      then obtain us' where "us = ReplaceOrder i p n r # us'" using 1(2) by (cases us) auto
      then show ?thesis using that(1) 1(1) by (auto simp: priced_right_def)
    next
      case (2 us)
      then show ?thesis using that(2) by auto
    qed
  qed
  assume "priced_right e tick' orders (s_done s)" "sends_on s t"
  then show ?thesis using more by (auto simp: sends_on_def)
qed

lemma priced_right_walk:
  assumes "priced_right e (l_Step (s_ladder s)) orders (s_done s)" "ord \<in> set orders" "working ord"
  shows "priced_right e (l_Step (s_ladder s)) orders (s_done (walk e ord s))"
  using walk_sends [of s e ord]
proof (elim disjE exE conjE)
  fix p n r rest
  assume w: "s_done (walk e ord s) = s_done s @ ReplaceOrder (o_ID ord) p n r # rest" "\<forall>v \<in> set rest. \<not> is_replace v"
    and c: "conceded_after e (s_done s) (l_Step (s_ladder s)) ord p"
  let ?t = "s\<lparr>s_done := s_done s @ [ReplaceOrder (o_ID ord) p n r]\<rparr>"
  have "priced_right e (l_Step (s_ladder s)) orders (s_done ?t)"
    unfolding priced_right_def
  proof (intro allI impI)
    fix before i p' n' r' rest'
    assume eq: "s_done ?t = before @ ReplaceOrder i p' n' r' # rest'"
    show "\<exists>ord \<in> set orders. o_ID ord = i \<and> working ord \<and> conceded_after e before (l_Step (s_ladder s)) ord p'"
    proof (cases rest' rule: rev_cases)
      case Nil
      then show ?thesis using eq c assms(2,3) by auto
    next
      case (snoc zs z)
      then have "s_done s = before @ ReplaceOrder i p' n' r' # zs" using eq by auto
      then show ?thesis using assms(1) unfolding priced_right_def by blast
    qed
  qed
  moreover have "sends_on ?t (walk e ord s)" using w by (simp add: sends_on_def)
  ultimately show ?thesis by (rule priced_right_adds)
qed (use assms(1) priced_right_adds in blast)

lemma priced_right_visit:
  assumes "priced_right e (l_Step (s_ladder s)) orders (s_done s)" "ord \<in> set orders"
  shows "priced_right e (l_Step (s_ladder s)) orders (s_done (visit e m s ord))"
proof -
  let ?P = "priced_right e (l_Step (s_ladder s)) orders"
  define t where "t = reported e ord s"
  define u where "u = snd (checks e m ord t)"
  define v where "v = u\<lparr>s_ladder := snd (lifeOf (s_ladder u) ord (e_now e))\<rparr>"
  have t: "?P (s_done t)" "l_Step (s_ladder t) = l_Step (s_ladder s)"
    using priced_right_adds [OF assms(1) sends_on_report] by (simp_all add: t_def reported_def)
  have u: "?P (s_done u)" "l_Step (s_ladder u) = l_Step (s_ladder s)"
    using priced_right_adds [OF t(1) sends_on_checks] t(2) by (simp_all add: u_def)
  have v: "?P (s_done v)" "l_Step (s_ladder v) = l_Step (s_ladder s)"
    using u by (auto simp: v_def lifeOf_def Let_def split: option.split)
  have c: "?P (s_done (cancel_and_tell e ord t))" "?P (s_done (cancel_and_tell e ord v))"
    using priced_right_adds [OF t(1) sends_on_cancel_and_tell] priced_right_adds [OF v(1) sends_on_cancel_and_tell] by simp_all
  have w: "working ord \<Longrightarrow> ?P (s_done (walk e ord v))"
    using priced_right_walk [of e v orders ord] v assms(2) by simp
  have "patience_or_walk e ord u \<in> {v, cancel_and_tell e ord v, walk e ord v}"
    by (simp add: patience_or_walk_def Let_def case_prod_unfold v_def)
  then have "working ord \<Longrightarrow> ?P (s_done (patience_or_walk e ord u))" using v(1) c(2) w by auto
  then show ?thesis
    using t(1) c(1) u(1) unfolding visit_def by (simp add: Let_def case_prod_unfold flip: t_def u_def)
qed

lemma step_priced_right:
  assumes "e_orders e (l_Reads l) = Ok orders"
  shows "priced_right e (l_Step l) orders (snd (step e l))"
proof -
  have "priced_right e (l_Step l) orders (s_done (after e l orders seen))" if "set seen \<subseteq> set orders" for seen
    using that
  proof (induction seen rule: rev_induct)
    case (snoc x xs)
    then show ?case using priced_right_visit [of e "after e l orders xs" orders x] by simp
  qed (simp add: priced_right_def)
  then have all: "priced_right e (l_Step l) orders (s_done (after e l orders orders))" by simp
  have "snd (step e l) = s_done (let s = after e l orders orders in
      if s_cancelled s \<noteq> [] then wake e (DidNotHappen (s_cancelled s)) s else s)"
    using assms by (simp add: step_def after_def begun_def remembered_def tick_def Let_def case_prod_unfold)
  moreover have "sends_on (after e l orders orders) (let s = after e l orders orders in
      if s_cancelled s \<noteq> [] then wake e (DidNotHappen (s_cancelled s)) s else s)"
    by (simp add: Let_def sends_on_wake)
  ultimately show ?thesis using priced_right_adds [OF all] by simp
qed

text \<open>C16. A replacement is sent only for a working order whose name states a floor, while the book, as it
  was read in this pass right before the replacement was sent, shows worse than the order asks; the
  new price is not worse than what the book shows. An order that stands at its floor or better only
  concedes, and not past the floor; an order that already stood past its floor only comes back, and not
  past it either.\<close>

theorem replacement_price:
  assumes "snd (step e l) = before @ ReplaceOrder i p n r # rest" "0 \<le> l_Step l"
    "e_orders e (l_Reads l) = Ok orders" "small_prices orders"
  shows "\<exists>ord \<in> set orders. \<exists>floor' showing quotes. o_ID ord = i \<and> working ord \<and>
    Reservation ord = Some floor' \<and> e_quotes e before (map o_Symbol (o_Legs ord)) = Ok quotes \<and>
    Showing ord quotes = Some showing \<and> o_LimitPrice ord < showing \<and> p \<le> showing \<and>
    (o_LimitPrice ord \<le> floor' \<longrightarrow> round_cents (o_LimitPrice ord) \<le> p \<and> p \<le> floor') \<and>
    (floor' < o_LimitPrice ord \<longrightarrow> floor' \<le> p \<and> p \<le> round_cents (o_LimitPrice ord))"
proof -
  obtain ord where ord: "ord \<in> set orders" "o_ID ord = i" "working ord" "conceded_after e before (l_Step l) ord p"
    using step_priced_right [OF assms(3)] assms(1) unfolding priced_right_def by blast
  obtain floor' showing quotes where "Reservation ord = Some floor'"
    "e_quotes e before (map o_Symbol (o_Legs ord)) = Ok quotes" "Showing ord quotes = Some showing"
    "o_LimitPrice ord < showing" "p \<le> showing"
    "o_LimitPrice ord \<le> floor' \<Longrightarrow> round_cents (o_LimitPrice ord) \<le> p \<and> p \<le> floor'"
    "floor' < o_LimitPrice ord \<Longrightarrow> floor' \<le> p \<and> p \<le> round_cents (o_LimitPrice ord)"
    using conceded_price [OF ord(4) assms(2) small_pricesD [OF assms(4) ord(1)]] by metis
  then show ?thesis using ord(1-3) by blast
qed

text \<open>The name of a replacement still states the order's floor, the same to the cent, and is
  short enough for the broker to accept.\<close>

theorem replacement_name:
  assumes "ReplaceOrder i p n r \<in> set (snd (step e l))" "e_orders e (l_Reads l) = Ok orders"
    "small_prices orders" "\<bar>e_now e\<bar> < 10 ^ 19"
  shows "\<exists>ord \<in> set orders. \<exists>floor'. o_ID ord = i \<and> Reservation ord = Some floor' \<and>
    stated n reservationPrefix = Some floor' \<and> length n \<le> nameLimit"
proof -
  from assms(1,2) obtain pre ord post where o: "orders = pre @ ord # post" "o_ID ord = i"
    "n = NameCarrying ord (e_now e)" "conceded e (l_Step l) ord p" by (rule step_replace)
  then have ord: "ord \<in> set orders" by simp
  obtain floor' where f: "Reservation ord = Some floor'" using o(4) unfolding conceded_def by blast
  have "\<bar>val floor'\<bar> \<le> 10 ^ 12" using small_pricesD(2) [OF assms(3) ord f] by (simp add: small_price_def)
  then show ?thesis
    using NameCarrying_keeps_the_floor [OF f _ assms(4)] NameCarrying_length [OF assms(4), of ord] ord o(2,3) f
    by blast
qed

subsection \<open>The memory across a pass\<close>

lemma fresh_new: "fresh_ids e orders \<Longrightarrow> e_replace e sent i p n = Ok r \<Longrightarrow> r \<notin> o_ID ` set orders"
  unfolding fresh_ids_def by blast

lemma fresh_unique:
  assumes "fresh_ids e orders" "e_replace e sent i p n = Ok r" "e_replace e sent' i' p' n' = Ok r"
  shows "i = i'"
  by (rule assms(1) [unfolded fresh_ids_def, THEN conjunct2, rule_format, OF conjI, OF assms(2,3)])

lemma visit_other:
  assumes "j \<noteq> o_ID ord" "\<And>sent p n. e_replace e sent (o_ID ord) p n \<noteq> Ok j"
  shows "l_ages (s_ladder (visit e m s ord)) j = l_ages (s_ladder s) j"
proof (cases rule: visit_memory [of ord e m s])
  case kept
  then show ?thesis using assms(1) by blast
next
  case (moved p n new sent)
  then have "new \<noteq> j" using assms(2) by blast
  then show ?thesis using moved(3) assms(1) by simp
qed

lemma after_others:
  assumes "j \<notin> o_ID ` set seen" "\<And>ord sent p n. ord \<in> set seen \<Longrightarrow> e_replace e sent (o_ID ord) p n \<noteq> Ok j"
  shows "l_ages (s_ladder (after e l orders (pre @ seen))) j = l_ages (s_ladder (after e l orders pre)) j"
  using assms
proof (induction seen rule: rev_induct)
  case (snoc x xs)
  have "l_ages (s_ladder (after e l orders ((pre @ xs) @ [x]))) j = l_ages (s_ladder (after e l orders (pre @ xs))) j"
    unfolding after_snoc by (rule visit_other) (use snoc.prems in auto)
  then show ?case using snoc by simp
qed simp

lemma after_other:
  assumes "fresh_ids e orders" "j \<notin> o_ID ` set seen" "j \<in> o_ID ` set orders"
  shows "l_ages (s_ladder (after e l orders (pre @ seen))) j = l_ages (s_ladder (after e l orders pre)) j"
  by (rule after_others [OF assms(2)]) (use assms(1,3) fresh_ids_def in blast)

lemma life_at_cong: "l_ages k (o_ID ord) = l_ages l (o_ID ord) \<Longrightarrow> life_at e k ord = life_at e l ord"
  by (simp add: life_at_def lifeOf_life)

text \<open>When the ids of a pass are its own, what the pass finds of an order is what it began with.\<close>

definition own_ids :: "env \<Rightarrow> Order list \<Rightarrow> bool" where
  "own_ids e orders \<longleftrightarrow> distinct (map o_ID orders) \<and> fresh_ids e orders"

lemma after_pre:
  assumes "own_ids e orders" "orders = pre @ ord # post"
  shows "life_at e (s_ladder (after e l orders pre)) ord = life_at e (remembered e l orders) ord"
    "due e (s_ladder (after e l orders pre)) ord = due e (remembered e l orders) ord"
    "out_of_patience e (s_ladder (after e l orders pre)) ord = out_of_patience e (remembered e l orders) ord"
proof -
  show life: "life_at e (s_ladder (after e l orders pre)) ord = life_at e (remembered e l orders) ord"
    using after_other [of e orders "o_ID ord" pre l "[]"] assms
    by (intro life_at_cong) (auto simp: own_ids_def)
  show "due e (s_ladder (after e l orders pre)) ord = due e (remembered e l orders) ord"
    "out_of_patience e (s_ladder (after e l orders pre)) ord = out_of_patience e (remembered e l orders) ord"
    by (simp_all add: due_def out_of_patience_def life)
qed

text \<open>A chain the broker shows as working keeps its age, however old it is.\<close>

lemma remembered_age:
  assumes "distinct (map o_ID orders)" "ord \<in> set orders" "working ord"
  shows "l_ages (remembered e l orders) (o_ID ord) = l_ages l (o_ID ord)"
proof -
  have "l_ages (foldl (\<lambda>l x. if working x then l else forget (o_ID x) l) k os) (o_ID ord) = l_ages k (o_ID ord)"
    if "set os \<subseteq> set orders" for os k
    using that
  proof (induction os arbitrary: k)
    case (Cons x xs)
    have "o_ID x \<noteq> o_ID ord" if "\<not> working x"
      using that assms Cons.prems by (metis distinct_map inj_onD list.set_intros(1) subsetD)
    then show ?case using Cons by auto
  qed simp
  moreover have "o_ID ord \<in> alive_in orders" using assms by (auto simp: alive_in_def)
  ultimately show ?thesis
    by (auto simp: remembered_def forgetWhatIsDone_def Let_def split: option.splits)
qed

subsection \<open>What is cancelled\<close>

text \<open>An order whose every leg declares itself closing is cancelled for one reason only, that it
  has outlived its patience: neither the day's fuse nor any of the size checks touches it.\<close>

theorem closing_orders_die_of_age:
  assumes "CancelOrder i ok \<in> set (snd (step e l))" "e_orders e (l_Reads l) = Ok orders" "own_ids e orders"
    "\<forall>ord \<in> set orders. o_ID ord = i \<longrightarrow> OnlyCloses ord"
  shows "\<exists>ord \<in> set orders. o_ID ord = i \<and> working ord \<and>
    l_Patience l < e_now e - placed (life_at e (remembered e l orders) ord)"
proof -
  from assms(1,2) obtain pre ord post where o: "orders = pre @ ord # post" "o_ID ord = i" "working ord"
    "OnlyCloses ord \<longrightarrow> out_of_patience e (s_ladder (after e l orders pre)) ord" by (rule step_cancel)
  then have "out_of_patience e (remembered e l orders) ord"
    using assms(4) after_pre(3) [OF assms(3) o(1)] by auto
  then show ?thesis using o by (auto simp: out_of_patience_def)
qed

text \<open>Whatever is sent about an order, nothing follows a verb the broker took.\<close>

fun verb_id :: "effect \<Rightarrow> string" where
  "verb_id (CancelOrder i ok) = i"
| "verb_id (ReplaceOrder i p n r) = i"
| "verb_id _ = []"

definition verbs_on :: "string \<Rightarrow> effect list \<Rightarrow> effect list" where
  "verbs_on i sent = filter (\<lambda>v. is_verb v \<and> verb_id v = i) sent"

lemma visit_sends_ids: "visit_sends e m s ord new \<Longrightarrow> v \<in> set new \<Longrightarrow> is_verb v \<and> verb_id v = o_ID ord"
  unfolding visit_sends_def by (cases v) fastforce+

text \<open>In one pass, everything sent to the broker about one order before the last verb is a
  cancellation the broker refused: an order is never moved after it was cancelled, never cancelled
  after it was moved, and never moved twice.\<close>

theorem one_verb_per_order:
  assumes "own_ids e orders" "e_orders e (l_Reads l) = Ok orders"
  shows "set (butlast (verbs_on i (snd (step e l)))) \<subseteq> {CancelOrder i False}"
proof -
  have "set (butlast (verbs_on i (verbs (after e l orders seen)))) \<subseteq> {CancelOrder i False} \<and>
      (i \<notin> o_ID ` set seen \<longrightarrow> verbs_on i (verbs (after e l orders seen)) = [])"
    if "distinct (map o_ID seen)" for seen
    using that
  proof (induction seen rule: rev_induct)
    case (snoc x xs)
    obtain new where new: "verbs (after e l orders (xs @ [x])) = verbs (after e l orders xs) @ new"
      "visit_sends e (fst (pass_limits e)) (after e l orders xs) x new"
      using visit_verbs by (metis after_snoc)
    have on: "verbs_on i new = (if i = o_ID x then new else [])"
      using visit_sends_ids [OF new(2)] by (auto simp: verbs_on_def filter_id_conv filter_empty_conv)
    have app: "verbs_on i (verbs (after e l orders (xs @ [x]))) =
        verbs_on i (verbs (after e l orders xs)) @ verbs_on i new"
      by (simp add: new(1) verbs_on_def del: after_snoc)
    have "set (butlast new) \<subseteq> {CancelOrder (o_ID x) False}" using new(2) by (simp add: visit_sends_def)
    then show ?case using snoc app on by (cases "i = o_ID x") auto
  qed (simp add: verbs_on_def)
  then have "set (butlast (verbs_on i (verbs (after e l orders orders)))) \<subseteq> {CancelOrder i False}"
    using assms(1) by (simp add: own_ids_def)
  moreover have "verbs_on i (verbs (after e l orders orders)) = verbs_on i (snd (step e l))"
    unfolding step_Ok(2) [OF assms(2), symmetric] by (simp add: verbs_on_def conj_commute cong: conj_cong)
  ultimately show ?thesis by simp
qed

subsection \<open>Patience\<close>

lemma visit_out_of_patience:
  assumes "working ord" "due e (s_ladder s) ord" "out_of_patience e (s_ladder s) ord"
  shows "\<exists>ok. CancelOrder (o_ID ord) ok \<in> set (verbs (visit e m s ord))"
proof (cases "m_fused m \<and> \<not> OnlyCloses ord")
  case True
  then show ?thesis using assms(1) by (auto simp: visit_def Let_def)
next
  case False
  define r where "r = reported e ord s"
  obtain new where new: "verbs (snd (checks e m ord r)) = verbs s @ new"
    "set new \<subseteq> range (CancelOrder (o_ID ord))" "fst (checks e m ord r) \<longrightarrow> new \<noteq> []"
    using checks_verbs [of e m ord r] by (auto simp: r_def)
  show ?thesis
  proof (cases "fst (checks e m ord r)")
    case True
    then have v: "visit e m s ord = snd (checks e m ord r)"
      using False assms(1) unfolding visit_def r_def [symmetric] by (auto simp: case_prod_unfold Let_def)
    obtain x where "x \<in> set new" using True new(3) by (cases new) auto
    then show ?thesis using new(1,2) v by auto
  next
    case go: False
    have "visit e m s ord = patience_or_walk e ord (snd (checks e m ord r))"
      using False go assms(1) unfolding visit_def r_def [symmetric] by (auto simp: case_prod_unfold Let_def)
    then show ?thesis using assms(2,3)
      by (auto simp: patience_or_walk_eq Let_def r_def)
  qed
qed

text \<open>No order is remembered as moved on a pass that has not happened yet.\<close>

definition ages_sane :: "Ladder \<Rightarrow> bool" where
  "ages_sane l \<longleftrightarrow> 0 \<le> l_passes l \<and> (\<forall>i life. l_ages l i = Some life \<longrightarrow> movedOn life \<le> l_passes l)"

lemma ages_saneD: "ages_sane l \<Longrightarrow> l_ages l i = Some life \<Longrightarrow> movedOn life \<le> l_passes l"
  by (simp add: ages_sane_def)

lemma life_at_sane: "ages_sane l \<Longrightarrow> movedOn (life_at e l ord) \<le> l_passes l"
  by (auto simp: life_at_def lifeOf_life ages_sane_def split: option.splits)

lemma visit_sane:
  assumes "ages_sane (s_ladder s)"
  shows "ages_sane (s_ladder (visit e m s ord))"
proof -
  have pa: "l_passes (s_ladder (visit e m s ord)) = l_passes (s_ladder s)"
    by (rule config_fields) simp
  have "movedOn life \<le> l_passes (s_ladder s)" if "l_ages (s_ladder (visit e m s ord)) i = Some life" for i life
  proof (cases rule: visit_memory [of ord e m s])
    case kept
    then show ?thesis
      using that ages_saneD [OF assms, of i life] life_at_sane [OF assms, of e ord] by (cases "i = o_ID ord") auto
  next
    case (moved p n new sent)
    then show ?thesis using that ages_saneD [OF assms, of i life] by (auto split: if_splits)
  qed
  then show ?thesis using pa assms by (auto simp: ages_sane_def)
qed

lemma remembered_sub: "l_ages (remembered e l orders) i = Some life \<Longrightarrow> l_ages l i = Some life"
proof -
  have sub: "l_ages (foldl (\<lambda>l x. if working x then l else forget (o_ID x) l) k os) i = Some life \<Longrightarrow>
      l_ages k i = Some life" for os k
  proof (induction os arbitrary: k)
    case (Cons x xs)
    then show ?case using Cons.IH [of "forget (o_ID x) k"] by (auto split: if_splits)
  qed simp
  then show "l_ages (remembered e l orders) i = Some life \<Longrightarrow> l_ages l i = Some life"
    by (auto simp: remembered_def forgetWhatIsDone_def Let_def split: option.splits if_splits dest: sub)
qed

lemma tick_sane: "ages_sane l \<Longrightarrow> ages_sane (tick l)"
  unfolding ages_sane_def by fastforce

lemma after_sane:
  assumes "ages_sane l"
  shows "ages_sane (s_ladder (after e l orders seen))"
proof (induction seen rule: rev_induct)
  case Nil
  have "movedOn life \<le> l_passes l + 1" if "l_ages (remembered e l orders) i = Some life" for i life
    using ages_saneD [OF assms remembered_sub [OF that]] by simp
  then have "ages_sane (remembered e l orders)" using assms by (simp add: ages_sane_def)
  then show ?case by simp
qed (simp add: visit_sane)

lemma step_sane:
  assumes "ages_sane l"
  shows "ages_sane (fst (step e l))" "config (fst (step e l)) = config (tick l)"
proof -
  show "ages_sane (fst (step e l))"
  proof (cases "e_orders e (l_Reads l)")
    case (Inr orders)
    then show ?thesis using after_sane [OF assms] by (simp add: step_Ok(1) [OF Inr, symmetric])
  qed (simp add: step_Err tick_sane assms)
  show "config (fst (step e l)) = config (tick l)"
  proof (cases "e_orders e (l_Reads l)")
    case (Inr orders)
    then show ?thesis by (simp add: step_Ok(1) [OF Inr, symmetric] after_config)
  qed (simp add: step_Err)
qed

lemma Run_ticks_sane:
  assumes "ages_sane l"
  shows "ages_sane (fst (Run_ticks es l)) \<and> l_Every (fst (Run_ticks es l)) = l_Every l \<and>
    l_Patience (fst (Run_ticks es l)) = l_Patience l \<and> l_passes (fst (Run_ticks es l)) = l_passes l + int (length es)"
  using assms
proof (induction es arbitrary: l)
  case (Cons e es)
  note f = config_fields [OF step_sane(2) [OF Cons.prems, of e]]
  show ?case using Cons.IH [OF step_sane(1) [OF Cons.prems, of e]] f
    by (simp add: case_prod_unfold)
qed simp

lemma due_of_age:
  assumes "ages_sane l" "l_Every l \<le> l_Patience l" "out_of_patience e (remembered e l orders) ord"
  shows "due e (remembered e l orders) ord"
proof -
  have "movedOn (life_at e (remembered e l orders) ord) \<le> l_passes l"
    using assms(1) remembered_sub [of e l orders "o_ID ord"]
    by (auto simp: life_at_def lifeOf_life ages_sane_def split: option.splits)
  then show ?thesis using assms(2,3) by (auto simp: due_def out_of_patience_def)
qed

lemma past_patience:
  assumes "ages_sane l" "l_Every l \<le> l_Patience l" "e_orders e (l_Reads l) = Ok orders" "own_ids e orders"
    "ord \<in> set orders" "working ord" "out_of_patience e (remembered e l orders) ord"
  shows "(\<exists>ok. CancelOrder (o_ID ord) ok \<in> set (snd (step e l))) \<and>
    ReplaceOrder (o_ID ord) p n r \<notin> set (snd (step e l))"
proof -
  note out = assms(7)
  have due: "due e (remembered e l orders) ord" by (rule due_of_age [OF assms(1,2) out])
  obtain pre post where o: "orders = pre @ ord # post" using assms(5) by (meson split_list)
  have "\<exists>ok. CancelOrder (o_ID ord) ok \<in> set (verbs (after e l orders (pre @ [ord])))"
    unfolding after_snoc
    by (rule visit_out_of_patience [OF assms(6)]) (use out due after_pre(2,3) [OF assms(4) o] in auto)
  then obtain ok where "CancelOrder (o_ID ord) ok \<in> set (verbs (after e l orders ((pre @ [ord]) @ post)))"
    using after_verbs_mono by blast
  then have "CancelOrder (o_ID ord) ok \<in> set (filter is_verb (snd (step e l)))"
    using step_Ok(2) [OF assms(3)] o by simp
  then have cancelled: "\<exists>ok. CancelOrder (o_ID ord) ok \<in> set (snd (step e l))" by auto
  have "ReplaceOrder (o_ID ord) p n r \<notin> set (snd (step e l))"
  proof
    assume "ReplaceOrder (o_ID ord) p n r \<in> set (snd (step e l))"
    from this assms(3) obtain pre' ord' post' where o': "orders = pre' @ ord' # post'" "o_ID ord' = o_ID ord"
      "\<not> out_of_patience e (s_ladder (after e l orders pre')) ord'" by (rule step_replace)
    have "ord' = ord" using o' assms(4,5) by (auto simp: own_ids_def distinct_map inj_on_def)
    then show False using o' after_pre(3) [OF assms(4) o'(1)] out by simp
  qed
  with cancelled show ?thesis by blast
qed

subsection \<open>A chain of replacements has one age\<close>

lemma after_verbs_app:
  "\<exists>rest. verbs (after e l orders (pre @ post)) = verbs (after e l orders pre) @ rest \<and>
     verb_id ` set rest \<subseteq> o_ID ` set post"
proof (induction post rule: rev_induct)
  case (snoc x xs)
  then obtain rest where r: "verbs (after e l orders (pre @ xs)) = verbs (after e l orders pre) @ rest"
    "verb_id ` set rest \<subseteq> o_ID ` set xs" by blast
  obtain new where new: "verbs (after e l orders ((pre @ xs) @ [x])) = verbs (after e l orders (pre @ xs)) @ new"
    "visit_sends e (fst (pass_limits e)) (after e l orders (pre @ xs)) x new"
    using visit_verbs by (metis after_snoc)
  have "verb_id ` set new \<subseteq> {o_ID x}" using visit_sends_ids [OF new(2)] by auto
  then show ?case using r new(1) by (intro exI [of _ "rest @ new"]) auto
qed simp

lemma step_verbs_at:
  assumes "e_orders e (l_Reads l) = Ok orders" "distinct (map o_ID orders)" "orders = pre @ ord # post"
    "is_verb v" "verb_id v = o_ID ord"
  shows "v \<in> set (snd (step e l)) \<longleftrightarrow> v \<in> set (verbs (after e l orders (pre @ [ord])))"
    and "v \<notin> set (verbs (after e l orders pre))"
proof -
  have only: "o_ID ord \<notin> o_ID ` set post" "o_ID ord \<notin> o_ID ` set pre"
    using assms(2) unfolding assms(3) by auto
  obtain rest where rest: "verbs (after e l orders ((pre @ [ord]) @ post)) = verbs (after e l orders (pre @ [ord])) @ rest"
    "verb_id ` set rest \<subseteq> o_ID ` set post" using after_verbs_app by blast
  have "v \<in> set (snd (step e l)) \<longleftrightarrow> v \<in> set (verbs (after e l orders orders))"
    unfolding step_Ok(2) [OF assms(1), symmetric] using assms(4) by simp
  moreover have "v \<notin> set rest" using rest(2) only(1) assms(5) by (metis image_eqI subsetD)
  moreover have "verbs (after e l orders orders) = verbs (after e l orders (pre @ [ord])) @ rest"
    using rest(1) by (simp only: assms(3) append.assoc append.simps)
  ultimately show "v \<in> set (snd (step e l)) \<longleftrightarrow> v \<in> set (verbs (after e l orders (pre @ [ord])))"
    by (metis Un_iff set_append)
  obtain r where "verbs (after e l orders ([] @ pre)) = verbs (after e l orders []) @ r"
    "verb_id ` set r \<subseteq> o_ID ` set pre" using after_verbs_app by blast
  then show "v \<notin> set (verbs (after e l orders pre))"
    using only(2) assms(5) by (metis append_Nil begun_simps(2) after_Nil image_eqI subsetD)
qed

text \<open>What the ladder takes for the age of a listed order survives the pass: on the id of the replacement,
  if the broker took one, or on its own.\<close>

lemma chain_age:
  assumes "e_orders e (l_Reads l) = Ok orders" "own_ids e orders" "ord \<in> set orders" "working ord"
  defines "life \<equiv> life_at e (remembered e l orders) ord"
  shows "ReplaceOrder (o_ID ord) p n (Some j) \<in> set (snd (step e l)) \<Longrightarrow> j \<noteq> [] \<Longrightarrow>
      l_ages (fst (step e l)) j = Some \<lparr>placed = placed life, movedOn = l_passes l + 1\<rparr>"
    and "(\<forall>p n j. ReplaceOrder (o_ID ord) p n (Some j) \<notin> set (snd (step e l))) \<Longrightarrow>
      CancelOrder (o_ID ord) True \<notin> set (snd (step e l)) \<Longrightarrow>
      l_ages (fst (step e l)) (o_ID ord) = l_ages l (o_ID ord) \<or> l_ages (fst (step e l)) (o_ID ord) = Some life"
proof -
  let ?i = "o_ID ord"
  obtain pre post where o: "orders = pre @ ord # post" using assms(3) by (meson split_list)
  have dis: "distinct (map o_ID orders)" and fr: "fresh_ids e orders" using assms(2) by (auto simp: own_ids_def)
  note at = step_verbs_at [OF assms(1) dis o]
  let ?s = "after e l orders pre"
  have "l_ages (s_ladder ?s) ?i = l_ages (remembered e l orders) ?i"
    using after_other [OF fr, of ?i pre l "[]"] dis o by auto
  then have mem: "l_ages (s_ladder ?s) ?i = l_ages l ?i"
    using remembered_age [OF dis assms(3,4)] by simp
  have life: "life_at e (s_ladder ?s) ord = life" unfolding life_def by (rule after_pre(1) [OF assms(2) o])
  have fin: "fst (step e l) = s_ladder (after e l orders ((pre @ [ord]) @ post))"
    using step_Ok(1) [OF assms(1)] o by simp
  have "(\<forall>p n j. ReplaceOrder ?i p n (Some j) \<in> set (snd (step e l)) \<and> j \<noteq> [] \<longrightarrow>
      l_ages (fst (step e l)) j = Some \<lparr>placed = placed life, movedOn = l_passes l + 1\<rparr>) \<and>
    ((\<forall>p n j. ReplaceOrder ?i p n (Some j) \<notin> set (snd (step e l))) \<and>
      CancelOrder ?i True \<notin> set (snd (step e l)) \<longrightarrow>
      l_ages (fst (step e l)) ?i = l_ages l ?i \<or> l_ages (fst (step e l)) ?i = Some life)"
  proof (cases rule: visit_memory [of ord e "fst (pass_limits e)" ?s])
    case kept
    have none: "ReplaceOrder ?i p n (Some j) \<notin> set (snd (step e l))" for p n j
      using kept(3) at [of "ReplaceOrder ?i p n (Some j)"] by auto
    have "l_ages (fst (step e l)) ?i = l_ages (s_ladder (after e l orders (pre @ [ord]))) ?i"
      unfolding fin by (rule after_other [OF fr]) (use dis o in auto)
    moreover have "CancelOrder ?i True \<in> set (snd (step e l)) \<or>
        l_ages (s_ladder (after e l orders (pre @ [ord]))) ?i = l_ages l ?i \<or>
        l_ages (s_ladder (after e l orders (pre @ [ord]))) ?i = Some life"
      using kept(2) at(1) [of "CancelOrder ?i True"] mem life by auto
    ultimately show ?thesis using none by auto
  next
    case (moved p n new sent)
    have sent: "ReplaceOrder ?i p n (Some new) \<in> set (snd (step e l))"
      using moved(2) at(1) [of "ReplaceOrder ?i p n (Some new)"] by simp
    have one: "j = new" if "ReplaceOrder ?i p' n' (Some j) \<in> set (snd (step e l))" for p' n' j
    proof -
      obtain c where c: "verbs (snd (checks e (fst (pass_limits e)) ord (reported e ord ?s))) = verbs ?s @ c"
        "set c \<subseteq> range (CancelOrder ?i)"
        using checks_verbs [of e "fst (pass_limits e)" ord "reported e ord ?s"] by auto
      then show ?thesis
        using that moved(2) at [of "ReplaceOrder ?i p' n' (Some j)"] by auto
    qed
    have "l_ages (fst (step e l)) new = l_ages (s_ladder (after e l orders (pre @ [ord]))) new"
      unfolding fin
    proof (rule after_others)
      have "new \<notin> o_ID ` set orders" by (rule fresh_new [OF fr moved(1)])
      then show "new \<notin> o_ID ` set post" using o by auto
      fix x sent' p' n'
      assume "x \<in> set post"
      moreover have "?i \<notin> o_ID ` set post" using dis unfolding o by auto
      ultimately have "o_ID x \<noteq> ?i" by (metis image_eqI)
      then show "e_replace e sent' (o_ID x) p' n' \<noteq> Ok new"
        using fresh_unique [OF fr moved(1)] by metis
    qed
    then have fin: "l_ages (fst (step e l)) new = Some \<lparr>placed = placed life, movedOn = l_passes l + 1\<rparr>"
      if "new \<noteq> []" using that moved(3) life by (cases life) simp
    show ?thesis
    proof (intro conjI allI impI)
      fix p' n' j
      assume "ReplaceOrder ?i p' n' (Some j) \<in> set (snd (step e l)) \<and> j \<noteq> []"
      with one [of p' n' j] fin
      show "l_ages (fst (step e l)) j = Some \<lparr>placed = placed life, movedOn = l_passes l + 1\<rparr>" by simp
    qed (use sent in blast)
  qed
  then show "ReplaceOrder (o_ID ord) p n (Some j) \<in> set (snd (step e l)) \<Longrightarrow> j \<noteq> [] \<Longrightarrow>
      l_ages (fst (step e l)) j = Some \<lparr>placed = placed life, movedOn = l_passes l + 1\<rparr>"
    and "(\<forall>p n j. ReplaceOrder (o_ID ord) p n (Some j) \<notin> set (snd (step e l))) \<Longrightarrow>
      CancelOrder (o_ID ord) True \<notin> set (snd (step e l)) \<Longrightarrow>
      l_ages (fst (step e l)) (o_ID ord) = l_ages l (o_ID ord) \<or> l_ages (fst (step e l)) (o_ID ord) = Some life"
    by blast+
qed

lemma known_life:
  assumes "distinct (map o_ID orders)" "ord \<in> set orders" "working ord" "l_ages l (o_ID ord) = Some life"
  shows "life_at e (remembered e l orders) ord = life"
  using remembered_age [OF assms(1-3)] assms(4) by (simp add: life_at_def lifeOf_life)

text \<open>The age of a chain survives its replacements: when the broker takes a new price and names the
  replacement, the ladder remembers the replacement as placed when the first order of the chain
  was, and as moved on this pass; an order neither moved nor cancelled keeps the age it had.\<close>

theorem chain_age_survives:
  assumes "e_orders e (l_Reads l) = Ok orders" "own_ids e orders" "ord \<in> set orders" "working ord"
    "l_ages l (o_ID ord) = Some life"
  shows "(\<forall>p n j. ReplaceOrder (o_ID ord) p n (Some j) \<in> set (snd (step e l)) \<and> j \<noteq> [] \<longrightarrow>
      l_ages (fst (step e l)) j = Some \<lparr>placed = placed life, movedOn = l_passes l + 1\<rparr>) \<and>
    ((\<forall>p n j. ReplaceOrder (o_ID ord) p n (Some j) \<notin> set (snd (step e l))) \<and>
      CancelOrder (o_ID ord) True \<notin> set (snd (step e l)) \<longrightarrow>
      l_ages (fst (step e l)) (o_ID ord) = Some life)"
proof -
  have "distinct (map o_ID orders)" using assms(2) by (simp add: own_ids_def)
  note life = known_life [OF this assms(3-5), of e]
  show ?thesis
    using chain_age [OF assms(1-4), unfolded life] assms(5) by auto
qed

subsection \<open>A chain ends with its patience\<close>

text \<open>What a pass does to a chain that rests under the id \<open>i\<close>, seen from the broker. A pass that cannot read
  the orders leaves it alone. If the broker lists the order it works, and either its replacement was
  taken and has the id \<open>k\<close>, or neither a replacement nor a cancellation of it was; the first order of the
  chain, \<open>first\<close>, is always listed as submitted at \<open>since\<close>. If the answer of the broker, which is bounded,
  leaves it out, it is not older than patience and one interval.\<close>

definition rests_on :: "env \<Rightarrow> Ladder \<Rightarrow> string \<Rightarrow> time \<Rightarrow> string \<Rightarrow> string \<Rightarrow> bool" where
  "rests_on e l first since i k \<longleftrightarrow>
     (case e_orders e (l_Reads l) of
        Err err \<Rightarrow> k = i
      | Ok orders \<Rightarrow> own_ids e orders \<and>
          (if i \<in> o_ID ` set orders
           then (\<forall>ord \<in> set orders. o_ID ord = i \<longrightarrow> working ord \<and> (i = first \<longrightarrow> o_SubmittedAt ord = Some since)) \<and>
             ((\<exists>p n. ReplaceOrder i p n (Some k) \<in> set (snd (step e l)) \<and> k \<noteq> []) \<or>
              k = i \<and> (\<forall>p n j. ReplaceOrder i p n (Some j) \<notin> set (snd (step e l))) \<and>
              CancelOrder i True \<notin> set (snd (step e l)))
           else k = i \<and> e_now e - since \<le> l_Patience l + l_Every l \<and>
             (\<forall>sent j p n. e_replace e sent j p n \<noteq> Ok i)))"

fun rests :: "env list \<Rightarrow> Ladder \<Rightarrow> string \<Rightarrow> time \<Rightarrow> string \<Rightarrow> string \<Rightarrow> bool" where
  "rests [] l first since i j \<longleftrightarrow> i = j"
| "rests (e # es) l first since i j \<longleftrightarrow>
     (\<exists>k. rests_on e l first since i k \<and> rests es (fst (step e l)) first since k j)"

text \<open>A pass in which the order is not yet there.\<close>

definition not_yet :: "string \<Rightarrow> env \<Rightarrow> bool" where
  "not_yet i e \<longleftrightarrow> (\<forall>reads orders. e_orders e reads = Ok orders \<longrightarrow> i \<notin> o_ID ` set orders) \<and>
     (\<forall>sent j p n. e_replace e sent j p n \<noteq> Ok i)"

text \<open>The ladder knows of the chain what it is to know: when it was placed, or nothing, and then the order
  listed is still the first one.\<close>

definition knows :: "Ladder \<Rightarrow> string \<Rightarrow> time \<Rightarrow> string \<Rightarrow> bool" where
  "knows l first since i \<longleftrightarrow> (case l_ages l i of None \<Rightarrow> i = first | Some life \<Rightarrow> placed life = since)"

lemma forgets_others:
  assumes "i \<notin> o_ID ` set orders"
  shows "l_ages (remembered e l orders) i =
    (case l_ages l i of None \<Rightarrow> None
     | Some life \<Rightarrow> if placed life < e_now e - (l_Patience l + l_Every l) then None else Some life)"
proof -
  have "l_ages (foldl (\<lambda>l x. if working x then l else forget (o_ID x) l) k os) i = l_ages k i"
    if "set os \<subseteq> set orders" for os k
    using that
  proof (induction os arbitrary: k)
    case (Cons x xs)
    then have "o_ID x \<noteq> i" using assms by auto
    then show ?case using Cons by (auto simp: forget_def)
  qed simp
  moreover have "l_Patience (foldl (\<lambda>l x. if working x then l else forget (o_ID x) l) k os) = l_Patience k"
    "l_Every (foldl (\<lambda>l x. if working x then l else forget (o_ID x) l) k os) = l_Every k" for os k
    by (induction os arbitrary: k) (auto simp: forget_def)
  moreover have "i \<notin> alive_in orders" using assms by (auto simp: alive_in_def)
  ultimately show ?thesis
    by (simp add: remembered_def forgetWhatIsDone_def Let_def split: option.split)
qed

lemma step_others:
  assumes "e_orders e (l_Reads l) = Ok orders" "i \<notin> o_ID ` set orders" "\<And>sent j p n. e_replace e sent j p n \<noteq> Ok i"
  shows "l_ages (fst (step e l)) i = l_ages (remembered e l orders) i"
  using after_others [of i orders e l orders "[]"] assms(2,3) step_Ok(1) [OF assms(1)] by simp

lemma knows_at_a_sight:
  assumes "knows l first since (o_ID ord)" "distinct (map o_ID orders)" "ord \<in> set orders" "working ord"
    "o_ID ord = first \<longrightarrow> o_SubmittedAt ord = Some since"
  shows "placed (life_at e (remembered e l orders) ord) = since"
proof (cases "l_ages l (o_ID ord)")
  case None
  then have "l_ages (remembered e l orders) (o_ID ord) = None" using remembered_age [OF assms(2-4), of e l] by simp
  then show ?thesis using assms(1,5) None by (simp add: life_at_def lifeOf_def knows_def Let_def)
next
  case (Some life)
  then show ?thesis using known_life [OF assms(2-4) Some, of e] assms(1) by (simp add: knows_def)
qed

lemma knows_after:
  assumes "knows l first since i" "rests_on e l first since i k"
  shows "knows (fst (step e l)) first since k"
proof (cases "e_orders e (l_Reads l)")
  case (Inl err)
  then show ?thesis using assms by (simp add: rests_on_def step_Err knows_def)
next
  case (Inr orders)
  note r = assms(2) [unfolded rests_on_def Inr, simplified]
  show ?thesis
  proof (cases "i \<in> o_ID ` set orders")
    case False
    then have k: "k = i" "e_now e - since \<le> l_Patience l + l_Every l" "\<And>sent j p n. e_replace e sent j p n \<noteq> Ok i"
      using r by auto
    have "l_ages (fst (step e l)) i = l_ages l i"
      using step_others [OF Inr False k(3)] forgets_others [OF False, of e l] k(2) assms(1)
      by (auto simp: knows_def split: option.splits)
    then show ?thesis using assms(1) by (simp add: k(1) knows_def)
  next
    case True
    then obtain ord where ord: "ord \<in> set orders" "o_ID ord = i" by auto
    have own: "own_ids e orders" "distinct (map o_ID orders)" using r by (auto simp: own_ids_def)
    have w: "working ord" "o_ID ord = first \<longrightarrow> o_SubmittedAt ord = Some since" using r True ord by auto
    have age: "placed (life_at e (remembered e l orders) ord) = since"
      using knows_at_a_sight [OF _ own(2) ord(1) w] assms(1) ord(2) by simp
    note c = chain_age [OF Inr own(1) ord(1) w(1), unfolded ord(2)]
    from r True consider p n where "ReplaceOrder i p n (Some k) \<in> set (snd (step e l))" "k \<noteq> []"
      | "k = i" "\<forall>p n j. ReplaceOrder i p n (Some j) \<notin> set (snd (step e l))" "CancelOrder i True \<notin> set (snd (step e l))"
      by auto
    then show ?thesis
    proof cases
      case (1 p n)
      then show ?thesis using c(1) [of p n k] age by (simp add: knows_def)
    next
      case 2
      then show ?thesis using c(2) age assms(1) by (auto simp: knows_def)
    qed
  qed
qed

lemma knows_still: "rests es l first since i j \<Longrightarrow> knows l first since i \<Longrightarrow> knows (fst (Run_ticks es l)) first since j"
proof (induction es arbitrary: l i)
  case (Cons e es)
  then show ?case using knows_after by (auto simp: case_prod_unfold)
qed simp

lemma unknown_still: "\<forall>e \<in> set es. not_yet i e \<Longrightarrow> l_ages l i = None \<Longrightarrow> l_ages (fst (Run_ticks es l)) i = None"
proof (induction es arbitrary: l)
  case (Cons e es)
  have "l_ages (fst (step e l)) i = None"
  proof (cases "e_orders e (l_Reads l)")
    case (Inl err)
    then show ?thesis using Cons.prems by (simp add: step_Err)
  next
    case (Inr orders)
    then have "i \<notin> o_ID ` set orders" "\<And>sent j p n. e_replace e sent j p n \<noteq> Ok i"
      using Cons.prems(1) by (auto simp: not_yet_def)
    then show ?thesis
      using step_others [OF Inr] forgets_others [of i orders e l] Cons.prems(2) by simp
  qed
  then show ?case using Cons by (simp add: case_prod_unfold)
qed simp

lemma Run_ticks_append: "fst (Run_ticks (es @ fs) l) = fst (Run_ticks fs (fst (Run_ticks es l)))"
  by (induction es arbitrary: l) (simp_all add: case_prod_unfold)

text \<open>C20. An order does not outlive its patience. The ladder starts with an empty memory and an interval not
  longer than the patience, and makes any passes before it meets the order and any after. From then on
  the chain of the order rests at the broker (\<open>rests\<close>), under whatever ids its replacements have, whatever
  passes fail or miss it. When a pass lists it as working, the ids of the pass being its own, longer
  after its first order was submitted than the patience, a cancellation of it is sent in that very pass
  and no replacement; a refused one is sent again in the next.\<close>

theorem patience_ends:
  assumes "l_ages l0 = Map.empty" "l_passes l0 = 0" "l_Every l0 \<le> l_Patience l0"
    "\<forall>e \<in> set earlier. not_yet first e" "rests later (fst (Run_ticks earlier l0)) first since first (o_ID ord)"
    "l = fst (Run_ticks (earlier @ later) l0)" "e_orders e (l_Reads l) = Ok orders" "own_ids e orders"
    "ord \<in> set orders" "working ord" "o_ID ord = first \<longrightarrow> o_SubmittedAt ord = Some since"
    "l_Patience l0 < e_now e - since"
  shows "(\<exists>ok. CancelOrder (o_ID ord) ok \<in> set (snd (step e l))) \<and>
    ReplaceOrder (o_ID ord) p n r \<notin> set (snd (step e l))"
proof -
  let ?l1 = "fst (Run_ticks earlier l0)"
  have "l_ages ?l1 first = None" using unknown_still [OF assms(4)] assms(1) by simp
  then have "knows ?l1 first since first" by (simp add: knows_def)
  then have "knows l first since (o_ID ord)"
    using knows_still [OF assms(5)] by (simp add: assms(6) Run_ticks_append)
  then have age: "placed (life_at e (remembered e l orders) ord) = since"
    using assms(8-11) by (intro knows_at_a_sight) (simp_all add: own_ids_def)
  have "ages_sane l0" using assms(1,2) by (simp add: ages_sane_def)
  then have l: "ages_sane l" "l_Every l = l_Every l0" "l_Patience l = l_Patience l0"
    using Run_ticks_sane [of l0 "earlier @ later"] assms(6) by auto
  have out: "out_of_patience e (remembered e l orders) ord" using assms(12) l age by (simp add: out_of_patience_def)
  show ?thesis
    using past_patience [OF l(1) _ assms(7-10) out] assms(3) l by simp
qed

subsection \<open>What may still be walked\<close>

lemma not_too_large:
  "\<not> too_large ord c \<Longrightarrow> WorstCase ord = Some w \<Longrightarrow>
   - w \<le> c \<or> 1 < resting_of ord \<and> - w - c < - w / resting_of ord"
  by (auto simp: too_large_def resting_of_def Let_def split: if_splits)

lemma pass_limits_simps:
  "m_ceiling (fst (pass_limits e)) = (case e_Ceiling e of Some (Ok limit) \<Rightarrow> Some limit | _ \<Rightarrow> None)"
  "m_fused (fst (pass_limits e)) \<longleftrightarrow> (\<exists>said. e_Fuse e = Some (Ok (True, said)))"
  "e_Book e = Some (Ok b) \<Longrightarrow> e_positions e = Ok ps \<Longrightarrow> m_book (fst (pass_limits e)) = Some b \<and>
     snd (pass_limits e) = (if WithoutAFloor ps \<noteq> [] then None else Some (AtRisk (e_it e) ps))"
  by (auto simp: pass_limits_def Let_def case_prod_unfold split: option.splits sum.splits)

text \<open>C17. An order that opens risk is moved only on a day whose fuse has not blown, and only if its loss
  has a floor and, where the ceiling is known, its worst case is within it or past it by less than
  one of the several sets it rests for - or else its cancellation was sent and the broker refused
  it.\<close>

theorem walked_orders_were_judged:
  assumes "ReplaceOrder i p n r \<in> set (snd (step e l))" "e_orders e (l_Reads l) = Ok orders"
  shows "\<exists>ord \<in> set orders. o_ID ord = i \<and> working ord \<and> (OnlyCloses ord \<or>
    (\<forall>said. e_Fuse e \<noteq> Some (Ok (True, said))) \<and>
    (CancelOrder i False \<in> set (snd (step e l)) \<or> \<not> Unbounded ord \<and>
     (\<forall>c w. e_Ceiling e = Some (Ok c) \<and> WorstCase ord = Some w \<longrightarrow>
        - w \<le> c \<or> 1 < resting_of ord \<and> - w - c < - w / resting_of ord)))"
proof -
  from assms obtain pre ord post new where o: "orders = pre @ ord # post" "o_ID ord = i" "working ord"
    "OnlyCloses ord \<or> \<not> m_fused (fst (pass_limits e)) \<and> (Unbounded ord \<longrightarrow> refused ord new) \<and>
       (\<forall>c. m_ceiling (fst (pass_limits e)) = Some c \<and> too_large ord c \<longrightarrow> refused ord new) \<and>
       \<not> book_full (fst (pass_limits e)) ord (after e l orders pre)"
    "set new \<subseteq> set (snd (step e l))" by (rule step_replace)
  have ref: "refused ord new \<Longrightarrow> CancelOrder i False \<in> set (snd (step e l))"
    using o(2,5) by (auto simp: refused_def)
  have "OnlyCloses ord \<or> (\<forall>said. e_Fuse e \<noteq> Some (Ok (True, said))) \<and>
    (CancelOrder i False \<in> set (snd (step e l)) \<or> \<not> Unbounded ord \<and>
     (\<forall>c w. e_Ceiling e = Some (Ok c) \<and> WorstCase ord = Some w \<longrightarrow>
        - w \<le> c \<or> 1 < resting_of ord \<and> - w - c < - w / resting_of ord))"
    using o(4) ref by (auto simp: pass_limits_simps dest: not_too_large)
  then show ?thesis using o(1-3) by auto
qed

text \<open>C18. In money: when such an order is in whole sets, its contracts can be read, the ceiling is known and
  the broker refused no cancellation of it in the pass, then at no price of the underlying does a fill
  at the order's worst price lose more than the worst case the ceiling was compared with, to half a
  cent. An order whose cancellation the broker refused is walked all the same, and its loss may have
  no limit.\<close>

theorem walked_orders_loss:
  assumes "ReplaceOrder i p n r \<in> set (snd (step e l))" "e_orders e (l_Reads l) = Ok orders"
    "CancelOrder i False \<notin> set (snd (step e l))" "e_Ceiling e = Some (Ok c)" "0 \<le> x"
    "\<forall>ord \<in> set orders. o_ID ord = i \<longrightarrow> \<not> OnlyCloses ord \<and> whole_order ord \<and> readable_order ord"
  shows "\<exists>ord \<in> set orders. \<exists>w. o_ID ord = i \<and> WorstCase ord = Some w \<and>
    - (100 * payoff (exact_order_legs ord) x + exact_order_settled ord) \<le> - val w + 1 / 200 \<and>
    (- w \<le> c \<or> 1 < resting_of ord \<and> - w - c < - w / resting_of ord)"
proof -
  from assms(1,2) obtain pre ord post new where o: "orders = pre @ ord # post" "o_ID ord = i"
    "OnlyCloses ord \<or> \<not> m_fused (fst (pass_limits e)) \<and> (Unbounded ord \<longrightarrow> refused ord new) \<and>
       (\<forall>c. m_ceiling (fst (pass_limits e)) = Some c \<and> too_large ord c \<longrightarrow> refused ord new) \<and>
       \<not> book_full (fst (pass_limits e)) ord (after e l orders pre)"
    "set new \<subseteq> set (snd (step e l))" by (rule step_replace)
  have nor: "\<not> refused ord new" using o(2,4) assms(3) by (auto simp: refused_def)
  have ord: "ord \<in> set orders" using o(1) by simp
  then have good: "\<not> OnlyCloses ord" "whole_order ord" "readable_order ord" using assms(6) o(2) by auto
  obtain w where w: "WorstCase ord = Some w" using good(3) by (auto simp: readable_order_def)
  have b: "\<not> Unbounded ord" "\<not> too_large ord c"
    using o(3) nor good(1) assms(4) by (auto simp: pass_limits_simps)
  have "order_worst ord \<le> 100 * payoff (exact_order_legs ord) x + exact_order_settled ord + 1 / 200"
    by (rule resting_order.worst_below_every_price [OF good(3) bounded_slope [OF good(2,3) b(1)] assms(5)])
  then show ?thesis using ord o(2) w not_too_large [OF b(2) w] by (auto simp: order_worst_def)
qed

subsection \<open>The book\<close>

lemma visit_book:
  assumes "m_book m = Some book"
  shows "s_atRisk (visit e m s ord) = s_atRisk s \<and>
      (working ord \<and> \<not> OnlyCloses ord \<and> WorstCase ord \<noteq> None \<longrightarrow>
        (\<exists>ok. CancelOrder (o_ID ord) ok \<in> set (verbs (visit e m s ord)))) \<or>
    (\<exists>w. WorstCase ord = Some w \<and> \<not> book_full m ord s \<and>
       s_atRisk (visit e m s ord) = map_option (\<lambda>r. r - w) (s_atRisk s))"
proof (cases "\<not> working ord \<or> m_fused m \<and> \<not> OnlyCloses ord")
  case True
  then show ?thesis by (auto simp: visit_def Let_def)
next
  case False': False
  then have False: "working ord" "\<not> (m_fused m \<and> \<not> OnlyCloses ord)" by auto
  define r where "r = reported e ord s"
  have r: "s_atRisk r = s_atRisk s" by (simp add: r_def)
  have pw: "s_atRisk (patience_or_walk e ord t) = s_atRisk t" for t
    by (simp add: patience_or_walk_eq Let_def)
  have v: "visit e m s ord = (if fst (checks e m ord r) then snd (checks e m ord r)
      else patience_or_walk e ord (snd (checks e m ord r)))"
    using False unfolding visit_def r_def [symmetric] by (auto simp: case_prod_unfold Let_def)
  then have at: "s_atRisk (visit e m s ord) = s_atRisk (snd (checks e m ord r))" by (simp add: pw)
  obtain new where new: "verbs (snd (checks e m ord r)) = verbs r @ new"
    "set new \<subseteq> range (CancelOrder (o_ID ord))" "fst (checks e m ord r) \<longrightarrow> new \<noteq> []"
    using checks_verbs by metis
  consider "OnlyCloses ord" | "fst (checks e m ord r)" | "\<not> OnlyCloses ord" "\<not> fst (checks e m ord r)" by blast
  then show ?thesis
  proof cases
    case 1
    then show ?thesis using at r by (simp add: checks_closing)
  next
    case 2
    then obtain y where "y \<in> set new" using new(3) by (cases new) auto
    then have "\<exists>ok. CancelOrder (o_ID ord) ok \<in> set (verbs (visit e m s ord))"
      using 2 v new(1,2) by auto
    moreover have "s_atRisk (snd (checks e m ord r)) = s_atRisk r"
      using checks_atRisk [of e m ord r] 2 by blast
    ultimately show ?thesis using at r by simp
  next
    case 3
    let ?s2 = "snd (ceiling_check e m ord (snd (unbounded e ord r)))"
    have full: "book_full m ord ?s2 = book_full m ord s" by (rule book_full_cong) (simp add: r)
    have s: "snd (checks e m ord r) = snd (book_check e m ord ?s2)" "\<not> book_full m ord s"
      using 3 full by (auto simp: checks_def then_check_def split: if_splits)
    show ?thesis
      using at s(1) assms s(2) full r by (auto split: option.splits)
  qed
qed

definition add_worst :: "f64 \<Rightarrow> Order \<Rightarrow> f64" where
  "add_worst r ord = (case WorstCase ord of None \<Rightarrow> r | Some w \<Rightarrow> r - w)"

lemma add_worst_Some: "WorstCase ord = Some w \<Longrightarrow> add_worst r ord = r - w"
  by (simp add: add_worst_def)

lemma within_book:
  assumes "\<not> book_full m ord s" "m_book m = Some b" "WorstCase ord = Some w" "s_atRisk s = Some r"
    "0 \<le> A" "- w / resting_of ord \<le> A"
  shows "r - w - b \<le> A"
proof (cases "r - w - b \<le> 0")
  case True
  then show ?thesis using assms(5) by (rule order.trans)
next
  case False
  then have "r - w - b < - w / resting_of ord"
    using assms(1-4) by (auto simp: book_full_def over_book_def resting_of_def Let_def)
  then show ?thesis using assms(6) by simp
qed

text \<open>C19. Orders in one pass add up. Take the loss the positions already held put at risk and add, one
  after the other, the worst case of every order that a pass leaves in the book: however many
  orders there are, the total passes what the whole account may lose by no more than one set of
  one of them. Every other opening order whose worst case is known was sent a cancellation.\<close>

theorem orders_in_one_pass_add_up:
  assumes "e_orders e (l_Reads l) = Ok orders" "e_Book e = Some (Ok book)" "e_positions e = Ok ps"
    "WithoutAFloor ps = []" "0 \<le> one_set"
    "\<forall>ord \<in> set orders. \<forall>w. WorstCase ord = Some w \<longrightarrow> - w / resting_of ord \<le> one_set"
  shows "\<exists>kept. subseq kept orders \<and>
    (kept = [] \<or> foldl add_worst (AtRisk (e_it e) ps) kept - book \<le> one_set) \<and>
    (\<forall>ord \<in> set orders. working ord \<and> \<not> OnlyCloses ord \<and> WorstCase ord \<noteq> None \<and> ord \<notin> set kept \<longrightarrow>
       (\<exists>ok. CancelOrder (o_ID ord) ok \<in> set (snd (step e l))))"
proof -
  let ?m = "fst (pass_limits e)"
  have m: "m_book ?m = Some book" "snd (pass_limits e) = Some (AtRisk (e_it e) ps)"
    using pass_limits_simps(3) [OF assms(2,3)] assms(4) by auto
  have "\<exists>kept. subseq kept seen \<and>
      s_atRisk (after e l orders seen) = Some (foldl add_worst (AtRisk (e_it e) ps) kept) \<and>
      (kept = [] \<or> foldl add_worst (AtRisk (e_it e) ps) kept - book \<le> one_set) \<and>
      (\<forall>ord \<in> set seen. working ord \<and> \<not> OnlyCloses ord \<and> WorstCase ord \<noteq> None \<and> ord \<notin> set kept \<longrightarrow>
        (\<exists>ok. CancelOrder (o_ID ord) ok \<in> set (verbs (after e l orders seen))))"
    if "set seen \<subseteq> set orders" for seen
    using that
  proof (induction seen rule: rev_induct)
    case (snoc x xs)
    then obtain kept where k: "subseq kept xs"
      "s_atRisk (after e l orders xs) = Some (foldl add_worst (AtRisk (e_it e) ps) kept)"
      "kept = [] \<or> foldl add_worst (AtRisk (e_it e) ps) kept - book \<le> one_set"
      "\<forall>ord \<in> set xs. working ord \<and> \<not> OnlyCloses ord \<and> WorstCase ord \<noteq> None \<and> ord \<notin> set kept \<longrightarrow>
        (\<exists>ok. CancelOrder (o_ID ord) ok \<in> set (verbs (after e l orders xs)))" by auto
    have mono: "set (verbs (after e l orders xs)) \<subseteq> set (verbs (after e l orders (xs @ [x])))"
      by (rule after_verbs_mono)
    from visit_book [OF m(1), of e "after e l orders xs" x] show ?case
    proof
      assume a: "s_atRisk (visit e ?m (after e l orders xs) x) = s_atRisk (after e l orders xs) \<and>
        (working x \<and> \<not> OnlyCloses x \<and> WorstCase x \<noteq> None \<longrightarrow>
          (\<exists>ok. CancelOrder (o_ID x) ok \<in> set (verbs (visit e ?m (after e l orders xs) x))))"
      show ?thesis
        by (rule exI [of _ kept]) (use a k mono in auto)
    next
      assume "\<exists>w. WorstCase x = Some w \<and> \<not> book_full ?m x (after e l orders xs) \<and>
        s_atRisk (visit e ?m (after e l orders xs) x) = map_option (\<lambda>r. r - w) (s_atRisk (after e l orders xs))"
      then obtain w where w: "WorstCase x = Some w" "\<not> book_full ?m x (after e l orders xs)"
        "s_atRisk (visit e ?m (after e l orders xs) x) = map_option (\<lambda>r. r - w) (s_atRisk (after e l orders xs))"
        by blast
      have "foldl add_worst (AtRisk (e_it e) ps) kept - w - book \<le> one_set"
        by (rule within_book [OF w(2) m(1) w(1) k(2) assms(5)]) (use assms(6) snoc.prems w(1) in auto)
      then show ?thesis
        by (intro exI [of _ "kept @ [x]"]) (use w k mono in \<open>auto simp: add_worst_Some\<close>)
    qed
  qed (auto simp: m intro!: exI [of _ "[]"])
  from this [of orders] obtain kept where "subseq kept orders"
    "kept = [] \<or> foldl add_worst (AtRisk (e_it e) ps) kept - book \<le> one_set"
    "\<forall>ord \<in> set orders. working ord \<and> \<not> OnlyCloses ord \<and> WorstCase ord \<noteq> None \<and> ord \<notin> set kept \<longrightarrow>
        (\<exists>ok. CancelOrder (o_ID ord) ok \<in> set (filter is_verb (snd (step e l))))"
    by (auto simp: step_Ok(2) [OF assms(1)])
  then show ?thesis by auto
qed

subsection \<open>What the person watching is told\<close>

fun is_said :: "effect \<Rightarrow> bool" where
  "is_said (Say line) = True"
| "is_said _ = False"

definition said :: "pass \<Rightarrow> effect list" where
  "said s = filter is_said (s_done s)"

lemma said_simps [simp]:
  "said (did x s) = said s @ (if is_said x then [x] else [])"
  "said (s\<lparr>s_ladder := l\<rparr>) = said s" "said (s\<lparr>s_atRisk := r\<rparr>) = said s"
  "said (s\<lparr>s_cancelled := c\<rparr>) = said s" "said (wroteDown e y s) = said s" "said (wake e w s) = said s"
  "said (snd (try_cancel e ord s)) = said s"
  by (simp_all add: said_def did_def wroteDown_def wake_def try_cancel_def split: sum.splits)

lemma said_cancels [simp]:
  "said (snd (unbounded e ord s)) = said s" "said (snd (tooBig e ord c s)) = said s"
  "said (overBook e ord h a b s) = said s" "said (cancel_and_tell e ord s) = said s"
  by (simp_all add: unbounded_def tooBig_def overBook_def cancel_and_tell_def try_cancel_eq Let_def split: bool.splits)

lemma said_checks [simp]: "said (snd (checks e m ord s)) = said s"
proof -
  have "said (snd (ceiling_check e m ord s)) = said s" "said (snd (book_check e m ord s)) = said s" for s
    by (simp_all add: ceiling_check_def book_check_def Let_def split: option.splits)
  then show ?thesis by (simp add: checks_def then_check_def)
qed

lemma said_walk [simp]: "said (walk e ord s) = said s"
  by (auto simp: walk_def Let_def split: sum.splits option.splits prod.splits)

lemma said_visit: "said (visit e m s ord) = said (reported e ord s)"
  by (simp add: visit_def Let_def case_prod_unfold patience_or_walk_eq)

lemma said_reported:
  assumes "Say line \<in> set (said (reported e ord s))"
  shows "Say line \<in> set (said s) \<or> line = whatFilled ord \<and> e_Say e \<and>
    (o_Status ord = ''filled'' \<or> 0 < o_FilledQuantity ord) \<and>
    (\<exists>note sent. e_note e = Some note \<and> note sent (filled_step e ord) = Ok True) \<and>
    (\<exists>t. o_FilledAt ord = Some t \<and> l_watching (s_ladder s) < t)"
  using assms
  by (auto simp: reported_def report_def Let_def split: if_splits option.splits sum.splits)

text \<open>A line is said only about a fill: one that the record had not yet written down when this pass
  noted it, and that happened after this ladder began to watch. A restart reads no old fill back
  into the room.\<close>

theorem only_new_fills_are_said:
  assumes "Say line \<in> set (snd (step e l))" "e_orders e (l_Reads l) = Ok orders"
  shows "\<exists>ord \<in> set orders. line = whatFilled ord \<and> (o_Status ord = ''filled'' \<or> 0 < o_FilledQuantity ord) \<and>
    (\<exists>note sent. e_note e = Some note \<and> note sent (filled_step e ord) = Ok True) \<and>
    (\<exists>t. o_FilledAt ord = Some t \<and> l_watching l < t)"
proof -
  have "\<exists>ord \<in> set seen. line = whatFilled ord \<and> (o_Status ord = ''filled'' \<or> 0 < o_FilledQuantity ord) \<and>
      (\<exists>note sent. e_note e = Some note \<and> note sent (filled_step e ord) = Ok True) \<and>
      (\<exists>t. o_FilledAt ord = Some t \<and> l_watching l < t)"
    if "Say line \<in> set (said (after e l orders seen))" for seen
    using that
  proof (induction seen rule: rev_induct)
    case (snoc x xs)
    then have "Say line \<in> set (said (reported e x (after e l orders xs)))" by (simp add: said_visit)
    from said_reported [OF this] show ?case using snoc.IH by auto
  qed (simp add: said_def)
  moreover have "filter is_said (snd (step e l)) = said (after e l orders orders)"
    using assms(2)
    by (simp add: step_def after_def begun_def remembered_def tick_def Let_def case_prod_unfold wake_def said_def)
  then have "set (said (after e l orders orders)) = {x \<in> set (snd (step e l)). is_said x}"
    by (metis set_filter)
  then have "Say line \<in> set (said (after e l orders orders))" using assms(1) by simp
  ultimately show ?thesis by blast
qed

subsection \<open>The walk arrives\<close>

lemma rha_cents_near:
  assumes "\<bar>val v - of_int k / 100\<bar> \<le> 1 / 1000" "\<bar>k\<bar> \<le> 100000000"
  shows "round_cents v = cent k"
proof -
  have a: "\<bar>val v * 100 - of_int k\<bar> \<le> 1 / 10" using assms(1) by linarith
  then have "\<bar>val v * 100\<bar> \<le> 200000000" using of_int_abs_le [OF assms(2)] by linarith
  from rnd_error_le [OF this] have "\<bar>rnd (val v * 100) - val v * 100\<bar> \<le> 1 / 10"
    by (rule order.trans) simp
  then have "\<bar>rnd (val v * 100) - of_int k\<bar> < 1 / 2" using a by linarith
  then show ?thesis by (simp add: round_cents_eq rha_near)
qed

lemma near_target:
  assumes "\<bar>val limit\<bar> \<le> 1000000" "\<bar>k\<bar> \<le> 100000000"
  shows "\<bar>val (limit + (cent k - limit)) - of_int k / 100\<bar> \<le> 1 / 1000"
    "\<bar>val (limit - (limit - cent k)) - of_int k / 100\<bar> \<le> 1 / 1000"
    "\<bar>val (cent k) - of_int k / 100\<bar> \<le> 1 / 1000"
proof -
  define x y t :: rat where "x = val limit" and "y = val (cent k)" and "t = of_int k / 100"
  have x: "\<bar>x\<bar> \<le> 1000000" using assms(1) by (simp add: x_def)
  have t: "\<bar>t\<bar> \<le> 1000000" using of_int_abs_le [OF assms(2)] by (simp add: t_def)
  have y: "\<bar>y - t\<bar> \<le> 1 / 1000000"
    using rnd_error_le [OF t] by (simp add: y_def t_def cent_def val_lit)
  then show "\<bar>val (cent k) - of_int k / 100\<bar> \<le> 1 / 1000"
    unfolding y_def [symmetric] t_def [symmetric] by linarith
  have "\<bar>y - x\<bar> \<le> 3000000" using t y x by linarith
  from rnd_error_le [OF this] have d': "\<bar>rnd (y - x) - (y - x)\<bar> \<le> 1 / 1000000" by (rule order.trans) simp
  have "\<bar>x + rnd (y - x)\<bar> \<le> 5000000" using d' t y x by linarith
  from rnd_error_le [OF this] have s': "\<bar>rnd (x + rnd (y - x)) - (x + rnd (y - x))\<bar> \<le> 1 / 1000000"
    by (rule order.trans) simp
  have near: "\<bar>rnd (x + rnd (y - x)) - t\<bar> \<le> 1 / 1000" using s' d' y by linarith
  then show "\<bar>val (limit + (cent k - limit)) - of_int k / 100\<bar> \<le> 1 / 1000"
    by (simp add: val_add val_diff x_def y_def t_def)
  have "rnd (x - y) = - rnd (y - x)" using rnd_minus [of "y - x"] by simp
  then show "\<bar>val (limit - (limit - cent k)) - of_int k / 100\<bar> \<le> 1 / 1000"
    using near by (simp add: val_diff x_def y_def t_def)
qed

lemma Toward_arrives:
  assumes "\<bar>val limit\<bar> \<le> 1000000" "\<bar>k\<bar> \<le> 100000000" "\<bar>cent k - limit\<bar> \<le> st"
  shows "Toward limit (cent k) st = cent k"
proof -
  note near = near_target [OF assms(1,2)]
  have t: "round_cents (cent k) = cent k" by (rule rha_cents_near [OF near(3) assms(2)])
  consider "cent k > limit" | "cent k \<le> limit" using linorder_not_less by blast
  then show ?thesis
  proof cases
    case 1
    then have "limit + (cent k - limit) \<le> limit + st"
      using assms(3) by (intro f64_add_mono) (auto simp: f64_abs_of_nonneg)
    then have "cent k \<le> round_cents (limit + st)"
      using round_cents_mono rha_cents_near [OF near(1) assms(2)] by metis
    then have "round_cents (min (limit + st) (cent k)) = cent k"
      using t round_cents_mono [of "limit + st" "cent k"] by (auto simp: min_def intro: antisym)
    then show ?thesis using 1 t by (auto simp: Toward_def)
  next
    case 2
    have "limit - cent k \<le> st"
      using 2 assms(3) f64_minus_diff [of "cent k" limit]
      by (cases "cent k = limit") (auto simp: f64_abs_of_nonneg)
    then have "limit - st \<le> limit - (limit - cent k)" by (intro f64_diff_mono) auto
    then have "round_cents (limit - st) \<le> cent k"
      using round_cents_mono rha_cents_near [OF near(2) assms(2)] by metis
    then have "round_cents (max (limit - st) (cent k)) = cent k"
      using t round_cents_mono [of "cent k" "limit - st"] by (auto simp: max_def intro: antisym)
    then show ?thesis using 2 t by (auto simp: Toward_def)
  qed
qed

text \<open>The walk arrives: under the stride that divides what is left, a step taken when less than two
  intervals of patience remain moves the order all the way to its target, whatever the distance.\<close>

theorem last_stride_arrives:
  assumes "l_Stride l \<noteq> StrideByTick" "0 < l_Every l"
    "l_Patience l - (now - placed (fst (lifeOf l ord now))) < 2 * l_Every l"
    "\<bar>val (o_LimitPrice ord)\<bar> \<le> 1000000" "\<bar>k\<bar> \<le> 100000000"
  shows "Toward (o_LimitPrice ord) (cent k) (fst (stride l ord (cent k) now)) = cent k"
proof (rule Toward_arrives [OF assms(4,5)])
  let ?left = "l_Patience l - (now - placed (fst (lifeOf l ord now)))"
  have "go_div ?left (l_Every l) \<le> 1"
  proof (cases "0 \<le> ?left")
    case True
    have "?left div l_Every l < 2"
    proof (rule ccontr)
      assume "\<not> ?left div l_Every l < 2"
      then have "2 * l_Every l \<le> ?left div l_Every l * l_Every l" using assms(2) by (intro mult_right_mono) auto
      also have "\<dots> \<le> ?left" using div_mult_mod_eq [of ?left "l_Every l"] pos_mod_sign [OF assms(2), of ?left] by linarith
      finally show False using assms(3) by simp
    qed
    then show ?thesis using go_div_nonneg [OF True assms(2)] by simp
  next
    case False
    then have "go_div ?left (l_Every l) \<le> 0"
      using assms(2) by (simp add: go_div_def sgn_if pos_imp_zdiv_nonneg_iff)
    then show ?thesis by simp
  qed
  then have one: "(if go_div ?left (l_Every l) < 1 then 1 else go_div ?left (l_Every l)) = 1" by auto
  have "f64_of_int 1 = 1" by (simp add: f64_eq_iff val_lit)
  then show "\<bar>cent k - o_LimitPrice ord\<bar> \<le> fst (stride l ord (cent k) now)"
    using assms(1) one by (auto simp: stride_def Let_def case_prod_unfold)
qed

end
