(* ===== verification/LadderExample.thy ===== *)
theory LadderExample
  imports LadderLaws
begin

text \<open>
  One concrete pass of the ladder, used to show that the properties' hypotheses can hold: a put
  credit spread of two sets resting at a credit of 1.00, whose name accepts a credit of 0.50,
  while the book shows 0.75.
\<close>

definition ex_leg :: "string \<Rightarrow> string \<Rightarrow> string \<Rightarrow> OrderLeg" where
  "ex_leg symbol side intent = \<lparr>o_ID = [], o_ClientID = [], o_Symbol = symbol, o_Side = side,
     o_Type = [], o_Class = [], o_Status = [], o_PositionIntent = intent, o_Quantity = lit 2,
     o_Ratio = 1, o_Notional = 0, o_FilledQuantity = 0, o_LimitPrice = 0, o_FilledPrice = 0,
     o_SubmittedAt = None, o_FilledAt = None, o_CanceledAt = None\<rparr>"

definition ex_symbols :: "string \<times> string" where
  "ex_symbols = (''SPY260828P00500000'', ''SPY260828P00495000'')"

definition ex_order :: "string \<Rightarrow> Order" where
  "ex_order intent = \<lparr>o_ID = ''a'', o_ClientID = ''worst=-0.50'', o_Symbol = [], o_Side = [],
     o_Type = ''limit'', o_Class = ''mleg'', o_Status = ''new'', o_PositionIntent = [],
     o_Quantity = lit 2, o_Ratio = 0, o_Notional = 0, o_FilledQuantity = 0,
     o_LimitPrice = cent (- 100), o_FilledPrice = 0, o_SubmittedAt = Some 0, o_FilledAt = None,
     o_CanceledAt = None,
     o_Legs = [ex_leg ''SPY260828P00500000'' ''sell'' (''sell'' @ intent),
               ex_leg ''SPY260828P00495000'' ''buy'' (''buy'' @ intent)]\<rparr>"

definition ex_quote :: "string \<Rightarrow> f64 \<Rightarrow> f64 \<Rightarrow> Quote" where
  "ex_quote symbol bid ask = \<lparr>q_Symbol = symbol, q_Bid = bid, q_Ask = ask, q_BidSize = 10,
     q_AskSize = 10, q_ImpliedVolatility = None, q_Delta = Some (lit (- 1 / 4))\<rparr>"

definition ex_quotes :: "string \<rightharpoonup> Quote" where
  "ex_quotes = [''SPY260828P00500000'' \<mapsto> ex_quote ''SPY260828P00500000'' (cent 175) (cent 200),
     ''SPY260828P00495000'' \<mapsto> ex_quote ''SPY260828P00495000'' (cent 75) (cent 100)]"

definition ex_ladder :: Ladder where
  "ex_ladder = \<lparr>l_Every = 45 * second, l_Step = lit (1 / 64), l_Stride = StrideToArrive,
     l_Patience = 480 * second, l_Reads = 50, l_watching = 0, l_passes = 0, l_ages = Map.empty\<rparr>"

definition ex_env :: "time \<Rightarrow> Order list \<Rightarrow> env" where
  "ex_env now orders = \<lparr>e_now = now, e_orders = (\<lambda>reads. Ok orders), e_positions = Ok [],
     e_Ceiling = Some (Ok (lit 5000)), e_Book = Some (Ok (lit 9000)), e_Fuse = Some (Ok (False, [])),
     e_MinEdge = None, e_quotes = (\<lambda>sent symbols. Ok ex_quotes),
     e_replace = (\<lambda>sent i p n. Ok (CHR ''r'' # i)), e_cancel = (\<lambda>sent i. Ok ()),
     e_note = Some (\<lambda>sent x. Ok True), e_Wake = True, e_Say = True, e_it = id\<rparr>"

subsection \<open>Reading the order\<close>

lemmas string_eval = HasPrefix_def HasSuffix_def is_digit_def digit_val_def

lemma ex_contracts:
  "ContractFrom ''SPY260828P00500000'' = Some \<lparr>c_Symbol = ''SPY260828P00500000'',
     c_Expiration = \<lparr>d_year = 2026, d_month = 8, d_day = 28\<rparr>, c_Strike = lit 500, c_Type = ''put''\<rparr>"
  "ContractFrom ''SPY260828P00495000'' = Some \<lparr>c_Symbol = ''SPY260828P00495000'',
     c_Expiration = \<lparr>d_year = 2026, d_month = 8, d_day = 28\<rparr>, c_Strike = lit 495, c_Type = ''put''\<rparr>"
  by (simp_all add: ContractFrom_def TrimSpace_def is_space_def parse_yymmdd_def parse_year2_def
      parse_2digits_def days_in_def ParseInt_def parse_nat_def nat_of_digits_def string_eval Let_def f64_eval)

lemma ex_name: "NameFor (cent (- 50)) = ''worst=-0.50''"
proof -
  have "rne (\<bar>val (cent (- 50))\<bar> * 100) = 50" using rne_cent [of "- 50"] by simp
  then have "dec2 (nat (rne (\<bar>val (cent (- 50))\<bar> * 100))) = ''0.50''"
    by (simp add: dec2_def) code_simp
  then show ?thesis
    by (simp add: NameFor_def fmt2_def reservationPrefix_def val_cent)
qed

lemma ex_reservation: "Reservation (ex_order s) = Some (cent (- 50))"
  using stated_NameFor [of "- 50"] by (simp add: Reservation_def ex_order_def ex_name)

lemma ex_showing: "Showing (ex_order s) ex_quotes = Some (cent (- 75))"
  by (simp add: Showing_def ex_order_def ex_leg_def ex_quotes_def ex_quote_def showing_ratio_def f64_eval)

lemma ex_legs: "read_legs (ex_order s) (lit 2) (o_Legs (ex_order s)) =
   Some [(\<lparr>c_Symbol = ''SPY260828P00500000'', c_Expiration = \<lparr>d_year = 2026, d_month = 8, d_day = 28\<rparr>,
           c_Strike = lit 500, c_Type = ''put''\<rparr>, lit (- 2)),
         (\<lparr>c_Symbol = ''SPY260828P00495000'', c_Expiration = \<lparr>d_year = 2026, d_month = 8, d_day = 28\<rparr>,
           c_Strike = lit 495, c_Type = ''put''\<rparr>, lit 2)]"
  by (simp add: ex_order_def ex_leg_def ex_contracts leg_held_def Let_def f64_eval)

lemma ex_order_simps [simp]:
  "o_ID (ex_order s) = ''a''" "o_Status (ex_order s) = ''new''" "o_Class (ex_order s) = ''mleg''"
  "o_Quantity (ex_order s) = lit 2" "o_FilledQuantity (ex_order s) = 0"
  "o_LimitPrice (ex_order s) = cent (- 100)" "o_SubmittedAt (ex_order s) = Some 0"
  "o_ClientID (ex_order s) = ''worst=-0.50''"
  "o_Legs (ex_order s) = [ex_leg ''SPY260828P00500000'' ''sell'' (''sell'' @ s),
     ex_leg ''SPY260828P00495000'' ''buy'' (''buy'' @ s)]"
  by (simp_all add: ex_order_def)

lemma ex_leg_simps [simp]:
  "o_Symbol (ex_leg a b c) = a" "o_Side (ex_leg a b c) = b" "o_PositionIntent (ex_leg a b c) = c"
  "o_Quantity (ex_leg a b c) = lit 2"
  by (simp_all add: ex_leg_def)

lemma ex_worst: "WorstCase (ex_order s) = Some (lit (- 900))"
proof -
  have a: "lit 2 - (0 :: f64) = lit 2" "0 < lit 2" "o_Legs (ex_order s) \<noteq> []" by (simp_all add: f64_eval)
  have w: "worst_price (ex_order s) = lit (- 1 / 2)" by (simp add: worst_price_def ex_reservation f64_eval)
  let ?legs = "[(\<lparr>c_Symbol = ''SPY260828P00500000'', c_Expiration = \<lparr>d_year = 2026, d_month = 8, d_day = 28\<rparr>,
           c_Strike = lit 500, c_Type = ''put''\<rparr>, lit (- 2)),
         (\<lparr>c_Symbol = ''SPY260828P00495000'', c_Expiration = \<lparr>d_year = 2026, d_month = 8, d_day = 28\<rparr>,
           c_Strike = lit 495, c_Type = ''put''\<rparr>, lit 2)]"
  have p: "order_payoff ?legs 0 = lit (- 1000)" "order_payoff ?legs (lit 500) = 0"
      "order_payoff ?legs (lit 495) = lit (- 1000)" "order_payoff ?legs (lit 1000) = 0"
    by (simp_all add: order_payoff_def) (simp_all add: f64_eval)
  have m: "max (max 0 (lit 500)) (lit 495) * lit 2 = lit 1000" "- lit (- 1 / 2) * lit 100 * lit 2 = lit 100"
    by (simp_all add: f64_eval)
  have f: "min max_float64 (lit (- 1000) + lit 100) = lit (- 900)" "min (lit (- 900)) (lit 100) = lit (- 900)"
    "min (lit (- 900)) (lit (- 1000) + lit 100) = lit (- 900)" "min 0 (lit (- 900)) = lit (- 900)"
    by (simp_all add: f64_eval)
  show ?thesis
    using ex_legs [of s] a w p m f
    by (simp add: WorstCase_def Let_def del: ex_order_simps(9) read_legs.simps)
qed

lemma ex_working: "working (ex_order s)"
  by (simp add: working_def Active_def)

lemma ex_intents: "OnlyCloses (ex_order ''_to_close'')" "\<not> OnlyCloses (ex_order ''_to_open'')"
  "OnlyOpens (ex_order ''_to_open'')"
  by (simp_all add: OnlyCloses_def OnlyOpens_def string_eval)

lemma ex_bounded: "\<not> Unbounded (ex_order s)"
  by (simp add: Unbounded_def net_calls_def ex_contracts EqualFold_def ToUpper_def upper_def)

subsection \<open>One pass over it\<close>

definition ex_now :: time where "ex_now = 460 * second"

lemma ex_limits: "pass_limits (ex_env now orders) =
   (\<lparr>m_ceiling = Some (lit 5000), m_book = Some (lit 9000), m_fused = False\<rparr>, Some 0)"
  by (simp add: pass_limits_def ex_env_def WithoutAFloor_def AtRisk_def contracts_of_def keys_of_def Let_def)

lemma ex_env_simps [simp]:
  "e_now (ex_env now orders) = now" "e_orders (ex_env now orders) reads = Ok orders"
  "e_Ceiling (ex_env now orders) = Some (Ok (lit 5000))" "e_Book (ex_env now orders) = Some (Ok (lit 9000))"
  "e_positions (ex_env now orders) = Ok []" "e_it (ex_env now orders) = id"
  "e_Fuse (ex_env now orders) = Some (Ok (False, []))"
  "e_MinEdge (ex_env now orders) = None" "e_quotes (ex_env now orders) d q = Ok ex_quotes"
  "e_replace (ex_env now orders) d i p n = Ok (CHR ''r'' # i)" "e_cancel (ex_env now orders) d i = Ok ()"
  "e_note (ex_env now orders) = Some (\<lambda>d x. Ok True)" "e_Wake (ex_env now orders)" "e_Say (ex_env now orders)"
  by (simp_all add: ex_env_def)

lemma ex_checks: "fst (pass_limits (ex_env now orders)) = m \<Longrightarrow> s_atRisk s = Some 0 \<Longrightarrow>
   checks e m (ex_order ''_to_open'') s =
     (False, s\<lparr>s_atRisk := Some (lit 900)\<rparr>)"
  by (auto simp: ex_limits checks_def then_check_def ex_intents unbounded_def ex_bounded ceiling_check_def tooBig_def
     too_large_def book_check_def over_book_def ex_worst Let_def f64_eval)

definition ex_life :: "int \<Rightarrow> Ladder" where
  "ex_life n = ex_ladder\<lparr>l_passes := n, l_ages := [''a'' \<mapsto> \<lparr>placed = 0, movedOn = 0\<rparr>]\<rparr>"

lemma ex_ladder_simps [simp]:
  "l_Every ex_ladder = 45 * second" "l_Patience ex_ladder = 480 * second" "l_Step ex_ladder = lit (1 / 64)"
  "l_Stride ex_ladder \<noteq> StrideByTick" "l_ages ex_ladder = Map.empty" "l_passes ex_ladder = 0"
  "l_watching ex_ladder = 0" "l_Reads ex_ladder = 50"
  by (simp_all add: ex_ladder_def StrideByTick_def StrideToArrive_def)

lemma ex_stride: "stride (ex_life n) (ex_order s) (cent (- 75)) ex_now = (lit (1 / 4), ex_life n)"
  by (simp add: stride_def ex_life_def lifeOf_def ex_now_def go_div_def second_def Let_def f64_eval)

lemma ex_toward: "Toward (cent (- 100)) (cent (- 75)) (lit (1 / 4)) = cent (- 75)"
  by (simp add: Toward_def f64_eval)

lemma ex_walk:
  assumes "s_ladder t = ex_life n"
  shows "walk (ex_env ex_now orders) (ex_order s) t =
   wroteDown (ex_env ex_now orders)
     (walked_step (ex_env ex_now orders) (ex_order s) (cent (- 75)) (cent (- 75)) (cent (- 50)) ''ra'')
     ((did (ReplaceOrder ''a'' (cent (- 75)) (NameCarrying (ex_order s) ex_now) (Some ''ra''))
        (t\<lparr>s_ladder := ex_life n\<rparr>))\<lparr>s_ladder := carried (ex_life n) ''a'' ''ra''\<rparr>)"
proof -
  have t: "target_of (cent (- 75)) (cent (- 50)) = cent (- 75)"
    and w: "worseThan (cent (- 75)) (cent (- 100))" "cent (- 75) \<noteq> cent (- 100)"
    by (simp_all add: target_of_def worseThan_def f64_eval)
  show ?thesis
    by (simp add: walk_def ex_showing ex_reservation refusesTheFloor_def t w assms ex_stride ex_toward Let_def)
qed

lemma ex_remembered: "forgetWhatIsDone (ex_ladder\<lparr>l_passes := 1\<rparr>) [ex_order i] now = ex_ladder\<lparr>l_passes := 1\<rparr>"
  by (simp add: forgetWhatIsDone_def ex_working Let_def ex_ladder_def)

lemma ex_patience:
  "patience_or_walk (ex_env ex_now orders) (ex_order i) t =
    walk (ex_env ex_now orders) (ex_order i) (t\<lparr>s_ladder := ex_life 1\<rparr>)"
  if "s_ladder t = ex_ladder\<lparr>l_passes := 1\<rparr>"
  using that
  by (simp add: patience_or_walk_def lifeOf_def ex_life_def ex_now_def second_def Let_def)

lemma ex_step:
  "snd (step (ex_env ex_now [ex_order ''_to_open'']) ex_ladder) =
     [ReplaceOrder ''a'' (cent (- 75)) (NameCarrying (ex_order ''_to_open'') ex_now) (Some ''ra''),
      AppendExecutionStep (walked_step (ex_env ex_now [ex_order ''_to_open'']) (ex_order ''_to_open'')
        (cent (- 75)) (cent (- 75)) (cent (- 50)) ''ra'')]"
  by (simp add: step_def ex_limits Let_def visit_def reported_def ex_working ex_checks ex_remembered ex_patience)
    (simp add: ex_walk wroteDown_def did_def)

lemma ex_small: "small_prices [ex_order i]"
  by (simp add: small_prices_def small_price_def ex_reservation f64_eval)

theorem replacement_price_witness:
  "\<exists>floor' showing quotes. Reservation (ex_order ''_to_open'') = Some floor' \<and>
    e_quotes (ex_env ex_now [ex_order ''_to_open'']) [] (map o_Symbol (o_Legs (ex_order ''_to_open''))) = Ok quotes \<and>
    Showing (ex_order ''_to_open'') quotes = Some showing \<and> cent (- 100) < showing \<and> cent (- 75) \<le> showing"
  using replacement_price [of "ex_env ex_now [ex_order ''_to_open'']" ex_ladder "[]" "''a''" "cent (- 75)" _ _ _
      "[ex_order ''_to_open'']"]
  by (auto simp: ex_step ex_small)

theorem replacement_name_witness:
  "stated (NameCarrying (ex_order ''_to_open'') ex_now) reservationPrefix = Some (cent (- 50)) \<and>
   length (NameCarrying (ex_order ''_to_open'') ex_now) \<le> nameLimit"
  using replacement_name [of "''a''" "cent (- 75)" "NameCarrying (ex_order ''_to_open'') ex_now" "Some ''ra''"
      "ex_env ex_now [ex_order ''_to_open'']" ex_ladder "[ex_order ''_to_open'']"]
  by (simp add: ex_step ex_small ex_reservation) (simp add: ex_now_def second_def)

subsection \<open>The order is in whole sets and readable\<close>

lemma ex_whole: "whole_order (ex_order i)"
  by (simp add: whole_order_def resting_of_def whole_leg_def leg_sets_def f64_eval)

lemma ex_readable: "readable_order (ex_order i)"
proof -
  have r: "resting_of (ex_order i) = lit 2" by (simp add: resting_of_def f64_eval)
  have w: "worst_price (ex_order i) = lit (- 1 / 2)" by (simp add: worst_price_def ex_reservation f64_eval)
  show ?thesis
    using ex_legs [of i]
    by (simp add: readable_order_def ex_worst r w order_legs_def order_fleg_def small_leg_def del: ex_order_simps(9) read_legs.simps)
      (simp add: f64_eval)
qed

theorem walked_orders_were_judged_witness:
  "(\<forall>said. e_Fuse (ex_env ex_now [ex_order ''_to_open'']) \<noteq> Some (Ok (True, said))) \<and>
   \<not> Unbounded (ex_order ''_to_open'')"
  using walked_orders_were_judged [of "''a''" "cent (- 75)" "NameCarrying (ex_order ''_to_open'') ex_now" "Some ''ra''"
      "ex_env ex_now [ex_order ''_to_open'']" ex_ladder "[ex_order ''_to_open'']"]
  by (simp add: ex_step ex_intents)

theorem walked_orders_loss_witness:
  "- (100 * payoff (exact_order_legs (ex_order ''_to_open'')) 480 + exact_order_settled (ex_order ''_to_open''))
     \<le> - val (lit (- 900)) + 1 / 200"
  using walked_orders_loss [of "''a''" "cent (- 75)" "NameCarrying (ex_order ''_to_open'') ex_now" "Some ''ra''"
      "ex_env ex_now [ex_order ''_to_open'']" ex_ladder "[ex_order ''_to_open'']" "lit 5000" 480]
  by (simp add: ex_step ex_intents ex_whole ex_readable ex_worst)

lemma ex_own_ids: "own_ids (ex_env now [ex_order i]) [ex_order i]"
  by (simp add: own_ids_def fresh_ids_def)

theorem one_verb_per_order_witness:
  "set (butlast (verbs_on ''a'' (snd (step (ex_env ex_now [ex_order ''_to_open'']) ex_ladder)))) \<subseteq> {CancelOrder ''a'' False} \<and>
   verbs_on ''a'' (snd (step (ex_env ex_now [ex_order ''_to_open'']) ex_ladder)) \<noteq> []"
  using one_verb_per_order [OF ex_own_ids [of ex_now "''_to_open''"], of ex_ladder "''a''"]
  by (simp add: ex_step verbs_on_def)

lemma ex_remembered_life: "forgetWhatIsDone (ex_life 2) [ex_order i] now = ex_life 2"
  by (auto simp: forgetWhatIsDone_def ex_working Let_def ex_life_def ex_ladder_def alive_in_def)

lemma ex_in_time: "\<not> ex_now < 45 * second" "\<not> 480 * second < ex_now"
  by (simp_all add: ex_now_def second_def)

lemma ex_again:
  "ReplaceOrder ''a'' (cent (- 75)) (NameCarrying (ex_order ''_to_open'') ex_now) (Some ''ra'') \<in>
     set (snd (step (ex_env ex_now [ex_order ''_to_open'']) (ex_life 1)))"
proof -
  have two: "ex_life 1\<lparr>l_passes := 2\<rparr> = ex_life 2" "l_passes (ex_life 1) = 1" "l_passes (ex_life 2) = 2"
    "lifeOf (ex_life 2) (ex_order i) now = (\<lparr>placed = 0, movedOn = 0\<rparr>, ex_life 2)"
    "l_Every (ex_life 2) = 45 * second" "l_Patience (ex_life 2) = 480 * second" "s\<lparr>s_ladder := s_ladder s\<rparr> = s"
    for i now s by (simp_all add: ex_life_def lifeOf_def)
  show ?thesis
    by (simp add: step_def ex_limits Let_def visit_def reported_def ex_working ex_checks ex_remembered_life two
        patience_or_walk_def ex_in_time) (simp add: ex_walk wroteDown_def did_def)
qed

theorem chain_age_survives_witness:
  "l_ages (fst (step (ex_env ex_now [ex_order ''_to_open'']) (ex_life 1))) ''ra'' = Some \<lparr>placed = 0, movedOn = 2\<rparr>"
  using chain_age_survives [of "ex_env ex_now [ex_order ''_to_open'']" "ex_life 1" "[ex_order ''_to_open'']"
      "ex_order ''_to_open''" "\<lparr>placed = 0, movedOn = 0\<rparr>"] ex_own_ids ex_working ex_again
  by (simp add: ex_life_def)

lemma ex_life_at: "life_at e (remembered e ex_ladder [ex_order i]) (ex_order i) = \<lparr>placed = 0, movedOn = 0\<rparr>"
  using ex_remembered [of i "e_now e"] by (simp add: life_at_def lifeOf_life remembered_def tick_def)

text \<open>The order was replaced in the pass before; the replacement was submitted forty seconds ago, its chain
  has been there for longer than the patience.\<close>

definition ex_replaced :: Order where
  "ex_replaced = ex_order ''_to_open''\<lparr>o_ID := ''ra'', o_SubmittedAt := Some (460 * second)\<rparr>"

definition ex_later :: env where
  "ex_later = ex_env (500 * second) [ex_replaced]\<lparr>e_replace := (\<lambda>sent i p n. Ok (CHR ''s'' # i))\<rparr>"

theorem patience_ends_witness:
  "\<exists>ok. CancelOrder ''ra'' ok \<in>
     set (snd (step ex_later (fst (step (ex_env ex_now [ex_order ''_to_open'']) ex_ladder))))"
proof -
  have ids: "own_ids ex_later [ex_replaced]" by (simp add: own_ids_def fresh_ids_def ex_later_def ex_replaced_def)
  have chain: "rests [ex_env ex_now [ex_order ''_to_open'']] ex_ladder ''a'' 0 ''a'' ''ra''"
    using ex_own_ids [of ex_now "''_to_open''"] by (simp add: rests_on_def ex_working ex_step)
  have facts: "e_orders ex_later reads = Ok [ex_replaced]" "working ex_replaced" "o_ID ex_replaced = ''ra''"
    "e_now ex_later - 0 = 500 * second" for reads
    by (simp_all add: ex_later_def ex_replaced_def working_def Active_def)
  have run: "fst (step (ex_env ex_now [ex_order ''_to_open'']) ex_ladder) =
      fst (Run_ticks ([] @ [ex_env ex_now [ex_order ''_to_open'']]) ex_ladder)"
    by (simp add: case_prod_unfold)
  show ?thesis
    using patience_ends [OF ex_ladder_simps(5,6) _ _ _ run facts(1) ids _ facts(2), of "''a''" 0] chain facts
    by (simp add: second_def)
qed

lemma ex_closing_cancel:
  "CancelOrder ''a'' True \<in> set (snd (step (ex_env (500 * second) [ex_order ''_to_close'']) ex_ladder))"
  by (simp add: step_def ex_limits Let_def visit_def reported_def ex_working ex_intents checks_closing ex_remembered
      patience_or_walk_def lifeOf_def second_def cancel_and_tell_def try_cancel_def wroteDown_def did_def wake_def)

theorem closing_orders_die_of_age_witness:
  "l_Patience ex_ladder < 500 * second - placed (life_at (ex_env (500 * second) [ex_order ''_to_close''])
     (remembered (ex_env (500 * second) [ex_order ''_to_close'']) ex_ladder [ex_order ''_to_close'']) (ex_order ''_to_close''))"
  using closing_orders_die_of_age [OF ex_closing_cancel _ ex_own_ids] by (simp add: ex_intents)

theorem orders_in_one_pass_add_up_witness:
  "foldl add_worst (AtRisk id []) [ex_order ''_to_open''] - lit 9000 \<le> lit 450"
proof -
  have one: "- lit (- 900) / resting_of (ex_order ''_to_open'') \<le> lit 450" "0 \<le> lit 450"
    by (simp_all add: resting_of_def f64_eval)
  obtain kept where k: "subseq kept [ex_order ''_to_open'']"
    "kept = [] \<or> foldl add_worst (AtRisk id []) kept - lit 9000 \<le> lit 450" "ex_order ''_to_open'' \<in> set kept"
    using orders_in_one_pass_add_up [of "ex_env ex_now [ex_order ''_to_open'']" ex_ladder "[ex_order ''_to_open'']"
        "lit 9000" "[]" "lit 450"] one
    by (auto simp: WithoutAFloor_def ex_worst ex_step ex_working ex_intents)
  then have "kept = [ex_order ''_to_open'']" by (cases kept) (auto simp: subseq_singleton_left elim: list_emb.cases split: if_splits)
  then show ?thesis using k(2) by simp
qed

theorem last_stride_arrives_witness:
  "Toward (cent (- 100)) (cent (- 75)) (fst (stride (ex_life 1) (ex_order ''_to_open'') (cent (- 75)) ex_now)) = cent (- 75)"
  using last_stride_arrives [of "ex_life 1" ex_now "ex_order ''_to_open''" "- 75"]
  by (simp add: ex_life_def lifeOf_def ex_now_def second_def f64_eval)

subsection \<open>A fill\<close>

definition ex_filled :: Order where
  "ex_filled = (ex_order ''_to_open'')\<lparr>o_Status := ''filled'', o_FilledQuantity := lit 2,
     o_FilledPrice := cent (- 75), o_FilledAt := Some (10 * second)\<rparr>"

lemma ex_filled_said:
  "Say (whatFilled ex_filled) \<in> set (snd (step (ex_env ex_now [ex_filled]) ex_ladder))"
  by (simp add: step_def ex_limits Let_def visit_def reported_def report_def working_def Active_def ex_filled_def
      forgetWhatIsDone_def second_def ex_ladder_def forget_def)

theorem only_new_fills_are_said_witness: "\<exists>t. o_FilledAt ex_filled = Some t \<and> l_watching ex_ladder < t"
  using only_new_fills_are_said [OF ex_filled_said] by simp

subsection \<open>The same spread once it is held\<close>

definition ex_position :: "string \<Rightarrow> rat \<Rightarrow> rat \<Rightarrow> Position" where
  "ex_position symbol quantity cost = \<lparr>p_Symbol = symbol, p_AssetClass = ''us_option'', p_Side = [],
     p_Quantity = lit quantity, p_AverageEntryPrice = 0, p_CurrentPrice = 0, p_MarketValue = 0,
     p_CostBasis = lit cost, p_UnrealizedPL = 0, p_UnrealizedPLFraction = 0\<rparr>"

definition ex_book :: "Position list" where
  "ex_book = [ex_position ''SPY260828P00500000'' (- 2) (- 350), ex_position ''SPY260828P00495000'' 2 200]"

lemma ex_book_sane: "sane_book ex_book" "WithoutAFloor ex_book = []"
  by (simp_all add: sane_book_def sane_def ex_book_def ex_position_def ex_contracts WithoutAFloor_def net_step_def)
    (simp add: f64_eval)

theorem AtRisk_bounds_the_loss_witness: "- book_value (\<lambda>series. 480) ex_book \<le> val (AtRisk id ex_book) + 1"
  using AtRisk_bounds_the_loss [OF ex_book_sane(1) iterates_id(1) ex_book_sane(2), of "\<lambda>series. 480"] by simp

theorem ContractFrom_occ_witness:
  "ContractFrom (occ_name ''SPY'' \<lparr>d_year = 2026, d_month = 8, d_day = 28\<rparr> True 500000) =
    Some \<lparr>c_Symbol = occ_name ''SPY'' \<lparr>d_year = 2026, d_month = 8, d_day = 28\<rparr> True 500000,
      c_Expiration = \<lparr>d_year = 2026, d_month = 8, d_day = 28\<rparr>, c_Strike = f64_of_int 500000 / lit 1000,
      c_Type = ''call''\<rparr>"
  using ContractFrom_occ [of "''SPY''" "\<lparr>d_year = 2026, d_month = 8, d_day = 28\<rparr>" 500000 True]
  by (simp add: plain_root_def is_space_def valid_date_def days_in_def)

end
