(* ===== verification/ArenaRisk.thy ===== *)
theory ArenaRisk
  imports GoStd Payoff
begin

text \<open>
  The arena's risk (\<open>testbed/proxy/risk.go\<close>): reading a contract's symbol strictly, what a book
  loses at its worst point at expiry, why a loss has no ceiling, and how much money the book has
  to hold. The arena plays the broker in the test bed; its types are its own and are not those of
  the agent. A map of groups is ranged over in any order, the argument \<open>it\<close>. Infinities are
  \<open>None\<close>: minus infinity in \<open>Worst\<close>, plus infinity in \<open>Requirement\<close>.
\<close>

subsection \<open>A contract's symbol\<close>

record occ =
  a_Root :: string
  a_Expiry :: string
  a_Call :: bool
  a_Strike :: f64
  a_Expires :: date

datatype occ_error = TooShort | BadRoot | BadDate | BadKind | BadStrike | NotANumber | NotPositive

definition root_char :: "char \<Rightarrow> bool" where
  "root_char r \<longleftrightarrow> 65 \<le> byte r \<and> byte r \<le> 90 \<or> is_digit r"

definition parseOCC :: "string \<Rightarrow> (occ_error, occ) result" where
  "parseOCC symbol =
     (let s = TrimSpace symbol in
      if length s < 16 then Err TooShort else
      let tail = drop (length s - 15) s; root = take (length s - 15) s in
      if \<not> list_all root_char root then Err BadRoot else
      (case parse_yymmdd (take 6 tail) of
         None \<Rightarrow> Err BadDate
       | Some expires \<Rightarrow>
           let kind = tail ! 6; strike = drop 7 tail in
           if kind \<noteq> CHR ''C'' \<and> kind \<noteq> CHR ''P'' then Err BadKind
           else if \<not> list_all is_digit strike then Err BadStrike
           else (case ParseInt strike of
                   None \<Rightarrow> Err NotANumber
                 | Some thousandths \<Rightarrow>
                     if thousandths \<le> 0 then Err NotPositive
                     else Ok \<lparr>a_Root = root, a_Expiry = take 6 tail, a_Call = (kind = CHR ''C''),
                              a_Strike = f64_of_int thousandths / lit 1000, a_Expires = expires\<rparr>)))"

subsection \<open>Positions\<close>

definition classOption :: string where "classOption = ''us_option''"
definition classEquity :: string where "classEquity = ''us_equity''"
definition multiplier :: int where "multiplier = 100"

record Holding =
  h_Symbol :: string
  h_Qty :: int
  h_AvgPrice :: f64
  h_Class :: string
  h_Mark :: f64

definition absf :: "int \<Rightarrow> f64" where
  "absf n = (if n < 0 then f64_of_int (- n) else f64_of_int n)"

subsection \<open>The worst point\<close>

definition occ_intrinsic :: "occ \<Rightarrow> f64 \<Rightarrow> f64" where
  "occ_intrinsic c s =
     (if a_Call c then (if s > a_Strike c then s - a_Strike c else 0)
      else if a_Strike c > s then a_Strike c - s else 0)"

text \<open>Shares are left out; the first symbol that cannot be read ends the count.\<close>

fun option_legs :: "Holding list \<Rightarrow> (occ_error, (occ \<times> int) list) result" where
  "option_legs [] = Ok []"
| "option_legs (p # ps) =
     (if h_Class p = classEquity then option_legs ps else
      (case parseOCC (h_Symbol p) of
         Err e \<Rightarrow> Err e
       | Ok c \<Rightarrow> (case option_legs ps of Err e \<Rightarrow> Err e | Ok ls \<Rightarrow> Ok ((c, h_Qty p) # ls))))"

definition group_key :: "occ \<times> int \<Rightarrow> string" where
  "group_key l = a_Root (fst l) @ CHR ''/'' # a_Expiry (fst l)"

definition group_slope :: "(occ \<times> int) list \<Rightarrow> int" where
  "group_slope g = foldl (\<lambda>slope (c, q). if a_Call c then slope + q else slope) 0 g"

definition group_points :: "(occ \<times> int) list \<Rightarrow> f64 list" where
  "group_points g = 0 # map (\<lambda>(c, q). a_Strike c) g @
     [foldl (\<lambda>far (c, q). if a_Strike c > far then a_Strike c else far) 0 g]"

definition group_value :: "(occ \<times> int) list \<Rightarrow> f64 \<Rightarrow> f64" where
  "group_value g s = foldl (\<lambda>value (c, q). value + occ_intrinsic c s * f64_of_int q * f64_of_int multiplier) 0 g"

definition group_worst :: "(occ \<times> int) list \<Rightarrow> f64" where
  "group_worst g = fst (foldl (\<lambda>(worst, first) s.
     let value = group_value g s in if first \<or> value < worst then (value, False) else (worst, first))
     (0, True) (group_points g))"

fun worst_groups :: "(occ \<times> int) list list \<Rightarrow> f64 \<Rightarrow> f64 option" where
  "worst_groups [] acc = Some acc"
| "worst_groups (g # gs) acc =
     (if group_slope g < 0 then None else worst_groups gs (acc + group_worst g))"

definition groups :: "string iteration \<Rightarrow> (occ \<times> int) list \<Rightarrow> (occ \<times> int) list list" where
  "groups it legs = map (grouped group_key legs) (it (keys_of group_key legs))"

definition Worst :: "string iteration \<Rightarrow> Holding list \<Rightarrow> (occ_error, f64 option) result" where
  "Worst it positions =
     (case option_legs positions of Err e \<Rightarrow> Err e | Ok legs \<Rightarrow> Ok (worst_groups (groups it legs) 0))"

definition short_shares :: "f64 \<Rightarrow> Holding \<Rightarrow> f64" where
  "short_shares need p =
     (if h_Class p \<noteq> classEquity \<or> 0 \<le> h_Qty p then need
      else let price = (if h_Mark p \<le> 0 then h_AvgPrice p else h_Mark p)
           in need + lit (3 / 2) * absf (h_Qty p) * price)"

definition Requirement :: "string iteration \<Rightarrow> Holding list \<Rightarrow> (occ_error, f64 option) result" where
  "Requirement it positions =
     (case Worst it positions of
        Err e \<Rightarrow> Err e
      | Ok None \<Rightarrow> Ok None
      | Ok (Some worst) \<Rightarrow>
          Ok (Some (foldl short_shares (if worst < 0 then - worst else 0) positions)))"

subsection \<open>Why a loss has no ceiling\<close>

record side =
  g_calls :: int
  g_puts :: int
  g_strike :: f64

definition side_step :: "side \<Rightarrow> occ \<times> int \<Rightarrow> side" where
  "side_step g cq = (case cq of (c, q) \<Rightarrow>
     if a_Call c
     then g\<lparr>g_calls := g_calls g + q,
            g_strike := (if q < 0 \<and> a_Strike c > g_strike g then a_Strike c else g_strike g)\<rparr>
     else g\<lparr>g_puts := g_puts g + q\<rparr>)"

definition readable_legs :: "Holding list \<Rightarrow> (occ \<times> int) list" where
  "readable_legs ps = List.map_filter (\<lambda>p. case parseOCC (h_Symbol p) of Err e \<Rightarrow> None | Ok c \<Rightarrow> Some (c, h_Qty p)) ps"

definition side_key :: "occ \<times> int \<Rightarrow> string" where
  "side_key l = a_Root (fst l) @ CHR '' '' # a_Expiry (fst l)"

text \<open>The group named, how many more calls are sold than bought, and the highest sold strike.\<close>

definition arena_Unbounded :: "string iteration \<Rightarrow> Holding list \<Rightarrow> (string \<times> int \<times> f64) option" where
  "arena_Unbounded it positions =
     (let legs = readable_legs positions;
          group = (\<lambda>k. foldl side_step \<lparr>g_calls = 0, g_puts = 0, g_strike = 0\<rparr> (grouped side_key legs k))
      in (case filter (\<lambda>k. \<not> 0 \<le> g_calls (group k)) (it (keys_of side_key legs)) of
            [] \<Rightarrow> None
          | k # ks \<Rightarrow> Some (k, - g_calls (group k), g_strike (group k))))"

subsection \<open>The group value and its drift\<close>

definition occ_fleg :: "occ \<times> int \<Rightarrow> fleg" where
  "occ_fleg l = (a_Call (fst l), a_Strike (fst l), f64_of_int (snd l))"

definition exact_group :: "(occ \<times> int) list \<Rightarrow> pleg list" where
  "exact_group g = exact_of (map occ_fleg g)"

definition sane_leg :: "occ \<times> int \<Rightarrow> bool" where
  "sane_leg l \<longleftrightarrow> 0 \<le> val (a_Strike (fst l)) \<and> val (a_Strike (fst l)) \<le> 10000 \<and> \<bar>snd l\<bar> \<le> 1000"

definition sane_group :: "(occ \<times> int) list \<Rightarrow> bool" where
  "sane_group g \<longleftrightarrow> length g \<le> 50 \<and> list_all sane_leg g"

lemma occ_intrinsic_fintr: "occ_intrinsic c s = fintr (a_Call c) (a_Strike c) s"
  by (auto simp: occ_intrinsic_def fintr_def max_def less_imp_le)

lemma sane_leg_qty: "sane_leg l \<Longrightarrow> val (f64_of_int (snd l)) = of_int (snd l)"
  by (rule val_lit_int) (simp add: sane_leg_def)

lemma occ_leg_drift:
  assumes "sane_leg l" "0 \<le> val s" "val s \<le> 20000"
  shows "\<bar>val (occ_intrinsic (fst l) s * f64_of_int (snd l) * f64_of_int multiplier) -
      exact_value (val s) (occ_fleg l)\<bar> \<le> 4 * 10 ^ 10 / 2 ^ 53"
    and "\<bar>exact_value (val s) (occ_fleg l)\<bar> \<le> 2 * 10 ^ 9"
proof -
  let ?k = "val (a_Strike (fst l))"
  define q :: rat where "q = of_int (snd l)"
  define i0 where "i0 = intr (a_Call (fst l)) ?k (val s)"
  define x where "x = val (occ_intrinsic (fst l) s * f64_of_int (snd l))"
  have k: "0 \<le> ?k" "?k \<le> 10000" and q: "\<bar>q\<bar> \<le> 1000"
    using assms(1) of_int_abs_le [of "snd l"] by (auto simp: sane_leg_def q_def)
  have vq: "val (f64_of_int (snd l)) = q" using sane_leg_qty [OF assms(1)] by (simp add: q_def)
  have i: "\<bar>val (occ_intrinsic (fst l) s) - i0\<bar> \<le> 20000 / 2 ^ 53" "\<bar>i0\<bar> \<le> 20000"
    using fintr_drift [OF k assms(2,3)] by (simp_all add: i0_def occ_intrinsic_fintr)
  have "\<bar>rnd (val (occ_intrinsic (fst l) s) * q) - i0 * q\<bar> \<le> 4 * (20000 * 1000) / 2 ^ 53"
    by (rule prod_drift [OF i _ q]) simp
  then have x: "\<bar>x - i0 * q\<bar> \<le> 80000000 / 2 ^ 53" by (simp add: x_def val_mult vq)
  have iq: "\<bar>i0 * q\<bar> \<le> 20000 * 1000" unfolding abs_mult using i(2) q by (intro mult_mono) auto
  have "\<bar>rnd (x * 100) - (i0 * q) * 100\<bar> \<le> 4 * (80000000 * 100) / 2 ^ 53"
    by (rule prod_drift [OF x]) (use iq in simp_all)
  also have "\<dots> \<le> 4 * 10 ^ 10 / 2 ^ 53" by simp
  finally show "\<bar>val (occ_intrinsic (fst l) s * f64_of_int (snd l) * f64_of_int multiplier) -
      exact_value (val s) (occ_fleg l)\<bar> \<le> 4 * 10 ^ 10 / 2 ^ 53"
    using val_mult [of "occ_intrinsic (fst l) s * f64_of_int (snd l)" "f64_of_int multiplier"]
    by (simp add: x_def [symmetric] multiplier_def exact_value_def occ_fleg_def i0_def vq ac_simps)
  have "\<bar>100 * (q * i0)\<bar> \<le> 2 * 10 ^ 9" using iq by (simp add: abs_mult ac_simps)
  then show "\<bar>exact_value (val s) (occ_fleg l)\<bar> \<le> 2 * 10 ^ 9"
    by (simp add: exact_value_def occ_fleg_def i0_def vq)
qed

lemma group_drift:
  assumes "sane_group g" "0 \<le> val s" "val s \<le> 20000"
  shows "\<bar>val (group_value g s) - 100 * payoff (exact_group g) (val s)\<bar> \<le> 1 / 500"
    and "\<bar>100 * payoff (exact_group g) (val s)\<bar> \<le> 10 ^ 11"
proof -
  have n: "length g \<le> 50" and sane: "\<forall>l \<in> set g. sane_leg l"
    using assms(1) by (auto simp: sane_group_def list_all_iff)
  let ?t = "\<lambda>l. occ_intrinsic (fst l) s * f64_of_int (snd l) * f64_of_int multiplier"
  let ?e = "\<lambda>l. exact_value (val s) (occ_fleg l)"
  have te: "\<forall>l \<in> set g. \<bar>val (?t l) - ?e l\<bar> \<le> 4 * 10 ^ 10 / 2 ^ 53 \<and> \<bar>?e l\<bar> \<le> 2 * 10 ^ 9"
    using occ_leg_drift [OF _ assms(2,3)] sane by blast
  have E: "(\<Sum>l \<leftarrow> g. ?e l) = 100 * payoff (exact_group g) (val s)"
    using exact_value_sum [of "val s" "map occ_fleg g"] by (simp add: exact_group_def comp_def)
  have "\<bar>val (foldl (\<lambda>a x. a + ?t x) 0 g) - (\<Sum>l \<leftarrow> g. ?e l)\<bar>
      \<le> of_nat 50 * (4 * 10 ^ 10 / 2 ^ 53 + 2 * 10 ^ 11 / 2 ^ 53)"
    by (rule sum_drift_at_most [OF te _ _ _ n]) auto
  moreover have "foldl (\<lambda>a x. a + ?t x) 0 g = group_value g s"
    unfolding group_value_def by (rule arg_cong [where f = "\<lambda>f. foldl f 0 g"]) (auto simp: fun_eq_iff)
  ultimately show "\<bar>val (group_value g s) - 100 * payoff (exact_group g) (val s)\<bar> \<le> 1 / 500"
    by (simp add: E)
  have "\<bar>\<Sum>l \<leftarrow> g. ?e l\<bar> \<le> of_nat 50 * (2 * 10 ^ 9)"
    by (rule sum_list_abs_le [OF _ n]) (use te in auto)
  then show "\<bar>100 * payoff (exact_group g) (val s)\<bar> \<le> 10 ^ 11" by (simp add: E)
qed

lemma group_worst_le:
  assumes "s \<in> set (group_points g)"
  shows "group_worst g \<le> group_value g s"
proof -
  let ?f = "\<lambda>(worst, first) s. let value = group_value g s
    in if first \<or> value < worst then (value, False) else (worst, first)"
  have keeps: "\<not> snd a \<Longrightarrow> fst (foldl ?f a xs) \<le> fst a \<and> (\<forall>s \<in> set xs. fst (foldl ?f a xs) \<le> group_value g s)"
    for a xs
  proof (induction xs arbitrary: a)
    case (Cons x xs)
    obtain w where a: "a = (w, False)" using Cons.prems by (cases a) auto
    show ?case
      using Cons.IH [of "?f a x"] by (auto simp: a Let_def split: if_splits intro: order.trans less_imp_le)
  qed simp
  have "\<forall>s \<in> set (group_points g). group_worst g \<le> group_value g s"
    using keeps [of "(group_value g 0, False)" "tl (group_points g)"]
    by (auto simp: group_worst_def group_points_def Let_def)
  then show ?thesis using assms by blast
qed

lemma strikes_exact_group: "set (strikes (exact_group g)) = (\<lambda>l. val (a_Strike (fst l))) ` set g"
  by (simp add: exact_group_def strikes_exact_of occ_fleg_def image_image)

lemma sane_groupD: "sane_group g \<Longrightarrow> l \<in> set g \<Longrightarrow> sane_leg l"
  by (auto simp: sane_group_def list_all_iff)

lemma group_points_mem: "l \<in> set g \<Longrightarrow> a_Strike (fst l) \<in> set (group_points g)"
  by (cases l) (auto simp: group_points_def intro!: rev_image_eqI)

lemma group_slope_exact:
  assumes "sane_group g"
  shows "slope (exact_group g) = of_int (group_slope g)"
proof -
  have "of_int (foldl (\<lambda>slope (c, q). if a_Call c then slope + q else slope) z g) =
      of_int z + slope (exact_group g)" for z
    using assms
  proof (induction g arbitrary: z)
    case (Cons l g)
    then have "sane_leg l" "sane_group g" by (auto simp: sane_group_def)
    then show ?case using Cons.IH sane_leg_qty [of l]
      by (cases l) (auto simp: exact_group_def exact_of_def occ_fleg_def)
  qed (simp add: exact_group_def exact_of_def)
  then show ?thesis by (simp add: group_slope_def)
qed

interpretation arena: probed_worst exact_group "\<lambda>g. 0" "\<lambda>g. val (group_worst g)" sane_group "1 / 200"
proof
  fix g k
  assume "sane_group g" "k \<in> set (strikes (exact_group g))"
  then show "0 \<le> k" by (auto simp: strikes_exact_group sane_group_def sane_leg_def list_all_iff)
next
  fix g p
  assume a: "sane_group g" "p \<in> set (0 # strikes (exact_group g))"
  obtain s where s: "val s = p" "0 \<le> p" "p \<le> 10000" "s \<in> set (group_points g)"
  proof (cases "p = 0")
    case True
    then show ?thesis using that [of 0] by (simp add: group_points_def)
  next
    case False
    then obtain l where "l \<in> set g" "p = val (a_Strike (fst l))" using a(2) by (auto simp: strikes_exact_group)
    then show ?thesis
      using that [of "a_Strike (fst l)"] sane_groupD [OF a(1)] group_points_mem by (auto simp: sane_leg_def)
  qed
  have "val (group_worst g) \<le> val (group_value g s)"
    using group_worst_le [OF s(4)] by (simp add: le_f64_iff)
  then show "val (group_worst g) \<le> 100 * payoff (exact_group g) p + 0 + 1 / 200"
    using near_upper [OF _ group_drift(1) [OF a(1), of s], of "val (group_worst g)"] s by simp
qed

subsection \<open>The whole book\<close>

definition sane_legs :: "(occ \<times> int) list \<Rightarrow> bool" where
  "sane_legs legs \<longleftrightarrow> length legs \<le> 50 \<and> list_all sane_leg legs"

text \<open>What the options are worth when every group settles, at a price for each.\<close>

definition legs_value :: "(string \<Rightarrow> rat) \<Rightarrow> (occ \<times> int) list \<Rightarrow> rat" where
  "legs_value px legs = (\<Sum>l \<leftarrow> legs. exact_value (px (group_key l)) (occ_fleg l))"

lemma sane_grouped: "sane_legs legs \<Longrightarrow> sane_group (grouped group_key legs k)"
  by (auto simp: sane_legs_def sane_group_def list_all_iff grouped_def
      intro: order.trans [OF length_filter_le])

lemma group_worst_lower:
  assumes "sane_group g"
  shows "\<bar>val (group_worst g)\<bar> \<le> 2 * 10 ^ 11"
proof -
  let ?f = "\<lambda>(worst, first) s. let value = group_value g s
    in if first \<or> value < worst then (value, False) else (worst, first)"
  have v: "\<bar>val (group_value g s)\<bar> \<le> 2 * 10 ^ 11" if "0 \<le> val s" "val s \<le> 20000" for s
  proof -
    have "\<bar>val (group_value g s)\<bar> \<le> 1 / 500 + 10 ^ 11"
      by (rule near_bound [OF group_drift [OF assms that]])
    then show ?thesis by (rule order.trans) simp
  qed
  have pts: "0 \<le> val s \<and> val s \<le> 20000" if "s \<in> set (group_points g)" for s
  proof -
    have "0 \<le> val (foldl (\<lambda>far (c, q). if a_Strike c > far then a_Strike c else far) 0 g) \<and>
      val (foldl (\<lambda>far (c, q). if a_Strike c > far then a_Strike c else far) 0 g) \<le> 20000"
      by (rule foldl_invariant)
        (use assms in \<open>auto simp: sane_group_def sane_leg_def list_all_iff case_prod_unfold less_f64_iff\<close>)
    then show ?thesis
      using that assms by (force simp: group_points_def sane_group_def sane_leg_def list_all_iff)
  qed
  have "\<bar>val (fst (foldl ?f (0, True) (group_points g)))\<bar> \<le> 2 * 10 ^ 11"
    by (rule foldl_invariant) (use v pts in \<open>auto simp: Let_def split: prod.splits\<close>)
  then show ?thesis by (simp add: group_worst_def)
qed

lemma worst_groups_Some:
  "worst_groups gs acc = Some w \<longleftrightarrow>
     (\<forall>g \<in> set gs. 0 \<le> group_slope g) \<and> w = foldl (\<lambda>a g. a + group_worst g) acc gs"
  by (induction gs arbitrary: acc) (auto simp: not_less)

lemma worst_groups_None: "worst_groups gs acc = None \<longleftrightarrow> (\<exists>g \<in> set gs. group_slope g < 0)"
  by (induction gs arbitrary: acc) auto

lemma worst_bounds_legs:
  assumes "sane_legs legs" "iterates it" "worst_groups (groups it legs) 0 = Some w" "\<forall>k. 0 \<le> px k"
  shows "val w \<le> legs_value px legs + 1"
proof -
  define ks where "ks = it (keys_of group_key legs)"
  let ?g = "grouped group_key legs"
  have ks: "distinct ks" "set ks = group_key ` set legs"
    using assms(2) by (simp_all add: ks_def iterates_distinct iterates_set)
  have len: "length ks \<le> 50"
  proof -
    have "length ks = card (set ks)" using ks(1) by (simp add: distinct_card)
    also have "\<dots> \<le> length legs" unfolding ks(2) by (rule order.trans [OF card_image_le card_length]) simp
    finally show ?thesis using assms(1) by (simp add: sane_legs_def)
  qed
  have w: "\<forall>k \<in> set ks. 0 \<le> group_slope (?g k)" "w = foldl (\<lambda>a k. a + group_worst (?g k)) 0 ks"
    using assms(3) by (auto simp: worst_groups_Some groups_def ks_def [symmetric] foldl_map)
  define e where "e = (\<lambda>k. val (group_worst (?g k)))"
  define v where "v = (\<lambda>k. 100 * payoff (exact_group (?g k)) (px k))"
  have low: "e k \<le> v k + 1 / 200" if "k \<in> set ks" for k
  proof -
    have "0 \<le> slope (exact_group (?g k))"
      using w(1) that group_slope_exact [OF sane_grouped [OF assms(1)]] by simp
    then show ?thesis
      using arena.worst_below_every_price [OF sane_grouped [OF assms(1)] _ assms(4) [rule_format]]
      by (simp add: e_def v_def)
  qed
  have "\<bar>val (foldl (\<lambda>a k. a + group_worst (?g k)) 0 ks) - (\<Sum>k \<leftarrow> ks. e k)\<bar> \<le> of_nat 50 * (0 + 2 * 10 ^ 13 / 2 ^ 53)"
  proof (rule sum_drift_at_most [OF _ _ _ _ len, where T = "2 * 10 ^ 11"])
    show "\<forall>x \<in> set ks. \<bar>val (group_worst (?g x)) - e x\<bar> \<le> 0 \<and> \<bar>e x\<bar> \<le> 2 * 10 ^ 11"
      using group_worst_lower [OF sane_grouped [OF assms(1)]] by (simp add: e_def)
  qed auto
  also have "\<dots> \<le> 1 / 2" by simp
  finally have "val w \<le> (\<Sum>k \<leftarrow> ks. e k) + 1 / 2" using w(2) unfolding abs_le_iff by simp
  also have "(\<Sum>k \<leftarrow> ks. e k) \<le> (\<Sum>k \<leftarrow> ks. v k + 1 / 200)" by (rule sum_list_mono) (rule low)
  also have "\<dots> = (\<Sum>k \<leftarrow> ks. v k) + of_nat (length ks) * (1 / 200)"
    by (simp add: sum_list_addf sum_list_triv)
  also have "(\<Sum>k \<leftarrow> ks. v k) = (\<Sum>k \<leftarrow> ks. \<Sum>l \<leftarrow> ?g k. exact_value (px (group_key l)) (occ_fleg l))"
  proof -
    have "v k = (\<Sum>l \<leftarrow> ?g k. exact_value (px (group_key l)) (occ_fleg l))" for k
    proof -
      have "(\<Sum>l \<leftarrow> ?g k. exact_value (px (group_key l)) (occ_fleg l)) = (\<Sum>l \<leftarrow> ?g k. exact_value (px k) (occ_fleg l))"
        by (intro arg_cong [where f = sum_list] map_cong) (auto simp: set_grouped)
      then show ?thesis
        using exact_value_sum [of "px k" "map occ_fleg (?g k)"] by (simp add: v_def exact_group_def comp_def)
    qed
    then show ?thesis by simp
  qed
  also have "\<dots> = legs_value px legs"
    unfolding legs_value_def by (rule sum_grouped [OF ks(1)]) (simp add: ks(2))
  finally show ?thesis using len by simp
qed

text \<open>Shares held short add to the requirement, never take from it.\<close>

definition fair_prices :: "Holding list \<Rightarrow> bool" where
  "fair_prices ps \<longleftrightarrow> list_all (\<lambda>p. h_Class p = classEquity \<and> h_Qty p < 0 \<longrightarrow> 0 \<le> h_AvgPrice p) ps"

lemma absf_nonneg: "0 \<le> absf n"
  by (simp add: absf_def)

lemma short_shares_ge:
  assumes "fair_prices ps"
  shows "need \<le> foldl short_shares need ps"
proof (rule foldl_invariant [where P = "\<lambda>x. need \<le> x"])
  fix x p
  assume p: "p \<in> set ps" "need \<le> x"
  have "x \<le> short_shares x p"
  proof (cases "h_Class p \<noteq> classEquity \<or> 0 \<le> h_Qty p")
    case False
    then have "0 \<le> (if h_Mark p \<le> 0 then h_AvgPrice p else h_Mark p)"
      using assms p(1) by (auto simp: fair_prices_def list_all_iff)
    then have "0 \<le> lit (3 / 2) * absf (h_Qty p) * (if h_Mark p \<le> 0 then h_AvgPrice p else h_Mark p)"
      by (intro f64_mult_nonneg absf_nonneg) simp_all
    then show ?thesis
      using False f64_add_mono [of x x 0] by (simp add: short_shares_def Let_def)
  qed (simp add: short_shares_def)
  then show "need \<le> short_shares x p" using p(2) by simp
qed simp

definition sane_holdings :: "Holding list \<Rightarrow> bool" where
  "sane_holdings ps \<longleftrightarrow> fair_prices ps \<and> (case option_legs ps of Err e \<Rightarrow> False | Ok legs \<Rightarrow> sane_legs legs)"

definition holdings_value :: "(string \<Rightarrow> rat) \<Rightarrow> Holding list \<Rightarrow> rat" where
  "holdings_value px ps = (case option_legs ps of Err e \<Rightarrow> 0 | Ok legs \<Rightarrow> legs_value px legs)"

lemma Requirement_covers:
  assumes "Requirement it ps = Ok (Some need)" "sane_holdings ps" "iterates it" "\<forall>k. 0 \<le> px k"
  shows "- holdings_value px ps \<le> val need + 1"
proof -
  obtain legs where legs: "option_legs ps = Ok legs" "sane_legs legs" "fair_prices ps"
    using assms(2) by (auto simp: sane_holdings_def split: sum.splits)
  then obtain w where w: "worst_groups (groups it legs) 0 = Some w"
    "need = foldl short_shares (if w < 0 then - w else 0) ps"
    using assms(1) by (auto simp: Requirement_def Worst_def split: option.splits)
  have "- val w \<le> val (if w < 0 then - w else 0)" by (simp add: less_f64_iff)
  also have "\<dots> \<le> val need" using short_shares_ge [OF legs(3)] by (simp add: w(2) flip: le_f64_iff)
  finally show ?thesis
    using worst_bounds_legs [OF legs(2) assms(3) w(1) assms(4)] by (simp add: holdings_value_def legs(1))
qed

subsection \<open>An unlimited loss is always explained\<close>

lemma parseOCC_Expiry: "parseOCC s = Ok c \<Longrightarrow> length (a_Expiry c) = 6"
  by (auto simp: parseOCC_def Let_def split: if_splits option.splits)

lemma parseOCC_Strike: "parseOCC s = Ok c \<Longrightarrow> 0 < a_Strike c"
  by (auto simp: parseOCC_def Let_def split: if_splits option.splits intro!: f64_divide_pos)

lemma option_legs_expiry: "option_legs ps = Ok legs \<Longrightarrow> (c, q) \<in> set legs \<Longrightarrow> length (a_Expiry c) = 6"
  by (induction ps arbitrary: legs) (auto split: if_splits sum.splits intro: parseOCC_Expiry)

lemma same_group:
  assumes "length (a_Expiry (fst l)) = 6" "length (a_Expiry (fst l')) = 6"
  shows "group_key l = group_key l' \<longleftrightarrow> side_key l = side_key l'"
proof -
  have "r @ x # e = r' @ x # e' \<longleftrightarrow> r = r' \<and> e = e'" if "length e = length e'" for r r' e e' and x :: char
    using that append_eq_append_conv [of r r' "x # e" "x # e'"] by auto
  then show ?thesis using assms by (simp add: group_key_def side_key_def)
qed

lemma side_fold_calls: "g_calls (foldl side_step g0 g) = g_calls g0 + group_slope g"
proof -
  have slope: "foldl (\<lambda>slope (c, q). if a_Call c then slope + q else slope) z g =
      z + foldl (\<lambda>slope (c, q). if a_Call c then slope + q else slope) 0 g" for z and g :: "(occ \<times> int) list"
  proof (induction g arbitrary: z)
    case (Cons l g)
    show ?case using Cons.IH [of "z + snd l"] Cons.IH [of z] Cons.IH [of "snd l"] by (cases l) auto
  qed simp
  show ?thesis
  proof (induction g arbitrary: g0)
    case (Cons l g)
    then show ?case using slope [of "snd l" g] by (cases l) (auto simp: side_step_def group_slope_def)
  qed (simp add: group_slope_def)
qed

text \<open>Shares are held under a ticker, which no contract's symbol is.\<close>

definition tickers_apart :: "Holding list \<Rightarrow> bool" where
  "tickers_apart ps \<longleftrightarrow> list_all (\<lambda>p. h_Class p = classEquity \<longrightarrow> (case parseOCC (h_Symbol p) of Err e \<Rightarrow> True | Ok c \<Rightarrow> False)) ps"

lemma readable_option_legs: "option_legs ps = Ok legs \<Longrightarrow> tickers_apart ps \<Longrightarrow> readable_legs ps = legs"
proof (induction ps arbitrary: legs)
  case (Cons p ps)
  then show ?case
    by (auto simp: readable_legs_def tickers_apart_def List.map_filter_simps split: if_splits sum.splits)
qed (simp add: readable_legs_def List.map_filter_simps)

text \<open>Whenever the requirement is infinite, the arena can name the cause: a group left with more
  calls sold than bought. The branch of the refusal that reports a defect of the arena is never
  taken, whatever order the maps are ranged over.\<close>

theorem infinite_requirement_is_explained:
  assumes "Requirement it ps = Ok None" "iterates it" "iterates it'" "tickers_apart ps"
  shows "\<exists>k n strike. arena_Unbounded it' ps = Some (k, n, strike) \<and> 0 < n"
proof -
  obtain legs where legs: "option_legs ps = Ok legs" "worst_groups (groups it legs) 0 = None"
    using assms(1) by (auto simp: Requirement_def Worst_def split: sum.splits option.splits)
  then obtain k where k: "k \<in> set (keys_of group_key legs)" "group_slope (grouped group_key legs k) < 0"
    using assms(2) by (auto simp: worst_groups_None groups_def iterates_set)
  then obtain l where l: "l \<in> set legs" "k = group_key l" by auto
  have exp: "length (a_Expiry (fst x)) = 6" if "x \<in> set legs" for x
    using option_legs_expiry [OF legs(1), of "fst x" "snd x"] that by simp
  have "grouped group_key legs (group_key l) = grouped side_key legs (side_key l)"
    unfolding grouped_def by (rule filter_cong [OF refl]) (use same_group exp l(1) in blast)
  then have neg: "group_slope (grouped side_key legs (side_key l)) < 0" using k(2) l(2) by simp
  let ?group = "\<lambda>k. foldl side_step \<lparr>g_calls = 0, g_puts = 0, g_strike = 0\<rparr> (grouped side_key legs k)"
  have calls: "g_calls (?group k) = group_slope (grouped side_key legs k)" for k
    by (simp add: side_fold_calls)
  let ?bad = "filter (\<lambda>k. \<not> 0 \<le> g_calls (?group k)) (it' (keys_of side_key legs))"
  have "side_key l \<in> set ?bad" using neg l(1) assms(3) by (simp add: calls iterates_set)
  then obtain b bs where b: "?bad = b # bs" by (cases ?bad) auto
  then have "b \<in> set ?bad" by simp
  then have "g_calls (?group b) < 0" by simp
  then show ?thesis
    using b by (simp add: arena_Unbounded_def readable_option_legs [OF legs(1) assms(4)] Let_def)
qed

end
