(* ===== verification/ArenaBook.thy ===== *)
theory ArenaBook
  imports ArenaRisk "HOL-Library.AList"
begin

text \<open>
  A participant's book in the arena (\<open>testbed/proxy/book.go\<close>): orders that stand, positions, cash
  and events, and every operation on them. A Go map is an association list with distinct keys,
  ranged over in the order the environment gives. The lock each method takes makes a method one
  step; the file store and the source of identifiers are the environment. A reason or a refusal
  in words is a value that holds what the words state.
\<close>

subsection \<open>Limits that need not be numbers\<close>

text \<open>
  A limit comes from \<open>strconv.ParseFloat\<close>, which reads \<open>NaN\<close> and \<open>Inf\<close> too, and the cash the
  standing orders would leave is computed from it. These two are doubles with their special
  values, under the rules of the arithmetic: every comparison with \<open>NaN\<close> is false.
\<close>

datatype float64 = Fin f64 | Nan | Infty bool

fun fl_times :: "float64 \<Rightarrow> f64 \<Rightarrow> float64" where
  "fl_times (Fin x) y = Fin (x * y)"
| "fl_times Nan y = Nan"
| "fl_times (Infty neg) y = (if y = 0 then Nan else Infty (neg \<noteq> (y < 0)))"

fun fl_plus :: "float64 \<Rightarrow> f64 \<Rightarrow> float64" where
  "fl_plus (Fin x) y = Fin (x + y)"
| "fl_plus Nan y = Nan"
| "fl_plus (Infty neg) y = Infty neg"

fun fl_minus :: "float64 \<Rightarrow> float64 \<Rightarrow> float64" where
  "fl_minus (Fin x) (Fin y) = Fin (x - y)"
| "fl_minus Nan y = Nan"
| "fl_minus x Nan = Nan"
| "fl_minus (Infty neg) (Fin y) = Infty neg"
| "fl_minus (Fin x) (Infty neg) = Infty (\<not> neg)"
| "fl_minus (Infty neg) (Infty neg') = (if neg = neg' then Nan else Infty neg)"

fun fl_less :: "float64 \<Rightarrow> float64 \<Rightarrow> bool" where
  "fl_less (Fin x) (Fin y) = (x < y)"
| "fl_less Nan y = False"
| "fl_less x Nan = False"
| "fl_less (Infty neg) (Fin y) = neg"
| "fl_less (Fin x) (Infty neg) = (\<not> neg)"
| "fl_less (Infty neg) (Infty neg') = (neg \<and> \<not> neg')"

fun fl_finite :: "float64 \<Rightarrow> bool" where
  "fl_finite (Fin x) = True"
| "fl_finite Nan = False"
| "fl_finite (Infty neg) = False"

lemma fl_finite_iff: "fl_finite x \<longleftrightarrow> (\<exists>y. x = Fin y)"
  by (cases x) simp_all

lemma fl_nan_stays [simp]: "fl_minus x Nan = Nan"
  by (cases x) simp_all

lemma fl_nan_never_less [simp]: "fl_less x Nan = False"
  by (cases x) simp_all

subsection \<open>Orders, events and the book\<close>

definition perContract :: f64 where "perContract = lit (25 / 1000)"

definition statusNew :: string where "statusNew = ''new''"
definition statusPartial :: string where "statusPartial = ''partially_filled''"
definition statusFilled :: string where "statusFilled = ''filled''"
definition statusCanceled :: string where "statusCanceled = ''canceled''"
definition statusExpired :: string where "statusExpired = ''expired''"
definition statusReplaced :: string where "statusReplaced = ''replaced''"

lemmas status_defs = statusNew_def statusPartial_def statusFilled_def statusCanceled_def
  statusExpired_def statusReplaced_def

record ALeg =
  al_Symbol :: string
  al_Side :: string
  al_RatioQty :: string
  al_Ratio :: int
  al_PositionIntent :: string

datatype lack = NoCeiling string int f64 | DefectOfTheArena | LackOf f64 float64 float64

datatype reason =
    NoReason
  | NoQuoteFor string
  | NoTimestamp string
  | OlderThan string duration
  | CrossedQuote string f64 f64
  | NoPriceOn string string
  | MarketOffers f64 float64
  | NoSizeShown
  | WaitsForOpen
  | Uncountable occ_error
  | NotEnough lack
  | CancelledByParticipant
  | Moved
  | SessionOver
  | ExpiredEmpty string f64
  | SettledInCash f64 int int
  | InTheMoney string f64 int string f64

datatype refused_call =
    NoOrder string
  | AlreadyIs string string
  | SetsAgainst int int
  | NoCollateral lack
  | NotCounted occ_error
  | LessThanFilled int int
  | NothingLeft
  | NoPosition string
  | NotSaved string

record AOrder =
  ao_ID :: string
  ao_ClientID :: string
  ao_TurnRef :: string
  ao_Status :: string
  ao_Qty :: int
  ao_FilledQty :: int
  ao_Limit :: float64
  ao_Market :: bool
  ao_FilledAvg :: f64
  ao_Fees :: f64
  ao_Stand :: bool
  ao_TIF :: string
  ao_Legs :: "ALeg list"
  ao_SubmittedAt :: time
  ao_FilledAt :: "time option"
  ao_CanceledAt :: "time option"
  ao_ExpiresAt :: "time option"
  ao_ReplacedBy :: string
  ao_Replaces :: string
  ao_Why :: reason
  ao_Seq :: int

definition ord_open :: "AOrder \<Rightarrow> bool" where
  "ord_open ord \<longleftrightarrow> ao_Status ord = statusNew \<or> ao_Status ord = statusPartial"

definition remaining :: "AOrder \<Rightarrow> int" where
  "remaining ord = ao_Qty ord - ao_FilledQty ord"

record Event =
  ev_OrderID :: string
  ev_Kind :: string
  ev_Symbol :: string
  ev_At :: time
  ev_Sets :: int
  ev_Price :: f64
  ev_Fees :: f64
  ev_Filled :: bool
  ev_Why :: reason

record Book =
  b_Hash :: string
  b_Name :: string
  b_Cash :: f64
  b_Start :: f64
  b_LastEquity :: f64
  b_ClosedOn :: string
  b_Positions :: "(string \<times> Holding) list"
  b_Orders :: "(string \<times> AOrder) list"
  b_order :: "string list"
  b_Events :: "Event list"
  b_seq :: int

definition NewBook :: "string \<Rightarrow> f64 \<Rightarrow> Book" where
  "NewBook hash start = \<lparr>b_Hash = hash, b_Name = [], b_Cash = start, b_Start = start,
     b_LastEquity = start, b_ClosedOn = [], b_Positions = [], b_Orders = [], b_order = [],
     b_Events = [], b_seq = 0\<rparr>"

text \<open>
  What a call meets outside the book: the orders in which its maps are ranged over, the
  identifier that would be drawn, and how saving the book ends.
\<close>

record arena_env =
  v_positions :: "string iteration"
  v_groups :: "string iteration"
  v_sides :: "string iteration"
  v_uuid :: string
  v_save :: "Book \<Rightarrow> (string, unit) result"

definition persist :: "arena_env \<Rightarrow> Book \<Rightarrow> (refused_call, unit) result" where
  "persist v b = (case v_save v b of Err e \<Rightarrow> Err (NotSaved e) | Ok u \<Rightarrow> Ok ())"

subsection \<open>Arithmetic on legs and positions\<close>

definition sameSign :: "int \<Rightarrow> int \<Rightarrow> bool" where
  "sameSign a b \<longleftrightarrow> a > 0 \<and> b > 0 \<or> a < 0 \<and> b < 0"

definition contractsIn :: "ALeg list \<Rightarrow> int \<Rightarrow> int" where
  "contractsIn legs sets = foldl (\<lambda>n leg. n + al_Ratio leg * sets) 0 legs"

definition signed_qty :: "ALeg \<Rightarrow> int \<Rightarrow> int" where
  "signed_qty leg sets = (let qty = al_Ratio leg * sets in if al_Side leg = ''sell'' then - qty else qty)"

definition no_holding :: Holding where
  "no_holding = \<lparr>h_Symbol = [], h_Qty = 0, h_AvgPrice = 0, h_Class = [], h_Mark = 0\<rparr>"

text \<open>One leg added to a copy of the positions.\<close>

definition project_leg :: "int \<Rightarrow> (string \<times> Holding) list \<Rightarrow> ALeg \<Rightarrow> (string \<times> Holding) list" where
  "project_leg sets after leg =
     (let p = (case map_of after (al_Symbol leg) of Some p \<Rightarrow> p | None \<Rightarrow> no_holding);
          p = p\<lparr>h_Symbol := al_Symbol leg, h_Class := classOption, h_Qty := h_Qty p + signed_qty leg sets\<rparr>
      in AList.update (al_Symbol leg) p after)"

definition held_in :: "string iteration \<Rightarrow> (string \<times> Holding) list \<Rightarrow> Holding list" where
  "held_in it after =
     filter (\<lambda>p. h_Qty p \<noteq> 0) (List.map_filter (map_of after) (it (map fst after)))"

definition project :: "arena_env \<Rightarrow> Book \<Rightarrow> ALeg list \<Rightarrow> int \<Rightarrow> Holding list" where
  "project v b legs sets = held_in (v_positions v) (foldl (project_leg sets) (b_Positions b) legs)"

definition add_order :: "(string \<times> Holding) list \<times> float64 \<Rightarrow> AOrder \<Rightarrow> int \<Rightarrow> (string \<times> Holding) list \<times> float64" where
  "add_order st ord sets = (case st of (after, cash) \<Rightarrow>
     if sets < 1 then (after, cash)
     else (foldl (project_leg sets) after (ao_Legs ord),
           fl_minus cash (fl_plus (fl_times (fl_times (ao_Limit ord) (f64_of_int sets)) (f64_of_int multiplier))
             (f64_of_int (contractsIn (ao_Legs ord) sets) * perContract))))"

definition reserved :: "arena_env \<Rightarrow> Book \<Rightarrow> AOrder option \<Rightarrow> string \<Rightarrow> Holding list \<times> float64" where
  "reserved v b extra skip =
     (let st = foldl (\<lambda>st i. case map_of (b_Orders b) i of
                 None \<Rightarrow> st
               | Some ord \<Rightarrow> if \<not> ord_open ord \<or> i = skip then st else add_order st ord (remaining ord))
               (b_Positions b, Fin (b_Cash b)) (b_order b);
          st = (case extra of None \<Rightarrow> st | Some ord \<Rightarrow> add_order st ord (ao_Qty ord))
      in (held_in (v_positions v) (fst st), snd st))"

definition move :: "string \<Rightarrow> string \<Rightarrow> int \<Rightarrow> f64 \<Rightarrow> (string \<times> Holding) list \<Rightarrow> (string \<times> Holding) list" where
  "move symbol class' signed price ps =
     (if signed = 0 then ps else
      let p = (case map_of ps symbol of
                 Some p \<Rightarrow> p
               | None \<Rightarrow> no_holding\<lparr>h_Symbol := symbol, h_Class := class'\<rparr>);
          p = p\<lparr>h_Mark := price\<rparr>;
          was = h_Qty p;
          p = (if was = 0 then p\<lparr>h_AvgPrice := price\<rparr>
               else if sameSign was signed
                 then p\<lparr>h_AvgPrice := (h_AvgPrice p * absf was + price * absf signed) / absf (was + signed)\<rparr>
               else if absf signed > absf was then p\<lparr>h_AvgPrice := price\<rparr>
               else p);
          p = p\<lparr>h_Qty := h_Qty p + signed\<rparr>
      in if h_Qty p = 0 then AList.delete symbol ps else AList.update symbol p ps)"

definition leg_price :: "(string \<rightharpoonup> f64) \<Rightarrow> string \<Rightarrow> f64" where
  "leg_price legPrice symbol = (case legPrice symbol of Some x \<Rightarrow> x | None \<Rightarrow> 0)"

definition apply_legs :: "ALeg list \<Rightarrow> int \<Rightarrow> (string \<rightharpoonup> f64) \<Rightarrow> (string \<times> Holding) list \<Rightarrow> (string \<times> Holding) list" where
  "apply_legs legs sets legPrice ps =
     foldl (\<lambda>ps leg. move (al_Symbol leg) classOption (signed_qty leg sets) (leg_price legPrice (al_Symbol leg)) ps) ps legs"

subsection \<open>Collateral\<close>

definition shortfall :: "arena_env \<Rightarrow> Holding list \<Rightarrow> f64 option \<Rightarrow> float64 \<Rightarrow> lack" where
  "shortfall v projected need cashAfter =
     (case need of
        None \<Rightarrow> (case arena_Unbounded (v_sides v) projected of
                   Some (k, n, strike) \<Rightarrow> NoCeiling k n strike
                 | None \<Rightarrow> DefectOfTheArena)
      | Some n \<Rightarrow> LackOf n cashAfter (fl_minus (Fin n) cashAfter))"

definition lacks :: "f64 option \<Rightarrow> float64 \<Rightarrow> bool" where
  "lacks need cashAfter = (case need of None \<Rightarrow> True | Some n \<Rightarrow> fl_less cashAfter (Fin (n - lit (1 / 10 ^ 9))))"

subsection \<open>The turn in an order's name\<close>

fun turn_field :: "string list \<Rightarrow> string" where
  "turn_field [] = []"
| "turn_field (field # rest) =
     (case Cut CHR ''='' field of
        None \<Rightarrow> turn_field rest
      | Some (key, ref) \<Rightarrow> if TrimSpace key = ''turn'' then TrimSpace ref else turn_field rest)"

definition turnOf :: "string \<Rightarrow> string" where
  "turnOf clientID = turn_field (Split CHR '';'' clientID)"

datatype count_error = EmptyCount | DigitsOnly string | CountTooLarge string | NotPositiveCount string

definition parseCount :: "string \<Rightarrow> (count_error, int) result" where
  "parseCount s =
     (if s = [] then Err EmptyCount
      else if \<not> list_all is_digit s then Err (DigitsOnly s)
      else (case ParseInt s of
              None \<Rightarrow> Err (CountTooLarge s)
            | Some n \<Rightarrow> if n < 1 then Err (NotPositiveCount s) else Ok n))"

subsection \<open>The operations\<close>

definition put_order :: "AOrder \<Rightarrow> Book \<Rightarrow> Book" where
  "put_order ord b = b\<lparr>b_Orders := AList.update (ao_ID ord) ord (b_Orders b)\<rparr>"

text \<open>The order that stands if it is taken, the answer, and the book.\<close>

definition Submit :: "arena_env \<Rightarrow> AOrder \<Rightarrow> Book \<Rightarrow> (refused_call, unit) result \<times> AOrder \<times> Book" where
  "Submit v o0 b =
     (let ord = o0\<lparr>ao_TurnRef := turnOf (ao_ClientID o0)\<rparr>;
          (projected, cashAfter) = reserved v b (Some ord) [] in
      (case Requirement (v_groups v) projected of
         Err e \<Rightarrow> (Err (NotCounted e), ord, b)
       | Ok need \<Rightarrow>
           if lacks need cashAfter then (Err (NoCollateral (shortfall v projected need cashAfter)), ord, b)
           else
             let b = b\<lparr>b_seq := b_seq b + 1\<rparr>;
                 ord = ord\<lparr>ao_Seq := b_seq b\<rparr>;
                 ord = (if ao_ID ord = [] then ord\<lparr>ao_ID := v_uuid v\<rparr> else ord);
                 ord = ord\<lparr>ao_Status := statusNew\<rparr>;
                 b = put_order ord b;
                 b = b\<lparr>b_order := b_order b @ [ao_ID ord]\<rparr>
             in (persist v b, ord, b)))"

definition no_event :: Event where
  "no_event = \<lparr>ev_OrderID = [], ev_Kind = [], ev_Symbol = [], ev_At = 0, ev_Sets = 0, ev_Price = 0,
     ev_Fees = 0, ev_Filled = False, ev_Why = NoReason\<rparr>"

definition log_event :: "Event \<Rightarrow> Book \<Rightarrow> Book" where
  "log_event e b = b\<lparr>b_Events := b_Events b @ [e]\<rparr>"

text \<open>The order once \<open>sets\<close> more of it are filled.\<close>

definition filled_order :: "AOrder \<Rightarrow> int \<Rightarrow> f64 \<Rightarrow> f64 \<Rightarrow> time \<Rightarrow> AOrder" where
  "filled_order ord sets executable' fees now =
     (let filled = ao_FilledQty ord + sets in
      ord\<lparr>ao_Fees := ao_Fees ord + fees,
          ao_FilledAvg := (ao_FilledAvg ord * f64_of_int (ao_FilledQty ord) + executable' * f64_of_int sets) /
                          f64_of_int filled,
          ao_FilledQty := filled, ao_FilledAt := Some now, ao_Why := NoReason,
          ao_Status := (if filled \<ge> ao_Qty ord then statusFilled else statusPartial)\<rparr>)"

definition Fill :: "arena_env \<Rightarrow> string \<Rightarrow> int \<Rightarrow> f64 \<Rightarrow> (string \<rightharpoonup> f64) \<Rightarrow> time \<Rightarrow> Book \<Rightarrow>
    (refused_call, Event) result \<times> Book" where
  "Fill v i sets executable' legPrice now b =
     (case map_of (b_Orders b) i of
        None \<Rightarrow> (Err (NoOrder i), b)
      | Some ord \<Rightarrow>
          if \<not> ord_open ord then (Err (AlreadyIs i (ao_Status ord)), b)
          else if sets < 1 \<or> sets > remaining ord then (Err (SetsAgainst sets (remaining ord)), b)
          else
            let e = no_event\<lparr>ev_OrderID := i, ev_Kind := ''fill'', ev_At := now, ev_Sets := sets, ev_Price := executable'\<rparr>;
                projected = project v b (ao_Legs ord) sets in
            (case Requirement (v_groups v) projected of
               Err err \<Rightarrow> (Err (NotCounted err), put_order (ord\<lparr>ao_Why := Uncountable err\<rparr>) b)
             | Ok need \<Rightarrow>
                 let fees = f64_of_int (contractsIn (ao_Legs ord) sets) * perContract;
                     cashAfter = b_Cash b - executable' * f64_of_int sets * f64_of_int multiplier - fees in
                 if lacks need (Fin cashAfter) then
                   let why = NotEnough (shortfall v projected need (Fin cashAfter));
                       e = e\<lparr>ev_Why := why\<rparr>;
                       b = log_event e (put_order (ord\<lparr>ao_Why := why\<rparr>) b)
                   in (map_sum id (\<lambda>_. e) (persist v b), b)
                 else
                   let b = b\<lparr>b_Positions := apply_legs (ao_Legs ord) sets legPrice (b_Positions b), b_Cash := cashAfter\<rparr>;
                       b = put_order (filled_order ord sets executable' fees now) b;
                       e = e\<lparr>ev_Fees := fees, ev_Filled := True\<rparr>;
                       b = log_event e b
                   in (map_sum id (\<lambda>_. e) (persist v b), b)))"

definition MarkStand :: "string \<Rightarrow> Book \<Rightarrow> Book" where
  "MarkStand i b = (case map_of (b_Orders b) i of
     None \<Rightarrow> b | Some ord \<Rightarrow> if ao_Stand ord then b else put_order (ord\<lparr>ao_Stand := True\<rparr>) b)"

definition Note :: "string \<Rightarrow> reason \<Rightarrow> Book \<Rightarrow> Book" where
  "Note i why b = (case map_of (b_Orders b) i of
     None \<Rightarrow> b
   | Some ord \<Rightarrow> if ord_open ord \<and> ao_Why ord \<noteq> why then put_order (ord\<lparr>ao_Why := why\<rparr>) b else b)"

definition Cancel :: "arena_env \<Rightarrow> string \<Rightarrow> time \<Rightarrow> Book \<Rightarrow> (refused_call, AOrder) result \<times> Book" where
  "Cancel v i now b = (case map_of (b_Orders b) i of
     None \<Rightarrow> (Err (NoOrder i), b)
   | Some ord \<Rightarrow>
       if \<not> ord_open ord then (Err (AlreadyIs i (ao_Status ord)), b) else
       let ord = ord\<lparr>ao_Status := statusCanceled, ao_CanceledAt := Some now, ao_Why := CancelledByParticipant\<rparr>;
           b = put_order ord b
       in (map_sum id (\<lambda>_. ord) (persist v b), b))"

definition next_order :: "arena_env \<Rightarrow> AOrder \<Rightarrow> float64 \<Rightarrow> string \<Rightarrow> int \<Rightarrow> time \<Rightarrow> AOrder" where
  "next_order v old limit clientID left now =
     (let name = (if clientID = [] then ao_ClientID old else clientID) in
      \<lparr>ao_ID = v_uuid v, ao_ClientID = name, ao_TurnRef = turnOf name, ao_Status = statusNew, ao_Qty = left,
       ao_FilledQty = 0, ao_Limit = limit, ao_Market = False, ao_FilledAvg = 0, ao_Fees = 0, ao_Stand = False,
       ao_TIF = ao_TIF old, ao_Legs = ao_Legs old, ao_SubmittedAt = now, ao_FilledAt = None,
       ao_CanceledAt = None, ao_ExpiresAt = ao_ExpiresAt old, ao_ReplacedBy = [], ao_Replaces = ao_ID old,
       ao_Why = NoReason, ao_Seq = 0\<rparr>)"

definition arena_Replace :: "arena_env \<Rightarrow> string \<Rightarrow> float64 \<Rightarrow> string \<Rightarrow> int \<Rightarrow> time \<Rightarrow> Book \<Rightarrow>
    (refused_call, AOrder) result \<times> Book" where
  "arena_Replace v i limit clientID qty now b = (case map_of (b_Orders b) i of
     None \<Rightarrow> (Err (NoOrder i), b)
   | Some old \<Rightarrow>
       if \<not> ord_open old then (Err (AlreadyIs i (ao_Status old)), b)
       else if qty > 0 \<and> qty < ao_FilledQty old then (Err (LessThanFilled qty (ao_FilledQty old)), b)
       else
         let left = (if qty > 0 then qty - ao_FilledQty old else remaining old) in
         if left < 1 then (Err NothingLeft, b) else
         let next' = next_order v old limit clientID left now;
             (projected, cashAfter) = reserved v b (Some next') (ao_ID old) in
         (case Requirement (v_groups v) projected of
            Err e \<Rightarrow> (Err (NotCounted e), b)
          | Ok need \<Rightarrow>
              if lacks need cashAfter then (Err (NoCollateral (shortfall v projected need cashAfter)), b)
              else
                let old = old\<lparr>ao_Status := statusReplaced, ao_CanceledAt := Some now,
                              ao_ReplacedBy := ao_ID next', ao_Why := Moved\<rparr>;
                    b = put_order old b;
                    b = b\<lparr>b_seq := b_seq b + 1\<rparr>;
                    next' = next'\<lparr>ao_Seq := b_seq b\<rparr>;
                    b = put_order next' b;
                    b = b\<lparr>b_order := b_order b @ [ao_ID next']\<rparr>
                in (map_sum id (\<lambda>_. next') (persist v b), b)))"

definition expires_now :: "time \<Rightarrow> AOrder \<Rightarrow> bool" where
  "expires_now now ord \<longleftrightarrow> ord_open ord \<and> ao_TIF ord = ''day'' \<and>
     (case ao_ExpiresAt ord of None \<Rightarrow> False | Some t \<Rightarrow> \<not> now < t)"

definition expire_one :: "time \<Rightarrow> Book \<times> AOrder list \<Rightarrow> string \<Rightarrow> Book \<times> AOrder list" where
  "expire_one now st i = (case st of (b, gone) \<Rightarrow>
     (case map_of (b_Orders b) i of
        None \<Rightarrow> (b, gone)
      | Some ord \<Rightarrow>
          if \<not> expires_now now ord then (b, gone)
          else let ord = ord\<lparr>ao_Status := statusExpired, ao_CanceledAt := Some now, ao_Why := SessionOver\<rparr>
               in (put_order ord b, gone @ [ord])))"

definition ExpireDay :: "time \<Rightarrow> Book \<Rightarrow> AOrder list \<times> Book" where
  "ExpireDay now b = (case foldl (expire_one now) (b, []) (b_order b) of (b, gone) \<Rightarrow> (gone, b))"

definition set_mark :: "string \<times> f64 \<Rightarrow> (string \<times> Holding) list \<Rightarrow> (string \<times> Holding) list" where
  "set_mark m ps = (case m of (symbol, price) \<Rightarrow> (case map_of ps symbol of
     None \<Rightarrow> ps
   | Some p \<Rightarrow> if price > 0 \<and> h_Mark p \<noteq> price then AList.update symbol (p\<lparr>h_Mark := price\<rparr>) ps else ps))"

definition SetMarks :: "(string \<times> f64) list \<Rightarrow> Book \<Rightarrow> Book" where
  "SetMarks marks b = b\<lparr>b_Positions := fold set_mark marks (b_Positions b)\<rparr>"

definition MarkClose :: "string \<Rightarrow> f64 \<Rightarrow> Book \<Rightarrow> bool \<times> Book" where
  "MarkClose day equity b =
     (if b_ClosedOn b = day then (False, b) else (True, b\<lparr>b_ClosedOn := day, b_LastEquity := equity\<rparr>))"

subsection \<open>The readings\<close>

definition Snapshot :: "arena_env \<Rightarrow> Book \<Rightarrow> f64 \<times> f64 \<times> f64 \<times> Holding list" where
  "Snapshot v b = (b_Cash b, b_Start b, b_LastEquity b,
     List.map_filter (map_of (b_Positions b)) (v_positions v (map fst (b_Positions b))))"

definition AccruedFees :: "string iteration \<Rightarrow> Book \<Rightarrow> f64" where
  "AccruedFees it b = foldl (\<lambda>acc ord. acc + ao_Fees ord) 0
     (List.map_filter (map_of (b_Orders b)) (it (map fst (b_Orders b))))"

definition OrdersSnapshot :: "Book \<Rightarrow> AOrder list" where
  "OrdersSnapshot b = List.map_filter (map_of (b_Orders b)) (b_order b)"

definition ByID :: "string \<Rightarrow> Book \<Rightarrow> AOrder option" where
  "ByID i b = map_of (b_Orders b) i"

definition ByClientID :: "string \<Rightarrow> Book \<Rightarrow> AOrder option" where
  "ByClientID clientID b =
     (if clientID = [] then None
      else List.find (\<lambda>ord. ao_ClientID ord = clientID) (OrdersSnapshot b))"

definition OpenOrders :: "Book \<Rightarrow> AOrder list" where
  "OpenOrders b = filter ord_open (OrdersSnapshot b)"

end
