(* ===== verification/ArenaExpiry.thy ===== *)
theory ArenaExpiry
  imports ArenaBook "HOL-Library.List_Lexorder" "HOL-Library.Char_ord"
begin

text \<open>
  Expiry in the arena (\<open>testbed/proxy/expiry.go\<close>): when a contract counts as settled, which
  positions are due, what settling one of them does to the book, and the settlement of everything
  due against the underlyings' last trades. The instant at which the exchange's clocks show an hour
  of a date comes from the zone database, the argument \<open>zone\<close>; the last trades come from the broker.
\<close>

type_synonym zone = "date \<Rightarrow> int \<Rightarrow> time"

definition settlementHour :: int where "settlementHour = 16"

definition cashSettled :: "string \<rightharpoonup> string" where
  "cashSettled = map_of [(''SPX'', ''SPX''), (''SPXW'', ''SPX''), (''XSP'', ''XSP''), (''NDX'', ''NDX''),
     (''RUT'', ''RUT''), (''VIX'', ''VIX''), (''VIXW'', ''VIX'')]"

definition settledAt :: "zone \<Rightarrow> occ \<Rightarrow> time" where
  "settledAt zone c = zone (a_Expires c) settlementHour"

definition is_due :: "zone \<Rightarrow> time \<Rightarrow> string \<times> Holding \<Rightarrow> (occ \<times> string) option" where
  "is_due zone now sp = (case sp of (symbol, p) \<Rightarrow>
     if h_Class p = classEquity \<or> h_Qty p = 0 then None else
     (case parseOCC symbol of
        Err e \<Rightarrow> None
      | Ok c \<Rightarrow> if now < settledAt zone c then None else Some (c, symbol)))"

definition Due :: "zone \<Rightarrow> string iteration \<Rightarrow> time \<Rightarrow> Book \<Rightarrow> (occ \<times> string) list" where
  "Due zone it now b =
     List.map_filter (\<lambda>symbol. Option.bind (map_of (b_Positions b) symbol) (\<lambda>p. is_due zone now (symbol, p)))
       (it (map fst (b_Positions b)))"

subsection \<open>Settling one position\<close>

datatype settle_error = NoPositionIn string | Unreadable occ_error | SettledNotSaved string

definition delete_position :: "string \<Rightarrow> Book \<Rightarrow> Book" where
  "delete_position symbol b = b\<lparr>b_Positions := AList.delete symbol (b_Positions b)\<rparr>"

definition settlement_value :: "occ \<Rightarrow> f64 \<Rightarrow> f64" where
  "settlement_value c price = fround (occ_intrinsic c price * lit 100) / lit 100"

definition shares_of :: "occ \<Rightarrow> int \<Rightarrow> int" where
  "shares_of c qty = (let shares = qty * multiplier in if a_Call c then shares else - shares)"

definition strike_money :: "occ \<Rightarrow> int \<Rightarrow> f64" where
  "strike_money c qty =
     (let money = - a_Strike c * f64_of_int qty * f64_of_int multiplier in if a_Call c then money else - money)"

definition mark_held :: "string \<Rightarrow> f64 \<Rightarrow> (string \<times> Holding) list \<Rightarrow> (string \<times> Holding) list" where
  "mark_held symbol price ps = (case map_of ps symbol of
     None \<Rightarrow> ps | Some p \<Rightarrow> AList.update symbol (p\<lparr>h_Mark := price\<rparr>) ps)"

text \<open>The switch of \<open>Settle\<close>: what happened, and the book with the position gone.\<close>

definition settled_by :: "string \<Rightarrow> int \<Rightarrow> occ \<Rightarrow> f64 \<Rightarrow> time \<Rightarrow> Book \<Rightarrow> Event \<times> Book" where
  "settled_by symbol qty c price now b =
     (let value = settlement_value c price;
          e = no_event\<lparr>ev_Kind := ''expiry'', ev_Symbol := symbol, ev_At := now, ev_Sets := qty, ev_Price := price\<rparr> in
      if value < lit (1 / 100) then
        (e\<lparr>ev_Why := ExpiredEmpty symbol price\<rparr>, delete_position symbol b)
      else if cashSettled (a_Root c) \<noteq> None then
        (e\<lparr>ev_Kind := ''settlement'', ev_Why := SettledInCash value qty multiplier\<rparr>,
         delete_position symbol (b\<lparr>b_Cash := b_Cash b + value * f64_of_int qty * f64_of_int multiplier\<rparr>))
      else
        let shares = shares_of c qty;
            money = strike_money c qty;
            b = delete_position symbol b;
            b = b\<lparr>b_Positions := mark_held (a_Root c) price
                    (move (a_Root c) classEquity shares (a_Strike c) (b_Positions b)),
                  b_Cash := b_Cash b + money\<rparr>
        in (e\<lparr>ev_Kind := (if qty < 0 then ''assignment'' else ''exercise''),
              ev_Why := InTheMoney symbol value shares (a_Root c) money\<rparr>, b))"

definition Settle :: "arena_env \<Rightarrow> string \<Rightarrow> f64 \<Rightarrow> time \<Rightarrow> Book \<Rightarrow> (settle_error, Event) result \<times> Book" where
  "Settle v symbol price now b =
     (case map_of (b_Positions b) symbol of
        None \<Rightarrow> (Err (NoPositionIn symbol), b)
      | Some p \<Rightarrow>
        (case parseOCC symbol of
           Err e \<Rightarrow> (Err (Unreadable e), b)
         | Ok c \<Rightarrow>
             let (e, b) = settled_by symbol (h_Qty p) c price now b;
                 b = log_event e b
             in (case v_save v b of Err x \<Rightarrow> Err (SettledNotSaved x) | Ok u \<Rightarrow> Ok e, b)))"

subsection \<open>Settling everything due\<close>

text \<open>A complaint is printed once for a symbol; what has been said is kept by the arena.\<close>

datatype complaint = NoIndexPrice string string | NoUnderlyingPrice string string

record said =
  sd_keys :: "string list"
  sd_lines :: "complaint list"

definition complain :: "string \<Rightarrow> complaint \<Rightarrow> said \<Rightarrow> said" where
  "complain key line s =
     (if key \<in> set (sd_keys s) then s
      else s\<lparr>sd_keys := key # sd_keys s, sd_lines := sd_lines s @ [line]\<rparr>)"

definition keys :: "string list \<Rightarrow> string list" where
  "keys xs = sort (remdups xs)"

definition settle_one :: "arena_env \<Rightarrow> (string \<rightharpoonup> f64) \<Rightarrow> time \<Rightarrow> said \<times> Book \<Rightarrow> occ \<times> string \<Rightarrow> said \<times> Book" where
  "settle_one v prices now sb cs = (case (sb, cs) of ((s, b), (c, symbol)) \<Rightarrow>
     (case cashSettled (a_Root c) of
        Some index \<Rightarrow> (complain symbol (NoIndexPrice symbol index) s, b)
      | None \<Rightarrow>
        (case prices (ToUpper (a_Root c)) of
           None \<Rightarrow> (complain symbol (NoUnderlyingPrice symbol (a_Root c)) s, b)
         | Some price \<Rightarrow>
             if price \<le> 0 then (complain symbol (NoUnderlyingPrice symbol (a_Root c)) s, b)
             else (s, snd (Settle v symbol price now b)))))"

definition needed_prices :: "(occ \<times> string) list \<Rightarrow> string list" where
  "needed_prices due = keys (map (\<lambda>(c, symbol). a_Root c) (filter (\<lambda>(c, symbol). cashSettled (a_Root c) = None) due))"

definition settle :: "arena_env \<Rightarrow> zone \<Rightarrow> (string list \<Rightarrow> (string, string \<rightharpoonup> f64) result) \<Rightarrow> time \<Rightarrow> said \<Rightarrow> Book \<Rightarrow>
    string option \<times> said \<times> Book" where
  "settle v zone lastTrades now s b =
     (let due = Due zone (v_positions v) now b in
      if due = [] then (None, s, b) else
      let need = needed_prices due in
      (case (if need = [] then Ok Map.empty else lastTrades need) of
         Err e \<Rightarrow> (Some e, s, b)
       | Ok prices \<Rightarrow>
           let (s, b) = foldl (settle_one v prices now) (s, b) due in (None, s, b)))"

end
