(* ===== verification/ArenaMatch.thy ===== *)
theory ArenaMatch
  imports ArenaExpiry
begin

text \<open>
  The arena's market: a quote and what it is worth (\<open>testbed/proxy/quotes.go\<close>), the value of a
  book at the market (\<open>value\<close> and \<open>remember\<close> of \<open>testbed/proxy/tools.go\<close>), and the matcher's
  pass over every book (\<open>testbed/proxy/match.go\<close>). Reading a quote or the clock goes to the broker:
  what it answers is a field of \<open>market\<close>. A pass is modelled as it runs with no call of a
  participant in between; the books are those of the arena in the order it ranges over them.
\<close>

subsection \<open>Quotes\<close>

record AQuote =
  aq_Symbol :: string
  aq_Bid :: f64
  aq_Ask :: f64
  aq_BidSize :: int
  aq_AskSize :: int
  aq_At :: time

type_synonym quotes = "(string \<times> AQuote) list"
type_synonym shown = "string \<rightharpoonup> int"

definition quote_side :: "AQuote \<Rightarrow> bool \<Rightarrow> f64 \<times> int" where
  "quote_side q buy = (if buy then (aq_Ask q, aq_AskSize q) else (aq_Bid q, aq_BidSize q))"

definition quote_mark :: "AQuote \<Rightarrow> f64" where
  "quote_mark q =
     (if aq_Bid q > 0 \<and> aq_Ask q > 0 then (aq_Bid q + aq_Ask q) / lit 2
      else if aq_Ask q > 0 then aq_Ask q / lit 2
      else if aq_Bid q > 0 then aq_Bid q / lit 2
      else 0)"

definition liquidation :: "AQuote \<Rightarrow> bool \<Rightarrow> f64" where
  "liquidation q long = (if long then aq_Bid q else aq_Ask q)"

subsection \<open>What the broker answers\<close>

record Clock =
  k_IsOpen :: bool
  k_Now :: time
  k_NextClose :: "time option"

record market =
  mk_clock :: "(string, Clock) result"
  mk_optionQuotes :: "string list \<Rightarrow> (string, quotes) result"
  mk_stockQuotes :: "string list \<Rightarrow> (string, quotes) result"
  mk_lastTrades :: "string list \<Rightarrow> (string, string \<rightharpoonup> f64) result"
  mk_zone :: zone
  mk_today :: "time \<Rightarrow> date"
  mk_wall :: time

record arena_config =
  g_maxQuoteAge :: duration
  g_ignoreSession :: bool
  g_staging :: bool

subsection \<open>The value of a book\<close>

record valuation =
  w_Market :: f64
  w_Liquidation :: f64
  w_Long :: f64
  w_Short :: f64
  w_Unpriced :: "string list"
  w_Quotes :: quotes

definition no_quote :: AQuote where
  "no_quote = \<lparr>aq_Symbol = [], aq_Bid = 0, aq_Ask = 0, aq_BidSize = 0, aq_AskSize = 0, aq_At = 0\<rparr>"

definition size_of :: "Holding \<Rightarrow> int" where
  "size_of p = (if h_Class p = classEquity then 1 else multiplier)"

definition value_position :: "valuation \<Rightarrow> Holding \<Rightarrow> valuation" where
  "value_position w p =
     (let found = map_of (w_Quotes w) (h_Symbol p);
          q = (case found of None \<Rightarrow> no_quote | Some q \<Rightarrow> q);
          mark = (if found = None then 0 else quote_mark q);
          w = (if found = None \<or> mark \<le> 0 then w\<lparr>w_Unpriced := w_Unpriced w @ [h_Symbol p]\<rparr> else w);
          worth = mark * f64_of_int (h_Qty p) * f64_of_int (size_of p);
          w = w\<lparr>w_Market := w_Market w + worth\<rparr>;
          w = (if h_Qty p > 0 then w\<lparr>w_Long := w_Long w + worth\<rparr> else w\<lparr>w_Short := w_Short w + worth\<rparr>)
      in w\<lparr>w_Liquidation := w_Liquidation w +
             liquidation q (h_Qty p > 0) * f64_of_int (h_Qty p) * f64_of_int (size_of p)\<rparr>)"

definition merge_quotes :: "quotes \<Rightarrow> quotes \<Rightarrow> quotes" where
  "merge_quotes new qs = fold (\<lambda>(s, q) qs. AList.update s q qs) new qs"

definition no_value :: valuation where
  "no_value = \<lparr>w_Market = 0, w_Liquidation = 0, w_Long = 0, w_Short = 0, w_Unpriced = [], w_Quotes = []\<rparr>"

definition arena_value :: "market \<Rightarrow> Holding list \<Rightarrow> (string, valuation) result" where
  "arena_value mk held =
     (if held = [] then Ok no_value else
      let shares = map h_Symbol (filter (\<lambda>p. h_Class p = classEquity) held);
          options = map h_Symbol (filter (\<lambda>p. h_Class p \<noteq> classEquity) held) in
      (case (if options = [] then Ok [] else mk_optionQuotes mk options) of
         Err e \<Rightarrow> Err e
       | Ok oq \<Rightarrow>
         (case (if shares = [] then Ok [] else mk_stockQuotes mk shares) of
            Err e \<Rightarrow> Err e
          | Ok sq \<Rightarrow>
              let w = foldl value_position (no_value\<lparr>w_Quotes := merge_quotes sq (merge_quotes oq [])\<rparr>) held
              in Ok (w\<lparr>w_Unpriced := sort (w_Unpriced w)\<rparr>))))"

definition remember :: "valuation \<Rightarrow> Book \<Rightarrow> Book" where
  "remember w = SetMarks (List.map_filter (\<lambda>(symbol, q). let mark = quote_mark q in
     if mark > 0 then Some (symbol, mark) else None) (w_Quotes w))"

subsection \<open>The price of one set\<close>

definition shown_key :: "ALeg \<Rightarrow> string" where
  "shown_key leg = al_Symbol leg @ CHR ''|'' # al_Side leg"

record offer =
  of_price :: f64
  of_sets :: int
  of_legs :: "string \<rightharpoonup> f64"

text \<open>A count of sets below nought stands for no leg read yet. A ratio is at least one: \<open>legsOf\<close>
  takes no other, so that the division is one Go carries out.\<close>

definition exec_leg :: "quotes \<Rightarrow> shown \<Rightarrow> time \<Rightarrow> duration \<Rightarrow> bool \<Rightarrow> ALeg \<Rightarrow> offer \<Rightarrow> (reason, offer) result" where
  "exec_leg quotes shown now maxAge ignoreAge leg x =
     (case map_of quotes (al_Symbol leg) of
        None \<Rightarrow> Err (NoQuoteFor (al_Symbol leg))
      | Some q \<Rightarrow>
          if \<not> ignoreAge \<and> aq_At q = 0 then Err (NoTimestamp (al_Symbol leg))
          else if \<not> ignoreAge \<and> now - aq_At q > maxAge then Err (OlderThan (al_Symbol leg) maxAge)
          else if aq_Bid q > 0 \<and> aq_Ask q > 0 \<and> aq_Bid q > aq_Ask q
            then Err (CrossedQuote (al_Symbol leg) (aq_Bid q) (aq_Ask q))
          else
            let buy = (al_Side leg = ''buy''); (p, size) = quote_side q buy in
            if p \<le> 0 then Err (NoPriceOn (al_Symbol leg) (al_Side leg))
            else
              let size = (case shown (shown_key leg) of Some have \<Rightarrow> have | None \<Rightarrow> size);
                  ratio = f64_of_int (al_Ratio leg);
                  fits = go_div size (al_Ratio leg)
              in Ok \<lparr>of_price = (if buy then of_price x + p * ratio else of_price x - p * ratio),
                     of_sets = (if of_sets x < 0 \<or> fits < of_sets x then fits else of_sets x),
                     of_legs = (of_legs x)(al_Symbol leg \<mapsto> p)\<rparr>)"

fun exec_legs :: "quotes \<Rightarrow> shown \<Rightarrow> time \<Rightarrow> duration \<Rightarrow> bool \<Rightarrow> ALeg list \<Rightarrow> offer \<Rightarrow> (reason, offer) result" where
  "exec_legs quotes shown now maxAge ignoreAge [] x = Ok (x\<lparr>of_sets := (if of_sets x < 0 then 0 else of_sets x)\<rparr>)"
| "exec_legs quotes shown now maxAge ignoreAge (leg # legs) x =
     (case exec_leg quotes shown now maxAge ignoreAge leg x of
        Err e \<Rightarrow> Err e
      | Ok x' \<Rightarrow> exec_legs quotes shown now maxAge ignoreAge legs x')"

definition executable :: "ALeg list \<Rightarrow> quotes \<Rightarrow> shown \<Rightarrow> time \<Rightarrow> duration \<Rightarrow> bool \<Rightarrow> (reason, offer) result" where
  "executable legs quotes shown now maxAge ignoreAge =
     exec_legs quotes shown now maxAge ignoreAge legs \<lparr>of_price = 0, of_sets = -1, of_legs = Map.empty\<rparr>"

subsection \<open>Filling one order\<close>

definition taken_from :: "int \<Rightarrow> shown \<Rightarrow> ALeg \<Rightarrow> shown" where
  "taken_from sets shown leg =
     shown(shown_key leg \<mapsto> (case shown (shown_key leg) of None \<Rightarrow> 0 | Some n \<Rightarrow> n) - al_Ratio leg * sets)"

definition fill :: "arena_config \<Rightarrow> arena_env \<Rightarrow> AOrder \<Rightarrow> quotes \<Rightarrow> time \<Rightarrow> Book \<times> shown \<Rightarrow> Book \<times> shown" where
  "fill g v ord quotes now bs = (case bs of (b, shown) \<Rightarrow>
     (case executable (ao_Legs ord) quotes shown now (g_maxQuoteAge g) (g_ignoreSession g) of
        Err why \<Rightarrow> (Note (ao_ID ord) why b, shown)
      | Ok x \<Rightarrow>
          if \<not> ao_Market ord \<and> fl_less (fl_plus (ao_Limit ord) (lit (1 / 10 ^ 9))) (Fin (of_price x))
          then (Note (ao_ID ord) (MarketOffers (of_price x) (ao_Limit ord)) b, shown)
          else
            let sets = (if of_sets x > remaining ord then remaining ord else of_sets x) in
            if sets < 1 then (Note (ao_ID ord) NoSizeShown b, shown)
            else
              (case Fill v (ao_ID ord) sets (of_price x) (of_legs x) now b of
                 (Err e, b) \<Rightarrow> (b, shown)
               | (Ok e, b) \<Rightarrow>
                   (if g_ignoreSession g then MarkStand (ao_ID ord) b else b,
                    foldl (taken_from sets) shown (ao_Legs ord)))))"

subsection \<open>The pass\<close>

definition expire_and_settle :: "arena_env \<Rightarrow> market \<Rightarrow> time \<Rightarrow> said \<times> Book list \<Rightarrow> Book \<Rightarrow> said \<times> Book list" where
  "expire_and_settle v mk now sbs b = (case sbs of (s, bs) \<Rightarrow>
     let b = snd (ExpireDay now b);
         (err, s, b) = settle v (mk_zone mk) (mk_lastTrades mk) now s b
     in (s, bs @ [b]))"

definition mark_close :: "arena_env \<Rightarrow> market \<Rightarrow> time \<Rightarrow> Book \<Rightarrow> Book" where
  "mark_close v mk now b =
     (let day = fmt_date (mk_today mk now) in
      if b_ClosedOn b = day then b else
      let (cash, start, last, held) = Snapshot v b in
      (case arena_value mk held of
         Err e \<Rightarrow> b
       | Ok w \<Rightarrow> snd (MarkClose day (cash + w_Market w) b)))"

text \<open>A standing order is a copy of the order with the place of its book.\<close>

definition standing :: "Book list \<Rightarrow> (nat \<times> AOrder) list" where
  "standing bs = concat (map (\<lambda>(i, b). map (Pair i) (OpenOrders b)) (enumerate 0 bs))"

definition queue :: "Book list \<Rightarrow> (nat \<times> AOrder) list" where
  "queue bs = sort_by (\<lambda>a b. ao_SubmittedAt (snd a) < ao_SubmittedAt (snd b)) (standing bs)"

definition shown_at_first :: "quotes \<Rightarrow> shown" where
  "shown_at_first quotes =
     foldl (\<lambda>shown (symbol, q). shown(symbol @ ''|buy'' \<mapsto> aq_AskSize q, symbol @ ''|sell'' \<mapsto> aq_BidSize q))
       Map.empty quotes"

definition fill_in :: "arena_config \<Rightarrow> arena_env \<Rightarrow> quotes \<Rightarrow> time \<Rightarrow> Book list \<times> shown \<Rightarrow> nat \<times> AOrder \<Rightarrow> Book list \<times> shown" where
  "fill_in g v quotes now st so = (case (st, so) of ((bs, shown), (i, ord)) \<Rightarrow>
     (case fill g v ord quotes now (bs ! i, shown) of (b, shown) \<Rightarrow> (bs[i := b], shown)))"

definition once :: "arena_config \<Rightarrow> arena_env \<Rightarrow> market \<Rightarrow> said \<Rightarrow> Book list \<Rightarrow> said \<times> Book list" where
  "once g v mk s bs =
     (case mk_clock mk of
        Err e \<Rightarrow> (s, bs)
      | Ok clock \<Rightarrow>
          let now = k_Now clock;
              (s, bs) = foldl (expire_and_settle v mk now) (s, []) bs;
              bs = (if k_IsOpen clock then bs else map (mark_close v mk now) bs);
              open' = queue bs in
          if open' = [] then (s, bs)
          else if \<not> k_IsOpen clock \<and> \<not> g_ignoreSession g
            then (s, foldl (\<lambda>bs (i, ord). bs[i := Note (ao_ID ord) WaitsForOpen (bs ! i)]) bs open')
          else
            let symbols = keys (concat (map (\<lambda>(i, ord). map al_Symbol (ao_Legs ord)) open')) in
            (case mk_optionQuotes mk symbols of
               Err e \<Rightarrow> (s, bs)
             | Ok quotes \<Rightarrow> (s, fst (foldl (fill_in g v quotes now) (bs, shown_at_first quotes) open'))))"

end
