(* ===== verification/ArenaTools.thy ===== *)
theory ArenaTools
  imports ArenaMatch
begin

text \<open>
  The calls a participant makes on its book (\<open>testbed/proxy/tools.go\<close>): placing, replacing,
  cancelling and listing orders, and the numbers of the account. The arguments have been decoded
  from JSON; an answer is the order or the numbers it is written from. A refusal in words is a
  value holding what it states. A limit is whatever \<open>strconv.ParseFloat\<close> reads, \<open>NaN\<close> and the
  infinities included: the code takes them.
\<close>

subsection \<open>The legs of an order\<close>

record orderArgs =
  i_Qty :: string
  i_Type :: string
  i_TimeInForce :: string
  i_Symbol :: string
  i_Side :: string
  i_PositionIntent :: string
  i_LimitPrice :: string
  i_ClientOrderID :: string
  i_Legs :: "ALeg list"

datatype leg_error = NeitherLegsNorSymbol | NoLegSymbol | BadSide string string | BadRatio string count_error | BadContract string occ_error

definition leg_of :: "ALeg \<Rightarrow> (leg_error, ALeg) result" where
  "leg_of leg =
     (let leg = leg\<lparr>al_Symbol := TrimSpace (ToUpper (al_Symbol leg))\<rparr> in
      if al_Symbol leg = [] then Err NoLegSymbol else
      let leg = leg\<lparr>al_Side := ToLower (TrimSpace (al_Side leg))\<rparr> in
      if al_Side leg \<noteq> ''buy'' \<and> al_Side leg \<noteq> ''sell'' then Err (BadSide (al_Side leg) (al_Symbol leg)) else
      let ratio = (if al_RatioQty leg = [] then ''1'' else al_RatioQty leg) in
      (case parseCount ratio of
         Err e \<Rightarrow> Err (BadRatio (al_Symbol leg) e)
       | Ok n \<Rightarrow>
           let leg = leg\<lparr>al_Ratio := n\<rparr> in
           (case parseOCC (al_Symbol leg) of
              Err e \<Rightarrow> Err (BadContract (al_Symbol leg) e)
            | Ok c \<Rightarrow> Ok leg)))"

fun legs_each :: "ALeg list \<Rightarrow> (leg_error, ALeg list) result" where
  "legs_each [] = Ok []"
| "legs_each (l # ls) =
     (case leg_of l of
        Err e \<Rightarrow> Err e
      | Ok leg \<Rightarrow> (case legs_each ls of Err e \<Rightarrow> Err e | Ok legs \<Rightarrow> Ok (leg # legs)))"

definition legsOf :: "orderArgs \<Rightarrow> (leg_error, ALeg list) result" where
  "legsOf a =
     (if i_Legs a \<noteq> [] then legs_each (i_Legs a)
      else if TrimSpace (i_Symbol a) = [] then Err NeitherLegsNorSymbol
      else legs_each [\<lparr>al_Symbol = TrimSpace (i_Symbol a), al_Side = i_Side a, al_RatioQty = ''1'',
                       al_Ratio = 0, al_PositionIntent = i_PositionIntent a\<rparr>])"

subsection \<open>Placing an order\<close>

datatype refusal =
    BadLegs leg_error
  | NotACount string count_error
  | NotAPrice string
  | NameTaken string string string
  | ClockNotRead string
  | QuotesNotRead string
  | NotStaged string
  | NotQuoted string
  | CannotPrice reason
  | NoSuchOrder string
  | BookRefused refused_call

definition is_market :: "orderArgs \<Rightarrow> bool" where
  "is_market a \<longleftrightarrow> TrimSpace (i_LimitPrice a) = [] \<or> EqualFold (TrimSpace (i_Type a)) ''market''"

definition read_price :: "string \<Rightarrow> (refusal, float64) result" where
  "read_price raw = (case ParseFloat (TrimSpace raw) of
     PErr \<Rightarrow> Err (NotAPrice raw) | PNaN \<Rightarrow> Ok Nan | PInf neg \<Rightarrow> Ok (Infty neg) | PFin x \<Rightarrow> Ok (Fin x))"

definition tif_of :: "string \<Rightarrow> string" where
  "tif_of raw = (let tif = ToLower (TrimSpace raw) in if tif = [] then ''day'' else tif)"

definition new_order :: "orderArgs \<Rightarrow> ALeg list \<Rightarrow> int \<Rightarrow> float64 \<Rightarrow> Clock \<Rightarrow> AOrder" where
  "new_order a legs sets limit clock =
     \<lparr>ao_ID = [], ao_ClientID = i_ClientOrderID a, ao_TurnRef = [], ao_Status = [], ao_Qty = sets,
      ao_FilledQty = 0, ao_Limit = limit, ao_Market = is_market a, ao_FilledAvg = 0, ao_Fees = 0,
      ao_Stand = False, ao_TIF = tif_of (i_TimeInForce a), ao_Legs = legs, ao_SubmittedAt = k_Now clock,
      ao_FilledAt = None, ao_CanceledAt = None,
      ao_ExpiresAt = (if tif_of (i_TimeInForce a) = ''day'' then k_NextClose clock else None),
      ao_ReplacedBy = [], ao_Replaces = [], ao_Why = NoReason, ao_Seq = 0\<rparr>"

definition name_taken :: "string \<Rightarrow> Book \<Rightarrow> AOrder option" where
  "name_taken name b = (if name = [] then None else ByClientID name b)"

definition stated_limit :: "orderArgs \<Rightarrow> (refusal, float64) result" where
  "stated_limit a = (if is_market a then Ok (Fin 0) else read_price (i_LimitPrice a))"

text \<open>A market order is held to the price of the moment it is placed at.\<close>

definition order_limit :: "arena_config \<Rightarrow> orderArgs \<Rightarrow> ALeg list \<Rightarrow> quotes \<Rightarrow> time \<Rightarrow> float64 \<Rightarrow> (refusal, float64) result" where
  "order_limit g a legs quotes now limit =
     (if is_market a
      then (case executable legs quotes Map.empty now (g_maxQuoteAge g) True of
              Err why \<Rightarrow> Err (CannotPrice why) | Ok x \<Rightarrow> Ok (Fin (of_price x)))
      else Ok limit)"

definition placeOrder :: "arena_config \<Rightarrow> arena_env \<Rightarrow> market \<Rightarrow> orderArgs \<Rightarrow> Book \<Rightarrow> (refusal, AOrder) result \<times> Book" where
  "placeOrder g v mk a b =
     (case legsOf a of Err e \<Rightarrow> (Err (BadLegs e), b) | Ok legs \<Rightarrow>
     (case parseCount (TrimSpace (i_Qty a)) of Err e \<Rightarrow> (Err (NotACount (i_Qty a) e), b) | Ok sets \<Rightarrow>
     (case stated_limit a of Err e \<Rightarrow> (Err e, b) | Ok limit \<Rightarrow>
     (case name_taken (i_ClientOrderID a) b of
        Some was \<Rightarrow> (Err (NameTaken (i_ClientOrderID a) (ao_ID was) (ao_Status was)), b)
      | None \<Rightarrow>
     (case mk_clock mk of Err e \<Rightarrow> (Err (ClockNotRead e), b) | Ok clock \<Rightarrow>
     (case mk_optionQuotes mk (map al_Symbol legs) of Err e \<Rightarrow> (Err (QuotesNotRead e), b) | Ok quotes \<Rightarrow>
     (case filter (\<lambda>leg. map_of quotes (al_Symbol leg) = None) legs of
        leg # ls \<Rightarrow> (Err (if g_staging g then NotStaged (al_Symbol leg) else NotQuoted (al_Symbol leg)), b)
      | [] \<Rightarrow>
     (case order_limit g a legs quotes (k_Now clock) limit of Err e \<Rightarrow> (Err e, b) | Ok limit \<Rightarrow>
     (case Submit v (new_order a legs sets limit clock) b of
        (Err e, ord, b) \<Rightarrow> (Err (BookRefused e), b)
      | (Ok u, ord, b) \<Rightarrow> (Ok ord, b))))))))))"

subsection \<open>Cancelling and replacing\<close>

definition now_or_wall :: "market \<Rightarrow> time" where
  "now_or_wall mk = (case mk_clock mk of Err e \<Rightarrow> mk_wall mk | Ok clock \<Rightarrow> k_Now clock)"

definition cancelOrder :: "arena_env \<Rightarrow> market \<Rightarrow> string \<Rightarrow> Book \<Rightarrow> (refusal, AOrder) result \<times> Book" where
  "cancelOrder v mk orderID b =
     (case Cancel v (TrimSpace orderID) (now_or_wall mk) b of
        (Err e, b) \<Rightarrow> (Err (BookRefused e), b) | (Ok ord, b) \<Rightarrow> (Ok ord, b))"

record replaceArgs =
  r_OrderID :: string
  r_LimitPrice :: string
  r_Qty :: string
  r_ClientOrderID :: string

definition replaceOrder :: "arena_env \<Rightarrow> market \<Rightarrow> replaceArgs \<Rightarrow> Book \<Rightarrow> (refusal, AOrder) result \<times> Book" where
  "replaceOrder v mk a b =
     (case ByID (TrimSpace (r_OrderID a)) b of None \<Rightarrow> (Err (NoSuchOrder (r_OrderID a)), b) | Some was \<Rightarrow>
     (case (if TrimSpace (r_LimitPrice a) = [] then Ok (ao_Limit was) else read_price (r_LimitPrice a)) of
        Err e \<Rightarrow> (Err e, b) | Ok limit \<Rightarrow>
     (case (if TrimSpace (r_Qty a) = [] then Ok 0 else parseCount (TrimSpace (r_Qty a))) of
        Err e \<Rightarrow> (Err (NotACount (r_Qty a) e), b) | Ok qty \<Rightarrow>
     (case (case name_taken (r_ClientOrderID a) b of
              None \<Rightarrow> None | Some other \<Rightarrow> if ao_ID other \<noteq> ao_ID was then Some other else None) of
        Some other \<Rightarrow> (Err (NameTaken (r_ClientOrderID a) (ao_ID other) []), b)
      | None \<Rightarrow>
     (case arena_Replace v (ao_ID was) limit (r_ClientOrderID a) qty (now_or_wall mk) b of
        (Err e, b) \<Rightarrow> (Err (BookRefused e), b) | (Ok ord, b) \<Rightarrow> (Ok ord, b))))))"

subsection \<open>Listing orders\<close>

record listArgs =
  t_Status :: string
  t_Limit :: int
  t_Direction :: string
  t_Symbols :: string

definition touches :: "AOrder \<Rightarrow> string list \<Rightarrow> bool" where
  "touches ord wanted \<longleftrightarrow> list_ex (\<lambda>leg. al_Symbol leg \<in> set wanted \<or>
     (case parseOCC (al_Symbol leg) of Err e \<Rightarrow> False | Ok c \<Rightarrow> a_Root c \<in> set wanted)) (ao_Legs ord)"

definition wanted_symbols :: "string \<Rightarrow> string list" where
  "wanted_symbols raw = filter (\<lambda>s. s \<noteq> []) (map (\<lambda>s. TrimSpace (ToUpper s)) (Split CHR '','' raw))"

definition listed :: "string \<Rightarrow> string list \<Rightarrow> AOrder \<Rightarrow> bool" where
  "listed status wanted ord \<longleftrightarrow>
     (if status = ''open'' then ord_open ord else if status = ''closed'' then \<not> ord_open ord else True) \<and>
     (wanted = [] \<or> touches ord wanted)"

definition getOrders :: "listArgs \<Rightarrow> Book \<Rightarrow> AOrder list" where
  "getOrders a b =
     (let status = (if t_Status a = [] then ''open'' else t_Status a);
          limit = (if t_Limit a \<le> 0 then 50 else t_Limit a);
          rows = filter (listed status (wanted_symbols (t_Symbols a))) (OrdersSnapshot b);
          rows = (if EqualFold (t_Direction a) ''asc'' then rows else rev rows)
      in take (nat limit) rows)"

subsection \<open>The account\<close>

record account_row =
  n_Cash :: f64
  n_Equity :: f64
  n_BuyingPower :: f64
  n_Margin :: f64
  n_Liquidation :: f64

datatype account_error = NotValued string | NotCountable occ_error

definition account :: "arena_env \<Rightarrow> market \<Rightarrow> Book \<Rightarrow> (account_error, account_row) result \<times> Book" where
  "account v mk b =
     (let (cash, start, last, held) = Snapshot v b in
      (case arena_value mk held of
         Err e \<Rightarrow> (Err (NotValued e), b)
       | Ok w \<Rightarrow>
           (case Requirement (v_groups v) held of
              Err e \<Rightarrow> (Err (NotCountable e), remember w b)
            | Ok need \<Rightarrow>
                let power = (case need of None \<Rightarrow> 0 | Some n \<Rightarrow> cash - n);
                    power = (if power < 0 then 0 else power)
                in (Ok \<lparr>n_Cash = cash, n_Equity = cash + w_Market w, n_BuyingPower = power,
                        n_Margin = (case need of None \<Rightarrow> 0 | Some n \<Rightarrow> n),
                        n_Liquidation = cash + w_Liquidation w\<rparr>,
                    remember w b))))"

end
