(* ===== verification/ArenaLaws.thy ===== *)
theory ArenaLaws
  imports ArenaTools
begin

text \<open>
  What an arena's book promises. \<open>change\<close> is an abstract book: the eight ways in which a book may
  change, stated without the code's checks and answers. Every call of a participant and every step
  of the matcher is shown to be a sequence of such changes, and the invariants of the book are
  proved once, over \<open>change\<close>.
\<close>

subsection \<open>Maps and positions\<close>

lemma put_order_simps [simp]:
  "map_of (b_Orders (put_order ord b)) = (map_of (b_Orders b))(ao_ID ord \<mapsto> ord)"
  "b_Cash (put_order ord b) = b_Cash b" "b_Positions (put_order ord b) = b_Positions b"
  "b_Start (put_order ord b) = b_Start b" "b_Events (put_order ord b) = b_Events b"
  "b_order (put_order ord b) = b_order b" "b_seq (put_order ord b) = b_seq b"
  "fst ` set (b_Orders (put_order ord b)) = insert (ao_ID ord) (fst ` set (b_Orders b))"
  "distinct (map fst (b_Orders b)) \<Longrightarrow> distinct (map fst (b_Orders (put_order ord b)))"
  by (auto simp: put_order_def update_conv' dom_update distinct_update)

lemma log_event_simps [simp]:
  "b_Events (log_event e b) = b_Events b @ [e]" "b_Orders (log_event e b) = b_Orders b"
  "b_Cash (log_event e b) = b_Cash b" "b_Positions (log_event e b) = b_Positions b"
  "b_Start (log_event e b) = b_Start b" "b_order (log_event e b) = b_order b"
  "b_seq (log_event e b) = b_seq b"
  by (simp_all add: log_event_def)

definition pos_qty :: "(string \<times> Holding) list \<Rightarrow> string \<Rightarrow> int" where
  "pos_qty ps s = (case map_of ps s of None \<Rightarrow> 0 | Some p \<Rightarrow> h_Qty p)"

text \<open>Distinct symbols, each position under its own and none of them empty.\<close>

definition positions_wf :: "(string \<times> Holding) list \<Rightarrow> bool" where
  "positions_wf ps \<longleftrightarrow> distinct (map fst ps) \<and> (\<forall>s p. map_of ps s = Some p \<longrightarrow> h_Symbol p = s \<and> h_Qty p \<noteq> 0)"

lemma positions_wfD: "positions_wf ps \<Longrightarrow> map_of ps s = Some p \<Longrightarrow> h_Symbol p = s \<and> h_Qty p \<noteq> 0"
  by (simp add: positions_wf_def)

lemma positions_wf_update:
  "positions_wf ps \<Longrightarrow> h_Symbol p = s \<Longrightarrow> h_Qty p \<noteq> 0 \<Longrightarrow> positions_wf (AList.update s p ps)"
  by (auto simp: positions_wf_def update_conv' distinct_update)

lemma positions_wf_delete: "positions_wf ps \<Longrightarrow> positions_wf (AList.delete s ps)"
  by (auto simp: positions_wf_def delete_conv' distinct_delete split: if_splits)

lemma move_qty: "pos_qty (move s c n x ps) t = pos_qty ps t + (if t = s then n else 0)"
  by (auto simp: move_def Let_def pos_qty_def update_conv' delete_conv' no_holding_def split: option.splits)

lemma move_wf: "positions_wf ps \<Longrightarrow> positions_wf (move s c n x ps)"
  by (auto simp: move_def Let_def no_holding_def split: option.splits
      intro!: positions_wf_update positions_wf_delete dest: positions_wfD)

definition legs_qty :: "ALeg list \<Rightarrow> int \<Rightarrow> string \<Rightarrow> int" where
  "legs_qty legs sets s = (\<Sum>leg \<leftarrow> legs. if al_Symbol leg = s then signed_qty leg sets else 0)"

lemma legs_qty_simps [simp]:
  "legs_qty [] sets s = 0"
  "legs_qty (leg # legs) sets s = (if al_Symbol leg = s then signed_qty leg sets else 0) + legs_qty legs sets s"
  by (simp_all add: legs_qty_def)

lemma apply_legs_qty: "pos_qty (apply_legs legs sets px ps) s = pos_qty ps s + legs_qty legs sets s"
  unfolding apply_legs_def by (induction legs arbitrary: ps) (simp_all add: move_qty)

lemma apply_legs_wf: "positions_wf ps \<Longrightarrow> positions_wf (apply_legs legs sets px ps)"
  unfolding apply_legs_def by (rule foldl_invariant) (simp_all add: move_wf)

lemma project_leg_qty:
  "pos_qty (project_leg sets ps leg) s = pos_qty ps s + (if al_Symbol leg = s then signed_qty leg sets else 0)"
  by (auto simp: project_leg_def Let_def pos_qty_def update_conv' no_holding_def split: option.splits)

lemma project_legs_qty: "pos_qty (foldl (project_leg sets) ps legs) s = pos_qty ps s + legs_qty legs sets s"
  by (induction legs arbitrary: ps) (simp_all add: project_leg_qty)

lemma mark_held_qty: "pos_qty (mark_held s x ps) t = pos_qty ps t"
  by (auto simp: mark_held_def pos_qty_def update_conv' split: option.splits)

lemma mark_held_wf: "positions_wf ps \<Longrightarrow> positions_wf (mark_held s x ps)"
  by (auto simp: mark_held_def split: option.splits intro!: positions_wf_update dest: positions_wfD)

lemma set_mark_qty: "pos_qty (set_mark m ps) t = pos_qty ps t"
  by (cases m) (auto simp: set_mark_def pos_qty_def update_conv' split: option.splits)

lemma set_mark_wf: "positions_wf ps \<Longrightarrow> positions_wf (set_mark m ps)"
  by (cases m) (auto simp: set_mark_def split: option.splits intro!: positions_wf_update dest: positions_wfD)

lemma SetMarks_simps [simp]:
  "b_Orders (SetMarks ms b) = b_Orders b" "b_order (SetMarks ms b) = b_order b" "b_Cash (SetMarks ms b) = b_Cash b"
  "b_Start (SetMarks ms b) = b_Start b" "b_Events (SetMarks ms b) = b_Events b" "b_seq (SetMarks ms b) = b_seq b"
  "pos_qty (b_Positions (SetMarks ms b)) s = pos_qty (b_Positions b) s"
  "positions_wf (b_Positions b) \<Longrightarrow> positions_wf (b_Positions (SetMarks ms b))"
proof -
  show "pos_qty (b_Positions (SetMarks ms b)) s = pos_qty (b_Positions b) s"
    unfolding SetMarks_def by (simp, rule fold_invariant_set) (simp_all add: set_mark_qty)
  show "positions_wf (b_Positions b) \<Longrightarrow> positions_wf (b_Positions (SetMarks ms b))"
    unfolding SetMarks_def by (simp, rule fold_invariant_set) (simp_all add: set_mark_wf)
qed (simp_all add: SetMarks_def)

subsection \<open>The abstract book\<close>

definition closing_status :: "string \<Rightarrow> bool" where
  "closing_status st \<longleftrightarrow> st = statusCanceled \<or> st = statusExpired \<or> st = statusReplaced"

text \<open>An order may be annotated; while it is open it may also be closed. Nothing else about it
  changes but by a fill.\<close>

definition notes_off :: "AOrder \<Rightarrow> AOrder" where
  "notes_off ord = ord\<lparr>ao_Status := [], ao_CanceledAt := None, ao_Why := NoReason, ao_ReplacedBy := [], ao_Stand := False\<rparr>"

definition touched :: "AOrder \<Rightarrow> AOrder \<Rightarrow> bool" where
  "touched ord ord' \<longleftrightarrow> notes_off ord' = notes_off ord \<and>
     (if ord_open ord then ao_Status ord' = ao_Status ord \<or> closing_status (ao_Status ord')
      else ao_Status ord' = ao_Status ord \<and> ao_CanceledAt ord' = ao_CanceledAt ord \<and>
        ao_Why ord' = ao_Why ord \<and> ao_ReplacedBy ord' = ao_ReplacedBy ord)"

definition legs_ok :: "ALeg list \<Rightarrow> bool" where
  "legs_ok legs \<longleftrightarrow> list_all (\<lambda>leg. 1 \<le> al_Ratio leg \<and> (al_Side leg = ''buy'' \<or> al_Side leg = ''sell'') \<and>
     (case parseOCC (al_Symbol leg) of Err e \<Rightarrow> False | Ok c \<Rightarrow> True)) legs"

definition begins :: "AOrder \<Rightarrow> bool" where
  "begins ord \<longleftrightarrow> ao_ID ord \<noteq> [] \<and> ao_Status ord = statusNew \<and> ao_FilledQty ord = 0 \<and> 1 \<le> ao_Qty ord \<and>
     ao_Fees ord = 0 \<and> legs_ok (ao_Legs ord)"

definition fill_event :: "string \<Rightarrow> int \<Rightarrow> f64 \<Rightarrow> f64 \<Rightarrow> bool \<Rightarrow> reason \<Rightarrow> time \<Rightarrow> Event" where
  "fill_event i sets x fees filled why now =
     no_event\<lparr>ev_OrderID := i, ev_Kind := ''fill'', ev_At := now, ev_Sets := sets, ev_Price := x,
       ev_Fees := fees, ev_Filled := filled, ev_Why := why\<rparr>"

definition fill_fees :: "AOrder \<Rightarrow> int \<Rightarrow> f64" where
  "fill_fees ord sets = f64_of_int (contractsIn (ao_Legs ord) sets) * perContract"

definition fill_cash :: "Book \<Rightarrow> AOrder \<Rightarrow> int \<Rightarrow> f64 \<Rightarrow> f64" where
  "fill_cash b ord sets x = b_Cash b - x * f64_of_int sets * f64_of_int multiplier - fill_fees ord sets"

definition booked :: "AOrder \<Rightarrow> int \<Rightarrow> f64 \<Rightarrow> (string \<rightharpoonup> f64) \<Rightarrow> time \<Rightarrow> Book \<Rightarrow> Book" where
  "booked ord sets x px now b =
     log_event (fill_event (ao_ID ord) sets x (fill_fees ord sets) True NoReason now)
       (put_order (filled_order ord sets x (fill_fees ord sets) now)
         (b\<lparr>b_Positions := apply_legs (ao_Legs ord) sets px (b_Positions b), b_Cash := fill_cash b ord sets x\<rparr>))"

inductive change :: "Book \<Rightarrow> Book \<Rightarrow> bool" where
  touch: "map_of (b_Orders b) (ao_ID ord) = Some ord \<Longrightarrow> touched ord ord' \<Longrightarrow> change b (put_order ord' b)"
| refuse: "ev_Kind e = ''fill'' \<Longrightarrow> \<not> ev_Filled e \<Longrightarrow> change b (log_event e b)"
| book: "map_of (b_Orders b) (ao_ID ord) = Some ord \<Longrightarrow> ord_open ord \<Longrightarrow> 1 \<le> sets \<Longrightarrow> sets \<le> remaining ord \<Longrightarrow>
    change b (booked ord sets x px now b)"
| number: "change b (b\<lparr>b_seq := b_seq b + 1\<rparr>)"
| add: "map_of (b_Orders b) (ao_ID ord) = None \<Longrightarrow> ao_ID ord \<notin> set (b_order b) \<Longrightarrow> begins ord \<Longrightarrow>
    change b ((put_order ord b)\<lparr>b_order := b_order b @ [ao_ID ord]\<rparr>)"
| settle: "map_of (b_Positions b) symbol = Some p \<Longrightarrow> parseOCC symbol = Ok c \<Longrightarrow>
    settled_by symbol (h_Qty p) c price now b = (e, b') \<Longrightarrow> change b (log_event e b')"
| mark: "change b (SetMarks ms b)"
| close: "change b (b\<lparr>b_ClosedOn := d, b_LastEquity := x\<rparr>)"

abbreviation changes :: "Book \<Rightarrow> Book \<Rightarrow> bool" where "changes \<equiv> change\<^sup>*\<^sup>*"

lemma changes_trans [trans]: "changes a b \<Longrightarrow> changes b c \<Longrightarrow> changes a c"
  by (rule rtranclp_trans)

lemma change_imp [intro]: "change a b \<Longrightarrow> changes a b"
  by (rule r_into_rtranclp)

subsection \<open>The book is well formed\<close>

definition order_wf :: "AOrder \<Rightarrow> bool" where
  "order_wf ord \<longleftrightarrow> 1 \<le> ao_Qty ord \<and> legs_ok (ao_Legs ord) \<and>
     (ao_Status ord = statusNew \<and> ao_FilledQty ord = 0 \<or>
      ao_Status ord = statusPartial \<and> 0 < ao_FilledQty ord \<and> ao_FilledQty ord < ao_Qty ord \<or>
      ao_Status ord = statusFilled \<and> ao_FilledQty ord = ao_Qty ord \<or>
      closing_status (ao_Status ord) \<and> 0 \<le> ao_FilledQty ord \<and> ao_FilledQty ord < ao_Qty ord)"

definition orders_wf :: "(string \<rightharpoonup> AOrder) \<Rightarrow> bool" where
  "orders_wf m \<longleftrightarrow> (\<forall>i ord. m i = Some ord \<longrightarrow> ao_ID ord = i \<and> order_wf ord)"

definition book_wf :: "Book \<Rightarrow> bool" where
  "book_wf b \<longleftrightarrow> positions_wf (b_Positions b) \<and> distinct (map fst (b_Orders b)) \<and>
     distinct (b_order b) \<and> list_all (\<lambda>i. i \<noteq> []) (b_order b) \<and> set (b_order b) = fst ` set (b_Orders b) \<and>
     orders_wf (map_of (b_Orders b))"

lemma book_wfD: "book_wf b \<Longrightarrow> map_of (b_Orders b) i = Some ord \<Longrightarrow> ao_ID ord = i \<and> order_wf ord"
  by (simp add: book_wf_def orders_wf_def)

lemma orders_wf_put: "orders_wf m \<Longrightarrow> order_wf ord \<Longrightarrow> orders_wf (m(ao_ID ord \<mapsto> ord))"
  by (simp add: orders_wf_def)

lemma book_wf_nonempty: "book_wf b \<Longrightarrow> i \<in> set (b_order b) \<Longrightarrow> i \<noteq> []"
  by (auto simp: book_wf_def list_all_iff)

lemma book_wf_ids: "book_wf b \<Longrightarrow> i \<in> set (b_order b) \<longleftrightarrow> map_of (b_Orders b) i \<noteq> None"
  by (auto simp: book_wf_def map_of_eq_None_iff)

lemma NewBook_wf: "book_wf (NewBook hash start)"
  by (simp add: book_wf_def NewBook_def positions_wf_def orders_wf_def)

lemma statuses_apart [simp]:
  "statusNew \<noteq> statusPartial" "statusNew \<noteq> statusFilled" "statusPartial \<noteq> statusFilled"
  "statusPartial \<noteq> statusNew" "statusFilled \<noteq> statusNew" "statusFilled \<noteq> statusPartial"
  "closing_status statusNew = False" "closing_status statusPartial = False" "closing_status statusFilled = False"
  "closing_status statusCanceled" "closing_status statusExpired" "closing_status statusReplaced"
  by (simp_all add: status_defs closing_status_def)

lemma touched_same:
  assumes "touched ord ord'"
  shows "ao_ID ord' = ao_ID ord" "ao_Qty ord' = ao_Qty ord" "ao_FilledQty ord' = ao_FilledQty ord"
    "ao_Legs ord' = ao_Legs ord" "ao_Limit ord' = ao_Limit ord" "ao_ClientID ord' = ao_ClientID ord"
    "ao_Fees ord' = ao_Fees ord" "ao_Market ord' = ao_Market ord" "ao_TIF ord' = ao_TIF ord"
    "ao_ExpiresAt ord' = ao_ExpiresAt ord"
proof -
  have same: "notes_off ord' = notes_off ord" using assms by (simp add: touched_def)
  show "ao_ID ord' = ao_ID ord" "ao_Qty ord' = ao_Qty ord" "ao_FilledQty ord' = ao_FilledQty ord"
    "ao_Legs ord' = ao_Legs ord" "ao_Limit ord' = ao_Limit ord" "ao_ClientID ord' = ao_ClientID ord"
    "ao_Fees ord' = ao_Fees ord" "ao_Market ord' = ao_Market ord" "ao_TIF ord' = ao_TIF ord"
    "ao_ExpiresAt ord' = ao_ExpiresAt ord"
    using arg_cong [OF same, of ao_ID] arg_cong [OF same, of ao_Qty] arg_cong [OF same, of ao_FilledQty]
      arg_cong [OF same, of ao_Legs] arg_cong [OF same, of ao_Limit] arg_cong [OF same, of ao_ClientID]
      arg_cong [OF same, of ao_Fees] arg_cong [OF same, of ao_Market] arg_cong [OF same, of ao_TIF]
      arg_cong [OF same, of ao_ExpiresAt]
    by (simp_all add: notes_off_def)
qed

lemma touched_status:
  assumes "touched ord ord'"
  shows "ao_Status ord' = ao_Status ord \<or> ord_open ord \<and> closing_status (ao_Status ord')"
  using assms by (auto simp: touched_def split: if_splits)

lemma touched_wf:
  assumes "touched ord ord'" "order_wf ord"
  shows "order_wf ord'"
proof (cases "ao_Status ord' = ao_Status ord")
  case True
  then show ?thesis using assms(2) by (simp add: order_wf_def touched_same [OF assms(1)])
next
  case False
  then have "ord_open ord" "closing_status (ao_Status ord')" using touched_status [OF assms(1)] by auto
  moreover from this(1) have "0 \<le> ao_FilledQty ord" "ao_FilledQty ord < ao_Qty ord"
    using assms(2) by (auto simp: order_wf_def ord_open_def)
  ultimately show ?thesis using assms(2) by (simp add: order_wf_def touched_same [OF assms(1)])
qed

lemma filled_order_simps [simp]:
  "ao_ID (filled_order ord n x f t) = ao_ID ord" "ao_Qty (filled_order ord n x f t) = ao_Qty ord"
  "ao_FilledQty (filled_order ord n x f t) = ao_FilledQty ord + n" "ao_Legs (filled_order ord n x f t) = ao_Legs ord"
  "ao_Limit (filled_order ord n x f t) = ao_Limit ord" "ao_ClientID (filled_order ord n x f t) = ao_ClientID ord"
  "ao_Fees (filled_order ord n x f t) = ao_Fees ord + f" "ao_Market (filled_order ord n x f t) = ao_Market ord"
  "ao_TIF (filled_order ord n x f t) = ao_TIF ord" "ao_ExpiresAt (filled_order ord n x f t) = ao_ExpiresAt ord"
  by (simp_all add: filled_order_def Let_def)

lemma filled_order_wf:
  assumes "order_wf ord" "ord_open ord" "1 \<le> n" "n \<le> remaining ord"
  shows "order_wf (filled_order ord n x f t)"
  using assms by (auto simp: order_wf_def ord_open_def remaining_def filled_order_def Let_def)

lemma begins_wf: "begins ord \<Longrightarrow> order_wf ord"
  by (simp add: begins_def order_wf_def)

lemma settled_by_simps:
  assumes "settled_by s n c x now b = (e, b')"
  shows "b_Orders b' = b_Orders b" "b_order b' = b_order b" "b_Start b' = b_Start b" "b_Events b' = b_Events b"
    "b_seq b' = b_seq b"
  using assms by (auto simp: settled_by_def delete_position_def Let_def split: if_splits)

lemma settled_by_wf:
  "settled_by s n c x now b = (e, b') \<Longrightarrow> positions_wf (b_Positions b) \<Longrightarrow> positions_wf (b_Positions b')"
  by (auto simp: settled_by_def delete_position_def Let_def split: if_splits
      intro!: positions_wf_delete mark_held_wf move_wf)

lemma book_wfI:
  assumes "book_wf b" "b_Orders b' = b_Orders b" "b_order b' = b_order b" "positions_wf (b_Positions b')"
  shows "book_wf b'"
  using assms by (simp add: book_wf_def)

lemma book_wf_log: "book_wf b \<Longrightarrow> book_wf (log_event e b)"
  by (rule book_wfI) (simp_all add: book_wf_def)

lemma book_wf_positions: "book_wf b \<Longrightarrow> positions_wf (b_Positions b)"
  by (simp add: book_wf_def)

lemma put_order_wf:
  assumes "book_wf b" "map_of (b_Orders b) (ao_ID ord) \<noteq> None" "order_wf ord"
  shows "book_wf (put_order ord b)"
proof -
  have "ao_ID ord \<in> fst ` set (b_Orders b)"
    using assms(2) by (metis dom_map_of_conv_image_fst domIff)
  then show ?thesis using assms by (auto simp: book_wf_def orders_wf_put)
qed

lemma change_wf: "change b b' \<Longrightarrow> book_wf b \<Longrightarrow> book_wf b'"
proof (induction rule: change.induct)
  case (touch b ord ord')
  then have "order_wf ord'" using touched_wf book_wfD by blast
  then show ?case using touch by (intro put_order_wf) (simp_all add: touched_same)
next
  case (book b ord sets x px now)
  let ?b = "b\<lparr>b_Positions := apply_legs (ao_Legs ord) sets px (b_Positions b), b_Cash := fill_cash b ord sets x\<rparr>"
  have "book_wf ?b"
    by (rule book_wfI [OF book.prems]) (simp_all add: apply_legs_wf book_wf_positions [OF book.prems])
  moreover have "order_wf (filled_order ord sets x (fill_fees ord sets) now)"
    using book.hyps book_wfD [OF book.prems book.hyps(1)] by (intro filled_order_wf) simp_all
  ultimately have "book_wf (put_order (filled_order ord sets x (fill_fees ord sets) now) ?b)"
    using book.hyps(1) by (intro put_order_wf) simp_all
  then show ?case unfolding booked_def by (rule book_wf_log)
next
  case (add b ord)
  have "ao_ID ord \<noteq> []" using add.hyps(3) by (auto simp: begins_def)
  with add show ?case by (simp add: book_wf_def orders_wf_put begins_wf)
next
  case (settle b symbol p c price now e b')
  show ?case
    by (rule book_wf_log, rule book_wfI [OF settle.prems])
      (simp_all add: settled_by_simps [OF settle.hyps(3)]
         settled_by_wf [OF settle.hyps(3) book_wf_positions [OF settle.prems]])
next
  case (refuse e b)
  then show ?case by (simp add: book_wf_log)
next
  case (number b)
  then show ?case by (intro book_wfI [OF number]) (simp_all add: book_wf_positions)
next
  case (mark b ms)
  then show ?case by (intro book_wfI [OF mark]) (simp_all add: book_wf_positions)
next
  case (close b d x)
  then show ?case by (intro book_wfI [OF close]) (simp_all add: book_wf_positions)
qed

lemma changes_wf: "changes b b' \<Longrightarrow> book_wf b \<Longrightarrow> book_wf b'"
  by (induction rule: rtranclp_induct) (auto intro: change_wf)

subsection \<open>Every operation is a sequence of changes\<close>

lemma touched_kinds:
  "ord_open ord \<Longrightarrow> touched ord (ord\<lparr>ao_Why := w\<rparr>)"
  "touched ord (ord\<lparr>ao_Stand := s\<rparr>)"
  "ord_open ord \<Longrightarrow> touched ord (ord\<lparr>ao_Status := statusCanceled, ao_CanceledAt := t, ao_Why := w\<rparr>)"
  "ord_open ord \<Longrightarrow> touched ord (ord\<lparr>ao_Status := statusExpired, ao_CanceledAt := t, ao_Why := w\<rparr>)"
  "ord_open ord \<Longrightarrow>
    touched ord (ord\<lparr>ao_Status := statusReplaced, ao_CanceledAt := t, ao_ReplacedBy := r, ao_Why := w\<rparr>)"
  by (simp_all add: touched_def notes_off_def)

lemma touch_changes:
  "book_wf b \<Longrightarrow> map_of (b_Orders b) i = Some ord \<Longrightarrow> touched ord ord' \<Longrightarrow> change b (put_order ord' b)"
  using book_wfD [of b i ord] change.touch [of b ord ord'] by simp

lemma Note_changes: "book_wf b \<Longrightarrow> changes b (Note i why b)"
  by (auto simp: Note_def split: option.split intro!: touch_changes touched_kinds)

lemma MarkStand_changes: "book_wf b \<Longrightarrow> changes b (MarkStand i b)"
  by (auto simp: MarkStand_def split: option.split intro!: touch_changes touched_kinds)

lemma Cancel_changes: "book_wf b \<Longrightarrow> changes b (snd (Cancel v i now b))"
  by (auto simp: Cancel_def Let_def split: option.split intro!: touch_changes touched_kinds)

lemma Fill_cases:
  assumes "book_wf b" "Fill v i sets x px now b = (r, b')"
  obtains
    (unchanged) e where "r = Err e" "b' = b"
  | (noted) e ord why where "map_of (b_Orders b) i = Some ord" "ord_open ord" "b' = put_order (ord\<lparr>ao_Why := why\<rparr>) b" "r = Err e"
  | (refused) ord why where "map_of (b_Orders b) i = Some ord" "ord_open ord"
      "b' = log_event (fill_event i sets x 0 False why now) (put_order (ord\<lparr>ao_Why := why\<rparr>) b)"
      "\<forall>e. r = Ok e \<longrightarrow> \<not> ev_Filled e"
  | (filled) ord need where "map_of (b_Orders b) i = Some ord" "ord_open ord" "1 \<le> sets" "sets \<le> remaining ord"
      "Requirement (v_groups v) (project v b (ao_Legs ord) sets) = Ok (Some need)"
      "\<not> fill_cash b ord sets x < need - lit (1 / 10 ^ 9)" "b' = booked ord sets x px now b"
      "\<forall>e. r = Ok e \<longrightarrow> ev_Filled e"
proof -
  show thesis
  proof (cases "map_of (b_Orders b) i")
    case None
    then show ?thesis using assms(2) unchanged by (auto simp: Fill_def)
  next
    case (Some ord)
    have id: "ao_ID ord = i" using book_wfD [OF assms(1) Some] by simp
    show ?thesis
    proof (cases "ord_open ord \<and> 1 \<le> sets \<and> sets \<le> remaining ord")
      case False
      then show ?thesis using assms(2) unchanged Some by (auto simp: Fill_def split: if_splits)
    next
      case True
      let ?req = "Requirement (v_groups v) (project v b (ao_Legs ord) sets)"
      show ?thesis
      proof (cases ?req)
        case (Inl e)
        then show ?thesis using noted [OF Some] assms(2) True by (auto simp: Fill_def Some not_less)
      next
        case need: (Inr need)
        show ?thesis
        proof (cases "lacks need (Fin (fill_cash b ord sets x))")
          case lack: True
          show ?thesis
            by (rule refused [OF Some])
              (use assms(2) True need lack in
                \<open>auto simp: Fill_def Some not_less Let_def fill_cash_def fill_fees_def fill_event_def no_event_def
                   persist_def split: sum.splits\<close>)
        next
          case False
          then obtain n where n: "need = Some n" "\<not> fill_cash b ord sets x < n - lit (1 / 10 ^ 9)"
            by (auto simp: lacks_def split: option.splits)
          show ?thesis
            by (rule filled [OF Some _ _ _ _ n(2)])
              (use assms(2) True need False n(1) id in
                \<open>auto simp: Fill_def Some not_less Let_def fill_cash_def fill_fees_def fill_event_def no_event_def
                   booked_def persist_def split: sum.splits\<close>)
        qed
      qed
    qed
  qed
qed

lemma Fill_changes: "book_wf b \<Longrightarrow> changes b (snd (Fill v i sets x px now b))"
proof -
  assume wf: "book_wf b"
  obtain r b' where f: "Fill v i sets x px now b = (r, b')" by (cases "Fill v i sets x px now b")
  from wf f show ?thesis
  proof (cases rule: Fill_cases)
    case (noted e ord why)
    then show ?thesis using touch_changes [OF wf] touched_kinds(1) f by auto
  next
    case (refused ord why)
    have "changes b (put_order (ord\<lparr>ao_Why := why\<rparr>) b)"
      using touch_changes [OF wf refused(1) touched_kinds(1) [OF refused(2)]] by auto
    also have "changes \<dots> b'" unfolding refused(3) by (rule change_imp, rule change.refuse) (simp_all add: fill_event_def)
    finally show ?thesis using f by simp
  next
    case (filled ord need)
    then show ?thesis using f change.book [of b ord sets x px now] book_wfD [OF wf] by auto
  qed (use f in simp)
qed

definition fresh :: "arena_env \<Rightarrow> Book \<Rightarrow> bool" where
  "fresh v b \<longleftrightarrow> v_uuid v \<noteq> [] \<and> map_of (b_Orders b) (v_uuid v) = None"

definition starts :: "AOrder \<Rightarrow> bool" where
  "starts ord \<longleftrightarrow> ao_ID ord = [] \<and> ao_FilledQty ord = 0 \<and> 1 \<le> ao_Qty ord \<and> ao_Fees ord = 0 \<and> legs_ok (ao_Legs ord)"

lemma add_changes:
  assumes "book_wf b" "map_of (b_Orders b) (ao_ID ord) = None" "begins ord"
  shows "changes b ((put_order ord b)\<lparr>b_seq := b_seq b + 1, b_order := b_order b @ [ao_ID ord]\<rparr>)"
proof -
  let ?b = "b\<lparr>b_seq := b_seq b + 1\<rparr>"
  have "changes b ?b" by (rule change_imp, rule change.number)
  also have "changes ?b ((put_order ord ?b)\<lparr>b_order := b_order ?b @ [ao_ID ord]\<rparr>)"
    by (rule change_imp, rule change.add) (use assms book_wf_ids [OF assms(1)] in simp_all)
  also have "\<dots> = (put_order ord b)\<lparr>b_seq := b_seq b + 1, b_order := b_order b @ [ao_ID ord]\<rparr>"
    by (simp add: put_order_def)
  finally show ?thesis .
qed

lemma Submit_changes:
  assumes "book_wf b" "fresh v b" "starts o0"
  shows "changes b (snd (snd (Submit v o0 b)))"
proof -
  define ord where "ord = o0\<lparr>ao_TurnRef := turnOf (ao_ClientID o0), ao_Seq := b_seq b + 1, ao_ID := v_uuid v, ao_Status := statusNew\<rparr>"
  have "snd (snd (Submit v o0 b)) = b \<or>
    snd (snd (Submit v o0 b)) = (put_order ord b)\<lparr>b_seq := b_seq b + 1, b_order := b_order b @ [ao_ID ord]\<rparr>"
    using assms(3) by (auto simp: Submit_def Let_def starts_def ord_def put_order_def split: prod.splits sum.splits)
  moreover have "begins ord" "map_of (b_Orders b) (ao_ID ord) = None"
    using assms(2,3) by (simp_all add: begins_def starts_def fresh_def ord_def)
  ultimately show ?thesis using add_changes [OF assms(1), of ord] by (elim disjE) simp_all
qed

text \<open>A replacement is the old order closed and one more order.\<close>

definition replaced :: "AOrder \<Rightarrow> AOrder \<Rightarrow> time \<Rightarrow> AOrder" where
  "replaced old next' now = old\<lparr>ao_Status := statusReplaced, ao_CanceledAt := Some now,
     ao_ReplacedBy := ao_ID next', ao_Why := Moved\<rparr>"

definition with_replacement :: "AOrder \<Rightarrow> AOrder \<Rightarrow> time \<Rightarrow> Book \<Rightarrow> Book" where
  "with_replacement old next' now b =
     (let b1 = put_order (replaced old next' now) b; b2 = put_order next' (b1\<lparr>b_seq := b_seq b1 + 1\<rparr>)
      in b2\<lparr>b_order := b_order b2 @ [ao_ID next']\<rparr>)"

lemma Replace_cases:
  assumes "arena_Replace v i limit name qty now b = (r, b')"
  obtains
    (unchanged) e where "r = Err e" "b' = b"
  | (moved) old left next' need projected cashAfter where
      "map_of (b_Orders b) i = Some old" "ord_open old" "1 \<le> left"
      "left = (if qty > 0 then qty - ao_FilledQty old else remaining old)"
      "next' = next_order v old limit name left now"
      "reserved v b (Some next') (ao_ID old) = (projected, cashAfter)"
      "Requirement (v_groups v) projected = Ok (Some need)" "\<not> fl_less cashAfter (Fin (need - lit (1 / 10 ^ 9)))"
      "b' = with_replacement old (next'\<lparr>ao_Seq := b_seq b + 1\<rparr>) now b"
      "r = map_sum id (\<lambda>_. next'\<lparr>ao_Seq := b_seq b + 1\<rparr>) (persist v b')"
proof (cases "map_of (b_Orders b) i")
  case None
  then show ?thesis using assms unchanged by (auto simp: arena_Replace_def)
next
  case (Some old)
  define left where "left = (if qty > 0 then qty - ao_FilledQty old else remaining old)"
  define next' where "next' = next_order v old limit name left now"
  obtain projected cashAfter where res: "reserved v b (Some next') (ao_ID old) = (projected, cashAfter)"
    by (cases "reserved v b (Some next') (ao_ID old)")
  show ?thesis
  proof (cases "ord_open old \<and> \<not> (qty > 0 \<and> qty < ao_FilledQty old) \<and> 1 \<le> left")
    case False
    then show ?thesis
      using assms unchanged Some by (auto simp: arena_Replace_def Let_def left_def split: if_splits)
  next
    case True
    have run: "arena_Replace v i limit name qty now b =
        (case Requirement (v_groups v) projected of
           Err e \<Rightarrow> (Err (NotCounted e), b)
         | Ok need \<Rightarrow>
             if lacks need cashAfter then (Err (NoCollateral (shortfall v projected need cashAfter)), b)
             else (let b' = with_replacement old (next'\<lparr>ao_Seq := b_seq b + 1\<rparr>) now b
                   in (map_sum id (\<lambda>_. next'\<lparr>ao_Seq := b_seq b + 1\<rparr>) (persist v b'), b')))"
      using True res unfolding arena_Replace_def Some
      by (auto simp: Let_def with_replacement_def replaced_def put_order_def
          simp flip: left_def next'_def cong: option.case_cong split: sum.splits)
    show ?thesis
    proof (cases "\<exists>need. Requirement (v_groups v) projected = Ok (Some need) \<and> \<not> fl_less cashAfter (Fin (need - lit (1 / 10 ^ 9)))")
      case False
      then show ?thesis
        using assms unchanged unfolding run by (auto simp: lacks_def split: sum.splits option.splits if_splits)
    next
      case ok: True
      then obtain need where "Requirement (v_groups v) projected = Ok (Some need)" "\<not> fl_less cashAfter (Fin (need - lit (1 / 10 ^ 9)))"
        by blast
      then show ?thesis
        using moved [OF Some _ _ left_def next'_def res] True assms unfolding run
        by (auto simp: lacks_def Let_def)
    qed
  qed
qed

lemma order_wf_legs: "order_wf ord \<Longrightarrow> legs_ok (ao_Legs ord)"
  by (simp add: order_wf_def)

lemma Replace_changes:
  assumes "book_wf b" "fresh v b"
  shows "changes b (snd (arena_Replace v i limit name qty now b))"
proof -
  obtain r b' where r: "arena_Replace v i limit name qty now b = (r, b')"
    by (cases "arena_Replace v i limit name qty now b")
  then show ?thesis
  proof (cases rule: Replace_cases)
    case (moved old left next' need projected cashAfter)
    let ?n = "next'\<lparr>ao_Seq := b_seq b + 1\<rparr>"
    let ?b = "put_order (replaced old ?n now) b"
    have one: "change b ?b"
      using touch_changes [OF assms(1) moved(1)] touched_kinds(5) [OF moved(2)] by (simp add: replaced_def)
    have id: "ao_ID old = i" "legs_ok (ao_Legs old)"
      using book_wfD [OF assms(1) moved(1)] order_wf_legs by auto
    have n: "begins ?n" "map_of (b_Orders ?b) (ao_ID ?n) = None"
      using assms(2) id moved(1,3) by (auto simp: moved(5) next_order_def Let_def begins_def fresh_def replaced_def)
    have "changes ?b ((put_order ?n ?b)\<lparr>b_seq := b_seq ?b + 1, b_order := b_order ?b @ [ao_ID ?n]\<rparr>)"
      using change_wf [OF one assms(1)] n(2,1) by (rule add_changes)
    moreover have "(put_order ?n ?b)\<lparr>b_seq := b_seq ?b + 1, b_order := b_order ?b @ [ao_ID ?n]\<rparr> = b'"
      by (simp add: moved(9) with_replacement_def Let_def put_order_def)
    ultimately have "changes ?b b'" by simp
    with change_imp [OF one] have "changes b b'" by (rule changes_trans)
    then show ?thesis by (simp add: r)
  qed (simp add: r)
qed

lemma changes_foldl:
  assumes "book_wf (f st0)" "\<And>st x. book_wf (f st) \<Longrightarrow> changes (f st) (f (g st x))"
  shows "changes (f st0) (f (foldl g st0 xs))"
  using assms(1)
proof (induction xs arbitrary: st0)
  case (Cons x xs)
  have step: "changes (f st0) (f (g st0 x))" by (rule assms(2) [OF Cons.prems])
  then have "changes (f (g st0 x)) (f (foldl g (g st0 x) xs))"
    using changes_wf Cons.prems Cons.IH by blast
  then show ?case unfolding foldl_Cons by (rule changes_trans [OF step])
qed simp

lemma ExpireDay_changes:
  assumes "book_wf b"
  shows "changes b (snd (ExpireDay now b))"
proof -
  have "changes (fst (b, [] :: AOrder list)) (fst (foldl (expire_one now) (b, []) (b_order b)))"
  proof (rule changes_foldl [where f = fst])
    fix st :: "Book \<times> AOrder list" and i
    assume "book_wf (fst st)"
    then show "changes (fst st) (fst (expire_one now st i))"
      by (auto simp: expire_one_def expires_now_def Let_def split: prod.splits option.splits
          intro!: touch_changes touched_kinds)
  qed (simp add: assms)
  then show ?thesis by (simp add: ExpireDay_def case_prod_unfold)
qed

lemma Settle_changes: "changes b (snd (Settle v symbol price now b))"
  by (auto simp: Settle_def Let_def split: option.split sum.split prod.split intro: change.settle)

lemma settle_changes:
  assumes "book_wf b"
  shows "changes b (snd (snd (settle v zone trades now s b)))"
proof -
  have "changes (snd (s, b)) (snd (foldl (settle_one v prices now) (s, b) due))" for prices due
  proof (rule changes_foldl [where f = snd])
    fix st x
    show "changes (snd st) (snd (settle_one v prices now st x))"
      using Settle_changes by (auto simp: settle_one_def split: prod.split option.split)
  qed (simp add: assms)
  then show ?thesis by (auto simp: settle_def Let_def case_prod_unfold split: sum.split)
qed

lemma MarkClose_changes: "changes b (snd (MarkClose day x b))"
  by (auto simp: MarkClose_def intro: change.close)

lemma remember_changes: "changes b (remember w b)"
  unfolding remember_def by (rule change_imp, rule change.mark)

lemma mark_close_changes: "changes b (mark_close v mk now b)"
  using MarkClose_changes by (auto simp: mark_close_def Let_def split: prod.split sum.split)

lemma fill_changes:
  assumes "book_wf b"
  shows "changes b (fst (fill g v ord quotes now (b, shown)))"
proof -
  have "changes b (MarkStand i (snd (Fill v i n x px now b)))" for i n x px
    using Fill_changes [OF assms] MarkStand_changes changes_wf [OF Fill_changes [OF assms] assms]
      changes_trans by blast
  then show ?thesis
    using Fill_changes [OF assms] Note_changes [OF assms]
    by (auto simp: fill_def Let_def split: sum.split prod.split) (metis snd_conv)+
qed

subsection \<open>Calls and passes\<close>

text \<open>The identifier drawn for a call has not been used in the book.\<close>

lemma leg_of_ok: "leg_of l = Ok leg \<Longrightarrow> legs_ok [leg]"
  by (auto simp: leg_of_def legs_ok_def Let_def parseCount_def split: if_splits sum.splits option.splits)

lemma legs_each_ok: "legs_each ls = Ok legs \<Longrightarrow> legs_ok legs"
proof (induction ls arbitrary: legs)
  case (Cons l ls)
  then show ?case
    using leg_of_ok [of l] by (auto split: sum.splits) (auto simp: legs_ok_def)
qed (simp add: legs_ok_def)

lemma legsOf_ok: "legsOf a = Ok legs \<Longrightarrow> legs_ok legs"
  by (auto simp: legsOf_def simp del: legs_each.simps split: if_splits intro: legs_each_ok)

lemma parseCount_pos: "parseCount s = Ok n \<Longrightarrow> 1 \<le> n"
  by (auto simp: parseCount_def split: if_splits option.splits)

lemma new_order_starts: "legs_ok legs \<Longrightarrow> 1 \<le> sets \<Longrightarrow> starts (new_order a legs sets limit clock)"
  by (simp add: starts_def new_order_def)

definition submitted :: "(refused_call, unit) result \<times> AOrder \<times> Book \<Rightarrow> (refusal, AOrder) result \<times> Book" where
  "submitted x = (case x of (Err e, ord, b) \<Rightarrow> (Err (BookRefused e), b) | (Ok u, ord, b) \<Rightarrow> (Ok ord, b))"

lemma placeOrder_submits:
  assumes "placeOrder g v mk a b = (r, b')"
  obtains (unchanged) e where "r = Err e" "b' = b"
  | (sent) legs sets limit clock where "legsOf a = Ok legs" "parseCount (TrimSpace (i_Qty a)) = Ok sets"
      "name_taken (i_ClientOrderID a) b = None" "submitted (Submit v (new_order a legs sets limit clock) b) = (r, b')"
  using assms unfolding placeOrder_def submitted_def [symmetric]
  by (auto split: sum.splits option.splits list.splits)

lemma snd_submitted [simp]: "snd (submitted x) = snd (snd x)"
  by (simp add: submitted_def split: prod.split sum.split)

lemma placeOrder_changes:
  assumes "book_wf b" "fresh v b"
  shows "changes b (snd (placeOrder g v mk a b))"
proof -
  obtain r b' where r: "placeOrder g v mk a b = (r, b')" by (cases "placeOrder g v mk a b")
  then show ?thesis
  proof (cases rule: placeOrder_submits)
    case (sent legs sets limit clock)
    have "changes b (snd (snd (Submit v (new_order a legs sets limit clock) b)))"
      by (rule Submit_changes [OF assms new_order_starts [OF legsOf_ok [OF sent(1)] parseCount_pos [OF sent(2)]]])
    also have "\<dots> = b'" using arg_cong [OF sent(4), of snd] by simp
    finally show ?thesis by (simp add: r)
  qed (simp add: r)
qed

lemma cancelOrder_changes: "book_wf b \<Longrightarrow> changes b (snd (cancelOrder v mk i b))"
  using Cancel_changes [of b v "TrimSpace i" "now_or_wall mk"]
  by (auto simp: cancelOrder_def split: prod.split sum.split)

lemma replaceOrder_changes:
  assumes "book_wf b" "fresh v b"
  shows "changes b (snd (replaceOrder v mk a b))"
proof -
  have "changes b b'" if "arena_Replace v i x n q t b = (r, b')" for i x n q t r b'
    using Replace_changes [OF assms, of i x n q t] that by simp
  then show ?thesis by (auto simp: replaceOrder_def split: option.split sum.split prod.split)
qed

lemma account_changes: "changes b (snd (account v mk b))"
  using remember_changes by (auto simp: account_def Let_def split: prod.split sum.split)

lemma expire_and_settle_changes:
  assumes "book_wf b"
  shows "\<exists>b'. snd (expire_and_settle v mk now (s, bs) b) = bs @ [b'] \<and> changes b b'"
proof -
  let ?b = "snd (ExpireDay now b)"
  have "changes b ?b" by (rule ExpireDay_changes [OF assms])
  also have "changes ?b (snd (snd (settle v (mk_zone mk) (mk_lastTrades mk) now s ?b)))"
    by (rule settle_changes [OF changes_wf [OF ExpireDay_changes [OF assms] assms]])
  finally show ?thesis by (simp add: expire_and_settle_def Let_def case_prod_unfold)
qed

abbreviation all_change :: "Book list \<Rightarrow> Book list \<Rightarrow> bool" where "all_change \<equiv> list_all2 changes"

lemma all_change_trans: "all_change xs ys \<Longrightarrow> all_change ys zs \<Longrightarrow> all_change xs zs"
  by (rule list_all2_trans [of changes changes changes]) (auto intro: changes_trans)

lemma all_change_refl [simp]: "all_change bs bs"
  by (rule list_all2_refl) simp

lemma all_change_update: "i < length bs \<Longrightarrow> changes (bs ! i) b \<Longrightarrow> all_change bs (bs[i := b])"
  by (auto simp: list_all2_conv_all_nth nth_list_update)

lemma all_change_wf: "all_change bs bs' \<Longrightarrow> list_all book_wf bs \<Longrightarrow> list_all book_wf bs'"
  by (induction rule: list_all2_induct) (simp_all add: changes_wf)

lemma all_change_foldl:
  assumes "list_all book_wf (f st0)"
    and "\<And>st x. x \<in> set xs \<Longrightarrow> list_all book_wf (f st) \<Longrightarrow> length (f st) = length (f st0) \<Longrightarrow> all_change (f st) (f (g st x))"
  shows "all_change (f st0) (f (foldl g st0 xs))"
  using assms
proof (induction xs arbitrary: st0)
  case (Cons x xs)
  have step: "all_change (f st0) (f (g st0 x))" using Cons.prems by simp
  have len: "length (f (g st0 x)) = length (f st0)" using list_all2_lengthD [OF step] by simp
  have "list_all book_wf (f (g st0 x))" by (rule all_change_wf [OF step Cons.prems(1)])
  then have "all_change (f (g st0 x)) (f (foldl g (g st0 x) xs))"
  proof (rule Cons.IH)
    fix st y
    assume "y \<in> set xs" "list_all book_wf (f st)" "length (f st) = length (f (g st0 x))"
    then show "all_change (f st) (f (g st y))" by (intro Cons.prems(2)) (simp_all add: len)
  qed
  then show ?case unfolding foldl_Cons by (rule all_change_trans [OF step])
qed simp

lemma expire_all_changes:
  "list_all book_wf bs \<Longrightarrow>
     \<exists>bs'. snd (foldl (expire_and_settle v mk now) (s, acc) bs) = acc @ bs' \<and> all_change bs bs'"
proof (induction bs arbitrary: s acc)
  case (Cons b bs)
  obtain b' where b': "snd (expire_and_settle v mk now (s, acc) b) = acc @ [b']" "changes b b'"
    using expire_and_settle_changes [of b v mk now s acc] Cons.prems by auto
  then obtain s' where s': "expire_and_settle v mk now (s, acc) b = (s', acc @ [b'])"
    by (cases "expire_and_settle v mk now (s, acc) b") simp
  from Cons.IH [of s' "acc @ [b']"] Cons.prems obtain bs' where
    "snd (foldl (expire_and_settle v mk now) (s', acc @ [b']) bs) = (acc @ [b']) @ bs'" "all_change bs bs'"
    by auto
  then show ?case using b'(2) s' by auto
qed simp

lemma standing_index: "(i, ord) \<in> set (standing bs) \<longleftrightarrow> i < length bs \<and> ord \<in> set (OpenOrders (bs ! i))"
proof -
  have "(i, ord) \<in> set (concat (map (\<lambda>(i, b). map (Pair i) (OpenOrders b)) (enumerate k bs))) \<longleftrightarrow>
      k \<le> i \<and> i < k + length bs \<and> ord \<in> set (OpenOrders (bs ! (i - k)))" for k
  proof (induction bs arbitrary: k)
    case (Cons b bs)
    then show ?case by (cases "i = k") (auto simp: nth_Cons' Suc_diff_Suc)
  qed simp
  then show ?thesis by (simp add: standing_def)
qed

lemma queue_set: "set (queue bs) = set (standing bs)"
  by (simp add: queue_def)

lemma queue_index: "(i, ord) \<in> set (queue bs) \<Longrightarrow> i < length bs"
  by (simp add: queue_set standing_index)

lemma fill_in_changes:
  assumes "list_all book_wf (fst st)" "i < length (fst st)"
  shows "all_change (fst st) (fst (fill_in g v quotes now st (i, ord)))"
proof (cases st)
  case (Pair bs shown)
  then have "book_wf (bs ! i)" using assms by (simp add: list_all_length)
  from fill_changes [OF this, of g v ord quotes now shown] show ?thesis
    using assms(2) Pair by (auto simp: fill_in_def case_prod_unfold intro: all_change_update)
qed

lemma note_all_changes:
  assumes "list_all book_wf bs" "i < length bs"
  shows "all_change bs (bs[i := Note j why (bs ! i)])"
  using assms by (intro all_change_update Note_changes) (auto simp: list_all_length)

text \<open>The pass with what comes before the queue taken out.\<close>

definition after_expiry :: "arena_env \<Rightarrow> market \<Rightarrow> Clock \<Rightarrow> said \<Rightarrow> Book list \<Rightarrow> Book list" where
  "after_expiry v mk clock s bs =
     (let bs = snd (foldl (expire_and_settle v mk (k_Now clock)) (s, []) bs)
      in if k_IsOpen clock then bs else map (mark_close v mk (k_Now clock)) bs)"

definition noted_all :: "Book list \<Rightarrow> Book list" where
  "noted_all bs = foldl (\<lambda>bs (i, ord). bs[i := Note (ao_ID ord) WaitsForOpen (bs ! i)]) bs (queue bs)"

definition filled_all :: "arena_config \<Rightarrow> arena_env \<Rightarrow> quotes \<Rightarrow> time \<Rightarrow> Book list \<Rightarrow> Book list" where
  "filled_all g v quotes now bs = fst (foldl (fill_in g v quotes now) (bs, shown_at_first quotes) (queue bs))"

text \<open>The contracts a pass asks the market for: those of the orders in its queue.\<close>

definition asked_for :: "Book list \<Rightarrow> string list" where
  "asked_for bs = keys (concat (map (\<lambda>(i, ord). map al_Symbol (ao_Legs ord)) (queue bs)))"

lemma once_cases:
  obtains (no_clock) e where "mk_clock mk = Err e" "snd (once g v mk s bs) = bs"
  | (ran) clock bs1 where "mk_clock mk = Ok clock" "bs1 = after_expiry v mk clock s bs"
      "snd (once g v mk s bs) = bs1 \<or>
       \<not> k_IsOpen clock \<and> \<not> g_ignoreSession g \<and> snd (once g v mk s bs) = noted_all bs1 \<or>
       (k_IsOpen clock \<or> g_ignoreSession g) \<and>
         (\<exists>quotes. mk_optionQuotes mk (asked_for bs1) = Ok quotes \<and>
            snd (once g v mk s bs) = filled_all g v quotes (k_Now clock) bs1)"
proof (cases "mk_clock mk")
  case (Inl e)
  then show ?thesis by (intro no_clock [OF Inl]) (simp add: once_def)
next
  case (Inr clock)
  show ?thesis
    by (rule ran [OF Inr refl])
      (auto simp: once_def Inr Let_def after_expiry_def noted_all_def filled_all_def asked_for_def
        case_prod_unfold split: sum.splits)
qed

lemma after_expiry_changes:
  assumes "list_all book_wf bs"
  shows "all_change bs (after_expiry v mk clock s bs)"
proof -
  obtain bs' where bs': "snd (foldl (expire_and_settle v mk (k_Now clock)) (s, []) bs) = bs'" "all_change bs bs'"
    using expire_all_changes [OF assms, of v mk "k_Now clock" s "[]"] by auto
  moreover have "all_change bs' (map (mark_close v mk (k_Now clock)) bs')"
    by (simp add: list_all2_conv_all_nth mark_close_changes)
  ultimately show ?thesis using all_change_trans [of bs bs'] by (simp add: after_expiry_def)
qed

lemma noted_all_changes:
  assumes "list_all book_wf bs"
  shows "all_change bs (noted_all bs)"
  unfolding noted_all_def
proof (rule all_change_foldl [where f = "\<lambda>x. x", OF assms])
  fix st and x :: "nat \<times> AOrder"
  assume a: "x \<in> set (queue bs)" "list_all book_wf st" "length st = length bs"
  obtain i ord where "x = (i, ord)" by (cases x)
  then show "all_change st (case x of (i, ord) \<Rightarrow> st[i := Note (ao_ID ord) WaitsForOpen (st ! i)])"
    using a by (simp add: note_all_changes queue_index)
qed

lemma filled_all_changes:
  assumes "list_all book_wf bs"
  shows "all_change bs (filled_all g v quotes now bs)"
proof -
  have "all_change (fst (bs, shown_at_first quotes)) (filled_all g v quotes now bs)"
    unfolding filled_all_def
  proof (rule all_change_foldl)
    fix st :: "Book list \<times> shown" and x
    assume a: "x \<in> set (queue bs)" "list_all book_wf (fst st)" "length (fst st) = length (fst (bs, shown_at_first quotes))"
    obtain i ord where "x = (i, ord)" by (cases x)
    then show "all_change (fst st) (fst (fill_in g v quotes now st x))"
      using a by (simp add: fill_in_changes queue_index)
  qed (simp add: assms)
  then show ?thesis by simp
qed

lemma once_all_changes:
  assumes "list_all book_wf bs"
  shows "all_change bs (snd (once g v mk s bs))"
proof (rule once_cases [of mk g v s bs])
  fix clock bs1
  assume bs1: "bs1 = after_expiry v mk clock s bs"
    and last: "snd (once g v mk s bs) = bs1 \<or>
       \<not> k_IsOpen clock \<and> \<not> g_ignoreSession g \<and> snd (once g v mk s bs) = noted_all bs1 \<or>
       (k_IsOpen clock \<or> g_ignoreSession g) \<and>
         (\<exists>quotes. mk_optionQuotes mk (asked_for bs1) = Ok quotes \<and>
            snd (once g v mk s bs) = filled_all g v quotes (k_Now clock) bs1)"
  have one: "all_change bs bs1" unfolding bs1 by (rule after_expiry_changes [OF assms])
  have wf: "list_all book_wf bs1" by (rule all_change_wf [OF one assms])
  from last have "all_change bs1 (snd (once g v mk s bs))"
    using noted_all_changes [OF wf] filled_all_changes [OF wf] by (elim disjE conjE exE) simp_all
  then show ?thesis by (rule all_change_trans [OF one])
qed simp

end
