(* ===== verification/ArenaJournal.thy ===== *)
theory ArenaJournal
  imports ArenaLaws
begin

text \<open>
  What a run of the arena keeps. \<open>arena_step\<close> is one call of a participant or one pass of the
  matcher over one of the books; a run is any sequence of them from a new book. The journal of
  events explains everything: cash, positions and what each order has filled are its replay.
\<close>

subsection \<open>Runs\<close>

inductive arena_step :: "Book \<Rightarrow> Book \<Rightarrow> bool" where
  placed: "fresh v b \<Longrightarrow> arena_step b (snd (placeOrder g v mk a b))"
| cancelled: "arena_step b (snd (cancelOrder v mk i b))"
| moved: "fresh v b \<Longrightarrow> arena_step b (snd (replaceOrder v mk r b))"
| asked: "arena_step b (snd (account v mk b))"
| passed: "list_all book_wf bs \<Longrightarrow> i < length bs \<Longrightarrow> b = bs ! i \<Longrightarrow> arena_step b (snd (once g v mk s bs) ! i)"

abbreviation runs :: "Book \<Rightarrow> Book \<Rightarrow> bool" where "runs \<equiv> arena_step\<^sup>*\<^sup>*"

lemma arena_step_changes: "arena_step b b' \<Longrightarrow> book_wf b \<Longrightarrow> changes b b'"
proof (induction rule: arena_step.induct)
  case (passed bs i b g v mk s)
  then show ?case using once_all_changes [of bs g v mk s] by (simp add: list_all2_conv_all_nth)
qed (simp_all add: placeOrder_changes cancelOrder_changes replaceOrder_changes account_changes)

lemma runs_changes: "runs b b' \<Longrightarrow> book_wf b \<Longrightarrow> changes b b'"
proof (induction rule: rtranclp_induct)
  case (step b' b'')
  then have "changes b b'" by simp
  moreover have "changes b' b''" using arena_step_changes step changes_wf by blast
  ultimately show ?case by (rule changes_trans)
qed simp

lemma runs_new: "runs (NewBook hash start) b \<Longrightarrow> changes (NewBook hash start) b"
  by (rule runs_changes [OF _ NewBook_wf])

text \<open>C10. Whatever a participant asks and however the matcher runs, the book stays well formed:
  no symbol or identifier twice, no empty position, every order under its own identifier, filled
  between nothing and its quantity, its status telling which, and its legs readable contracts with
  a positive ratio and a side.\<close>

theorem every_run_keeps_the_book_well_formed: "runs (NewBook hash start) b \<Longrightarrow> book_wf b"
  by (rule changes_wf [OF runs_new NewBook_wf])

subsection \<open>The life of an order\<close>

definition continues :: "AOrder \<Rightarrow> AOrder \<Rightarrow> bool" where
  "continues ord ord' \<longleftrightarrow> ao_ID ord' = ao_ID ord \<and> ao_Qty ord' = ao_Qty ord \<and> ao_Legs ord' = ao_Legs ord \<and>
     ao_Limit ord' = ao_Limit ord \<and> ao_ClientID ord' = ao_ClientID ord \<and> ao_Market ord' = ao_Market ord \<and>
     ao_TIF ord' = ao_TIF ord \<and> ao_ExpiresAt ord' = ao_ExpiresAt ord \<and> ao_FilledQty ord \<le> ao_FilledQty ord' \<and>
     (ord_open ord \<or> ao_Status ord' = ao_Status ord \<and> ao_FilledQty ord' = ao_FilledQty ord \<and>
        ao_Fees ord' = ao_Fees ord)"

lemma continues_refl [simp]: "continues ord ord"
  by (simp add: continues_def)

lemma continues_trans: "continues a b \<Longrightarrow> continues b c \<Longrightarrow> continues a c"
  by (auto simp: continues_def ord_open_def)

lemma change_continues:
  assumes "change b b'" "map_of (b_Orders b) i = Some ord"
  shows "\<exists>ord'. map_of (b_Orders b') i = Some ord' \<and> continues ord ord'"
  using assms
proof (induction rule: change.induct)
  case (touch b old new)
  then have "continues old new"
    using touched_status [of old new] by (auto simp: continues_def touched_same)
  then show ?case using touch by (auto simp: touched_same)
next
  case (book b old sets x px now)
  then have "continues old (filled_order old sets x (fill_fees old sets) now)" by (simp add: continues_def)
  then show ?case using book by (auto simp: booked_def)
next
  case (settle b symbol p c price now e b')
  then show ?case by (simp add: settled_by_simps(1) [OF settle.hyps(3)])
qed auto

lemma changes_continue:
  assumes "changes b b'" "map_of (b_Orders b) i = Some ord"
  shows "\<exists>ord'. map_of (b_Orders b') i = Some ord' \<and> continues ord ord'"
  using assms
proof (induction rule: rtranclp_induct)
  case (step b' b'')
  then obtain ord' where o: "map_of (b_Orders b') i = Some ord'" "continues ord ord'" by blast
  from change_continues [OF step.hyps(2) o(1)] show ?case using continues_trans [OF o(2)] by blast
qed simp

text \<open>C12. An order is never lost and never rewritten: through any run its quantity, legs, limit and
  name stay, what it has filled only grows, and once it is filled, cancelled, expired or replaced
  it stays so and is charged nothing more.\<close>

theorem orders_are_never_rewritten:
  assumes "book_wf b" "runs b b'" "map_of (b_Orders b) i = Some ord"
  shows "\<exists>ord'. map_of (b_Orders b') i = Some ord' \<and> ao_Qty ord' = ao_Qty ord \<and> ao_Legs ord' = ao_Legs ord \<and>
     ao_Limit ord' = ao_Limit ord \<and> ao_ClientID ord' = ao_ClientID ord \<and>
     ao_FilledQty ord \<le> ao_FilledQty ord' \<and> ao_FilledQty ord' \<le> ao_Qty ord \<and>
     (\<not> ord_open ord \<longrightarrow> ao_Status ord' = ao_Status ord \<and> ao_FilledQty ord' = ao_FilledQty ord \<and>
        ao_Fees ord' = ao_Fees ord)"
proof -
  have ch: "changes b b'" by (rule runs_changes [OF assms(2,1)])
  obtain ord' where o: "map_of (b_Orders b') i = Some ord'" "continues ord ord'"
    using changes_continue [OF ch assms(3)] by blast
  have "ao_FilledQty ord' \<le> ao_Qty ord'"
    using book_wfD [OF changes_wf [OF ch assms(1)] o(1)] by (auto simp: order_wf_def)
  then show ?thesis using o by (auto simp: continues_def)
qed

subsection \<open>The journal\<close>

text \<open>What one event did to the cash. The value of a settlement follows from the contract's symbol
  and the underlying's price, which the event carries.\<close>

definition cash_event :: "f64 \<Rightarrow> Event \<Rightarrow> f64" where
  "cash_event cash e =
     (if ev_Kind e = ''fill'' then
        (if ev_Filled e then cash - ev_Price e * f64_of_int (ev_Sets e) * f64_of_int multiplier - ev_Fees e else cash)
      else (case parseOCC (ev_Symbol e) of
         Err x \<Rightarrow> cash
       | Ok c \<Rightarrow>
           if ev_Kind e = ''settlement''
             then cash + settlement_value c (ev_Price e) * f64_of_int (ev_Sets e) * f64_of_int multiplier
           else if ev_Kind e = ''exercise'' \<or> ev_Kind e = ''assignment'' then cash + strike_money c (ev_Sets e)
           else cash))"

text \<open>What one event did to the position in a symbol, the legs being those of the event's order.\<close>

definition qty_event :: "(string \<rightharpoonup> AOrder) \<Rightarrow> string \<Rightarrow> Event \<Rightarrow> int" where
  "qty_event orders s e =
     (if ev_Kind e = ''fill'' then
        (if ev_Filled e then (case orders (ev_OrderID e) of None \<Rightarrow> 0 | Some ord \<Rightarrow> legs_qty (ao_Legs ord) (ev_Sets e) s)
         else 0)
      else
        (if s = ev_Symbol e then - ev_Sets e else 0) +
        (if ev_Kind e = ''exercise'' \<or> ev_Kind e = ''assignment''
         then (case parseOCC (ev_Symbol e) of Err x \<Rightarrow> 0 | Ok c \<Rightarrow> if s = a_Root c then shares_of c (ev_Sets e) else 0)
         else 0))"

definition filled_event :: "string \<Rightarrow> Event \<Rightarrow> int" where
  "filled_event i e = (if ev_Kind e = ''fill'' \<and> ev_Filled e \<and> ev_OrderID e = i then ev_Sets e else 0)"

definition cash_explained :: "Book \<Rightarrow> bool" where
  "cash_explained b \<longleftrightarrow> b_Cash b = foldl cash_event (b_Start b) (b_Events b)"

definition positions_explained :: "Book \<Rightarrow> bool" where
  "positions_explained b \<longleftrightarrow>
     (\<forall>s. pos_qty (b_Positions b) s = (\<Sum>e \<leftarrow> b_Events b. qty_event (map_of (b_Orders b)) s e))"

definition fills_explained :: "Book \<Rightarrow> bool" where
  "fills_explained b \<longleftrightarrow> (\<forall>i ord. map_of (b_Orders b) i = Some ord \<longrightarrow>
     ao_FilledQty ord = (\<Sum>e \<leftarrow> b_Events b. filled_event i e))"

definition orders_known :: "(string \<rightharpoonup> AOrder) \<Rightarrow> Event \<Rightarrow> bool" where
  "orders_known orders e \<longleftrightarrow> (ev_Kind e = ''fill'' \<and> ev_Filled e \<longrightarrow> orders (ev_OrderID e) \<noteq> None)"

definition journal_ok :: "Book \<Rightarrow> bool" where
  "journal_ok b \<longleftrightarrow> cash_explained b \<and> positions_explained b \<and> fills_explained b \<and>
     list_all (orders_known (map_of (b_Orders b))) (b_Events b)"

lemma NewBook_journal: "journal_ok (NewBook hash start)"
  by (simp add: journal_ok_def NewBook_def pos_qty_def cash_explained_def positions_explained_def fills_explained_def)

lemma settled_by_event:
  assumes "settled_by s n c x now b = (e, b')" "parseOCC s = Ok c"
  shows "ev_Symbol e = s" "ev_Sets e = n" "ev_Price e = x" "ev_Kind e \<noteq> ''fill''"
    "b_Cash b' = cash_event (b_Cash b) e"
  using assms by (auto simp: settled_by_def no_event_def delete_position_def Let_def cash_event_def split: if_splits)

lemma parseOCC_root_shorter: "parseOCC s = Ok c \<Longrightarrow> length (a_Root c) < length (TrimSpace s)"
  by (auto simp: parseOCC_def Let_def split: if_splits option.splits)

lemma TrimSpace_length: "length (TrimSpace s) \<le> length s"
  unfolding TrimSpace_def by (metis length_dropWhile_le length_rev order_trans)

lemma parseOCC_root_ne: "parseOCC s = Ok c \<Longrightarrow> a_Root c \<noteq> s"
  using parseOCC_root_shorter [of s c] TrimSpace_length [of s] by auto

lemma delete_qty: "pos_qty (AList.delete s ps) t = (if t = s then 0 else pos_qty ps t)"
  by (simp add: pos_qty_def delete_conv')

lemma settled_by_qty:
  assumes "settled_by s n c x now b = (e, b')" "parseOCC s = Ok c" "pos_qty (b_Positions b) s = n"
  shows "pos_qty (b_Positions b') t = pos_qty (b_Positions b) t + qty_event orders t e"
  using assms parseOCC_root_ne [OF assms(2)]
  by (auto simp: settled_by_def no_event_def delete_position_def Let_def qty_event_def delete_qty move_qty
      mark_held_qty split: if_splits)

lemma known_later:
  assumes "change b b'" "list_all (orders_known (map_of (b_Orders b))) es"
  shows "list_all (orders_known (map_of (b_Orders b'))) es"
proof -
  have "orders_known (map_of (b_Orders b')) e" if "orders_known (map_of (b_Orders b)) e" for e
    using that change_continues [OF assms(1)] unfolding orders_known_def by blast
  then show ?thesis using assms(2) by (simp add: list_all_iff)
qed

lemma qty_later:
  assumes "change b b'" "list_all (orders_known (map_of (b_Orders b))) es"
  shows "(\<Sum>e \<leftarrow> es. qty_event (map_of (b_Orders b')) s e) = (\<Sum>e \<leftarrow> es. qty_event (map_of (b_Orders b)) s e)"
proof -
  have "qty_event (map_of (b_Orders b')) s e = qty_event (map_of (b_Orders b)) s e"
    if known: "orders_known (map_of (b_Orders b)) e" for e
  proof (cases "ev_Kind e = ''fill'' \<and> ev_Filled e")
    case True
    then obtain ord where o: "map_of (b_Orders b) (ev_OrderID e) = Some ord" using known by (auto simp: orders_known_def)
    obtain ord' where "map_of (b_Orders b') (ev_OrderID e) = Some ord'" "continues ord ord'"
      using change_continues [OF assms(1) o] by blast
    then show ?thesis using o by (simp add: qty_event_def continues_def)
  qed (auto simp: qty_event_def)
  then show ?thesis using assms(2) by (intro arg_cong [where f = sum_list] map_cong) (auto simp: list_all_iff)
qed

lemma unknown_unfilled:
  assumes "list_all (orders_known m) es" "m i = None"
  shows "(\<Sum>e \<leftarrow> es. filled_event i e) = 0"
  using assms by (induction es) (auto simp: orders_known_def filled_event_def)

lemma fills_explained_put:
  assumes "fills_explained b" "b_Events b' = b_Events b @ es"
    and "\<And>i x. map_of (b_Orders b') i = Some x \<Longrightarrow>
      (\<exists>y. map_of (b_Orders b) i = Some y \<and> ao_FilledQty x = ao_FilledQty y + (\<Sum>e \<leftarrow> es. filled_event i e)) \<or>
      ao_FilledQty x = (\<Sum>e \<leftarrow> b_Events b'. filled_event i e)"
  shows "fills_explained b'"
  unfolding fills_explained_def
proof (intro allI impI)
  fix i x
  assume "map_of (b_Orders b') i = Some x"
  from assms(3) [OF this] show "ao_FilledQty x = (\<Sum>e \<leftarrow> b_Events b'. filled_event i e)"
    using assms(1) by (auto simp: fills_explained_def assms(2))
qed

lemma change_journal:
  assumes "change b b'" "book_wf b" "journal_ok b"
  shows "journal_ok b'"
proof -
  have j: "cash_explained b" "positions_explained b" "fills_explained b"
    "list_all (orders_known (map_of (b_Orders b))) (b_Events b)"
    using assms(3) by (simp_all add: journal_ok_def)
  note known = known_later [OF assms(1) j(4)]
  note qty = qty_later [OF assms(1) j(4)]
  have "\<exists>es. b_Events b' = b_Events b @ es \<and> b_Start b' = b_Start b \<and>
      b_Cash b' = foldl cash_event (b_Cash b) es \<and>
      (\<forall>s. pos_qty (b_Positions b') s = pos_qty (b_Positions b) s + (\<Sum>e \<leftarrow> es. qty_event (map_of (b_Orders b')) s e)) \<and>
      list_all (orders_known (map_of (b_Orders b'))) es"
    using assms(1,2)
  proof (cases rule: change.cases)
    case (refuse e)
    then show ?thesis by (intro exI [of _ "[e]"]) (simp add: cash_event_def qty_event_def orders_known_def)
  next
    case (book ord sets x px now)
    then show ?thesis
      by (intro exI [of _ "[fill_event (ao_ID ord) sets x (fill_fees ord sets) True NoReason now]"])
        (simp add: booked_def cash_event_def qty_event_def orders_known_def fill_event_def no_event_def
          fill_cash_def apply_legs_qty)
  next
    case (settle symbol p c price now e b1)
    have "pos_qty (b_Positions b) symbol = h_Qty p" using settle(2) by (simp add: pos_qty_def)
    note q = settled_by_qty [OF settle(4,3) this]
    show ?thesis
      using settle by (intro exI [of _ "[e]"])
        (simp add: settled_by_simps [OF settle(4)] settled_by_event [OF settle(4,3)] q orders_known_def)
  qed (intro exI [of _ "[]"], simp)+
  then obtain es where es: "b_Events b' = b_Events b @ es" "b_Start b' = b_Start b"
    "b_Cash b' = foldl cash_event (b_Cash b) es"
    "\<And>s. pos_qty (b_Positions b') s = pos_qty (b_Positions b) s + (\<Sum>e \<leftarrow> es. qty_event (map_of (b_Orders b')) s e)"
    "list_all (orders_known (map_of (b_Orders b'))) es"
    by blast
  have "fills_explained b'"
    using assms(1)
  proof (cases rule: change.cases)
    case (touch ord ord')
    then show ?thesis by (intro fills_explained_put [OF j(3), of _ "[]"]) (auto simp: touched_same split: if_splits)
  next
    case (refuse e)
    then show ?thesis by (intro fills_explained_put [OF j(3), of _ "[e]"]) (auto simp: filled_event_def)
  next
    case (book ord sets x px now)
    then show ?thesis
      by (intro fills_explained_put [OF j(3), of _ "[fill_event (ao_ID ord) sets x (fill_fees ord sets) True NoReason now]"])
        (auto simp: booked_def filled_event_def fill_event_def no_event_def split: if_splits)
  next
    case (add ord)
    then show ?thesis
      using unknown_unfilled [OF j(4), of "ao_ID ord"]
      by (intro fills_explained_put [OF j(3), of _ "[]"]) (auto simp: begins_def split: if_splits)
  next
    case (settle symbol p c price now e b1)
    then show ?thesis
      by (intro fills_explained_put [OF j(3), of _ "[e]"])
        (simp_all add: settled_by_simps [OF settle(4)] filled_event_def settled_by_event [OF settle(4,3)])
  qed (intro fills_explained_put [OF j(3), of _ "[]"], simp_all)+
  then show ?thesis
    using j known qty es by (simp add: journal_ok_def cash_explained_def positions_explained_def)
qed

lemma changes_journal:
  assumes "changes b b'" "book_wf b" "journal_ok b"
  shows "journal_ok b' \<and> book_wf b'"
  using assms
proof (induction rule: rtranclp_induct)
  case (step b' b'')
  then show ?case using change_journal change_wf by blast
qed simp

lemma runs_journal: "runs (NewBook hash start) b \<Longrightarrow> journal_ok b"
  using changes_journal [OF runs_new NewBook_wf NewBook_journal] by blast

text \<open>C3. The cash of a book is its journal, to the last bit: replaying the events over the starting
  cash, fills with their fees, cash settlements and the strike money of exercises and assignments,
  gives exactly the cash the book holds, whatever was called in between.\<close>

theorem cash_is_the_replay_of_the_journal:
  assumes "runs (NewBook hash start) b"
  shows "b_Cash b = foldl cash_event (b_Start b) (b_Events b)"
  using runs_journal [OF assms] by (simp add: journal_ok_def cash_explained_def)

text \<open>Contracts and shares are conserved: the quantity held in any symbol is what the journal's
  fills brought in under the legs of their orders, less what expired, with the shares that
  exercises and assignments turned contracts into.\<close>

theorem positions_are_the_replay_of_the_journal:
  assumes "runs (NewBook hash start) b"
  shows "pos_qty (b_Positions b) s = (\<Sum>e \<leftarrow> b_Events b. qty_event (map_of (b_Orders b)) s e)"
  using runs_journal [OF assms] by (simp add: journal_ok_def positions_explained_def)

text \<open>What an order says it has filled is the sum of the sets of its fills in the journal, and never
  more than its quantity.\<close>

theorem filled_quantity_is_journaled:
  assumes "runs (NewBook hash start) b" "map_of (b_Orders b) i = Some ord"
  shows "ao_FilledQty ord = (\<Sum>e \<leftarrow> b_Events b. filled_event i e) \<and> ao_FilledQty ord \<le> ao_Qty ord"
proof -
  have "fills_explained b" using runs_journal [OF assms(1)] by (simp add: journal_ok_def)
  moreover have "order_wf ord"
    using book_wfD [OF changes_wf [OF runs_new [OF assms(1)] NewBook_wf] assms(2)] by simp
  ultimately show ?thesis using assms(2) unfolding fills_explained_def order_wf_def by fastforce
qed

end
