(* ===== verification/ArenaCover.thy ===== *)
theory ArenaCover
  imports ArenaJournal
begin

text \<open>
  Collateral. A fill and a submission are let through only when the cash that would be left covers
  the worst point at expiry of the positions there would be: \<open>reserved\<close> and \<open>project\<close> count the
  positions that \<open>apply_legs\<close> makes, and \<open>Requirement\<close> bounds their loss at every price.
\<close>

subsection \<open>The options of a list of positions\<close>

definition is_option :: "Holding \<Rightarrow> bool" where "is_option p \<longleftrightarrow> h_Class p \<noteq> classEquity"

definition readable :: "string \<Rightarrow> bool" where
  "readable s \<longleftrightarrow> (case parseOCC s of Err e \<Rightarrow> False | Ok c \<Rightarrow> True)"

definition occ_of :: "string \<Rightarrow> occ" where
  "occ_of s = (case parseOCC s of Err e \<Rightarrow> undefined | Ok c \<Rightarrow> c)"

lemma set_map_filter: "set (List.map_filter f xs) = {y. \<exists>x \<in> set xs. f x = Some y}"
  by (induction xs) (auto simp: List.map_filter_simps split: option.splits)

lemma option_legs_readable: "option_legs ps = Ok legs \<Longrightarrow> list_all (\<lambda>p. readable (h_Symbol p)) (filter is_option ps)"
  by (induction ps arbitrary: legs) (auto simp: is_option_def readable_def split: sum.splits if_splits)

lemma readable_occ: "readable s \<Longrightarrow> parseOCC s = Ok (occ_of s)"
  by (simp add: readable_def occ_of_def split: sum.splits)

lemma option_legs_all_readable:
  "list_all (\<lambda>p. readable (h_Symbol p)) (filter is_option ps) \<Longrightarrow>
     option_legs ps = Ok (map (\<lambda>p. (occ_of (h_Symbol p), h_Qty p)) (filter is_option ps))"
proof (induction ps)
  case (Cons p ps)
  then show ?case
    by (cases "h_Class p = classEquity") (simp_all add: is_option_def readable_occ)
qed simp

lemma option_legs_char:
  "option_legs ps = Ok legs \<longleftrightarrow>
     list_all (\<lambda>p. readable (h_Symbol p)) (filter is_option ps) \<and>
     legs = map (\<lambda>p. (occ_of (h_Symbol p), h_Qty p)) (filter is_option ps)"
  using option_legs_readable [of ps legs] option_legs_all_readable [of ps] by auto

text \<open>Two lists of positions with the same options, in any order.\<close>

definition same_options :: "Holding list \<Rightarrow> Holding list \<Rightarrow> bool" where
  "same_options ps qs \<longleftrightarrow>
     mset (map (\<lambda>p. (h_Symbol p, h_Qty p)) (filter is_option ps)) =
     mset (map (\<lambda>p. (h_Symbol p, h_Qty p)) (filter is_option qs))"

lemma same_options_legs:
  assumes "same_options ps qs" "option_legs ps = Ok legs"
  obtains legs' where "option_legs qs = Ok legs'" "mset legs' = mset legs"
proof -
  let ?v = "\<lambda>p. (h_Symbol p, h_Qty p)"
  let ?w = "\<lambda>sq. (occ_of (fst sq), snd sq :: int)"
  define xs where "xs = map ?v (filter is_option ps)"
  define ys where "ys = map ?v (filter is_option qs)"
  have xy: "mset xs = mset ys" using assms(1) by (simp only: same_options_def xs_def ys_def)
  have legs: "legs = map ?w xs" "\<forall>s \<in> set (map fst xs). readable s"
    using assms(2) by (simp_all add: option_legs_char xs_def list_all_iff)
  have "set (map fst xs) = set (map fst ys)" using mset_eq_setD [OF xy] by simp
  then have "\<forall>s \<in> set (map fst ys). readable s" using legs(2) by simp
  then have "option_legs qs = Ok (map ?w ys)" by (simp add: option_legs_char ys_def list_all_iff)
  moreover have "mset (map ?w ys) = mset legs" by (simp add: legs(1) xy)
  ultimately show ?thesis using that by blast
qed

lemma same_options_value:
  assumes "same_options ps qs" "option_legs ps = Ok legs"
  shows "holdings_value px qs = holdings_value px ps"
proof -
  obtain legs' where l: "option_legs qs = Ok legs'" "mset legs' = mset legs" using same_options_legs [OF assms] .
  have "legs_value px legs' = legs_value px legs"
    unfolding legs_value_def by (simp only: sum_mset_sum_list [symmetric] mset_map l(2))
  then show ?thesis using l(1) assms(2) by (simp add: holdings_value_def)
qed

lemma same_options_sane:
  assumes "same_options ps qs" "sane_holdings ps" "fair_prices qs"
  shows "sane_holdings qs"
proof -
  obtain legs where l: "option_legs ps = Ok legs" "sane_legs legs"
    using assms(2) by (auto simp: sane_holdings_def split: sum.splits)
  obtain legs' where l': "option_legs qs = Ok legs'" "mset legs' = mset legs" using same_options_legs [OF assms(1) l(1)] .
  have "sane_legs legs'"
    using l(2) mset_eq_length [OF l'(2)] mset_eq_setD [OF l'(2)] by (simp add: sane_legs_def list_all_iff)
  then show ?thesis using l'(1) assms(3) by (simp add: sane_holdings_def)
qed

subsection \<open>The positions after a fill, as projected and as booked\<close>

lemma held_in_set:
  assumes "iterates it"
  shows "p \<in> set (held_in it ps) \<longleftrightarrow> (\<exists>s. map_of ps s = Some p) \<and> h_Qty p \<noteq> 0"
  using iterates_set [OF assms, of "map fst ps"]
  by (auto simp: held_in_def set_map_filter) (metis fst_conv map_of_SomeD)

text \<open>Each position under its own symbol.\<close>

definition own_symbols :: "(string \<times> Holding) list \<Rightarrow> bool" where
  "own_symbols ps \<longleftrightarrow> distinct (map fst ps) \<and> (\<forall>s p. map_of ps s = Some p \<longrightarrow> h_Symbol p = s)"

lemma own_symbolsD: "own_symbols ps \<Longrightarrow> map_of ps s = Some p \<Longrightarrow> h_Symbol p = s"
  by (simp add: own_symbols_def)

lemma positions_wf_own: "positions_wf ps \<Longrightarrow> own_symbols ps"
  by (simp add: positions_wf_def own_symbols_def)

lemma held_in_distinct:
  assumes "iterates it" "own_symbols ps"
  shows "distinct (map h_Symbol (held_in it ps))"
proof -
  have d: "distinct (it (map fst ps))" using assms by (simp add: iterates_distinct own_symbols_def)
  have sub: "h_Symbol ` set (List.map_filter (map_of ps) ks) \<subseteq> set ks" for ks
    using own_symbolsD [OF assms(2)] by (auto simp: set_map_filter)
  have "distinct (map h_Symbol (List.map_filter (map_of ps) ks))" if "distinct ks" for ks
    using that
  proof (induction ks)
    case (Cons k ks)
    then show ?case
      using sub [of ks] own_symbolsD [OF assms(2), of k]
      by (auto simp: List.map_filter_simps split: option.split)
  qed (simp add: List.map_filter_simps)
  then show ?thesis using d by (auto simp: held_in_def intro: distinct_map_filter)
qed

lemma same_optionsI:
  assumes "distinct (map h_Symbol ps)" "distinct (map h_Symbol qs)"
    and "\<And>s q. (\<exists>p \<in> set ps. is_option p \<and> h_Symbol p = s \<and> h_Qty p = q) \<longleftrightarrow> (\<exists>p \<in> set qs. is_option p \<and> h_Symbol p = s \<and> h_Qty p = q)"
  shows "same_options ps qs"
proof -
  let ?v = "\<lambda>p. (h_Symbol p, h_Qty p)"
  have d: "distinct (map ?v (filter is_option ps))" if "distinct (map h_Symbol ps)" for ps
  proof -
    have "distinct (map h_Symbol (filter is_option ps))" using that by (rule distinct_map_filter)
    then have "distinct (map fst (map ?v (filter is_option ps)))" by (simp add: comp_def)
    then show ?thesis by (simp only: distinct_map)
  qed
  have "set (map ?v (filter is_option ps)) = set (map ?v (filter is_option qs))"
    using assms(3) by (auto simp: image_iff) metis+
  then show ?thesis
    unfolding same_options_def using d [OF assms(1)] d [OF assms(2)] set_eq_iff_mset_eq_distinct by blast
qed

definition leg_symbols :: "ALeg list \<Rightarrow> string set" where
  "leg_symbols legs = al_Symbol ` set legs"

lemma project_leg_own: "own_symbols ps \<Longrightarrow> own_symbols (project_leg n ps leg)"
  by (auto simp: own_symbols_def project_leg_def Let_def update_conv' distinct_update)

lemma project_own: "own_symbols ps \<Longrightarrow> own_symbols (foldl (project_leg n) ps legs)"
  by (rule foldl_invariant) (simp_all add: project_leg_own)

lemma project_leg_other: "s \<noteq> al_Symbol leg \<Longrightarrow> map_of (project_leg n ps leg) s = map_of ps s"
  by (simp add: project_leg_def Let_def update_conv')

lemma project_other: "s \<notin> leg_symbols legs \<Longrightarrow> map_of (foldl (project_leg n) ps legs) s = map_of ps s"
  by (induction legs arbitrary: ps) (auto simp: leg_symbols_def project_leg_other)

lemma project_leg_option:
  "map_of (project_leg n ps leg) (al_Symbol leg) = Some p \<Longrightarrow> is_option p"
  "\<exists>p. map_of (project_leg n ps leg) (al_Symbol leg) = Some p"
  by (auto simp: project_leg_def Let_def update_conv' is_option_def classOption_def classEquity_def split: option.splits)

lemma project_option:
  assumes "s \<in> leg_symbols legs"
  shows "\<exists>p. map_of (foldl (project_leg n) ps legs) s = Some p \<and> is_option p"
proof -
  have keep: "\<exists>p. map_of (foldl (project_leg n) ps legs) s = Some p \<and> is_option p"
    if "\<exists>p. map_of ps s = Some p \<and> is_option p" for ps legs
    using that
  proof (rule foldl_invariant)
    fix ps leg
    assume "\<exists>p. map_of ps s = Some p \<and> is_option p"
    then show "\<exists>p. map_of (project_leg n ps leg) s = Some p \<and> is_option p"
      using project_leg_option [of n ps leg] project_leg_other [of s leg n ps] by (cases "s = al_Symbol leg") auto
  qed
  show ?thesis
    using assms
  proof (induction legs arbitrary: ps)
    case (Cons leg legs)
    show ?case
    proof (cases "s = al_Symbol leg")
      case True
      then show ?thesis using keep [of "project_leg n ps leg" legs] project_leg_option [of n ps leg] by auto
    next
      case False
      then show ?thesis using Cons by (auto simp: leg_symbols_def)
    qed
  qed (simp add: leg_symbols_def)
qed

lemma move_other: "s \<noteq> t \<Longrightarrow> map_of (move t c n x ps) s = map_of ps s"
  by (auto simp: move_def Let_def update_conv' delete_conv')

lemma move_option:
  assumes "\<forall>p. map_of ps s = Some p \<longrightarrow> is_option p"
  shows "\<forall>p. map_of (move t classOption n x ps) s = Some p \<longrightarrow> is_option p"
proof (cases "s = t")
  case True
  then show ?thesis
    using assms by (auto simp: move_def Let_def update_conv' delete_conv' is_option_def no_holding_def
        classOption_def classEquity_def split: option.splits)
qed (use assms in \<open>simp add: move_other\<close>)

lemma apply_legs_other: "s \<notin> leg_symbols legs \<Longrightarrow> map_of (apply_legs legs n px ps) s = map_of ps s"
  unfolding apply_legs_def by (induction legs arbitrary: ps) (auto simp: leg_symbols_def move_other)

lemma apply_legs_option:
  "\<forall>p. map_of ps s = Some p \<longrightarrow> is_option p \<Longrightarrow> \<forall>p. map_of (apply_legs legs n px ps) s = Some p \<longrightarrow> is_option p"
  unfolding apply_legs_def by (rule foldl_invariant) (assumption, rule move_option)

text \<open>No leg is in the symbol of shares.\<close>

definition options_only :: "ALeg list \<Rightarrow> (string \<times> Holding) list \<Rightarrow> bool" where
  "options_only legs ps \<longleftrightarrow> (\<forall>s \<in> leg_symbols legs. \<forall>p. map_of ps s = Some p \<longrightarrow> is_option p)"

lemma pos_qty_Some: "map_of ps s = Some p \<Longrightarrow> pos_qty ps s = h_Qty p"
  by (simp add: pos_qty_def)

lemma held_option_iff:
  assumes "iterates it" "own_symbols ps"
  shows "(\<exists>p \<in> set (held_in it ps). is_option p \<and> h_Symbol p = s \<and> h_Qty p = q) \<longleftrightarrow>
    (\<exists>p. map_of ps s = Some p \<and> is_option p) \<and> pos_qty ps s = q \<and> q \<noteq> 0"
proof
  assume "\<exists>p \<in> set (held_in it ps). is_option p \<and> h_Symbol p = s \<and> h_Qty p = q"
  then obtain p t where "map_of ps t = Some p" "h_Qty p \<noteq> 0" "is_option p" "h_Symbol p = s" "h_Qty p = q"
    by (auto simp: held_in_set [OF assms(1)])
  then show "(\<exists>p. map_of ps s = Some p \<and> is_option p) \<and> pos_qty ps s = q \<and> q \<noteq> 0"
    using own_symbolsD [OF assms(2), of t p] by (auto simp: pos_qty_def)
next
  assume a: "(\<exists>p. map_of ps s = Some p \<and> is_option p) \<and> pos_qty ps s = q \<and> q \<noteq> 0"
  then obtain p where "map_of ps s = Some p" "is_option p" by blast
  moreover from this have "p \<in> set (held_in it ps)" "h_Symbol p = s" "h_Qty p = q"
    using a own_symbolsD [OF assms(2)] by (auto simp: held_in_set [OF assms(1)] pos_qty_Some)
  ultimately show "\<exists>p \<in> set (held_in it ps). is_option p \<and> h_Symbol p = s \<and> h_Qty p = q" by blast
qed

lemma projected_as_booked:
  assumes "iterates it" "iterates it'" "positions_wf ps" "options_only legs ps"
  shows "same_options (held_in it (foldl (project_leg n) ps legs)) (held_in it' (apply_legs legs n px ps))"
proof -
  let ?P = "foldl (project_leg n) ps legs" and ?A = "apply_legs legs n px ps"
  have own: "own_symbols ?P" "own_symbols ?A"
    using assms(3) by (simp_all add: project_own positions_wf_own apply_legs_wf)
  have qty: "pos_qty ?P s = pos_qty ?A s" for s by (simp add: project_legs_qty apply_legs_qty)
  have "(\<exists>p. map_of ?P s = Some p \<and> is_option p) \<longleftrightarrow> (\<exists>p. map_of ?A s = Some p \<and> is_option p)"
    if "pos_qty ?A s \<noteq> 0" for s
  proof (cases "s \<in> leg_symbols legs")
    case True
    have "\<forall>p. map_of ?A s = Some p \<longrightarrow> is_option p"
      by (rule apply_legs_option) (use assms(4) True in \<open>simp add: options_only_def\<close>)
    moreover have "map_of ?A s \<noteq> None" using that by (cases "map_of ?A s") (simp_all add: pos_qty_def)
    ultimately show ?thesis using project_option [OF True] by blast
  next
    case False
    then show ?thesis by (simp add: project_other apply_legs_other)
  qed
  then show ?thesis
    by (intro same_optionsI held_in_distinct assms(1,2) own)
      (unfold held_option_iff [OF assms(1) own(1)] held_option_iff [OF assms(2) own(2)] qty, blast)
qed

lemma projected_shares:
  assumes "iterates it" "iterates it'" "positions_wf ps" "options_only legs ps"
    "fair_prices (held_in it' (apply_legs legs n px ps))"
  shows "fair_prices (held_in it (foldl (project_leg n) ps legs))"
  unfolding fair_prices_def list_all_iff
proof (intro ballI impI)
  fix p
  assume p: "p \<in> set (held_in it (foldl (project_leg n) ps legs))" "h_Class p = classEquity \<and> h_Qty p < 0"
  then obtain s where s: "map_of (foldl (project_leg n) ps legs) s = Some p" by (auto simp: held_in_set [OF assms(1)])
  then have "s \<notin> leg_symbols legs"
    using project_option [of s legs n ps] p(2) by (auto simp: is_option_def)
  then have "map_of (apply_legs legs n px ps) s = Some p"
    using s by (simp add: project_other apply_legs_other)
  then have "p \<in> set (held_in it' (apply_legs legs n px ps))"
    using p(2) by (auto simp: held_in_set [OF assms(2)])
  then show "0 \<le> h_AvgPrice p" using assms(5) p(2) by (auto simp: fair_prices_def list_all_iff)
qed

subsection \<open>A fill leaves the book covered\<close>

lemma cash_covers:
  assumes "\<not> cash < need - lit (1 / 10 ^ 9)" "\<bar>val cash\<bar> \<le> 10 ^ 12"
  shows "val need \<le> val cash + 1"
proof -
  define y where "y = val need - rnd (1 / 10 ^ 9)"
  define d :: rat where "d = 1 / 2 ^ 53"
  have d: "0 < d" "d \<le> 1 / 8" "10 ^ 13 * d \<le> 1 / 8" by (simp_all add: d_def)
  have "rnd y \<le> val cash" using assms(1) by (simp add: less_f64_iff val_diff val_lit y_def)
  moreover have "\<bar>rnd y - y\<bar> \<le> \<bar>y\<bar> * d" using rnd_error [of y] by (simp add: d_def)
  ultimately have y: "y \<le> val cash + \<bar>y\<bar> * d" by linarith
  have "rnd (1 / 10 ^ 9) \<le> rnd (1 / 2)" by (rule rnd_mono) simp
  then have eps: "rnd (1 / 10 ^ 9) \<le> 1 / 2" by simp
  have "y \<le> val cash + 1 / 2"
  proof (cases "\<bar>y\<bar> \<le> 10 ^ 13")
    case True
    then have "\<bar>y\<bar> * d \<le> 10 ^ 13 * d" using d(1) by (intro mult_right_mono) auto
    then show ?thesis using y d by linarith
  next
    case big: False
    have "\<bar>y\<bar> * d \<le> \<bar>y\<bar> * (1 / 8)" using d by (intro mult_left_mono) auto
    then have y8: "y \<le> val cash + \<bar>y\<bar> / 8" using y by simp
    have c: "- (10 ^ 12) \<le> val cash" "val cash \<le> 10 ^ 12" using assms(2) by linarith+
    show ?thesis
    proof (cases "0 \<le> y")
      case True
      then show ?thesis using y8 big c by simp
    next
      case False
      then show ?thesis using big c by simp
    qed
  qed
  then show ?thesis using eps by (simp add: y_def)
qed

lemma legs_ok_readable: "legs_ok legs \<Longrightarrow> s \<in> leg_symbols legs \<Longrightarrow> readable s"
  by (auto simp: legs_ok_def leg_symbols_def list_all_iff readable_def)

lemma tickers_options_only:
  assumes "tickers_apart (map snd ps)" "positions_wf ps" "legs_ok legs"
  shows "options_only legs ps"
  unfolding options_only_def
proof (intro ballI allI impI)
  fix s p
  assume s: "s \<in> leg_symbols legs" "map_of ps s = Some p"
  then have "h_Symbol p = s" "readable s" using positions_wfD [OF assms(2)] legs_ok_readable [OF assms(3)] by auto
  moreover have "p \<in> snd ` set ps" using map_of_SomeD [OF s(2)] by force
  ultimately show "is_option p"
    using assms(1) by (fastforce simp: tickers_apart_def list_all_iff is_option_def readable_def split: sum.splits)
qed

lemma requirement_is_covered:
  assumes "Requirement it projected = Ok (Some need)" "same_options projected held" "fair_prices projected"
    "sane_holdings held" "iterates it" "\<forall>k. 0 \<le> px k"
    "\<not> cash < need - lit (1 / 10 ^ 9)" "\<bar>val cash\<bar> \<le> 10 ^ 12"
  shows "0 \<le> val cash + holdings_value px held + 2"
proof -
  have flip: "same_options held projected" using assms(2) by (simp add: same_options_def)
  obtain legs where "option_legs held = Ok legs" using assms(4) by (auto simp: sane_holdings_def split: sum.splits)
  then have "holdings_value px projected = holdings_value px held" by (rule same_options_value [OF flip])
  moreover have "sane_holdings projected" by (rule same_options_sane [OF flip assms(4,3)])
  ultimately have "- holdings_value px held \<le> val need + 1"
    using Requirement_covers [OF assms(1) _ assms(5,6)] by simp
  then show ?thesis using cash_covers [OF assms(7,8)] by linarith
qed

text \<open>C1. A fill never leaves the book unable to meet its obligations: whatever prices the contracts
  settle at, the cash left by a booked fill and the value of the options then held are not below
  nought by more than two dollars of rounding. The positions the collateral is counted on are
  built apart (\<open>project\<close>) from those that are booked (\<open>apply\<close>); both are modelled.\<close>

theorem fill_leaves_the_book_covered:
  assumes "book_wf b" "Fill v i sets x legPrice now b = (Ok e, b')" "ev_Filled e"
    "iterates (v_positions v)" "iterates (v_groups v)"
    "tickers_apart (map snd (b_Positions b))" "sane_holdings (held_in (v_positions v) (b_Positions b'))"
    "\<bar>val (b_Cash b')\<bar> \<le> 10 ^ 12" "\<forall>k. 0 \<le> px k"
  shows "0 \<le> val (b_Cash b') + holdings_value px (held_in (v_positions v) (b_Positions b')) + 2"
  using assms(1,2)
proof (cases rule: Fill_cases)
  case (filled ord need)
  have ps: "positions_wf (b_Positions b)" by (rule book_wf_positions [OF assms(1)])
  have "legs_ok (ao_Legs ord)" using book_wfD [OF assms(1) filled(1)] order_wf_legs by blast
  then have only: "options_only (ao_Legs ord) (b_Positions b)" by (rule tickers_options_only [OF assms(6) ps])
  have b': "b_Positions b' = apply_legs (ao_Legs ord) sets legPrice (b_Positions b)" "b_Cash b' = fill_cash b ord sets x"
    by (simp_all add: filled(7) booked_def)
  show ?thesis
  proof (rule requirement_is_covered [OF filled(5) _ _ assms(7,5,9) _ assms(8)])
    show "same_options (project v b (ao_Legs ord) sets) (held_in (v_positions v) (b_Positions b'))"
      unfolding b' project_def by (rule projected_as_booked [OF assms(4,4) ps only])
    show "fair_prices (project v b (ao_Legs ord) sets)"
      unfolding project_def
      by (rule projected_shares [OF assms(4,4) ps only, where px = legPrice])
        (use assms(7) in \<open>simp add: sane_holdings_def b'\<close>)
    show "\<not> b_Cash b' < need - lit (1 / 10 ^ 9)" using filled(6) by (simp add: b')
  qed
qed (use assms(3) in simp_all)

subsection \<open>An accepted order leaves every standing order covered\<close>

definition reserve_step :: "Book \<Rightarrow> string \<Rightarrow> (string \<times> Holding) list \<times> float64 \<Rightarrow> string \<Rightarrow>
    (string \<times> Holding) list \<times> float64" where
  "reserve_step b skip st i = (case map_of (b_Orders b) i of
     None \<Rightarrow> st
   | Some ord \<Rightarrow> if \<not> ord_open ord \<or> i = skip then st else add_order st ord (remaining ord))"

lemma reserved_fold:
  "reserved v b extra skip =
     (let st = foldl (reserve_step b skip) (b_Positions b, Fin (b_Cash b)) (b_order b);
          st = (case extra of None \<Rightarrow> st | Some ord \<Rightarrow> add_order st ord (ao_Qty ord))
      in (held_in (v_positions v) (fst st), snd st))"
  unfolding reserved_def reserve_step_def [abs_def] by (rule refl)

lemma add_order_cong:
  "ao_Legs ord' = ao_Legs ord \<Longrightarrow> ao_Limit ord' = ao_Limit ord \<Longrightarrow> add_order st ord' n = add_order st ord n"
  by (simp add: add_order_def split: prod.split)

lemma reserved_after:
  assumes "b_order b' = b_order b @ [ao_ID ord']" "b_Positions b' = b_Positions b" "b_Cash b' = b_Cash b"
    and "map_of (b_Orders b') (ao_ID ord') = Some ord'" "ord_open ord'" "ao_ID ord' \<noteq> []"
    and "remaining ord' = ao_Qty ord" "ao_Legs ord' = ao_Legs ord" "ao_Limit ord' = ao_Limit ord"
    and same: "\<And>i st. i \<in> set (b_order b) \<Longrightarrow> reserve_step b' [] st i = reserve_step b skip st i"
  shows "reserved v b' None [] = reserved v b (Some ord) skip"
proof -
  have "foldl (reserve_step b' []) st (b_order b) = foldl (reserve_step b skip) st (b_order b)" for st
    by (rule foldl_cong) (simp_all add: same)
  then show ?thesis
    using assms(1-9) add_order_cong [of ord' ord]
    by (simp add: reserved_fold reserve_step_def [of b' "[]" _ "ao_ID ord'"])
qed

lemma Submit_Ok:
  assumes "Submit v o0 b = (Ok u, ord, b')" "fresh v b" "starts o0"
  obtains projected cash need where
    "reserved v b (Some (o0\<lparr>ao_TurnRef := turnOf (ao_ClientID o0)\<rparr>)) [] = (projected, cash)"
    "Requirement (v_groups v) projected = Ok (Some need)" "\<not> fl_less cash (Fin (need - lit (1 / 10 ^ 9)))"
    "ord = o0\<lparr>ao_TurnRef := turnOf (ao_ClientID o0), ao_Seq := b_seq b + 1, ao_ID := v_uuid v, ao_Status := statusNew\<rparr>"
    "b' = (put_order ord (b\<lparr>b_seq := b_seq b + 1\<rparr>))\<lparr>b_order := b_order b @ [v_uuid v]\<rparr>"
proof -
  let ?o = "o0\<lparr>ao_TurnRef := turnOf (ao_ClientID o0)\<rparr>"
  obtain projected cash where r: "reserved v b (Some ?o) [] = (projected, cash)"
    by (cases "reserved v b (Some ?o) []")
  have id: "ao_ID o0 = []" using assms(3) by (simp add: starts_def)
  obtain need where "Requirement (v_groups v) projected = Ok (Some need)" "\<not> fl_less cash (Fin (need - lit (1 / 10 ^ 9)))"
    using assms(1) by (auto simp: Submit_def Let_def r lacks_def split: sum.splits option.splits if_splits)
  moreover from this
  have "ord = ?o\<lparr>ao_Seq := b_seq b + 1, ao_ID := v_uuid v, ao_Status := statusNew\<rparr>"
    "b' = (put_order ord (b\<lparr>b_seq := b_seq b + 1\<rparr>))\<lparr>b_order := b_order b @ [v_uuid v]\<rparr>"
    using assms(1) id by (auto simp: Submit_def Let_def r lacks_def)
  ultimately show ?thesis using that r by blast
qed

lemma Submit_reserved:
  assumes "Submit v o0 b = (Ok u, ord, b')" "fresh v b" "starts o0" "book_wf b"
  obtains need where "Requirement (v_groups v) (fst (reserved v b' None [])) = Ok (Some need)"
    "\<not> fl_less (snd (reserved v b' None [])) (Fin (need - lit (1 / 10 ^ 9)))"
proof -
  obtain projected cash need where s:
    "reserved v b (Some (o0\<lparr>ao_TurnRef := turnOf (ao_ClientID o0)\<rparr>)) [] = (projected, cash)"
    "Requirement (v_groups v) projected = Ok (Some need)" "\<not> fl_less cash (Fin (need - lit (1 / 10 ^ 9)))"
    "ord = o0\<lparr>ao_TurnRef := turnOf (ao_ClientID o0), ao_Seq := b_seq b + 1, ao_ID := v_uuid v, ao_Status := statusNew\<rparr>"
    "b' = (put_order ord (b\<lparr>b_seq := b_seq b + 1\<rparr>))\<lparr>b_order := b_order b @ [v_uuid v]\<rparr>"
    using Submit_Ok [OF assms(1-3)] .
  have id: "ao_ID ord = v_uuid v" "v_uuid v \<noteq> []" "v_uuid v \<notin> set (b_order b)"
    using assms(2) book_wf_ids [OF assms(4)] by (simp_all add: s(4) fresh_def)
  have ord: "ord_open ord" "remaining ord = ao_Qty o0" "ao_Legs ord = ao_Legs o0" "ao_Limit ord = ao_Limit o0"
    using assms(3) by (simp_all add: s(4) starts_def ord_open_def remaining_def)
  have "reserved v b' None [] = reserved v b (Some (o0\<lparr>ao_TurnRef := turnOf (ao_ClientID o0)\<rparr>)) []"
  proof (rule reserved_after [of b' b ord])
    fix i st
    assume "i \<in> set (b_order b)"
    then have "i \<noteq> v_uuid v" using id(3) by blast
    then show "reserve_step b' [] st i = reserve_step b [] st i" by (simp add: reserve_step_def s(5) id(1))
  qed (simp_all add: s(5) id ord)
  then show ?thesis using that s by simp
qed

lemma Replace_reserved:
  assumes "arena_Replace v i limit name qty now b = (Ok ord, b')" "fresh v b" "book_wf b"
  obtains need where "Requirement (v_groups v) (fst (reserved v b' None [])) = Ok (Some need)"
    "\<not> fl_less (snd (reserved v b' None [])) (Fin (need - lit (1 / 10 ^ 9)))"
  using assms(1)
proof (cases rule: Replace_cases)
  case (moved old left next' need projected cashAfter)
  let ?n = "next'\<lparr>ao_Seq := b_seq b + 1\<rparr>"
  have id: "ao_ID next' = v_uuid v" "v_uuid v \<noteq> []" "v_uuid v \<notin> set (b_order b)" "ao_ID old = i"
    using assms(2) book_wf_ids [OF assms(3)] book_wfD [OF assms(3) moved(1)]
    by (simp_all add: moved(5) next_order_def Let_def fresh_def)
  have i: "i \<noteq> v_uuid v" using moved(1) assms(2) by (auto simp: fresh_def)
  have n: "ord_open ?n" "remaining ?n = ao_Qty next'"
    by (simp_all add: moved(5) next_order_def Let_def ord_open_def remaining_def)
  have "reserved v b' None [] = reserved v b (Some next') (ao_ID old)"
  proof (rule reserved_after [of b' b ?n])
    fix j st
    assume "j \<in> set (b_order b)"
    then have j: "j \<noteq> v_uuid v" "j \<noteq> []" using id(3) book_wf_nonempty [OF assms(3)] by auto
    have "\<not> ord_open (replaced old ?n now)" by (simp add: replaced_def ord_open_def status_defs)
    then show "reserve_step b' [] st j = reserve_step b (ao_ID old) st j"
      using j moved(1) id
      by (auto simp: reserve_step_def moved(9) with_replacement_def Let_def replaced_def split: option.split)
  qed (use id n i in \<open>simp_all add: moved(9) with_replacement_def Let_def replaced_def\<close>)
  then show ?thesis using that moved by simp
qed simp

lemma placeOrder_Ok:
  assumes "placeOrder g v mk a b = (Ok ord, b')"
  obtains o0 where "starts o0" "Submit v o0 b = (Ok (), ord, b')"
  using assms
proof (cases rule: placeOrder_submits)
  case (sent legs sets limit clock)
  then show ?thesis
    using that new_order_starts [OF legsOf_ok [OF sent(1)] parseCount_pos [OF sent(2)], of a limit clock]
    by (auto simp: submitted_def split: prod.splits sum.splits)
qed simp

lemma replaceOrder_Ok:
  assumes "replaceOrder v mk a b = (Ok ord, b')"
  obtains i x name qty now where "arena_Replace v i x name qty now b = (Ok ord, b')"
  using assms by (auto simp: replaceOrder_def split: option.splits sum.splits prod.splits)

text \<open>The check is on finite amounts as long as every limit is a finite number.\<close>

lemma add_order_finite:
  "fl_finite (snd st) \<Longrightarrow> fl_finite (ao_Limit ord) \<Longrightarrow> fl_finite (snd (add_order st ord n))"
  by (auto simp: add_order_def fl_finite_iff split: prod.split)

lemma finite_limits_finite_cash:
  assumes "\<forall>ord \<in> set (OpenOrders b). fl_finite (ao_Limit ord)"
  shows "fl_finite (snd (reserved v b None []))"
proof -
  have "fl_finite (snd (foldl (reserve_step b []) (b_Positions b, Fin (b_Cash b)) (b_order b)))"
  proof (rule foldl_invariant [where P = "\<lambda>st. fl_finite (snd st)"])
    fix st :: "(string \<times> Holding) list \<times> float64" and i
    assume i: "i \<in> set (b_order b)" and st: "fl_finite (snd st)"
    have "fl_finite (ao_Limit ord)" if "map_of (b_Orders b) i = Some ord" "ord_open ord" for ord
      using assms i that by (force simp: OpenOrders_def OrdersSnapshot_def List.map_filter_def)
    then show "fl_finite (snd (reserve_step b [] st i))"
      using st by (auto simp: reserve_step_def add_order_finite split: option.split)
  qed simp
  then show ?thesis by (simp add: reserved_fold Let_def)
qed

text \<open>One standing order whose limit is not a number is enough to disarm the check: no bounded
  requirement is then too much, for any order.\<close>

lemma add_order_nan:
  "snd st = Nan \<or> ao_Limit ord = Nan \<and> 1 \<le> n \<Longrightarrow> snd (add_order st ord n) = Nan"
  by (auto simp: add_order_def split: prod.split)

lemma a_nan_limit_disarms_the_check:
  assumes "i \<in> set (b_order b)" "map_of (b_Orders b) i = Some ord" "ord_open ord" "i \<noteq> skip"
    and "ao_Limit ord = Nan" "1 \<le> remaining ord"
  shows "\<not> lacks (Some need) (snd (reserved v b extra skip))"
proof -
  have later: "snd (foldl (reserve_step b skip) st js) = Nan" if "snd st = Nan" for st js
    by (rule foldl_invariant [where P = "\<lambda>st. snd st = Nan"])
      (auto simp: that reserve_step_def add_order_nan split: option.split)
  obtain xs ys where split: "b_order b = xs @ i # ys" using split_list [OF assms(1)] by blast
  have "snd (reserve_step b skip st i) = Nan" for st
    using assms(2-6) by (simp add: reserve_step_def add_order_nan)
  then have "snd (foldl (reserve_step b skip) (b_Positions b, Fin (b_Cash b)) (b_order b)) = Nan"
    using later by (simp add: split)
  then show ?thesis
    by (auto simp: reserved_fold lacks_def Let_def add_order_nan split: option.split)
qed

text \<open>C2. An order is taken, or moved, only if the book can afford every order that then stands: if the
  limits of all orders that then stand are finite numbers, the cash left when all of them fill at
  their limits, fees paid, and the options then held are at no settlement prices below nought by
  more than two dollars of rounding. The code also takes \<open>NaN\<close> and \<open>Inf\<close> for a limit; with one
  such order standing the check says nothing.\<close>

theorem accepted_orders_are_covered:
  assumes "placeOrder g v mk a b = (Ok ord, b') \<or> replaceOrder v mk r b = (Ok ord, b')"
    "book_wf b" "fresh v b" "iterates (v_groups v)"
    "\<forall>standing \<in> set (OpenOrders b'). fl_finite (ao_Limit standing)"
    "reserved v b' None [] = (held, left)" "sane_holdings held" "\<forall>k. 0 \<le> px k"
  shows "\<exists>cash. left = Fin cash \<and>
    (\<bar>val cash\<bar> \<le> 10 ^ 12 \<longrightarrow> 0 \<le> val cash + holdings_value px held + 2)"
proof -
  obtain need where need: "Requirement (v_groups v) (fst (reserved v b' None [])) = Ok (Some need)"
    "\<not> fl_less (snd (reserved v b' None [])) (Fin (need - lit (1 / 10 ^ 9)))"
    using assms(1)
  proof
    assume "placeOrder g v mk a b = (Ok ord, b')"
    then obtain o0 where "starts o0" "Submit v o0 b = (Ok (), ord, b')" by (rule placeOrder_Ok)
    then show ?thesis using Submit_reserved [of v o0 b "()" ord b'] assms(2,3) that by blast
  next
    assume "replaceOrder v mk r b = (Ok ord, b')"
    then obtain i x name qty now where "arena_Replace v i x name qty now b = (Ok ord, b')" by (rule replaceOrder_Ok)
    then show ?thesis using Replace_reserved [of v i x name qty now b ord b'] assms(2,3) that by blast
  qed
  obtain cash where cash: "left = Fin cash"
    using finite_limits_finite_cash [OF assms(5), of v] assms(6) by (auto simp: fl_finite_iff)
  have "same_options held held" by (simp add: same_options_def)
  moreover have "fair_prices held" using assms(7) by (simp add: sane_holdings_def)
  ultimately show ?thesis
    using requirement_is_covered [of "v_groups v" held need held px cash] need assms(4,6-8) cash by simp
qed

subsection \<open>A refused call\<close>

text \<open>The same store when it never fails.\<close>

definition saving :: "arena_env \<Rightarrow> arena_env" where
  "saving v = v\<lparr>v_save := \<lambda>b. Ok ()\<rparr>"

lemma saving_simps [simp]:
  "v_positions (saving v) = v_positions v" "v_groups (saving v) = v_groups v" "v_sides (saving v) = v_sides v"
  "v_uuid (saving v) = v_uuid v" "persist (saving v) b = Ok ()" "reserved (saving v) = reserved v"
  "next_order (saving v) = next_order v"
  by (simp_all add: saving_def persist_def reserved_def [abs_def] next_order_def [abs_def])

lemma saving_shortfall [simp]: "shortfall (saving v) p need c = shortfall v p need c"
  by (cases need) (simp_all add: shortfall_def)

lemma persist_Err: "persist v c = Err y \<Longrightarrow> \<exists>x. y = NotSaved x"
  by (auto simp: persist_def split: sum.splits)

lemma Submit_refused:
  assumes "Submit v o0 b = (Err y, ord, b')"
  shows "if \<exists>x. y = NotSaved x then Submit (saving v) o0 b = (Ok (), ord, b') else b' = b"
proof (cases "persist v b'")
  case (Inl z)
  then show ?thesis
    using assms persist_Err [OF Inl] by (auto simp: Submit_def Let_def split: prod.splits sum.splits if_splits)
next
  case (Inr u)
  then show ?thesis using assms by (auto simp: Submit_def Let_def split: prod.splits sum.splits if_splits)
qed

lemma Cancel_refused:
  assumes "Cancel v j t b = (Err y, b')"
  shows "if \<exists>x. y = NotSaved x then \<exists>ord. Cancel (saving v) j t b = (Ok ord, b') else b' = b"
proof (cases "persist v b'")
  case (Inl z)
  then show ?thesis
    using assms persist_Err [OF Inl] by (auto simp: Cancel_def Let_def split: option.splits if_splits)
next
  case (Inr u)
  then show ?thesis using assms by (auto simp: Cancel_def Let_def split: option.splits if_splits)
qed

lemma Replace_refused:
  assumes "arena_Replace v j x n q t b = (Err y, b')"
  shows "if \<exists>z. y = NotSaved z then \<exists>ord. arena_Replace (saving v) j x n q t b = (Ok ord, b') else b' = b"
proof (cases "persist v b'")
  case (Inl z)
  then show ?thesis
    using assms persist_Err [OF Inl]
    by (auto simp: arena_Replace_def Let_def split: option.splits if_splits prod.splits sum.splits)
next
  case (Inr u)
  then show ?thesis
    using assms by (auto simp: arena_Replace_def Let_def split: option.splits if_splits prod.splits sum.splits)
qed

text \<open>The three calls that may change a book.\<close>

datatype tool_call = PlaceCall orderArgs | CancelCall string | MoveCall replaceArgs

fun call_book :: "arena_config \<Rightarrow> arena_env \<Rightarrow> market \<Rightarrow> tool_call \<Rightarrow> Book \<Rightarrow> (refusal, AOrder) result \<times> Book" where
  "call_book g v mk (PlaceCall a) b = placeOrder g v mk a b"
| "call_book g v mk (CancelCall i) b = cancelOrder v mk i b"
| "call_book g v mk (MoveCall r) b = replaceOrder v mk r b"

definition not_saved :: "refusal \<Rightarrow> bool" where
  "not_saved e \<longleftrightarrow> (\<exists>x. e = BookRefused (NotSaved x))"

lemma placeOrder_refused:
  assumes "placeOrder g v mk a b = (Err e, b')"
  shows "if not_saved e then \<exists>ord. placeOrder g (saving v) mk a b = (Ok ord, b') else b' = b"
proof -
  have "if not_saved e then Submit (saving v) o0 b = (Ok (), ord, b') else b' = b"
    if "Submit v o0 b = (Err y, ord, b')" "e = BookRefused y" for o0 ord y
    using Submit_refused [OF that(1)] that(2) by (simp add: not_saved_def)
  then show ?thesis
    using assms
    by (auto simp: placeOrder_def stated_limit_def order_limit_def read_price_def not_saved_def
        split: sum.splits option.splits list.splits prod.splits if_splits parsed.splits) 
qed

lemma cancelOrder_refused:
  assumes "cancelOrder v mk i b = (Err e, b')"
  shows "if not_saved e then \<exists>ord. cancelOrder (saving v) mk i b = (Ok ord, b') else b' = b"
  using assms Cancel_refused [of v "TrimSpace i" "now_or_wall mk" b]
  by (fastforce simp: cancelOrder_def not_saved_def split: sum.splits prod.splits)

lemma read_price_refused: "read_price raw = Err e \<Longrightarrow> \<not> not_saved e"
  by (auto simp: read_price_def not_saved_def split: parsed.splits)

lemma replaceOrder_refused:
  assumes "replaceOrder v mk r b = (Err e, b')"
  shows "if not_saved e then \<exists>ord. replaceOrder (saving v) mk r b = (Ok ord, b') else b' = b"
proof (cases "\<exists>was limit qty. ByID (TrimSpace (r_OrderID r)) b = Some was \<and>
    (if TrimSpace (r_LimitPrice r) = [] then Ok (ao_Limit was) else read_price (r_LimitPrice r)) = Ok limit \<and>
    (if TrimSpace (r_Qty r) = [] then Ok 0 else parseCount (TrimSpace (r_Qty r))) = Ok qty \<and>
    (case name_taken (r_ClientOrderID r) b of
       None \<Rightarrow> None | Some other \<Rightarrow> if ao_ID other \<noteq> ao_ID was then Some other else None) = None")
  case True
  then obtain was limit qty where here:
    "ByID (TrimSpace (r_OrderID r)) b = Some was"
    "(if TrimSpace (r_LimitPrice r) = [] then Ok (ao_Limit was) else read_price (r_LimitPrice r)) = Ok limit"
    "(if TrimSpace (r_Qty r) = [] then Ok 0 else parseCount (TrimSpace (r_Qty r))) = Ok qty"
    "(case name_taken (r_ClientOrderID r) b of
       None \<Rightarrow> None | Some other \<Rightarrow> if ao_ID other \<noteq> ao_ID was then Some other else None) = None"
    by blast
  have run: "replaceOrder w mk r b =
      (case arena_Replace w (ao_ID was) limit (r_ClientOrderID r) qty (now_or_wall mk) b of
         (Err e, b) \<Rightarrow> (Err (BookRefused e), b) | (Ok ord, b) \<Rightarrow> (Ok ord, b))" for w
    unfolding replaceOrder_def by (simp only: here option.case sum.case)
  obtain y where "arena_Replace v (ao_ID was) limit (r_ClientOrderID r) qty (now_or_wall mk) b = (Err y, b')"
    "e = BookRefused y"
    using assms unfolding run by (auto split: prod.splits sum.splits)
  then show ?thesis
    using Replace_refused [of v "ao_ID was" limit "r_ClientOrderID r" qty "now_or_wall mk" b y b']
    by (auto simp: run not_saved_def split: if_splits)
next
  case False
  then have "\<not> not_saved e \<and> b' = b"
    using assms read_price_refused unfolding replaceOrder_def
    by (auto simp: not_saved_def split: sum.splits option.splits if_splits)
  then show ?thesis by simp
qed

text \<open>C32. A call that is refused changes nothing: placing, cancelling or moving an order and answering
  an error leaves the book as it was, but for one case. When the change was made and the store did
  not take it the answer is an error too, and the book in memory is the one the call would have
  left, with an answer of success, had the store taken it.\<close>

theorem refused_calls_change_nothing:
  assumes "call_book g v mk c b = (Err e, b')"
  shows "if not_saved e then \<exists>ord. call_book g (saving v) mk c b = (Ok ord, b') else b' = b"
  using assms placeOrder_refused cancelOrder_refused replaceOrder_refused by (cases c) simp_all

end
