(* ===== verification/ArenaPass.thy ===== *)
theory ArenaPass
  imports ArenaCover
begin

text \<open>
  One pass of the matcher. Each fill is at a price the order allows and against quotes that are
  fresh and not crossed; all the fills of a pass together take no more of a contract than the
  market showed; a closed market fills nothing; and a day order does not outlive its session.
\<close>

subsection \<open>The price of a set\<close>

text \<open>A leg's quote may be traded against: present, stamped and fresh unless the age is ignored, not
  crossed, and with a price on the leg's side.\<close>

definition tradable :: "quotes \<Rightarrow> time \<Rightarrow> duration \<Rightarrow> bool \<Rightarrow> ALeg \<Rightarrow> bool" where
  "tradable quotes now maxAge ignoreAge leg \<longleftrightarrow>
     (case map_of quotes (al_Symbol leg) of
        None \<Rightarrow> False
      | Some q \<Rightarrow>
          (ignoreAge \<or> aq_At q \<noteq> 0 \<and> now - aq_At q \<le> maxAge) \<and>
          \<not> (aq_Bid q > 0 \<and> aq_Ask q > 0 \<and> aq_Bid q > aq_Ask q) \<and>
          0 < fst (quote_side q (al_Side leg = ''buy'')))"

definition size_for :: "quotes \<Rightarrow> shown \<Rightarrow> ALeg \<Rightarrow> int" where
  "size_for quotes shown leg = (case shown (shown_key leg) of
     Some have \<Rightarrow> have
   | None \<Rightarrow> (case map_of quotes (al_Symbol leg) of None \<Rightarrow> 0 | Some q \<Rightarrow> snd (quote_side q (al_Side leg = ''buy''))))"

lemma exec_leg_Ok:
  assumes "exec_leg quotes shown now maxAge ignoreAge leg x = Ok x'"
  shows "tradable quotes now maxAge ignoreAge leg"
    and "of_sets x' = (let fits = go_div (size_for quotes shown leg) (al_Ratio leg)
                      in if of_sets x < 0 \<or> fits < of_sets x then fits else of_sets x)"
  using assms
  by (auto simp: exec_leg_def tradable_def size_for_def Let_def not_le split: option.splits if_splits prod.splits)

lemma exec_legs_Ok:
  assumes "exec_legs quotes shown now maxAge ignoreAge legs x = Ok x'"
    and "list_all (\<lambda>leg. 1 \<le> al_Ratio leg \<and> 0 \<le> size_for quotes shown leg) legs"
  shows "list_all (tradable quotes now maxAge ignoreAge) legs \<and>
    list_all (\<lambda>leg. of_sets x' * al_Ratio leg \<le> size_for quotes shown leg) legs \<and>
    (of_sets x \<ge> 0 \<longrightarrow> of_sets x' \<le> of_sets x) \<and> 0 \<le> of_sets x'"
  using assms
proof (induction legs arbitrary: x)
  case (Cons leg legs)
  then obtain y where y: "exec_leg quotes shown now maxAge ignoreAge leg x = Ok y"
    "exec_legs quotes shown now maxAge ignoreAge legs y = Ok x'"
    by (auto split: sum.splits)
  have r: "1 \<le> al_Ratio leg" "0 \<le> size_for quotes shown leg" using Cons.prems(2) by simp_all
  define fits where "fits = go_div (size_for quotes shown leg) (al_Ratio leg)"
  have quot: "fits = size_for quotes shown leg div al_Ratio leg" using r by (simp add: fits_def go_div_nonneg)
  have fits: "0 \<le> fits" "fits * al_Ratio leg \<le> size_for quotes shown leg"
    using r div_mult_mod_eq [of "size_for quotes shown leg" "al_Ratio leg"]
      pos_mod_sign [of "al_Ratio leg" "size_for quotes shown leg"]
    unfolding quot by (simp add: pos_imp_zdiv_nonneg_iff, linarith)
  have ysets: "of_sets y = (if of_sets x < 0 \<or> fits < of_sets x then fits else of_sets x)"
    using exec_leg_Ok(2) [OF y(1)] by (simp add: fits_def Let_def)
  have ih: "list_all (tradable quotes now maxAge ignoreAge) legs"
    "list_all (\<lambda>leg. of_sets x' * al_Ratio leg \<le> size_for quotes shown leg) legs"
    "of_sets y \<ge> 0 \<longrightarrow> of_sets x' \<le> of_sets y" "0 \<le> of_sets x'"
    using Cons.IH [OF y(2)] Cons.prems(2) by simp_all
  have "0 \<le> of_sets y" "of_sets y \<le> fits" using fits(1) by (simp_all add: ysets)
  then have le: "of_sets x' \<le> fits" "of_sets x' \<le> of_sets y" using ih(3) by auto
  have "of_sets x' * al_Ratio leg \<le> fits * al_Ratio leg" using le(1) r(1) by (intro mult_right_mono) auto
  then show ?case using fits(2) ih exec_leg_Ok(1) [OF y(1)] le(2) by (auto simp: ysets split: if_splits)
qed (auto split: if_splits)

lemma executable_Ok:
  assumes "executable legs quotes shown now maxAge ignoreAge = Ok x"
    and "list_all (\<lambda>leg. 1 \<le> al_Ratio leg \<and> 0 \<le> size_for quotes shown leg) legs"
  shows "list_all (tradable quotes now maxAge ignoreAge) legs"
    and "list_all (\<lambda>leg. of_sets x * al_Ratio leg \<le> size_for quotes shown leg) legs"
  using exec_legs_Ok [OF assms(1) [unfolded executable_def] assms(2)] by auto

subsection \<open>What one order takes\<close>

definition legs_take :: "ALeg list \<Rightarrow> int \<Rightarrow> string \<Rightarrow> int" where
  "legs_take legs sets k = (\<Sum>leg \<leftarrow> legs. if shown_key leg = k then al_Ratio leg * sets else 0)"

lemma taken_from_fold:
  "(case foldl (taken_from sets) shown legs k of None \<Rightarrow> 0 | Some n \<Rightarrow> n) =
     (case shown k of None \<Rightarrow> 0 | Some n \<Rightarrow> n) - legs_take legs sets k"
  by (induction legs arbitrary: shown) (auto simp: taken_from_def legs_take_def split: option.splits)

lemma taken_from_dom: "shown k \<noteq> None \<Longrightarrow> foldl (taken_from sets) shown legs k \<noteq> None"
  by (rule foldl_invariant [where P = "\<lambda>m. m k \<noteq> None"]) (auto simp: taken_from_def)

definition event_take :: "(string \<rightharpoonup> AOrder) \<Rightarrow> string \<Rightarrow> Event \<Rightarrow> int" where
  "event_take orders k e =
     (if ev_Kind e = ''fill'' \<and> ev_Filled e
      then (case orders (ev_OrderID e) of None \<Rightarrow> 0 | Some ord \<Rightarrow> legs_take (ao_Legs ord) (ev_Sets e) k) else 0)"

definition new_events :: "Book \<Rightarrow> Book \<Rightarrow> Event list" where
  "new_events b b' = drop (length (b_Events b)) (b_Events b')"

text \<open>A fill in order: at a price the order allows.\<close>

definition fair_fill :: "(string \<rightharpoonup> AOrder) \<Rightarrow> Event \<Rightarrow> bool" where
  "fair_fill orders e \<longleftrightarrow> (ev_Kind e = ''fill'' \<and> ev_Filled e \<longrightarrow>
     (\<exists>ord. orders (ev_OrderID e) = Some ord \<and> 1 \<le> ev_Sets e \<and>
        (ao_Market ord \<or> \<not> fl_less (fl_plus (ao_Limit ord) (lit (1 / 10 ^ 9))) (Fin (ev_Price e)))))"

lemma distinct_take:
  assumes "distinct (map shown_key legs)" "leg \<in> set legs"
  shows "legs_take legs sets (shown_key leg) = al_Ratio leg * sets"
  using assms
proof (induction legs)
  case (Cons l legs)
  have "legs_take legs sets k = 0" if "k \<notin> shown_key ` set legs" for k
    using that by (induction legs) (auto simp: legs_take_def)
  then show ?case using Cons by (auto simp: legs_take_def)
qed simp

lemma other_take: "k \<notin> shown_key ` set legs \<Longrightarrow> legs_take legs sets k = 0"
  by (induction legs) (auto simp: legs_take_def)

text \<open>The order of the queue is a copy; the book's own order has gone on from it.\<close>

definition copy_of :: "Book \<Rightarrow> AOrder \<Rightarrow> bool" where
  "copy_of b ord \<longleftrightarrow> (\<exists>now. map_of (b_Orders b) (ao_ID ord) = Some now \<and> continues ord now)"

lemma copy_later: "change b b' \<Longrightarrow> copy_of b ord \<Longrightarrow> copy_of b' ord"
  unfolding copy_of_def using change_continues continues_trans by blast

lemma copy_changes: "changes b b' \<Longrightarrow> copy_of b ord \<Longrightarrow> copy_of b' ord"
  by (induction rule: rtranclp_induct) (auto intro: copy_later)

lemma Note_events [simp]: "b_Events (Note i why b) = b_Events b"
  by (simp add: Note_def split: option.split)

lemma MarkStand_events [simp]: "b_Events (MarkStand i b) = b_Events b"
  by (simp add: MarkStand_def split: option.split)

definition saves :: "arena_env \<Rightarrow> bool" where
  "saves v \<longleftrightarrow> (\<forall>b. v_save v b = Ok ())"

lemma saves_persist: "saves v \<Longrightarrow> persist v b = Ok ()"
  by (simp add: saves_def persist_def)

lemma Fill_saved:
  assumes "book_wf b" "saves v" "Fill v i sets x px now b = (r, b')"
  obtains (failed) y where "r = Err y" "b_Events b' = b_Events b"
    | (turned) e where "r = Ok e" "\<not> ev_Filled e" "b_Events b' = b_Events b @ [e]"
    | (traded) e ord where "r = Ok e" "map_of (b_Orders b) i = Some ord" "1 \<le> sets"
        "b_Events b' = b_Events b @ [fill_event i sets x (fill_fees ord sets) True NoReason now]"
proof (cases "map_of (b_Orders b) i")
  case None
  then show ?thesis using assms(3) failed by (auto simp: Fill_def)
next
  case (Some ord)
  have id: "ao_ID ord = i" using book_wfD [OF assms(1) Some] by simp
  show ?thesis
  proof (cases "ord_open ord \<and> 1 \<le> sets \<and> sets \<le> remaining ord")
    case False
    then show ?thesis using assms(3) failed Some by (auto simp: Fill_def split: if_splits)
  next
    case True
    show ?thesis
    proof (cases "Requirement (v_groups v) (project v b (ao_Legs ord) sets)")
      case (Inl e)
      then show ?thesis using failed assms(3) True by (auto simp: Fill_def Some not_less)
    next
      case need: (Inr need)
      show ?thesis
      proof (cases "lacks need (Fin (fill_cash b ord sets x))")
        case lack: True
        let ?why = "NotEnough (shortfall v (project v b (ao_Legs ord) sets) need (Fin (fill_cash b ord sets x)))"
        show ?thesis
          by (rule turned [of "fill_event i sets x 0 False ?why now"])
            (use assms(3) True need lack in
              \<open>auto simp: Fill_def Some not_less Let_def fill_cash_def fill_fees_def fill_event_def no_event_def
                 saves_persist [OF assms(2)]\<close>)
      next
        case False
        show ?thesis
          by (rule traded [of "fill_event i sets x (fill_fees ord sets) True NoReason now" ord])
            (use assms(3) True need False Some in
              \<open>auto simp: Fill_def not_less Let_def fill_cash_def fill_fees_def fill_event_def no_event_def
                 saves_persist [OF assms(2)]\<close>)
      qed
    qed
  qed
qed

lemma fill_result:
  assumes "book_wf b" "saves v" "fill g v ord quotes now (b, shown) = (b', shown')"
  obtains (idle) "b_Events b' = b_Events b" "shown' = shown"
    | (tried) x sets es where
        "executable (ao_Legs ord) quotes shown now (g_maxQuoteAge g) (g_ignoreSession g) = Ok x"
        "ao_Market ord \<or> \<not> fl_less (fl_plus (ao_Limit ord) (lit (1 / 10 ^ 9))) (Fin (of_price x))" "1 \<le> sets" "sets \<le> of_sets x"
        "shown' = foldl (taken_from sets) shown (ao_Legs ord)" "b_Events b' = b_Events b @ es"
        "(\<exists>e. es = [e] \<and> \<not> ev_Filled e) \<or>
         (\<exists>fees. es = [fill_event (ao_ID ord) sets (of_price x) fees True NoReason now])"
proof (cases "executable (ao_Legs ord) quotes shown now (g_maxQuoteAge g) (g_ignoreSession g)")
  case (Inl why)
  then show ?thesis using assms(3) idle by (auto simp: fill_def)
next
  case ex: (Inr x)
  define sets where "sets = (if of_sets x > remaining ord then remaining ord else of_sets x)"
  show ?thesis
  proof (cases "(\<not> ao_Market ord \<and> fl_less (fl_plus (ao_Limit ord) (lit (1 / 10 ^ 9))) (Fin (of_price x))) \<or> sets < 1")
    case True
    then show ?thesis using assms(3) idle by (auto simp: fill_def ex Let_def sets_def split: if_splits)
  next
    case False
    obtain r b1 where F: "Fill v (ao_ID ord) sets (of_price x) (of_legs x) now b = (r, b1)"
      by (cases "Fill v (ao_ID ord) sets (of_price x) (of_legs x) now b")
    have run: "(b', shown') = (case r of Err e \<Rightarrow> (b1, shown)
      | Ok e \<Rightarrow> (if g_ignoreSession g then MarkStand (ao_ID ord) b1 else b1, foldl (taken_from sets) shown (ao_Legs ord)))"
      using assms(3) False F by (auto simp: fill_def ex Let_def simp flip: sets_def split: sum.splits)
    have ok: "ao_Market ord \<or> \<not> fl_less (fl_plus (ao_Limit ord) (lit (1 / 10 ^ 9))) (Fin (of_price x))" "1 \<le> sets" "sets \<le> of_sets x"
      using False by (auto simp: not_less sets_def split: if_splits)
    from assms(1,2) F show ?thesis
    proof (cases rule: Fill_saved)
      case (failed y)
      then show ?thesis using run idle by simp
    next
      case (turned e)
      then show ?thesis using run by (intro tried [OF ex ok]) (auto split: if_splits)
    next
      case (traded e o1)
      then show ?thesis using run by (intro tried [OF ex ok]) (auto split: if_splits)
    qed
  qed
qed

subsection \<open>What a whole pass takes\<close>

abbreviation count :: "shown \<Rightarrow> string \<Rightarrow> int" where
  "count shown k \<equiv> (case shown k of None \<Rightarrow> 0 | Some n \<Rightarrow> n)"

definition sizes_ok :: "quotes \<Rightarrow> bool" where
  "sizes_ok quotes \<longleftrightarrow> list_all (\<lambda>(s, q). 0 \<le> aq_BidSize q \<and> 0 \<le> aq_AskSize q) quotes"

text \<open>The sizes left: none below nought, and one for either side of every quoted contract.\<close>

definition shown_ok :: "quotes \<Rightarrow> shown \<Rightarrow> bool" where
  "shown_ok quotes shown \<longleftrightarrow> (\<forall>k. 0 \<le> count shown k) \<and>
     (\<forall>s. map_of quotes s \<noteq> None \<longrightarrow> shown (s @ ''|buy'') \<noteq> None \<and> shown (s @ ''|sell'') \<noteq> None)"

lemma shown_at_first_ok:
  assumes "sizes_ok quotes"
  shows "shown_ok quotes (shown_at_first quotes)"
proof -
  let ?f = "\<lambda>shown (symbol, q). shown(symbol @ ''|buy'' \<mapsto> aq_AskSize q, symbol @ ''|sell'' \<mapsto> aq_BidSize q)"
  have low: "0 \<le> count (foldl ?f m qs) k" if "\<forall>k. 0 \<le> count m k" "sizes_ok qs" for m qs k
    using that
  proof (induction qs arbitrary: m)
    case (Cons sq qs)
    then have "\<forall>k. 0 \<le> count (?f m sq) k" "sizes_ok qs" by (cases sq, auto simp: sizes_ok_def)+
    then show ?case unfolding foldl_Cons by (rule Cons.IH)
  qed simp
  have both: "foldl ?f m qs (s @ ''|buy'') \<noteq> None \<and> foldl ?f m qs (s @ ''|sell'') \<noteq> None"
    if "s \<in> fst ` set qs \<or> m (s @ ''|buy'') \<noteq> None \<and> m (s @ ''|sell'') \<noteq> None" for m qs s
    using that
  proof (induction qs arbitrary: m)
    case (Cons sq qs)
    then have "s \<in> fst ` set qs \<or> ?f m sq (s @ ''|buy'') \<noteq> None \<and> ?f m sq (s @ ''|sell'') \<noteq> None"
      by (cases sq) auto
    then show ?case unfolding foldl_Cons by (rule Cons.IH)
  qed simp
  show ?thesis
    unfolding shown_ok_def shown_at_first_def
  proof (intro conjI allI impI)
    show "0 \<le> count (foldl ?f Map.empty quotes) k" for k by (rule low [OF _ assms]) simp
    fix s
    assume "map_of quotes s \<noteq> None"
    then have "s \<in> fst ` set quotes" by (simp add: map_of_eq_None_iff)
    then show "foldl ?f Map.empty quotes (s @ ''|buy'') \<noteq> None" "foldl ?f Map.empty quotes (s @ ''|sell'') \<noteq> None"
      using both [of s quotes Map.empty] by blast+
  qed
qed

lemma shown_key_sides:
  "al_Side leg = ''buy'' \<or> al_Side leg = ''sell'' \<Longrightarrow>
     shown_key leg = al_Symbol leg @ ''|buy'' \<or> shown_key leg = al_Symbol leg @ ''|sell''"
  by (auto simp: shown_key_def)

lemma size_for_shown:
  assumes "shown_ok quotes shown" "tradable quotes now maxAge ia leg" "al_Side leg = ''buy'' \<or> al_Side leg = ''sell''"
  shows "size_for quotes shown leg = count shown (shown_key leg)" "shown (shown_key leg) \<noteq> None"
proof -
  have "map_of quotes (al_Symbol leg) \<noteq> None" using assms(2) by (auto simp: tradable_def split: option.splits)
  then show ne: "shown (shown_key leg) \<noteq> None"
    using assms(1) shown_key_sides [OF assms(3)] by (auto simp: shown_ok_def)
  then show "size_for quotes shown leg = count shown (shown_key leg)" by (auto simp: size_for_def)
qed

lemma size_for_nonneg:
  assumes "shown_ok quotes shown" "sizes_ok quotes"
  shows "0 \<le> size_for quotes shown leg"
proof (cases "shown (shown_key leg)")
  case None
  then show ?thesis
    using assms(2) by (auto simp: size_for_def sizes_ok_def list_all_iff quote_side_def
        split: option.split dest!: map_of_SomeD)
next
  case (Some n)
  then show ?thesis using assms(1) by (auto simp: size_for_def shown_ok_def) (metis option.simps(5))
qed

lemma take_leaves_shown_ok:
  assumes "shown_ok quotes shown" "list_all (tradable quotes now maxAge ia) legs"
    "list_all (\<lambda>leg. sets * al_Ratio leg \<le> size_for quotes shown leg) legs" "legs_ok legs"
    "distinct (map shown_key legs)"
  shows "shown_ok quotes (foldl (taken_from sets) shown legs)"
proof -
  have "0 \<le> count (foldl (taken_from sets) shown legs) k" for k
  proof (cases "k \<in> shown_key ` set legs")
    case True
    then obtain leg where leg: "leg \<in> set legs" "k = shown_key leg" by auto
    then have "sets * al_Ratio leg \<le> count shown k"
      using assms(2-4) size_for_shown(1) [OF assms(1), of now maxAge ia leg]
      by (auto simp: list_all_iff legs_ok_def)
    then show ?thesis
      using distinct_take [OF assms(5) leg(1), of sets] leg(2) by (simp add: taken_from_fold mult.commute)
  next
    case False
    then show ?thesis using assms(1) by (simp add: taken_from_fold other_take shown_ok_def)
  qed
  then show ?thesis using assms(1) taken_from_dom by (simp add: shown_ok_def)
qed

definition book_took :: "Book \<Rightarrow> Book \<Rightarrow> string \<Rightarrow> int" where
  "book_took b b' k = (\<Sum>e \<leftarrow> new_events b b'. event_take (map_of (b_Orders b')) k e)"

definition goes_on :: "Book \<Rightarrow> Book \<Rightarrow> bool" where
  "goes_on b b' \<longleftrightarrow> changes b b' \<and> (\<exists>es. b_Events b' = b_Events b @ es) \<and>
     list_all (fair_fill (map_of (b_Orders b'))) (new_events b b')"

lemma goes_on_refl [simp]: "goes_on b b"
  by (simp add: goes_on_def new_events_def)

lemma fair_later:
  assumes "changes c c'" "list_all (fair_fill (map_of (b_Orders c))) es"
  shows "list_all (fair_fill (map_of (b_Orders c'))) es"
    and "(\<Sum>e \<leftarrow> es. event_take (map_of (b_Orders c')) k e) = (\<Sum>e \<leftarrow> es. event_take (map_of (b_Orders c)) k e)"
proof -
  have later: "\<exists>now. map_of (b_Orders c') i = Some now \<and> continues ord now" if "map_of (b_Orders c) i = Some ord" for i ord
    by (rule changes_continue [OF assms(1) that])
  have "fair_fill (map_of (b_Orders c')) e" if "fair_fill (map_of (b_Orders c)) e" for e
    using that later unfolding fair_fill_def continues_def by metis
  then show "list_all (fair_fill (map_of (b_Orders c'))) es" using assms(2) by (simp add: list_all_iff)
  have "event_take (map_of (b_Orders c')) k e = event_take (map_of (b_Orders c)) k e"
    if fair: "fair_fill (map_of (b_Orders c)) e" for e
  proof (cases "ev_Kind e = ''fill'' \<and> ev_Filled e")
    case True
    then obtain ord where o: "map_of (b_Orders c) (ev_OrderID e) = Some ord" using fair by (auto simp: fair_fill_def)
    then show ?thesis using later [OF o] by (auto simp: event_take_def continues_def)
  qed (auto simp: event_take_def)
  then show "(\<Sum>e \<leftarrow> es. event_take (map_of (b_Orders c')) k e) = (\<Sum>e \<leftarrow> es. event_take (map_of (b_Orders c)) k e)"
    using assms(2) by (intro arg_cong [where f = sum_list] map_cong) (auto simp: list_all_iff)
qed

lemma fill_goes_on:
  assumes "goes_on b c" "book_wf c" "copy_of c ord" "saves v" "shown_ok quotes shown" "sizes_ok quotes"
    "distinct (map shown_key (ao_Legs ord))" "fill g v ord quotes now (c, shown) = (c', shown')"
  shows "goes_on b c'" "shown_ok quotes shown'" "book_took b c' k + count shown' k \<le> book_took b c k + count shown k"
proof -
  have ch: "changes c c'" using fill_changes [OF assms(2), of g v ord quotes now shown] by (simp add: assms(8))
  have bc: "changes b c'" using assms(1) ch changes_trans by (auto simp: goes_on_def)
  obtain es0 where es0: "b_Events c = b_Events b @ es0" "new_events b c = es0"
    "list_all (fair_fill (map_of (b_Orders c))) es0"
    using assms(1) by (auto simp: goes_on_def new_events_def)
  note later = fair_later [OF ch es0(3)]
  obtain cur where cur: "map_of (b_Orders c') (ao_ID ord) = Some cur" "continues ord cur"
    using copy_changes [OF ch assms(3)] by (auto simp: copy_of_def)
  have wf': "order_wf cur" using book_wfD [OF changes_wf [OF ch assms(2)] cur(1)] by simp
  have legs: "legs_ok (ao_Legs ord)" using cur(2) order_wf_legs [OF wf'] by (simp add: continues_def)
  have "goes_on b c' \<and> shown_ok quotes shown' \<and> book_took b c' k + count shown' k \<le> book_took b c k + count shown k"
    using assms(2,4,8)
  proof (cases rule: fill_result)
    case idle
    then show ?thesis
      using es0 later bc assms(5) by (simp add: goes_on_def new_events_def book_took_def)
  next
    case (tried x sets es)
    have "list_all (\<lambda>leg. 1 \<le> al_Ratio leg \<and> 0 \<le> size_for quotes shown leg) (ao_Legs ord)"
      using legs size_for_nonneg [OF assms(5,6)] by (auto simp: legs_ok_def list_all_iff)
    note ex = executable_Ok [OF tried(1) this]
    have "list_all (\<lambda>leg. sets * al_Ratio leg \<le> size_for quotes shown leg) (ao_Legs ord)"
      unfolding list_all_iff
    proof
      fix leg
      assume l: "leg \<in> set (ao_Legs ord)"
      have "sets * al_Ratio leg \<le> of_sets x * al_Ratio leg"
        using tried(4) legs l by (intro mult_right_mono) (auto simp: legs_ok_def list_all_iff)
      then show "sets * al_Ratio leg \<le> size_for quotes shown leg" using ex(2) l by (auto simp: list_all_iff)
    qed
    then have ok: "shown_ok quotes shown'"
      unfolding tried(5) by (rule take_leaves_shown_ok [OF assms(5) ex(1) _ legs assms(7)])
    have "0 \<le> al_Ratio leg * sets" if "leg \<in> set (ao_Legs ord)" for leg
      using legs tried(3) that by (intro mult_nonneg_nonneg) (auto simp: legs_ok_def list_all_iff)
    then have take: "legs_take (ao_Legs ord) sets k \<ge> 0" for k
      unfolding legs_take_def by (intro sum_list_nonneg) auto
    have es: "list_all (fair_fill (map_of (b_Orders c'))) es"
      "(\<Sum>e \<leftarrow> es. event_take (map_of (b_Orders c')) k e) \<le> legs_take (ao_Legs ord) sets k"
      using tried(2,3,7) cur take [of k]
      by (auto simp: fair_fill_def event_take_def fill_event_def no_event_def continues_def)
    have n: "new_events b c' = es0 @ es" by (simp add: new_events_def tried(6) es0(1))
    show ?thesis
      using ok es later bc es0 tried(6)
      by (simp add: goes_on_def n book_took_def tried(5) taken_from_fold)
  qed
  then show "goes_on b c'" "shown_ok quotes shown'" "book_took b c' k + count shown' k \<le> book_took b c k + count shown k"
    by auto
qed

subsection \<open>Expiry adds no order and fills none\<close>

lemma b_order_keeps [simp]:
  "b_order (Note i why b) = b_order b" "b_order (MarkStand i b) = b_order b"
  "b_order (snd (ExpireDay now b)) = b_order b" "b_order (snd (Settle v s x now b)) = b_order b"
  "b_order (mark_close v mk now b) = b_order b"
proof -
  have "b_order (fst (foldl (expire_one now) (b, []) is)) = b_order b" for "is"
    by (rule foldl_invariant [where P = "\<lambda>st. b_order (fst st) = b_order b"])
      (auto simp: expire_one_def Let_def split: prod.split option.split)
  then show "b_order (snd (ExpireDay now b)) = b_order b" by (simp add: ExpireDay_def case_prod_unfold)
  show "b_order (snd (Settle v s x now b)) = b_order b"
    using settled_by_simps(2) by (force simp: Settle_def Let_def split: option.split sum.split prod.split)
qed (auto simp: Note_def MarkStand_def mark_close_def MarkClose_def Let_def split: option.split prod.split sum.split)

text \<open>The journal grows, and by no fill.\<close>

definition quiet :: "Book \<Rightarrow> Book \<Rightarrow> bool" where
  "quiet b b' \<longleftrightarrow> (\<exists>es. b_Events b' = b_Events b @ es \<and> list_all (\<lambda>e. ev_Kind e \<noteq> ''fill'') es)"

lemma quiet_refl [simp]: "quiet b b"
  by (simp add: quiet_def)

lemma quiet_trans: "quiet a b \<Longrightarrow> quiet b c \<Longrightarrow> quiet a c"
  by (auto simp: quiet_def)

lemma quiet_same: "b_Events b' = b_Events b \<Longrightarrow> quiet b b'"
  by (simp add: quiet_def)

lemma settled_by_quiet: "settled_by s n c x now b = (e, b') \<Longrightarrow> ev_Kind e \<noteq> ''fill''"
  by (auto simp: settled_by_def no_event_def Let_def split: if_splits)

lemma Settle_quiet: "quiet b (snd (Settle v s x now b))"
proof -
  have "quiet b (log_event e b')" if "settled_by s n c x now b = (e, b')" for n c e b'
    using settled_by_quiet [OF that] settled_by_simps(4) [OF that] by (simp add: quiet_def)
  then show ?thesis by (auto simp: Settle_def Let_def split: option.split sum.split prod.split)
qed

lemma ExpireDay_quiet: "quiet b (snd (ExpireDay now b))"
proof -
  have "b_Events (fst (foldl (expire_one now) (b, []) is)) = b_Events b" for "is"
    by (rule foldl_invariant [where P = "\<lambda>st. b_Events (fst st) = b_Events b"])
      (auto simp: expire_one_def Let_def split: prod.split option.split)
  then show ?thesis by (intro quiet_same) (simp add: ExpireDay_def case_prod_unfold)
qed

definition calm :: "Book \<Rightarrow> Book \<Rightarrow> bool" where
  "calm b b' \<longleftrightarrow> changes b b' \<and> quiet b b' \<and> b_order b' = b_order b"

lemma calm_wf: "calm b c \<Longrightarrow> book_wf b \<Longrightarrow> book_wf c"
  by (rule changes_wf) (simp_all add: calm_def)

lemma calm_trans: "calm a b \<Longrightarrow> calm b c \<Longrightarrow> calm a c"
  unfolding calm_def using changes_trans quiet_trans by auto

lemma settle_calm:
  assumes "book_wf b"
  shows "calm b (snd (snd (settle v zone trades now s b)))"
proof -
  have "quiet b (snd (foldl (settle_one v prices now) (s, b) due)) \<and>
      b_order (snd (foldl (settle_one v prices now) (s, b) due)) = b_order b" for prices due
  proof (rule foldl_invariant [where P = "\<lambda>st. quiet b (snd st) \<and> b_order (snd st) = b_order b"])
    fix st :: "said \<times> Book" and x
    assume "quiet b (snd st) \<and> b_order (snd st) = b_order b"
    then show "quiet b (snd (settle_one v prices now st x)) \<and> b_order (snd (settle_one v prices now st x)) = b_order b"
      using quiet_trans [OF _ Settle_quiet] by (auto simp: settle_one_def split: prod.split option.split)
  qed simp
  then show ?thesis
    using settle_changes [OF assms, of v zone trades now s]
    by (auto simp: calm_def settle_def Let_def case_prod_unfold split: sum.split)
qed

lemma mark_close_calm: "calm b (mark_close v mk now b)"
proof -
  have "b_Events (mark_close v mk now b) = b_Events b"
    by (auto simp: mark_close_def MarkClose_def Let_def split: prod.split sum.split)
  then show ?thesis using mark_close_changes by (simp add: calm_def quiet_same)
qed

lemma ExpireDay_calm: "book_wf b \<Longrightarrow> calm b (snd (ExpireDay now b))"
  by (simp add: calm_def ExpireDay_changes ExpireDay_quiet)

text \<open>What is left of a book by the first half of a pass.\<close>

lemma after_expiry_nth:
  assumes "i < length bs"
  shows "\<exists>s' b. after_expiry v mk clock s bs ! i =
    (if k_IsOpen clock then b else mark_close v mk (k_Now clock) b) \<and>
    b = snd (snd (settle v (mk_zone mk) (mk_lastTrades mk) (k_Now clock) s' (snd (ExpireDay (k_Now clock) (bs ! i)))))"
  and "length (after_expiry v mk clock s bs) = length bs"
proof -
  let ?one = "\<lambda>s' b. snd (snd (settle v (mk_zone mk) (mk_lastTrades mk) (k_Now clock) s' (snd (ExpireDay (k_Now clock) b))))"
  have "\<exists>f. snd (foldl (expire_and_settle v mk (k_Now clock)) (s, acc) xs) = acc @ map2 ?one f xs \<and> length f = length xs" for xs acc
  proof (induction xs arbitrary: s acc)
    case (Cons x xs)
    have "\<exists>s1. expire_and_settle v mk (k_Now clock) (s, acc) x = (s1, acc @ [?one s x])"
      by (simp add: expire_and_settle_def Let_def case_prod_unfold)
    then obtain s1 where s1: "expire_and_settle v mk (k_Now clock) (s, acc) x = (s1, acc @ [?one s x])" by blast
    from Cons.IH [of s1 "acc @ [?one s x]"] obtain f where
      "snd (foldl (expire_and_settle v mk (k_Now clock)) (s1, acc @ [?one s x]) xs) = (acc @ [?one s x]) @ map2 ?one f xs"
      "length f = length xs" by blast
    then show ?case using s1 by (intro exI [of _ "s # f"]) simp
  qed simp
  from this [of "[]" bs] obtain f where
    "snd (foldl (expire_and_settle v mk (k_Now clock)) (s, []) bs) = map2 ?one f bs" "length f = length bs" by auto
  then show "\<exists>s' b. after_expiry v mk clock s bs ! i =
    (if k_IsOpen clock then b else mark_close v mk (k_Now clock) b) \<and> b = ?one s' (bs ! i)"
    "length (after_expiry v mk clock s bs) = length bs"
    using assms by (auto simp: after_expiry_def Let_def)
qed

lemma after_expiry_calm:
  assumes "list_all book_wf bs" "i < length bs"
  shows "calm (bs ! i) (after_expiry v mk clock s bs ! i)"
proof -
  have wf: "book_wf (bs ! i)" using assms by (simp add: list_all_length)
  have one: "calm (bs ! i) (snd (ExpireDay (k_Now clock) (bs ! i)))" by (rule ExpireDay_calm [OF wf])
  have wf1: "book_wf (snd (ExpireDay (k_Now clock) (bs ! i)))"
    by (rule changes_wf [OF ExpireDay_changes [OF wf] wf])
  obtain s' b where b: "after_expiry v mk clock s bs ! i = (if k_IsOpen clock then b else mark_close v mk (k_Now clock) b)"
    "b = snd (snd (settle v (mk_zone mk) (mk_lastTrades mk) (k_Now clock) s' (snd (ExpireDay (k_Now clock) (bs ! i)))))"
    using after_expiry_nth(1) [OF assms(2), of v mk clock s] by blast
  have "calm (bs ! i) b" using calm_trans [OF one settle_calm [OF wf1]] b(2) by simp
  then show ?thesis using calm_trans [OF _ mark_close_calm] b(1) by simp
qed

subsection \<open>Passes\<close>

lemma no_fill_takes: "list_all (\<lambda>e. ev_Kind e \<noteq> ''fill'') es \<Longrightarrow> (\<Sum>e \<leftarrow> es. event_take m k e) = 0"
  by (induction es) (simp_all add: event_take_def)

lemma calm_goes_on:
  assumes "calm b c"
  shows "goes_on b c" "book_took b c k = 0"
proof -
  obtain es where es: "b_Events c = b_Events b @ es" "list_all (\<lambda>e. ev_Kind e \<noteq> ''fill'') es"
    using assms by (auto simp: calm_def quiet_def)
  then show "book_took b c k = 0" by (simp add: book_took_def new_events_def no_fill_takes)
  show "goes_on b c" using assms es by (auto simp: goes_on_def new_events_def calm_def fair_fill_def list_all_iff)
qed

lemma no_new_orders:
  assumes "book_wf b" "changes b c" "b_order c = b_order b" "map_of (b_Orders c) i = Some new"
  shows "\<exists>old. map_of (b_Orders b) i = Some old \<and> continues old new"
proof -
  have "i \<in> set (b_order c)" using book_wf_ids [OF changes_wf [OF assms(2,1)], of i] assms(4) by simp
  then obtain old where old: "map_of (b_Orders b) i = Some old"
    using book_wf_ids [OF assms(1), of i] assms(3) by auto
  then show ?thesis using changes_continue [OF assms(2) old] assms(4) by auto
qed

lemma OpenOrders_mem:
  assumes "book_wf b"
  shows "ord \<in> set (OpenOrders b) \<longleftrightarrow> map_of (b_Orders b) (ao_ID ord) = Some ord \<and> ord_open ord"
proof -
  have "ord \<in> set (OrdersSnapshot b) \<longleftrightarrow> (\<exists>i. map_of (b_Orders b) i = Some ord)"
    using book_wf_ids [OF assms] by (auto simp: OrdersSnapshot_def set_map_filter)
  then show ?thesis using book_wfD [OF assms] by (auto simp: OpenOrders_def)
qed

lemma sum_list_update:
  assumes "i < length xs"
  shows "(\<Sum>j < length xs. f j (xs[i := y] ! j)) = (\<Sum>j < length xs. f j (xs ! j)) - f i (xs ! i) + (f i y :: int)"
proof -
  have "(\<Sum>j < length xs. f j (xs[i := y] ! j)) = f i y + (\<Sum>j \<in> {..< length xs} - {i}. f j (xs ! j))"
    using assms by (subst sum.remove [of _ i]) (auto intro!: sum.cong)
  also have "(\<Sum>j \<in> {..< length xs} - {i}. f j (xs ! j)) = (\<Sum>j < length xs. f j (xs ! j)) - f i (xs ! i)"
    using assms by (subst sum.remove [of "{..< length xs}" i]) auto
  finally show ?thesis by simp
qed

text \<open>No standing order names a contract twice on the same side.\<close>

definition one_leg_a_side :: "Book list \<Rightarrow> bool" where
  "one_leg_a_side bs \<longleftrightarrow> list_all (\<lambda>b. list_all (\<lambda>ord. distinct (map shown_key (ao_Legs ord))) (OpenOrders b)) bs"

lemma filled_all_goes_on:
  assumes "list_all book_wf bs" "length bs1 = length bs" "\<And>i. i < length bs \<Longrightarrow> calm (bs ! i) (bs1 ! i)"
    "saves v" "sizes_ok quotes" "one_leg_a_side bs1"
  shows "\<forall>i < length bs. goes_on (bs ! i) (filled_all g v quotes now bs1 ! i)"
    and "(\<Sum>i < length bs. book_took (bs ! i) (filled_all g v quotes now bs1 ! i) k) \<le> count (shown_at_first quotes) k"
proof -
  have wf: "book_wf (bs ! i)" "book_wf (bs1 ! i)" if "i < length bs" for i
    using assms(1,3) that changes_wf by (auto simp: list_all_length calm_def)
  let ?P = "\<lambda>st. length (fst st) = length bs \<and> (\<forall>i < length bs. goes_on (bs ! i) (fst st ! i) \<and> changes (bs1 ! i) (fst st ! i)) \<and>
      shown_ok quotes (snd st) \<and>
      (\<Sum>i < length bs. book_took (bs ! i) (fst st ! i) k) + count (snd st) k \<le> count (shown_at_first quotes) k"
  have "?P (foldl (fill_in g v quotes now) (bs1, shown_at_first quotes) (queue bs1))"
  proof (rule foldl_invariant)
    show "?P (bs1, shown_at_first quotes)"
      using assms(2) calm_goes_on [OF assms(3)] shown_at_first_ok [OF assms(5)] by simp
  next
    fix st :: "Book list \<times> shown" and x
    assume x: "x \<in> set (queue bs1)" and P: "?P st"
    obtain i ord where io: "x = (i, ord)" by (cases x)
    obtain cs shown where st: "st = (cs, shown)" by (cases st)
    have i: "i < length bs" "ord \<in> set (OpenOrders (bs1 ! i))"
      using x assms(2) by (simp_all add: io queue_set standing_index)
    have go: "goes_on (bs ! i) (cs ! i)" and later: "changes (bs1 ! i) (cs ! i)" using P i(1) by (simp_all add: st)
    have c: "book_wf (cs ! i)" using go wf [OF i(1)] changes_wf by (auto simp: goes_on_def)
    have "copy_of (bs1 ! i) ord" using i(2) OpenOrders_mem [OF wf(2) [OF i(1)]] by (simp add: copy_of_def)
    then have copy: "copy_of (cs ! i) ord" by (rule copy_changes [OF later])
    have dist: "distinct (map shown_key (ao_Legs ord))"
      using assms(6) i assms(2) by (auto simp: one_leg_a_side_def list_all_iff)
    obtain c' shown' where f: "fill g v ord quotes now (cs ! i, shown) = (c', shown')"
      by (cases "fill g v ord quotes now (cs ! i, shown)")
    have ok: "shown_ok quotes shown" using P by (simp add: st)
    note step = fill_goes_on [OF go c copy assms(4) ok assms(5) dist f]
    have ch: "changes (bs1 ! i) c'"
      using later fill_changes [OF c, of g v ord quotes now shown] f changes_trans by auto
    have len: "length cs = length bs" using P by (simp add: st)
    have "(\<Sum>j < length bs. book_took (bs ! j) (cs[i := c'] ! j) k) =
        (\<Sum>j < length bs. book_took (bs ! j) (cs ! j) k) - book_took (bs ! i) (cs ! i) k + book_took (bs ! i) c' k"
      using sum_list_update [of i cs "\<lambda>j y. book_took (bs ! j) y k" c'] i(1) len by simp
    then show "?P (fill_in g v quotes now st x)"
      using P step(1,2) step(3) [of k] ch i(1) len
      by (auto simp: st io fill_in_def f nth_list_update)
  qed
  then have P: "?P (foldl (fill_in g v quotes now) (bs1, shown_at_first quotes) (queue bs1))" .
  then show "\<forall>i < length bs. goes_on (bs ! i) (filled_all g v quotes now bs1 ! i)" by (simp add: filled_all_def)
  have "0 \<le> count (snd (foldl (fill_in g v quotes now) (bs1, shown_at_first quotes) (queue bs1))) k"
    using P by (simp add: shown_ok_def)
  then show "(\<Sum>i < length bs. book_took (bs ! i) (filled_all g v quotes now bs1 ! i) k) \<le> count (shown_at_first quotes) k"
    using P unfolding filled_all_def by linarith
qed

lemma noted_all_same:
  "i < length bs \<Longrightarrow> b_Events (noted_all bs ! i) = b_Events (bs ! i) \<and> b_order (noted_all bs ! i) = b_order (bs ! i)"
proof -
  assume i: "i < length bs"
  have "length (noted_all bs) = length bs \<and>
    b_Events (noted_all bs ! i) = b_Events (bs ! i) \<and> b_order (noted_all bs ! i) = b_order (bs ! i)"
    unfolding noted_all_def
  proof (rule foldl_invariant)
    fix cs :: "Book list" and x :: "nat \<times> AOrder"
    assume P: "length cs = length bs \<and> b_Events (cs ! i) = b_Events (bs ! i) \<and> b_order (cs ! i) = b_order (bs ! i)"
    obtain j ord where "x = (j, ord)" by (cases x)
    then show "length (case x of (i, ord) \<Rightarrow> cs[i := Note (ao_ID ord) WaitsForOpen (cs ! i)]) = length bs \<and>
      b_Events ((case x of (i, ord) \<Rightarrow> cs[i := Note (ao_ID ord) WaitsForOpen (cs ! i)]) ! i) = b_Events (bs ! i) \<and>
      b_order ((case x of (i, ord) \<Rightarrow> cs[i := Note (ao_ID ord) WaitsForOpen (cs ! i)]) ! i) = b_order (bs ! i)"
      using P i by (cases "i = j") simp_all
  qed simp
  then show ?thesis by simp
qed

lemma noted_all_calm:
  assumes "list_all book_wf bs" "i < length bs"
  shows "calm (bs ! i) (noted_all bs ! i)"
  using noted_all_same [OF assms(2)] noted_all_changes [OF assms(1)] assms(2)
  by (simp add: calm_def quiet_same list_all2_conv_all_nth)

text \<open>What a pass may take of a side of a contract: what the quotes show there that the market answers
  when it is asked, once, for the contracts of the orders that stand after expiry; nothing, when the
  clock or the quotes cannot be read.\<close>

definition pass_quotes :: "arena_env \<Rightarrow> market \<Rightarrow> said \<Rightarrow> Book list \<Rightarrow> quotes" where
  "pass_quotes v mk s bs = (case mk_clock mk of
     Err e \<Rightarrow> []
   | Ok clock \<Rightarrow> (case mk_optionQuotes mk (asked_for (after_expiry v mk clock s bs)) of Err e \<Rightarrow> [] | Ok quotes \<Rightarrow> quotes))"

definition shown_in_pass :: "arena_env \<Rightarrow> market \<Rightarrow> said \<Rightarrow> Book list \<Rightarrow> string \<Rightarrow> int" where
  "shown_in_pass v mk s bs k = count (shown_at_first (pass_quotes v mk s bs)) k"

definition sane_market :: "market \<Rightarrow> bool" where
  "sane_market mk \<longleftrightarrow> (\<forall>symbols quotes. mk_optionQuotes mk symbols = Ok quotes \<longrightarrow> sizes_ok quotes)"

lemma shown_in_pass_nonneg: "sane_market mk \<Longrightarrow> 0 \<le> shown_in_pass v mk s bs k"
proof -
  assume "sane_market mk"
  then have "sizes_ok (pass_quotes v mk s bs)"
    by (auto simp: pass_quotes_def sane_market_def sizes_ok_def split: sum.split)
  then show ?thesis using shown_at_first_ok by (simp add: shown_in_pass_def shown_ok_def)
qed

lemma after_expiry_legs:
  assumes "list_all book_wf bs" "one_leg_a_side bs"
  shows "one_leg_a_side (after_expiry v mk clock s bs)"
  unfolding one_leg_a_side_def list_all_length
proof (intro allI impI)
  fix i n
  let ?c = "after_expiry v mk clock s bs ! i"
  assume i: "i < length (after_expiry v mk clock s bs)" and n: "n < length (OpenOrders ?c)"
  have len: "i < length bs" using i list_all2_lengthD [OF after_expiry_changes [OF assms(1)]] by simp
  have calm: "calm (bs ! i) ?c" by (rule after_expiry_calm [OF assms(1) len])
  have wf: "book_wf (bs ! i)" using assms(1) len by (simp add: list_all_length)
  have c: "book_wf ?c" by (rule calm_wf [OF calm wf])
  let ?o = "OpenOrders ?c ! n"
  have o: "map_of (b_Orders ?c) (ao_ID ?o) = Some ?o" "ord_open ?o"
    using OpenOrders_mem [OF c, of ?o] n by (simp_all add: nth_mem)
  obtain old where old: "map_of (b_Orders (bs ! i)) (ao_ID ?o) = Some old" "continues old ?o"
    using no_new_orders [OF wf _ _ o(1)] calm by (auto simp: calm_def)
  then have "ord_open old" using o(2) by (auto simp: continues_def ord_open_def)
  moreover have "ao_ID old = ao_ID ?o" using old(2) by (simp add: continues_def)
  ultimately have "old \<in> set (OpenOrders (bs ! i))" using OpenOrders_mem [OF wf, of old] old(1) by simp
  then have "distinct (map shown_key (ao_Legs old))"
    using assms(2) len by (auto simp: one_leg_a_side_def list_all_iff)
  then show "distinct (map shown_key (ao_Legs ?o))" using old(2) by (simp add: continues_def)
qed

lemma once_goes_on:
  assumes "list_all book_wf bs" "saves v" "sane_market mk" "one_leg_a_side bs"
  shows "(\<forall>i < length bs. goes_on (bs ! i) (snd (once g v mk s bs) ! i)) \<and>
    (\<forall>k. (\<Sum>i < length bs. book_took (bs ! i) (snd (once g v mk s bs) ! i) k) \<le> shown_in_pass v mk s bs k)"
proof (rule once_cases [of mk g v s bs])
  assume "snd (once g v mk s bs) = bs"
  then show ?thesis using shown_in_pass_nonneg [OF assms(3)] by (simp add: book_took_def new_events_def)
next
  fix clock bs1
  assume clock: "mk_clock mk = Ok clock" and bs1: "bs1 = after_expiry v mk clock s bs" and last: "snd (once g v mk s bs) = bs1 \<or>
       \<not> k_IsOpen clock \<and> \<not> g_ignoreSession g \<and> snd (once g v mk s bs) = noted_all bs1 \<or>
       (k_IsOpen clock \<or> g_ignoreSession g) \<and>
         (\<exists>quotes. mk_optionQuotes mk (asked_for bs1) = Ok quotes \<and>
            snd (once g v mk s bs) = filled_all g v quotes (k_Now clock) bs1)"
  have ch: "all_change bs bs1" unfolding bs1 by (rule after_expiry_changes [OF assms(1)])
  have wf1: "list_all book_wf bs1" by (rule all_change_wf [OF ch assms(1)])
  have len: "length bs1 = length bs" using list_all2_lengthD [OF ch] by simp
  have calm: "calm (bs ! i) (bs1 ! i)" if "i < length bs" for i
    unfolding bs1 by (rule after_expiry_calm [OF assms(1) that])
  have noted: "calm (bs ! i) (noted_all bs1 ! i)" if "i < length bs" for i
    using calm_trans [OF calm [OF that] noted_all_calm [OF wf1]] that len by simp
  from last consider "snd (once g v mk s bs) = bs1" | "snd (once g v mk s bs) = noted_all bs1"
    | quotes where "mk_optionQuotes mk (asked_for bs1) = Ok quotes"
        "snd (once g v mk s bs) = filled_all g v quotes (k_Now clock) bs1"
    by blast
  then show ?thesis
  proof cases
    case 1
    then show ?thesis using calm calm_goes_on shown_in_pass_nonneg [OF assms(3)] by simp
  next
    case 2
    then show ?thesis using noted calm_goes_on shown_in_pass_nonneg [OF assms(3)] by simp
  next
    case (3 quotes)
    note q = 3(1) and run = 3(2)
    have "sizes_ok quotes" "one_leg_a_side bs1"
      using assms(3) q after_expiry_legs [OF assms(1,4)] by (auto simp: sane_market_def bs1)
    from filled_all_goes_on [OF assms(1) len calm assms(2) this] show ?thesis
      using q clock unfolding run shown_in_pass_def by (simp add: pass_quotes_def flip: bs1)
  qed
qed

text \<open>In a pass of the matcher every fill is of at least one set and at a price not above the order's
  limit, but for market orders, to the matcher's tolerance of a billionth. No price is above a limit
  that is not a number.\<close>

theorem fills_of_a_pass_keep_their_price:
  assumes "list_all book_wf bs" "saves v" "sane_market mk" "one_leg_a_side bs" "i < length bs"
    "e \<in> set (new_events (bs ! i) (snd (once g v mk s bs) ! i))" "ev_Kind e = ''fill''" "ev_Filled e"
  shows "\<exists>ord. map_of (b_Orders (snd (once g v mk s bs) ! i)) (ev_OrderID e) = Some ord \<and> 1 \<le> ev_Sets e \<and>
    (ao_Market ord \<or> \<not> fl_less (fl_plus (ao_Limit ord) (lit (1 / 10 ^ 9))) (Fin (ev_Price e)))"
  using once_goes_on [OF assms(1-4), of g s] assms(5-8)
  by (auto simp: goes_on_def list_all_iff fair_fill_def)

text \<open>C6. The market shows one size for everyone: what all the participants' fills of one pass take of a
  side of a contract is together no more than the quotes read in that pass showed there. This is so
  when every book can be saved (a fill that is booked but not saved is not taken off the size), when
  no order names a contract twice on one side (a leg is fitted without the legs before it), and when
  the quoted sizes are not below nought.\<close>

theorem a_pass_takes_no_more_than_is_shown:
  assumes "list_all book_wf bs" "saves v" "sane_market mk" "one_leg_a_side bs"
  shows "(\<Sum>i < length bs. book_took (bs ! i) (snd (once g v mk s bs) ! i) k) \<le> shown_in_pass v mk s bs k"
  using once_goes_on [OF assms, of g s] by blast

subsection \<open>A closed market, and the end of a session\<close>

text \<open>While the market is closed the matcher fills nothing, whatever the quotes say, unless the arena
  runs as a bench that ignores the session: what a pass then adds to the journal are expiries.\<close>

theorem a_closed_market_fills_nothing:
  assumes "list_all book_wf bs" "mk_clock mk = Ok clock" "\<not> k_IsOpen clock" "\<not> g_ignoreSession g" "i < length bs"
    "e \<in> set (new_events (bs ! i) (snd (once g v mk s bs) ! i))"
  shows "ev_Kind e \<noteq> ''fill''"
proof -
  have "calm (bs ! i) (snd (once g v mk s bs) ! i)"
  proof (rule once_cases [of mk g v s bs])
    assume "snd (once g v mk s bs) = bs"
    then show ?thesis by (simp add: calm_def)
  next
    fix clock' bs1
    assume c: "mk_clock mk = Ok clock'" and bs1: "bs1 = after_expiry v mk clock' s bs"
      and last: "snd (once g v mk s bs) = bs1 \<or>
       \<not> k_IsOpen clock' \<and> \<not> g_ignoreSession g \<and> snd (once g v mk s bs) = noted_all bs1 \<or>
       (k_IsOpen clock' \<or> g_ignoreSession g) \<and>
         (\<exists>quotes. mk_optionQuotes mk (asked_for bs1) = Ok quotes \<and>
            snd (once g v mk s bs) = filled_all g v quotes (k_Now clock') bs1)"
    have one: "calm (bs ! i) (bs1 ! i)" unfolding bs1 by (rule after_expiry_calm [OF assms(1,5)])
    have ch: "all_change bs bs1" unfolding bs1 by (rule after_expiry_changes [OF assms(1)])
    have "i < length bs1" using list_all2_lengthD [OF ch] assms(5) by simp
    then have "calm (bs1 ! i) (noted_all bs1 ! i)" by (rule noted_all_calm [OF all_change_wf [OF ch assms(1)]])
    with one have two: "calm (bs ! i) (noted_all bs1 ! i)" by (rule calm_trans)
    have "clock' = clock" using c assms(2) by simp
    then show ?thesis using last one two assms(3,4) by auto
  qed
  then show ?thesis using assms(6) by (auto simp: calm_def quiet_def new_events_def list_all_iff)
qed

lemma ExpireDay_expires:
  assumes "book_wf b" "map_of (b_Orders (snd (ExpireDay now b))) i = Some ord"
  shows "\<not> expires_now now ord"
proof -
  let ?run = "\<lambda>ids. foldl (expire_one now) (b, []) ids"
  have inv: "book_wf (fst (?run ids)) \<and>
      (\<forall>i \<in> set ids. \<forall>ord. map_of (b_Orders (fst (?run ids))) i = Some ord \<longrightarrow> \<not> expires_now now ord)" for ids
  proof (induction ids rule: rev_induct)
    case (snoc j ids)
    obtain c gone where run: "?run ids = (c, gone)" by (cases "?run ids")
    have c: "book_wf c" and done': "\<forall>i \<in> set ids. \<forall>ord. map_of (b_Orders c) i = Some ord \<longrightarrow> \<not> expires_now now ord"
      using snoc run by auto
    show ?case
    proof (cases "\<exists>ord. map_of (b_Orders c) j = Some ord \<and> expires_now now ord")
      case True
      then obtain ord where ord: "map_of (b_Orders c) j = Some ord" "expires_now now ord" by blast
      let ?ord = "ord\<lparr>ao_Status := statusExpired, ao_CanceledAt := Some now, ao_Why := SessionOver\<rparr>"
      have step: "?run (ids @ [j]) = (put_order ?ord c, gone @ [?ord])"
        using run ord by (simp add: expire_one_def Let_def)
      have "book_wf (put_order ?ord c)"
        using change_wf [OF touch_changes [OF c ord(1)] c] touched_kinds(4) ord(2) by (simp add: expires_now_def)
      moreover have "\<not> expires_now now ?ord" by (simp add: expires_now_def ord_open_def status_defs)
      ultimately show ?thesis
        using step done' book_wfD [OF c ord(1)] by (auto split: if_splits)
    next
      case False
      then have "?run (ids @ [j]) = (c, gone)"
        using run by (auto simp: expire_one_def split: option.split)
      then show ?thesis using c done' False by auto
    qed
  qed (simp add: assms(1))
  let ?c = "fst (?run (b_order b))"
  have c: "?c = snd (ExpireDay now b)" by (simp add: ExpireDay_def case_prod_unfold)
  have "book_wf ?c" using inv [of "b_order b"] by blast
  then have "i \<in> set (b_order ?c)" using book_wf_ids [of ?c i] assms(2) by (simp add: c del: b_order_keeps)
  then have "i \<in> set (b_order b)" by (simp add: c)
  then show ?thesis using inv [of "b_order b"] assms(2) c by auto
qed

lemma Fill_b_order: "book_wf b \<Longrightarrow> b_order (snd (Fill v i n x px now b)) = b_order b"
proof -
  assume wf: "book_wf b"
  obtain r b' where F: "Fill v i n x px now b = (r, b')" by (cases "Fill v i n x px now b")
  from wf F have "b_order b' = b_order b" by (cases rule: Fill_cases) (simp_all add: booked_def)
  then show ?thesis by (simp add: F)
qed

lemma fill_b_order:
  assumes "book_wf b"
  shows "b_order (fst (fill g v ord quotes now (b, shown))) = b_order b"
  using Fill_b_order [OF assms] by (auto simp: fill_def Let_def split: sum.split prod.split) (metis snd_conv)+

lemma filled_all_keeps:
  assumes "list_all book_wf bs" "i < length bs"
  shows "b_order (filled_all g v quotes now bs ! i) = b_order (bs ! i)"
proof -
  let ?P = "\<lambda>st. length (fst st) = length bs \<and> list_all book_wf (fst st) \<and> b_order (fst st ! i) = b_order (bs ! i)"
  have "?P (foldl (fill_in g v quotes now) (bs, shown_at_first quotes) (queue bs))"
  proof (rule foldl_invariant)
    fix st :: "Book list \<times> shown" and x :: "nat \<times> AOrder"
    assume x: "x \<in> set (queue bs)" and P: "?P st"
    obtain j ord where io: "x = (j, ord)" by (cases x)
    obtain cs shown where st: "st = (cs, shown)" by (cases st)
    have j: "j < length cs" using x P by (simp add: io queue_index st)
    have ch: "all_change cs (fst (fill_in g v quotes now st x))"
      using fill_in_changes [of st j g v quotes now ord] P j by (simp add: st io)
    have "book_wf (cs ! j)" using P j by (simp add: st list_all_length)
    then have "b_order (fst (fill g v ord quotes now (cs ! j, shown))) = b_order (cs ! j)" by (rule fill_b_order)
    then have "b_order (fst (fill_in g v quotes now st x) ! i) = b_order (cs ! i)"
      using j by (cases "i = j") (simp_all add: st io fill_in_def case_prod_unfold)
    moreover have "list_all book_wf cs" using P by (simp add: st)
    ultimately show "?P (fill_in g v quotes now st x)"
      using P all_change_wf [OF ch] list_all2_lengthD [OF ch] by (simp add: st)
  qed (simp add: assms)
  then show ?thesis by (simp add: filled_all_def)
qed

lemma once_after_expiry:
  assumes "list_all book_wf bs" "mk_clock mk = Ok clock" "i < length bs"
    "bs1 = after_expiry v mk clock s bs"
  shows "changes (bs1 ! i) (snd (once g v mk s bs) ! i) \<and> b_order (snd (once g v mk s bs) ! i) = b_order (bs1 ! i)"
proof -
  have ch: "all_change bs bs1" unfolding assms(4) by (rule after_expiry_changes [OF assms(1)])
  have wf1: "list_all book_wf bs1" by (rule all_change_wf [OF ch assms(1)])
  have i: "i < length bs1" using list_all2_lengthD [OF ch] assms(3) by simp
  show ?thesis
  proof (rule once_cases [of mk g v s bs])
    fix e
    assume "mk_clock mk = Err e"
    then show ?thesis by (simp add: assms(2))
  next
    fix clock' bs2
    assume c: "mk_clock mk = Ok clock'" "bs2 = after_expiry v mk clock' s bs"
      and run: "snd (once g v mk s bs) = bs2 \<or>
       \<not> k_IsOpen clock' \<and> \<not> g_ignoreSession g \<and> snd (once g v mk s bs) = noted_all bs2 \<or>
       (k_IsOpen clock' \<or> g_ignoreSession g) \<and>
         (\<exists>quotes. mk_optionQuotes mk (asked_for bs2) = Ok quotes \<and>
            snd (once g v mk s bs) = filled_all g v quotes (k_Now clock') bs2)"
    have same: "bs2 = bs1" using c assms(2,4) by simp
    have "changes (bs1 ! i) (noted_all bs1 ! i) \<and> b_order (noted_all bs1 ! i) = b_order (bs1 ! i)"
      using noted_all_calm [OF wf1 i] by (simp add: calm_def)
    moreover have "changes (bs1 ! i) (filled_all g v quotes now bs1 ! i) \<and>
        b_order (filled_all g v quotes now bs1 ! i) = b_order (bs1 ! i)" for quotes now
      using filled_all_keeps [OF wf1 i] filled_all_changes [OF wf1] i by (simp add: list_all2_conv_all_nth)
    ultimately show ?thesis using run same by auto
  qed
qed

text \<open>C30. A day order does not outlive its session: after a pass that read the clock, no order of any
  book is still open that was good for the day and whose session is over.\<close>

theorem day_orders_end_with_their_session:
  assumes "list_all book_wf bs" "mk_clock mk = Ok clock" "i < length bs"
    "ord \<in> set (OpenOrders (snd (once g v mk s bs) ! i))"
  shows "\<not> (ao_TIF ord = ''day'' \<and> (\<exists>t. ao_ExpiresAt ord = Some t \<and> t \<le> k_Now clock))"
proof -
  let ?now = "k_Now clock" and ?b = "bs ! i" and ?fin = "snd (once g v mk s bs) ! i"
  let ?e = "snd (ExpireDay ?now ?b)"
  define bs1 where "bs1 = after_expiry v mk clock s bs"
  have wf: "book_wf ?b" using assms(1,3) by (simp add: list_all_length)
  have wfe: "book_wf ?e" by (rule changes_wf [OF ExpireDay_changes [OF wf] wf])
  obtain s' b where b: "bs1 ! i = (if k_IsOpen clock then b else mark_close v mk ?now b)"
    "b = snd (snd (settle v (mk_zone mk) (mk_lastTrades mk) ?now s' ?e))"
    using after_expiry_nth(1) [OF assms(3), of v mk clock s] by (auto simp: bs1_def)
  have one: "calm ?e (bs1 ! i)"
    using settle_calm [OF wfe] calm_trans [OF settle_calm [OF wfe] mark_close_calm] b by simp
  have last: "changes (bs1 ! i) ?fin \<and> b_order ?fin = b_order (bs1 ! i)"
    by (rule once_after_expiry [OF assms(1-3) bs1_def])
  have rest: "changes ?e ?fin" "b_order ?fin = b_order ?e"
    using last one changes_trans by (auto simp: calm_def)
  have wf': "book_wf ?fin" by (rule changes_wf [OF rest(1) wfe])
  have new: "map_of (b_Orders ?fin) (ao_ID ord) = Some ord" "ord_open ord"
    using OpenOrders_mem [OF wf', of ord] assms(4) by simp_all
  obtain old where old: "map_of (b_Orders ?e) (ao_ID ord) = Some old" "continues old ord"
    using no_new_orders [OF wfe rest new(1)] by blast
  have "ord_open old" using old(2) new(2) by (auto simp: continues_def ord_open_def)
  then show ?thesis
    using ExpireDay_expires [OF wf old(1)] old(2) by (auto simp: expires_now_def continues_def)
qed

end
