(* ===== verification/ArenaSettlement.thy ===== *)
theory ArenaSettlement
  imports ArenaPass
begin

text \<open>
  What a settlement does to the worth of a book: turning a contract into shares moves no money in
  or out of it.
\<close>

lemma fround_cents_pos: "\<not> settlement_value c price < lit (1 / 100) \<Longrightarrow> 0 < occ_intrinsic c price"
proof (rule ccontr)
  assume a: "\<not> settlement_value c price < lit (1 / 100)" "\<not> 0 < occ_intrinsic c price"
  have "0 \<le> occ_intrinsic c price" by (auto simp: occ_intrinsic_def)
  then have "occ_intrinsic c price = 0" using a(2) by simp
  then have "settlement_value c price = 0" by (simp add: settlement_value_def fround_def)
  then show False using a(1) by simp
qed

lemma strike_money_near:
  assumes "0 \<le> val (a_Strike c)" "val (a_Strike c) \<le> 10000" "\<bar>q\<bar> \<le> 1000"
  shows "\<bar>val (strike_money c q) - (if a_Call c then -1 else 1) * (100 * of_int q * val (a_Strike c))\<bar> \<le> 1 / 10000"
    and "\<bar>val (strike_money c q)\<bar> \<le> 2 * 10 ^ 9"
proof -
  define K where "K = val (a_Strike c)"
  define Q :: rat where "Q = of_int q"
  define m where "m = rnd (- K * Q)"
  have Q: "\<bar>Q\<bar> \<le> 1000" using of_int_abs_le [of q] assms(3) by (simp add: Q_def)
  have KQ: "\<bar>K * Q\<bar> \<le> 10000 * 1000"
    unfolding abs_mult using Q assms(1,2) by (intro mult_mono) (auto simp: K_def)
  have m: "\<bar>m + K * Q\<bar> \<le> 10000000 / 2 ^ 53"
  proof -
    have "\<bar>m - - K * Q\<bar> \<le> \<bar>- K * Q\<bar> / 2 ^ 53" unfolding m_def by (rule rnd_error)
    also have "\<dots> \<le> 10000000 / 2 ^ 53" using KQ by (intro divide_right_mono) auto
    finally show ?thesis by simp
  qed
  then have m2: "\<bar>m\<bar> \<le> 2 * 10 ^ 7" using KQ unfolding abs_le_iff by simp
  have r: "\<bar>rnd (m * 100) - m * 100\<bar> \<le> 2 * 10 ^ 9 / 2 ^ 53"
  proof -
    have "\<bar>rnd (m * 100) - m * 100\<bar> \<le> \<bar>m * 100\<bar> / 2 ^ 53" by (rule rnd_error)
    also have "\<dots> \<le> 2 * 10 ^ 9 / 2 ^ 53" using m2 by (intro divide_right_mono) (auto simp: abs_mult)
    finally show ?thesis .
  qed
  have near: "\<bar>rnd (m * 100) + 100 * (K * Q)\<bar> \<le> 1 / 10000" using m r unfolding abs_le_iff by simp
  have v: "val (strike_money c q) = (if a_Call c then rnd (m * 100) else - rnd (m * 100))"
    using val_lit_int [of q] assms(3)
    by (simp add: strike_money_def val_mult multiplier_def m_def K_def Q_def)
  show "\<bar>val (strike_money c q) - (if a_Call c then -1 else 1) * (100 * of_int q * val (a_Strike c))\<bar> \<le> 1 / 10000"
    using near unfolding v abs_le_iff by (auto simp: K_def Q_def ac_simps)
  show "\<bar>val (strike_money c q)\<bar> \<le> 2 * 10 ^ 9"
    using near KQ unfolding v abs_le_iff by auto
qed

lemma settled_shares:
  assumes "\<not> settlement_value c price < lit (1 / 100)"
  shows "of_int (shares_of c q) * val price - (if a_Call c then 1 else -1) * (100 * of_int q * val (a_Strike c)) =
    100 * of_int q * intr (a_Call c) (val (a_Strike c)) (val price)"
proof -
  have "0 < occ_intrinsic c price" by (rule fround_cents_pos [OF assms])
  then show ?thesis
    by (auto simp: occ_intrinsic_def intr_def shares_of_def multiplier_def less_f64_iff max_def algebra_simps split: if_splits)
qed

text \<open>C14. Turning a contract into shares moves no money: after an exercise or an assignment the cash and
  the shares gained, at the settlement price, are worth what the cash and the contract's intrinsic
  value were worth before, to a tenth of a cent; for calls and puts, held long or short.\<close>

theorem settlement_keeps_the_worth:
  assumes "Settle v s price now b = (Ok e, b')" "map_of (b_Positions b) s = Some p" "parseOCC s = Ok c"
    "ev_Kind e = ''exercise'' \<or> ev_Kind e = ''assignment''"
    "\<bar>h_Qty p\<bar> \<le> 1000" "val (a_Strike c) \<le> 10000" "\<bar>val (b_Cash b)\<bar> \<le> 10 ^ 12"
  shows "\<bar>(val (b_Cash b') + of_int (pos_qty (b_Positions b') (a_Root c) - pos_qty (b_Positions b) (a_Root c)) * val price) -
     (val (b_Cash b) + 100 * of_int (h_Qty p) * intr (a_Call c) (val (a_Strike c)) (val price))\<bar> \<le> 1 / 1000"
proof -
  let ?q = "h_Qty p"
  obtain b1 where s: "settled_by s ?q c price now b = (e, b1)" "b' = log_event e b1"
    using assms(1-3) by (auto simp: Settle_def Let_def split: prod.splits sum.splits)
  have itm: "\<not> settlement_value c price < lit (1 / 100)"
    and cash: "b_Cash b1 = b_Cash b + strike_money c ?q"
    and qty: "pos_qty (b_Positions b1) (a_Root c) - pos_qty (b_Positions b) (a_Root c) = shares_of c ?q"
    using s(1) assms(4) parseOCC_root_ne [OF assms(3)]
    by (auto simp: settled_by_def no_event_def Let_def delete_position_def mark_held_qty move_qty delete_qty split: if_splits)
  have K: "0 \<le> val (a_Strike c)" using parseOCC_Strike [OF assms(3)] by (simp add: less_f64_iff)
  define m where "m = val (strike_money c ?q)"
  have m: "\<bar>m - (if a_Call c then -1 else 1) * (100 * of_int ?q * val (a_Strike c))\<bar> \<le> 1 / 10000" "\<bar>m\<bar> \<le> 2 * 10 ^ 9"
    unfolding m_def by (rule strike_money_near [OF K assms(6,5)])+
  have c: "\<bar>val (b_Cash b1) - (val (b_Cash b) + m)\<bar> \<le> (10 ^ 12 + 2 * 10 ^ 9) / 2 ^ 53"
  proof -
    have "\<bar>rnd (val (b_Cash b) + m) - (val (b_Cash b) + m)\<bar> \<le> \<bar>val (b_Cash b) + m\<bar> / 2 ^ 53" by (rule rnd_error)
    also have "\<dots> \<le> (10 ^ 12 + 2 * 10 ^ 9) / 2 ^ 53" using assms(7) m(2) by (intro divide_right_mono) auto
    finally show ?thesis by (simp add: cash val_add m_def)
  qed
  have d: "(10 ^ 12 + 2 * 10 ^ 9) / 2 ^ 53 \<le> (1 / 2000 :: rat)" by simp
  have sh: "of_int (shares_of c ?q) * val price =
    100 * of_int ?q * intr (a_Call c) (val (a_Strike c)) (val price) + (if a_Call c then 1 else -1) * (100 * of_int ?q * val (a_Strike c))"
    using settled_shares [OF itm, of ?q] by simp
  have b': "b_Cash b' = b_Cash b1" "b_Positions b' = b_Positions b1" by (simp_all add: s(2))
  show ?thesis
    using c d m(1) unfolding b' qty sh abs_le_iff by (auto split: if_splits)
qed

end
