(* ===== verification/ArenaExample.thy ===== *)
theory ArenaExample
  imports ArenaSettlement
begin

text \<open>
  A run of the arena on concrete data, and the witnesses of the arena's properties on it: a book of
  a thousand dollars buys two calls with a limit order, the matcher fills it, and the calls are
  exercised at expiry.
\<close>

definition ar_sym :: string where "ar_sym = ''SPY260918C00500000''"

definition ar_occ :: occ where
  "ar_occ = \<lparr>a_Root = ''SPY'', a_Expiry = ''260918'', a_Call = True, a_Strike = lit 500,
     a_Expires = \<lparr>d_year = 2026, d_month = 9, d_day = 18\<rparr>\<rparr>"

lemma ar_parse: "parseOCC ar_sym = Ok ar_occ"
  by (simp add: ar_sym_def parseOCC_def TrimSpace_def is_space_def root_char_def is_digit_def
      parse_yymmdd_def parse_year2_def parse_2digits_def ParseInt_def parse_nat_def nat_of_digits_def digit_val_def
      days_in_def leap_def ar_occ_def f64_eval)

definition ar_v :: arena_env where
  "ar_v = \<lparr>v_positions = (\<lambda>ks. ks), v_groups = (\<lambda>ks. ks), v_sides = (\<lambda>ks. ks), v_uuid = ''u1'', v_save = (\<lambda>b. Ok ())\<rparr>"

definition ar_quote :: AQuote where
  "ar_quote = \<lparr>aq_Symbol = ar_sym, aq_Bid = lit (5 / 4), aq_Ask = lit (3 / 2), aq_BidSize = 10, aq_AskSize = 10, aq_At = 5\<rparr>"

definition ar_clock :: Clock where
  "ar_clock = \<lparr>k_IsOpen = True, k_Now = 10, k_NextClose = Some 100\<rparr>"

definition ar_mk :: market where
  "ar_mk = \<lparr>mk_clock = Ok ar_clock,
     mk_optionQuotes = (\<lambda>symbols. Ok [(ar_sym, ar_quote)]), mk_stockQuotes = (\<lambda>symbols. Ok []),
     mk_lastTrades = (\<lambda>symbols. Ok [''SPY'' \<mapsto> lit 510]), mk_zone = (\<lambda>d h. 1000),
     mk_today = (\<lambda>t. \<lparr>d_year = 2026, d_month = 9, d_day = 1\<rparr>), mk_wall = 10\<rparr>"

lemma ar_mk_simps [simp]:
  "mk_clock ar_mk = Ok ar_clock" "mk_optionQuotes ar_mk symbols = Ok [(ar_sym, ar_quote)]"
  "k_IsOpen ar_clock" "k_Now ar_clock = 10" "k_NextClose ar_clock = Some 100"
  by (simp_all add: ar_mk_def ar_clock_def)

definition ar_g :: arena_config where
  "ar_g = \<lparr>g_maxQuoteAge = 100, g_ignoreSession = False, g_staging = False\<rparr>"

definition ar_args :: orderArgs where
  "ar_args = \<lparr>i_Qty = ''2'', i_Type = ''limit'', i_TimeInForce = ''day'', i_Symbol = ar_sym, i_Side = ''buy'',
     i_PositionIntent = ''buy_to_open'', i_LimitPrice = ''1.50'', i_ClientOrderID = ''turn=t1'', i_Legs = []\<rparr>"

definition ar_leg :: ALeg where
  "ar_leg = \<lparr>al_Symbol = ar_sym, al_Side = ''buy'', al_RatioQty = ''1'', al_Ratio = 1, al_PositionIntent = ''buy_to_open''\<rparr>"

definition ar_b0 :: Book where "ar_b0 = NewBook ''h'' (lit 1000)"

definition ar_order :: AOrder where
  "ar_order = \<lparr>ao_ID = ''u1'', ao_ClientID = ''turn=t1'', ao_TurnRef = ''t1'', ao_Status = statusNew, ao_Qty = 2,
     ao_FilledQty = 0, ao_Limit = Fin (lit (3 / 2)), ao_Market = False, ao_FilledAvg = 0, ao_Fees = 0, ao_Stand = False,
     ao_TIF = ''day'', ao_Legs = [ar_leg], ao_SubmittedAt = 10, ao_FilledAt = None, ao_CanceledAt = None,
     ao_ExpiresAt = Some 100, ao_ReplacedBy = [], ao_Replaces = [], ao_Why = NoReason, ao_Seq = 1\<rparr>"

definition ar_b1 :: Book where
  "ar_b1 = ar_b0\<lparr>b_Orders := [(''u1'', ar_order)], b_order := [''u1''], b_seq := 1\<rparr>"

lemma ar_strings [simp]:
  "TrimSpace ar_sym = ar_sym" "ToUpper ar_sym = ar_sym" "ar_sym \<noteq> []"
  "ToLower (TrimSpace ''buy'') = ''buy''" "ToLower (TrimSpace ''day'') = ''day''" "TrimSpace ''1.50'' = ''1.50''"
  "TrimSpace ''2'' = ''2''" "TrimSpace ''limit'' = ''limit''" "EqualFold ''limit'' ''market'' = False"
  "turnOf ''turn=t1'' = ''t1''"
  by (simp_all add: ar_sym_def TrimSpace_def is_space_def ToUpper_def upper_def ToLower_def EqualFold_def turnOf_def)

lemma ar_counts [simp]: "parseCount ''1'' = Ok 1" "parseCount ''2'' = Ok 2"
  by (simp_all add: parseCount_def is_digit_def ParseInt_def parse_nat_def nat_of_digits_def digit_val_def)

lemma ar_legs: "legsOf ar_args = Ok [ar_leg]"
  by (simp add: legsOf_def ar_args_def) (simp add: leg_of_def ar_leg_def ar_parse Let_def)

lemma ar_price: "read_price ''1.50'' = Ok (Fin (lit (3 / 2)))"
  by (simp add: read_price_def ParseFloat_def Let_def ToUpper_def upper_def)
    (simp add: parse_ufloat_def is_digit_def Let_def nat_of_digits_def digit_val_def ten_pow_def pow2_def)

definition ar_holding :: Holding where
  "ar_holding = no_holding\<lparr>h_Symbol := ar_sym, h_Class := classOption, h_Qty := 2\<rparr>"

lemma ar_requirement: "h_Class p = classOption \<Longrightarrow> h_Symbol p = ar_sym \<Longrightarrow> h_Qty p = 2 \<Longrightarrow>
    Requirement (\<lambda>ks. ks) [p] = Ok (Some 0)"
  by (simp add: Requirement_def Worst_def groups_def ar_parse classOption_def classEquity_def)
    (simp add: keys_of_def grouped_def group_slope_def group_worst_def group_points_def group_value_def
      ar_occ_def occ_intrinsic_def short_shares_def classOption_def classEquity_def multiplier_def f64_eval)

lemma perContract_bounds: "0 \<le> val perContract" "val perContract \<le> 1"
  using rnd_mono [of "1 / 40" 1] by (simp_all add: perContract_def val_lit)

text \<open>A thousand dollars less three hundred and the fees.\<close>

definition ar_cash :: f64 where
  "ar_cash = lit 1000 - lit (3 / 2) * lit 2 * f64_of_int multiplier - lit 2 * perContract"

lemma ar_fees: "0 \<le> val (lit 2 * perContract)" "val (lit 2 * perContract) \<le> 2"
  using perContract_bounds rnd_mono [of "2 * val perContract" 2] by (simp_all add: val_mult val_lit)

lemma ar_cash_val: "698 \<le> val ar_cash" "val ar_cash \<le> 700"
proof -
  let ?f = "val (lit 2 * perContract)"
  have v: "val ar_cash = rnd (700 - ?f)" by (simp add: ar_cash_def val_diff val_mult val_lit multiplier_def)
  show "698 \<le> val ar_cash" "val ar_cash \<le> 700"
    using rnd_mono [of 698 "700 - ?f"] rnd_mono [of "700 - ?f" 700] ar_fees by (simp_all add: v)
qed

lemma ar_lacks: "lacks (Some 0) (Fin ar_cash) = False"
proof -
  have "val (0 - lit (1 / 10 ^ 9)) \<le> 0" by (simp add: val_diff val_lit)
  then show ?thesis using ar_cash_val by (simp add: lacks_def less_f64_iff)
qed

lemma ar_limit_cash: "lit 1000 - (lit (3 / 2) * lit 2 * f64_of_int multiplier + lit 2 * perContract) = ar_reserved \<Longrightarrow>
    lacks (Some 0) (Fin ar_reserved) = False \<and> \<bar>val ar_reserved\<bar> \<le> 1000"
proof -
  assume e: "lit 1000 - (lit (3 / 2) * lit 2 * f64_of_int multiplier + lit 2 * perContract) = ar_reserved"
  let ?f = "val (lit 2 * perContract)"
  have r: "300 \<le> rnd (300 + ?f)" "rnd (300 + ?f) \<le> 302"
    using rnd_mono [of 300 "300 + ?f"] rnd_mono [of "300 + ?f" 302] ar_fees by simp_all
  have v: "val ar_reserved = rnd (1000 - rnd (300 + ?f))"
    by (simp add: e [symmetric] val_diff val_add val_mult val_lit multiplier_def)
  have "698 \<le> val ar_reserved" "val ar_reserved \<le> 700"
    using rnd_mono [of 698 "1000 - rnd (300 + ?f)"] rnd_mono [of "1000 - rnd (300 + ?f)" 700] r by (simp_all add: v)
  moreover have "val (0 - lit (1 / 10 ^ 9)) \<le> 0" by (simp add: val_diff val_lit)
  ultimately show ?thesis by (simp add: lacks_def less_f64_iff)
qed

lemma ar_project: "foldl (project_leg 2) [] [ar_leg] = [(ar_sym, ar_holding)]"
  by (simp add: project_leg_def ar_leg_def ar_holding_def no_holding_def signed_qty_def)

lemma ar_Submit:
  "Submit ar_v (new_order ar_args [ar_leg] 2 (Fin (lit (3 / 2))) ar_clock) ar_b0 =
     (Ok (), ar_order, ar_b1)"
proof -
  have c: "contractsIn [ar_leg] 2 = 2" by (simp add: contractsIn_def ar_leg_def)
  show ?thesis
    using ar_limit_cash [OF refl] ar_project
    by (simp add: Submit_def reserved_def add_order_def new_order_def ar_b0_def NewBook_def ar_args_def c held_in_def
        List.map_filter_simps ar_holding_def ar_requirement tif_of_def is_market_def Let_def ar_v_def persist_def)
     (simp add: put_order_def ar_order_def ar_b1_def ar_b0_def NewBook_def)
qed

lemma ar_place: "placeOrder ar_g ar_v ar_mk ar_args ar_b0 = (Ok ar_order, ar_b1)"
proof -
  have "is_market ar_args = False" by (simp add: is_market_def ar_args_def)
  moreover have "name_taken (i_ClientOrderID ar_args) ar_b0 = None"
    by (simp add: name_taken_def ar_args_def ByClientID_def OrdersSnapshot_def ar_b0_def NewBook_def List.map_filter_simps)
  moreover have "i_Qty ar_args = ''2''" "i_LimitPrice ar_args = ''1.50''" by (simp_all add: ar_args_def)
  ultimately show ?thesis
    using ar_Submit
    by (simp add: placeOrder_def ar_legs stated_limit_def ar_price order_limit_def ar_leg_def)
qed

definition ar_held :: Holding where
  "ar_held = \<lparr>h_Symbol = ar_sym, h_Qty = 2, h_AvgPrice = lit (3 / 2), h_Class = classOption, h_Mark = lit (3 / 2)\<rparr>"

definition ar_filled :: AOrder where
  "ar_filled = filled_order ar_order 2 (lit (3 / 2)) (lit 2 * perContract) 10"

definition ar_event :: Event where
  "ar_event = fill_event ''u1'' 2 (lit (3 / 2)) (lit 2 * perContract) True NoReason 10"

definition ar_b2 :: Book where
  "ar_b2 = ar_b1\<lparr>b_Positions := [(ar_sym, ar_held)], b_Cash := ar_cash, b_Orders := [(''u1'', ar_filled)],
     b_Events := [ar_event]\<rparr>"

abbreviation ar_said :: said where "ar_said \<equiv> \<lparr>sd_keys = [], sd_lines = []\<rparr>"

lemma ar_offer:
  "executable [ar_leg] [(ar_sym, ar_quote)] shown 10 100 False =
     Ok \<lparr>of_price = lit (3 / 2), of_sets = max 0 (case shown (ar_sym @ ''|buy'') of None \<Rightarrow> 10 | Some n \<Rightarrow> n),
         of_legs = [ar_sym \<mapsto> lit (3 / 2)]\<rparr>" if "\<forall>n. shown (ar_sym @ ''|buy'') = Some n \<longrightarrow> 0 \<le> n"
  using that
  by (simp add: executable_def exec_leg_def ar_leg_def ar_quote_def quote_side_def shown_key_def Let_def
      go_div_nonneg f64_eval not_less split: option.split)

lemma ar_Fill:
  "Fill ar_v ''u1'' 2 (lit (3 / 2)) [ar_sym \<mapsto> lit (3 / 2)] 10 ar_b1 = (Ok ar_event, ar_b2)"
proof -
  have o: "map_of (b_Orders ar_b1) ''u1'' = Some ar_order" by (simp add: ar_b1_def)
  have open': "ord_open ar_order" "remaining ar_order = 2" "ao_Legs ar_order = [ar_leg]"
    by (simp_all add: ord_open_def ar_order_def remaining_def)
  have c: "contractsIn [ar_leg] 2 = 2" by (simp add: contractsIn_def ar_leg_def)
  have p: "project ar_v ar_b1 [ar_leg] 2 = [ar_holding]"
    using ar_project by (simp add: project_def ar_b1_def ar_b0_def NewBook_def held_in_def ar_v_def
        List.map_filter_simps ar_holding_def)
  have cash: "b_Cash ar_b1 - lit (3 / 2) * lit 2 * f64_of_int multiplier - lit 2 * perContract = ar_cash"
    by (simp add: ar_b1_def ar_b0_def NewBook_def ar_cash_def)
  have ps: "apply_legs [ar_leg] 2 [ar_sym \<mapsto> lit (3 / 2)] (b_Positions ar_b1) = [(ar_sym, ar_held)]"
    by (simp add: apply_legs_def move_def ar_leg_def signed_qty_def leg_price_def ar_b1_def ar_b0_def NewBook_def
        no_holding_def ar_held_def Let_def)
  have r: "Requirement (v_groups ar_v) [ar_holding] = Ok (Some 0)"
    using ar_requirement [of ar_holding] by (simp add: ar_v_def ar_holding_def)
  have s: "persist ar_v b = Ok ()" for b by (simp add: persist_def ar_v_def)
  have put: "put_order (filled_order ar_order 2 (lit (3 / 2)) (lit 2 * perContract) 10) b =
      b\<lparr>b_Orders := AList.update ''u1'' ar_filled (b_Orders b)\<rparr>" for b
    by (simp add: put_order_def ar_filled_def) (simp add: ar_order_def)
  show ?thesis
    by (simp add: Fill_def o open' c p r cash ar_lacks ps s put Let_def)
      (simp add: ar_b2_def log_event_def ar_event_def fill_event_def no_event_def ar_b1_def ar_b0_def NewBook_def)
qed

lemma ar_expiry: "foldl (expire_and_settle ar_v ar_mk 10) (ar_said, []) [ar_b1] = (ar_said, [ar_b1])"
proof -
  have "expire_one 10 (ar_b1, []) ''u1'' = (ar_b1, [])"
    by (simp add: expire_one_def ar_b1_def expires_now_def ar_order_def)
  then have "snd (ExpireDay 10 ar_b1) = ar_b1" by (simp add: ExpireDay_def ar_b1_def)
  moreover have "Due zone (v_positions ar_v) 10 ar_b1 = []" for zone
    by (simp add: Due_def ar_v_def ar_b1_def ar_b0_def NewBook_def List.map_filter_simps)
  ultimately show ?thesis by (simp add: expire_and_settle_def settle_def Let_def)
qed

lemma ar_queue: "queue [ar_b1] = [(0, ar_order)]"
  by (simp add: queue_def standing_def OpenOrders_def OrdersSnapshot_def ar_b1_def ar_order_def ord_open_def
      List.map_filter_simps)

lemma ar_once: "once ar_g ar_v ar_mk ar_said [ar_b1] = (ar_said, [ar_b2])"
proof -
  have shown: "shown_at_first [(ar_sym, ar_quote)] (ar_sym @ ''|buy'') = Some 10"
    by (simp add: shown_at_first_def ar_quote_def)
  have f: "fst (fill ar_g ar_v ar_order [(ar_sym, ar_quote)] 10 (ar_b1, shown_at_first [(ar_sym, ar_quote)])) = ar_b2"
  proof -
    have "ao_Legs ar_order = [ar_leg]" "remaining ar_order = 2" "ao_ID ar_order = ''u1''" "ao_Market ar_order = False"
      "ao_Limit ar_order = Fin (lit (3 / 2))"
      by (simp_all add: ar_order_def remaining_def)
    moreover have "\<not> lit (3 / 2) > lit (3 / 2) + lit (1 / 10 ^ 9)"
      using rnd_mono [of "3 / 2" "3 / 2 + val (lit (1 / 10 ^ 9))"] by (simp add: less_f64_iff val_add val_lit not_less)
    ultimately show ?thesis
      using ar_offer [of "shown_at_first [(ar_sym, ar_quote)]"] ar_Fill
      by (simp add: fill_def ar_g_def shown)
  qed
  show ?thesis
    using f by (simp add: once_def ar_expiry [simplified] ar_queue Let_def case_prod_unfold fill_in_def)
qed

subsection \<open>Witnesses: the run\<close>

lemma ar_wf: "book_wf ar_b0" "book_wf ar_b1"
proof -
  show w0: "book_wf ar_b0" by (simp add: ar_b0_def NewBook_wf)
  have "fresh ar_v ar_b0" by (simp add: fresh_def ar_v_def ar_b0_def NewBook_def)
  then show "book_wf ar_b1" using changes_wf [OF placeOrder_changes [OF w0] w0] ar_place by (metis snd_conv)
qed

lemma ar_fresh: "fresh ar_v ar_b0"
  by (simp add: fresh_def ar_v_def ar_b0_def NewBook_def)

lemma ar_steps: "runs ar_b0 ar_b1" "runs ar_b1 ar_b2"
proof -
  show "runs ar_b0 ar_b1"
    using arena_step.placed [OF ar_fresh, of ar_g ar_mk ar_args] by (simp add: ar_place r_into_rtranclp)
  show "runs ar_b1 ar_b2"
    using arena_step.passed [of "[ar_b1]" 0 ar_b1 ar_g ar_v ar_mk ar_said] ar_wf by (simp add: ar_once r_into_rtranclp)
qed

lemma ar_run: "runs (NewBook ''h'' (lit 1000)) ar_b2"
  using ar_steps by (simp add: ar_b0_def)

lemma every_run_keeps_the_book_well_formed_witness: "book_wf ar_b2 \<and> length (b_Events ar_b2) = 1"
  using every_run_keeps_the_book_well_formed [OF ar_run] by (simp add: ar_b2_def)

lemma orders_are_never_rewritten_witness:
  "\<exists>ord'. map_of (b_Orders ar_b2) ''u1'' = Some ord' \<and> ao_Legs ord' = [ar_leg] \<and> ao_FilledQty ord' \<le> 2"
  using orders_are_never_rewritten [OF ar_wf(2) ar_steps(2), of "''u1''" ar_order]
  by (auto simp: ar_b1_def ar_order_def)

lemma cash_is_the_replay_of_the_journal_witness: "b_Cash ar_b2 = foldl cash_event (b_Start ar_b2) [ar_event]"
  using cash_is_the_replay_of_the_journal [OF ar_run] by (simp add: ar_b2_def)

lemma positions_are_the_replay_of_the_journal_witness:
  "pos_qty (b_Positions ar_b2) ar_sym = (\<Sum>e \<leftarrow> [ar_event]. qty_event (map_of (b_Orders ar_b2)) ar_sym e) \<and>
   pos_qty (b_Positions ar_b2) ar_sym = 2"
  using positions_are_the_replay_of_the_journal [OF ar_run, of ar_sym] by (simp add: ar_b2_def pos_qty_def ar_held_def)

lemma filled_quantity_is_journaled_witness: "ao_FilledQty ar_filled = (\<Sum>e \<leftarrow> [ar_event]. filled_event ''u1'' e) \<and> ao_FilledQty ar_filled = 2"
  using filled_quantity_is_journaled [OF ar_run, of "''u1''" ar_filled]
  by (simp add: ar_b2_def ar_filled_def ar_order_def)

subsection \<open>Witnesses: collateral\<close>

lemma ar_sane: "sane_holdings [ar_held]"
  by (simp add: sane_holdings_def fair_prices_def ar_held_def ar_parse classOption_def classEquity_def sane_legs_def
      sane_leg_def ar_occ_def val_lit)

lemma fill_leaves_the_book_covered_witness: "0 \<le> val ar_cash + holdings_value (\<lambda>k. 490) [ar_held] + 2"
proof -
  have held: "held_in (v_positions ar_v) (b_Positions ar_b2) = [ar_held]"
    by (simp add: held_in_def ar_v_def ar_b2_def List.map_filter_simps ar_held_def)
  show ?thesis
    using fill_leaves_the_book_covered [OF ar_wf(2) ar_Fill, of "\<lambda>k. 490"] ar_sane ar_cash_val
    by (simp add: held ar_event_def fill_event_def ar_v_def tickers_apart_def ar_b1_def ar_b0_def NewBook_def)
      (simp add: ar_b2_def held_in_def List.map_filter_simps ar_held_def)
qed

lemma accepted_orders_are_covered_witness:
  "\<exists>cash. snd (reserved ar_v ar_b1 None []) = Fin cash \<and>
     0 \<le> val cash + holdings_value (\<lambda>k. 490) (fst (reserved ar_v ar_b1 None [])) + 2"
proof -
  have c: "contractsIn [ar_leg] 2 = 2" by (simp add: contractsIn_def ar_leg_def)
  have r: "reserved ar_v ar_b1 None [] =
      ([ar_holding], Fin (lit 1000 - (lit (3 / 2) * lit 2 * f64_of_int multiplier + lit 2 * perContract)))"
    using ar_project
    by (simp add: reserved_def ar_b1_def ar_order_def ord_open_def remaining_def add_order_def c ar_b0_def NewBook_def
        held_in_def ar_v_def List.map_filter_simps ar_holding_def)
  have sane: "sane_holdings [ar_holding]"
    by (simp add: sane_holdings_def fair_prices_def ar_holding_def no_holding_def ar_parse classOption_def
        classEquity_def sane_legs_def sane_leg_def ar_occ_def val_lit)
  have "\<bar>val (lit 1000 - (lit (3 / 2) * lit 2 * f64_of_int multiplier + lit 2 * perContract))\<bar> \<le> 10 ^ 12"
    using ar_limit_cash [OF refl] by simp
  moreover have "iterates (v_groups ar_v)" by (simp add: ar_v_def)
  moreover have "\<forall>standing \<in> set (OpenOrders ar_b1). fl_finite (ao_Limit standing)"
    by (simp add: OpenOrders_def OrdersSnapshot_def ar_b1_def List.map_filter_simps) (simp add: ar_order_def)
  ultimately show ?thesis
    using accepted_orders_are_covered [OF disjI1 [OF ar_place] ar_wf(1) ar_fresh _ _ r sane, of "\<lambda>k. 490"]
    by (simp add: r)
qed

text \<open>A store that takes nothing, and an order in the book of it.\<close>

definition ar_full :: arena_env where
  "ar_full = ar_v\<lparr>v_save := \<lambda>b. Err ''disk full''\<rparr>"

lemma refused_calls_change_nothing_witness:
  "snd (call_book ar_g ar_v ar_mk (CancelCall ''zz'') ar_b1) = ar_b1 \<and>
   (\<exists>ord. call_book ar_g (saving ar_full) ar_mk (CancelCall ''u1'') ar_b1 =
      (Ok ord, snd (call_book ar_g ar_full ar_mk (CancelCall ''u1'') ar_b1)))"
proof -
  have 1: "call_book ar_g ar_v ar_mk (CancelCall ''zz'') ar_b1 =
      (Err (BookRefused (NoOrder ''zz'')), snd (call_book ar_g ar_v ar_mk (CancelCall ''zz'') ar_b1))"
    by (simp add: cancelOrder_def Cancel_def TrimSpace_def is_space_def ar_b1_def)
  have "map_of (b_Orders ar_b1) ''u1'' = Some ar_order" "ord_open ar_order"
    by (simp_all add: ar_b1_def ar_order_def ord_open_def)
  then have 2: "call_book ar_g ar_full ar_mk (CancelCall ''u1'') ar_b1 =
      (Err (BookRefused (NotSaved ''disk full'')), snd (call_book ar_g ar_full ar_mk (CancelCall ''u1'') ar_b1))"
    by (simp add: cancelOrder_def Cancel_def TrimSpace_def is_space_def Let_def persist_def ar_full_def)
  show ?thesis
    using refused_calls_change_nothing [OF 1] refused_calls_change_nothing [OF 2] by (simp add: not_saved_def)
qed

lemma infinite_requirement_is_explained_witness:
  "\<exists>k n strike. arena_Unbounded (\<lambda>ks. ks) [ar_held\<lparr>h_Qty := - 2\<rparr>] = Some (k, n, strike) \<and> 0 < n"
proof -
  have "Requirement (\<lambda>ks. ks) [ar_held\<lparr>h_Qty := - 2\<rparr>] = Ok None"
    by (simp add: Requirement_def Worst_def groups_def ar_held_def ar_parse classOption_def classEquity_def
        keys_of_def grouped_def group_slope_def ar_occ_def)
  then show ?thesis
    using infinite_requirement_is_explained [of "\<lambda>ks. ks" "[ar_held\<lparr>h_Qty := - 2\<rparr>]" "\<lambda>ks. ks"]
    by (simp add: tickers_apart_def ar_held_def classOption_def classEquity_def)
qed

subsection \<open>Witnesses: the pass\<close>

lemma ar_pass_premises: "list_all book_wf [ar_b1]" "saves ar_v" "sane_market ar_mk" "one_leg_a_side [ar_b1]"
  using ar_wf by (simp_all add: saves_def ar_v_def sane_market_def sizes_ok_def ar_quote_def one_leg_a_side_def
      OpenOrders_def OrdersSnapshot_def ar_b1_def ar_order_def List.map_filter_simps)

lemma ar_new_events: "new_events ar_b1 ar_b2 = [ar_event]"
  by (simp add: new_events_def ar_b2_def ar_b1_def ar_b0_def NewBook_def)

lemma fills_of_a_pass_keep_their_price_witness:
  "\<exists>ord. map_of (b_Orders ar_b2) (ev_OrderID ar_event) = Some ord \<and> 1 \<le> ev_Sets ar_event \<and>
     (ao_Market ord \<or> \<not> fl_less (fl_plus (ao_Limit ord) (lit (1 / 10 ^ 9))) (Fin (ev_Price ar_event)))"
proof -
  have "ev_Kind ar_event = ''fill''" "ev_Filled ar_event" by (simp_all add: ar_event_def fill_event_def)
  then show ?thesis
    using fills_of_a_pass_keep_their_price [OF ar_pass_premises, of 0 ar_event ar_g ar_said]
    by (simp add: ar_once ar_new_events)
qed

lemma a_pass_takes_no_more_than_is_shown_witness:
  "book_took ar_b1 ar_b2 (ar_sym @ ''|buy'') \<le> shown_in_pass ar_v ar_mk ar_said [ar_b1] (ar_sym @ ''|buy'') \<and>
     book_took ar_b1 ar_b2 (ar_sym @ ''|buy'') = 2"
proof -
  have "book_took ar_b1 ar_b2 (ar_sym @ ''|buy'') = 2"
    unfolding book_took_def ar_new_events
    by (simp add: event_take_def ar_event_def fill_event_def ar_b2_def ar_filled_def)
      (simp add: ar_order_def legs_take_def shown_key_def ar_leg_def)
  then show ?thesis
    using a_pass_takes_no_more_than_is_shown [OF ar_pass_premises, where k = "ar_sym @ ''|buy''" and g = ar_g and s = ar_said]
    by (simp add: ar_once)
qed

text \<open>A market with no quotes leaves the order open.\<close>

definition ar_empty :: market where
  "ar_empty = ar_mk\<lparr>mk_optionQuotes := \<lambda>symbols. Ok []\<rparr>"

lemma ar_waits: "once ar_g ar_v ar_empty ar_said [ar_b1] = (ar_said, [Note ''u1'' (NoQuoteFor ar_sym) ar_b1])"
proof -
  have e: "expire_and_settle ar_v ar_empty 10 = expire_and_settle ar_v ar_mk 10"
    by (intro ext) (simp add: expire_and_settle_def ar_empty_def)
  have "executable [ar_leg] [] m 10 100 False = Err (NoQuoteFor ar_sym)" for m
    by (simp add: executable_def exec_leg_def ar_leg_def)
  then have f: "fill ar_g ar_v ar_order [] 10 (ar_b1, m) = (Note ''u1'' (NoQuoteFor ar_sym) ar_b1, m)" for m
    by (simp add: fill_def ar_g_def) (simp add: ar_order_def)
  have m: "mk_clock ar_empty = Ok ar_clock" "mk_optionQuotes ar_empty symbols = Ok []" for symbols
    by (simp_all add: ar_empty_def)
  show ?thesis
    using f by (simp add: once_def m e ar_expiry [simplified] ar_queue Let_def case_prod_unfold fill_in_def)
qed

lemma day_orders_end_with_their_session_witness:
  "\<exists>ord \<in> set (OpenOrders (Note ''u1'' (NoQuoteFor ar_sym) ar_b1)).
     \<not> (ao_TIF ord = ''day'' \<and> (\<exists>t. ao_ExpiresAt ord = Some t \<and> t \<le> 10))"
proof -
  let ?o = "ar_order\<lparr>ao_Why := NoQuoteFor ar_sym\<rparr>"
  have "?o \<in> set (OpenOrders (Note ''u1'' (NoQuoteFor ar_sym) ar_b1))"
    by (simp add: Note_def ar_b1_def ord_open_def ar_order_def OpenOrders_def OrdersSnapshot_def put_order_def
        List.map_filter_simps)
  moreover have "\<not> (ao_TIF ord = ''day'' \<and> (\<exists>t. ao_ExpiresAt ord = Some t \<and> t \<le> 10))"
    if "ord \<in> set (OpenOrders (Note ''u1'' (NoQuoteFor ar_sym) ar_b1))" for ord
    using day_orders_end_with_their_session [OF ar_pass_premises(1), of ar_empty ar_clock 0 ord ar_g ar_v ar_said] that
    by (simp add: ar_waits) (simp add: ar_empty_def)
  ultimately show ?thesis by blast
qed

subsection \<open>Witnesses: expiry\<close>

lemma ar_in_the_money: "\<not> settlement_value ar_occ (lit 510) < lit (1 / 100)"
  using rnd_mono [of "1 / 100" 1]
  by (simp add: settlement_value_def occ_intrinsic_def ar_occ_def fround_def f64_eval)

lemma ar_Settle:
  "\<exists>e b'. Settle ar_v ar_sym (lit 510) 2000 ar_b2 = (Ok e, b') \<and> ev_Kind e = ''exercise'' \<and>
     b_Events b' = [ar_event, e] \<and> b_Orders b' = b_Orders ar_b2 \<and> b_order b' = b_order ar_b2"
proof -
  obtain e b1 where s: "settled_by ar_sym 2 ar_occ (lit 510) 2000 ar_b2 = (e, b1)" by force
  moreover have "ev_Kind e = ''exercise''"
    using s ar_in_the_money by (auto simp: settled_by_def Let_def cashSettled_def ar_occ_def no_event_def)
  moreover have "b_Events b1 = [ar_event]" using settled_by_simps(4) [OF s] by (simp add: ar_b2_def)
  moreover have "map_of (b_Positions ar_b2) ar_sym = Some ar_held" "h_Qty ar_held = 2"
    by (simp_all add: ar_b2_def ar_held_def)
  ultimately show ?thesis
    using settled_by_simps(1,2) [OF s] by (simp add: Settle_def ar_parse ar_v_def)
qed

lemma settlement_keeps_the_worth_witness:
  "\<exists>e b'. Settle ar_v ar_sym (lit 510) 2000 ar_b2 = (Ok e, b') \<and>
     \<bar>(val (b_Cash b') + of_int (pos_qty (b_Positions b') ''SPY'' - pos_qty (b_Positions ar_b2) ''SPY'') * 510) -
      (val ar_cash + 100 * 2 * 10)\<bar> \<le> 1 / 1000"
proof -
  obtain e b' where s: "Settle ar_v ar_sym (lit 510) 2000 ar_b2 = (Ok e, b')" "ev_Kind e = ''exercise''"
    using ar_Settle by blast
  have c: "b_Cash ar_b2 = ar_cash" and h: "map_of (b_Positions ar_b2) ar_sym = Some ar_held" "h_Qty ar_held = 2"
    and o: "a_Root ar_occ = ''SPY''" "a_Call ar_occ" "val (a_Strike ar_occ) = 500" "val (lit 510) = 510"
    by (simp_all add: ar_b2_def ar_held_def ar_occ_def val_lit)
  show ?thesis
    using settlement_keeps_the_worth [OF s(1) h(1) ar_parse] s ar_cash_val
    by (simp add: c h(2) o intr_def) 
qed

text \<open>At expiry, with the market closed, the pass settles the calls and fills nothing.\<close>

definition ar_closed :: market where
  "ar_closed = ar_mk\<lparr>mk_clock := Ok \<lparr>k_IsOpen = False, k_Now = 2000, k_NextClose = None\<rparr>\<rparr>"

lemma ar_wf2: "book_wf ar_b2"
  using changes_wf [OF runs_changes [OF ar_steps(2) ar_wf(2)] ar_wf(2)] .

lemma a_closed_market_fills_nothing_witness:
  "\<exists>e. e \<in> set (new_events ar_b2 (snd (once ar_g ar_v ar_closed ar_said [ar_b2]) ! 0)) \<and> ev_Kind e \<noteq> ''fill''"
proof -
  obtain e b' where s: "Settle ar_v ar_sym (lit 510) 2000 ar_b2 = (Ok e, b')" "b_Events b' = [ar_event, e]"
    "b_Orders b' = b_Orders ar_b2" "b_order b' = b_order ar_b2"
    using ar_Settle by blast
  have full: "\<not> ord_open ar_filled"
  proof -
    have "ao_Status ar_filled = statusFilled" by (simp add: ar_filled_def filled_order_def) (simp add: ar_order_def)
    then show ?thesis by (simp add: ord_open_def status_defs)
  qed
  have "map_of (b_Orders ar_b2) ''u1'' = Some ar_filled" by (simp add: ar_b2_def)
  then have "expire_one 2000 (ar_b2, []) ''u1'' = (ar_b2, [])"
    using full by (simp add: expire_one_def expires_now_def)
  then have x: "snd (ExpireDay 2000 ar_b2) = ar_b2" by (simp add: ExpireDay_def ar_b2_def ar_b1_def)
  have d: "Due (mk_zone ar_closed) (v_positions ar_v) 2000 ar_b2 = [(ar_occ, ar_sym)]"
    by (simp add: Due_def ar_v_def ar_b2_def is_due_def ar_held_def ar_parse settledAt_def ar_closed_def ar_mk_def
        classOption_def classEquity_def List.map_filter_simps)
  have lt: "mk_lastTrades ar_closed symbols = Ok [''SPY'' \<mapsto> lit 510]" for symbols
    by (simp add: ar_closed_def ar_mk_def)
  have r: "cashSettled ''SPY'' = None" "a_Root ar_occ = ''SPY''" "ToUpper ''SPY'' = ''SPY''"
    by (simp_all add: cashSettled_def ar_occ_def ToUpper_def upper_def)
  have one: "expire_and_settle ar_v ar_closed 2000 (ar_said, []) ar_b2 = (ar_said, [b'])"
    by (simp add: expire_and_settle_def x settle_def d Let_def needed_prices_def r keys_def lt settle_one_def s(1))
  let ?b = "mark_close ar_v ar_closed 2000 b'"
  have clock: "mk_clock ar_closed = Ok \<lparr>k_IsOpen = False, k_Now = 2000, k_NextClose = None\<rparr>"
    by (simp add: ar_closed_def)
  have m: "b_Orders ?b = b_Orders b'" "b_order ?b = b_order b'" "b_Events ?b = b_Events b'"
    by (auto simp: mark_close_def MarkClose_def Let_def split: prod.split sum.split)
  have q: "queue [?b] = []"
    using full by (simp add: queue_def standing_def OpenOrders_def OrdersSnapshot_def m s(3,4) List.map_filter_simps)
      (simp add: ar_b2_def ar_b1_def List.map_filter_simps)
  have "snd (once ar_g ar_v ar_closed ar_said [ar_b2]) = [?b]"
    using one q by (simp add: once_def clock Let_def)
  moreover have "e \<in> set (new_events ar_b2 ?b)" by (simp add: new_events_def m s(2)) (simp add: ar_b2_def)
  ultimately show ?thesis
    using a_closed_market_fills_nothing [of "[ar_b2]" ar_closed "\<lparr>k_IsOpen = False, k_Now = 2000, k_NextClose = None\<rparr>" ar_g 0 e ar_v ar_said]
      ar_wf2 by (auto simp: clock ar_g_def)
qed

end
