(* ===== verification/GoTime.thy ===== *)
theory GoTime
  imports GoStd
begin

text \<open>
  The part of Go's \<open>time\<close> the watches and the scorer use beyond \<open>GoStd\<close>: the date shown by the
  clocks of a place at an instant, the day of the week, and the reading of a date written in full.
  A \<open>time.Location\<close> is the offset from UTC in force at each instant, in nanoseconds; what the
  zone database says of a place is a parameter.
\<close>

type_synonym location = "time \<Rightarrow> duration"

definition UTC :: location where
  "UTC = (\<lambda>t. 0)"

text \<open>The date of a day counted from 1970, as the library computes it.\<close>

definition year_of_era :: "int \<Rightarrow> int" where
  "year_of_era doe = (doe - doe div 1460 + doe div 36524 - doe div 146096) div 365"

definition date_of_days :: "int \<Rightarrow> date" where
  "date_of_days n =
     (let z = n + 719468; era = z div 146097; doe = z mod 146097;
          yoe = year_of_era doe;
          doy = doe - (365 * yoe + yoe div 4 - yoe div 100);
          mp = (5 * doy + 2) div 153;
          m = (if mp < 10 then mp + 3 else mp - 9);
          y = yoe + era * 400
      in \<lparr>d_year = (if m \<le> 2 then y + 1 else y), d_month = m,
          d_day = doy - (153 * mp + 2) div 5 + 1\<rparr>)"

definition date_in :: "location \<Rightarrow> time \<Rightarrow> date" where
  "date_in loc t = date_of_days ((t + loc t) div day_ns)"

text \<open>Sunday is 0, as in Go; the first of January 1970 was a Thursday.\<close>

definition weekday_of_days :: "int \<Rightarrow> int" where
  "weekday_of_days n = (n + 4) mod 7"

subsection \<open>Counting days back and forth\<close>

text \<open>
  \<open>year_start\<close> is the first day of a year within its era of 400 years. The formula the library uses
  grows with the day and is right at both ends of every year, so it is right in between.
\<close>

definition year_start :: "int \<Rightarrow> int" where
  "year_start y = 365 * y + y div 4 - y div 100"

lemma year_start_less: "year_start y < year_start (y + 1)"
proof -
  have "(y + 1) div 100 \<le> y div 100 + 1" "y div 4 \<le> (y + 1) div 4" by linarith+
  moreover have "365 * y + p - q < 365 * (y + 1) + p' - q'" if "q' \<le> q + 1" "p \<le> p'" for p q p' q' :: int
    using that by (simp add: distrib_left)
  ultimately show ?thesis unfolding year_start_def by blast
qed

lemma year_of_era_mono: "0 \<le> a \<Longrightarrow> a \<le> b \<Longrightarrow> b < 146097 \<Longrightarrow> year_of_era a \<le> year_of_era b"
proof -
  assume ab: "0 \<le> a" "a \<le> b" "b < 146097"
  have step: "year_of_era n \<le> year_of_era (n + 1)" if "0 \<le> n" "n + 1 < 146097" for n
  proof -
    have "(n + 1) div 1460 \<le> n div 1460 + 1" "n div 36524 \<le> (n + 1) div 36524" by linarith+
    moreover have "(n + 1) div 146096 \<le> n div 146096 \<or> (n + 1) div 1460 = n div 1460"
      using that by (cases "n = 146095") auto
    moreover have "(n + 1) div 146096 \<le> n div 146096 + 1" by linarith
    ultimately have "n - n div 1460 + n div 36524 - n div 146096
        \<le> (n + 1) - (n + 1) div 1460 + (n + 1) div 36524 - (n + 1) div 146096"
      by linarith
    then show ?thesis unfolding year_of_era_def by (rule zdiv_mono1) simp
  qed
  show ?thesis
    using ab(2,3)
  proof (induction b rule: int_ge_induct)
    case (step i)
    then show ?case using \<open>0 \<le> a\<close> step(1) \<open>\<And>n. 0 \<le> n \<Longrightarrow> n + 1 < 146097 \<Longrightarrow> year_of_era n \<le> year_of_era (n + 1)\<close> [of i]
      by linarith
  qed simp
qed

lemma year_of_era_ends:
  "list_all (\<lambda>y. year_of_era (year_start y) = y \<and>
     (let last = (if y = 399 then 146096 else year_start (y + 1) - 1) in
      year_of_era last = y \<and> last \<le> year_start y + 365 \<and> year_start y \<le> last \<and> last < 146097)) [0..399]"
  by code_simp

lemma year_of_era_bounds:
  assumes "0 \<le> doe" "doe < 146097"
  shows "0 \<le> year_of_era doe" "year_of_era doe < 400"
    and "year_start (year_of_era doe) \<le> doe" and "doe \<le> year_start (year_of_era doe) + 365"
proof -
  have "\<exists>y. 0 \<le> y \<and> y < 400 \<and> year_start y \<le> doe \<and> (y = 399 \<or> doe < year_start (y + 1))"
    using assms
  proof (induction doe rule: int_ge_induct)
    case base
    show ?case by (rule exI [of _ 0]) (simp add: year_start_def)
  next
    case (step i)
    then obtain y where y: "0 \<le> y" "y < 400" "year_start y \<le> i" "y = 399 \<or> i < year_start (y + 1)" by auto
    show ?case
    proof (cases "y = 399 \<or> i + 1 < year_start (y + 1)")
      case True
      with y show ?thesis by (intro exI [of _ y]) auto
    next
      case False
      then have i: "y < 399" "i + 1 = year_start (y + 1)" using y by auto
      have "year_start (y + 1) < year_start (y + 1 + 1)" by (rule year_start_less)
      with y i show ?thesis by (intro exI [of _ "y + 1"]) auto
    qed
  qed
  then obtain y where y: "0 \<le> y" "y < 400" "year_start y \<le> doe" "y = 399 \<or> doe < year_start (y + 1)"
    by blast
  define z where "z = (if y = 399 then 146096 else year_start (y + 1) - 1)"
  have "y \<in> set [0..399]" using y by simp
  then have ends: "year_of_era (year_start y) = y" "year_of_era z = y" "z \<le> year_start y + 365" "z < 146097"
    using year_of_era_ends by (auto simp: list_all_iff Let_def z_def)
  have z: "doe \<le> z" using y(4) assms(2) by (auto simp: z_def)
  have "0 \<le> year_start y" using y(1) unfolding year_start_def by linarith
  then have "year_of_era doe = y"
    using year_of_era_mono [OF _ y(3) assms(2)] year_of_era_mono [OF assms(1) z ends(4)] ends by linarith
  with y ends(3) z show "0 \<le> year_of_era doe" "year_of_era doe < 400"
    "year_start (year_of_era doe) \<le> doe" "doe \<le> year_start (year_of_era doe) + 365" by auto
qed

lemma days_of_parts:
  assumes "0 \<le> yoe" "yoe < 400" and that: "0 \<le> mp" "mp \<le> 11"
  shows "days_of \<lparr>d_year = (if mp < 10 then yoe + E * 400 else yoe + E * 400 + 1),
      d_month = (if mp < 10 then mp + 3 else mp - 9), d_day = dd\<rparr>
    = E * 146097 + (yoe * 365 + yoe div 4 - yoe div 100 + ((153 * mp + 2) div 5 + dd - 1)) - 719468"
proof -
  have y: "(yoe + E * 400) div 400 = E" using assms by simp
  show ?thesis
  proof (cases "mp < 10")
    case True
    then have m: "(mp + 3 \<le> 2) = False" "(2 < mp + 3) = True" using that by auto
    have "mp + 3 + - 3 = mp" "yoe + E * 400 - E * 400 = yoe" by auto
    with True show ?thesis by (simp only: days_of_def date.simps Let_def if_True if_False m y)
  next
    case False
    then have m: "(mp - 9 \<le> 2) = True" "(2 < mp - 9) = False" using that by auto
    have "mp - 9 + 9 = mp" "yoe + E * 400 + 1 - 1 = yoe + E * 400" "yoe + E * 400 - E * 400 = yoe" by auto
    with False show ?thesis by (simp only: days_of_def date.simps Let_def if_True if_False m y)
  qed
qed

lemma days_of_date_of_days: "days_of (date_of_days n) = n"
proof -
  define E where "E = (n + 719468) div 146097"
  define doe where "doe = (n + 719468) mod 146097"
  define yoe where "yoe = year_of_era doe"
  define doy where "doy = doe - (365 * yoe + yoe div 4 - yoe div 100)"
  define mp where "mp = (5 * doy + 2) div 153"
  have doe: "0 \<le> doe" "doe < 146097" by (simp_all add: doe_def)
  have yoe: "0 \<le> yoe" "yoe < 400" and doy: "0 \<le> doy" "doy \<le> 365"
    using year_of_era_bounds [OF doe] by (auto simp: yoe_def doy_def year_start_def)
  have mp: "0 \<le> mp" "mp \<le> 11" using doy by (auto simp: mp_def)
  have z: "E * 146097 + doe = n + 719468" by (simp add: doe_def E_def)
  have y: "(yoe + E * 400) div 400 = E" using yoe by simp
  have sum: "doe = 365 * yoe + yoe div 4 - yoe div 100 + doy" by (simp add: doy_def)
  have d: "date_of_days n = \<lparr>d_year = (if mp < 10 then yoe + E * 400 else yoe + E * 400 + 1),
      d_month = (if mp < 10 then mp + 3 else mp - 9), d_day = doy - (153 * mp + 2) div 5 + 1\<rparr>"
    unfolding date_of_days_def Let_def E_def [symmetric] doe_def [symmetric] yoe_def [symmetric]
      doy_def [symmetric] mp_def [symmetric]
    using mp by (cases "mp < 10") auto
  show ?thesis
    using z sum by (simp only: d days_of_parts [OF yoe mp])
qed

subsection \<open>A date written in full\<close>

definition parse_dateonly :: "string \<Rightarrow> date option" where
  "parse_dateonly s = (case s of
       [a, b, c, d, h, e, f, k, g, i] \<Rightarrow>
         (case (parse_nat [a, b, c, d], parse_2digits e f, parse_2digits g i) of
            (Some y, Some m, Some dd) \<Rightarrow>
              if h = CHR ''-'' \<and> k = CHR ''-'' \<and> 1 \<le> m \<and> m \<le> 12 \<and> 1 \<le> dd \<and> dd \<le> days_in (int y) m
              then Some \<lparr>d_year = int y, d_month = m, d_day = dd\<rparr> else None
          | _ \<Rightarrow> None)
     | _ \<Rightarrow> None)"

lemma parse_nat_digits2:
  assumes "0 \<le> n" "n < 100"
  shows "digits2 n = [char_of (48 + nat (n div 10)), char_of (48 + nat (n mod 10))]"
    and "list_all is_digit (digits2 n)" and "nat_of_digits (s @ digits2 n) = nat_of_digits s * 100 + nat n"
proof -
  have d: "nat (n div 10) < 10" "nat (n mod 10) < 10" using assms by auto
  show "digits2 n = [char_of (48 + nat (n div 10)), char_of (48 + nat (n mod 10))]"
    by (simp add: digits2_def)
  show "list_all is_digit (digits2 n)" using d by (simp add: digits2_def)
  have "nat n = nat (n div 10) * 10 + nat (n mod 10)" using assms by (simp add: nat_div_distrib nat_mod_distrib)
  then show "nat_of_digits (s @ digits2 n) = nat_of_digits s * 100 + nat n"
    using d by (simp add: nat_of_digits_def digits2_def)
qed

lemma parse_dateonly_fmt:
  assumes v: "valid_date d"
  shows "parse_dateonly (fmt_date d) = Some d"
proof -
  let ?y = "d_year d"
  have y: "0 \<le> ?y div 100" "?y div 100 < 100" "0 \<le> ?y mod 100" "?y mod 100 < 100" "0 \<le> ?y"
    using v by (auto simp: valid_date_def)
  have m: "0 \<le> d_month d" "d_month d < 100" and dd: "0 \<le> d_day d" "d_day d < 100"
    using v days_in_le [of ?y "d_month d"] by (auto simp: valid_date_def)
  have "nat (?y div 100) * 100 + nat (?y mod 100) = nat ?y"
    using y by (simp add: nat_div_distrib nat_mod_distrib)
  then have n: "nat_of_digits (digits2 (?y div 100) @ digits2 (?y mod 100)) = nat ?y"
    using parse_nat_digits2(3) [OF y(1,2), of "[]"] parse_nat_digits2(3) [OF y(3,4), of "digits2 (?y div 100)"]
    by (simp add: nat_of_digits_def)
  then have "parse_nat (digits2 (?y div 100) @ digits2 (?y mod 100)) = Some (nat ?y)"
    using parse_nat_digits2(2) [OF y(1,2)] parse_nat_digits2(2) [OF y(3,4)]
    by (simp add: parse_nat_def) (simp add: digits2_def)
  then have year: "parse_nat [char_of (48 + nat (?y div 100 div 10)), char_of (48 + nat (?y div 100 mod 10)),
      char_of (48 + nat (?y mod 100 div 10)), char_of (48 + nat (?y mod 100 mod 10))] = Some (nat ?y)"
    by (simp only: digits2_def append.simps)
  show ?thesis
    unfolding fmt_date_def digits2_def parse_dateonly_def
    using v y(5) parse_2digits_digits2(1) [OF m] parse_2digits_digits2(1) [OF dd]
    by (simp only: append.simps list.case year prod.case option.case nat_0_le) (simp add: valid_date_def)
qed

end
