(* ===== verification/TakeProfit.thy ===== *)
theory TakeProfit
  imports Ladder GoTime "HOL-Library.List_Lexorder" "HOL-Library.Char_ord"
begin

text \<open>
  The profit watch (\<open>golang/internal/takeprofit\<close>): pairing the held legs into structures, pricing
  one to close, and one pass over the book. The broker, the record, the declared share and the
  clock are the environment of a pass; what is asked in the middle of it may depend on everything
  the watch did before. Two readings of the clock with nothing done between them show the same
  instant. Of the process log, only the two lines the watch keeps a memory for or decides on are
  effects: the holding it leaves alone, said once, and the book it finds inverted.
\<close>

subsection \<open>The contract's symbol, as the watch reads it\<close>

definition readSymbol :: "string \<Rightarrow> (string \<times> string \<times> string) option" where
  "readSymbol symbol0 =
     (let symbol = ToUpper (TrimSpace symbol0) in
      if length symbol < 15 then None else
      let tail = drop (length symbol - 15) symbol; underlying = root_of symbol in
      if underlying = [] then None else
      (case parse_yymmdd (take 6 tail) of
         None \<Rightarrow> None
       | Some day \<Rightarrow>
           if tail ! 6 = CHR ''C'' then Some (underlying, fmt_date day, ''call'')
           else if tail ! 6 = CHR ''P'' then Some (underlying, fmt_date day, ''put'')
           else None))"

subsection \<open>Structures\<close>

record Structure =
  st_Underlying :: string
  st_Expiration :: string
  st_Kind :: string
  st_Legs :: "Position list"
  st_Credit :: f64
  st_Sets :: int

definition key :: "Structure \<Rightarrow> string" where
  "key s = st_Underlying s @ CHR ''-'' # st_Expiration s @ CHR ''-'' # st_Kind s"

text \<open>The remainder of Go is smaller than the divisor whatever the signs, so the loop ends.\<close>

function gcd_loop :: "int \<Rightarrow> int \<Rightarrow> int" where
  "gcd_loop a b = (if b \<noteq> 0 then gcd_loop b (go_mod a b) else a)"
  by pat_completeness auto

lemma go_mod_abs: "b \<noteq> 0 \<Longrightarrow> \<bar>go_mod a b\<bar> = \<bar>a\<bar> mod \<bar>b\<bar>"
proof -
  assume b: "b \<noteq> 0"
  have m: "\<bar>a\<bar> mod \<bar>b\<bar> = \<bar>a\<bar> - \<bar>b\<bar> * (\<bar>a\<bar> div \<bar>b\<bar>)" by (simp add: minus_mult_div_eq_mod)
  have "go_mod a b = sgn a * (\<bar>a\<bar> - \<bar>b\<bar> * (\<bar>a\<bar> div \<bar>b\<bar>))"
    using b by (auto simp: go_mod_def go_div_def sgn_if algebra_simps)
  then have "go_mod a b = sgn a * (\<bar>a\<bar> mod \<bar>b\<bar>)" by (simp only: m)
  moreover have "0 \<le> \<bar>a\<bar> mod \<bar>b\<bar>" using b by simp
  ultimately show ?thesis by (cases "a = 0") (auto simp: abs_mult)
qed

termination gcd_loop
  by (relation "measure (\<lambda>(a, b). nat \<bar>b\<bar>)") (auto simp: go_mod_abs)

declare gcd_loop.simps [simp del]

definition contracts_held :: "Position \<Rightarrow> int" where
  "contracts_held leg = ftrunc (fround \<bar>p_Quantity leg\<bar>)"

fun sets_from :: "int \<Rightarrow> Position list \<Rightarrow> int" where
  "sets_from sets [] = sets"
| "sets_from sets (leg # legs) =
     (let q = contracts_held leg in if q = 0 then 0 else sets_from (gcd_loop sets q) legs)"

definition setsIn :: "Position list \<Rightarrow> int" where
  "setsIn legs = sets_from 0 legs"

definition short :: "Position \<Rightarrow> bool" where
  "short leg \<longleftrightarrow> p_Quantity leg < 0"

definition ratio_of :: "int \<Rightarrow> Position \<Rightarrow> f64" where
  "ratio_of sets leg = \<bar>p_Quantity leg\<bar> / f64_of_int sets"

definition credit_of :: "int \<Rightarrow> Position list \<Rightarrow> f64" where
  "credit_of sets legs = foldl (\<lambda>credit leg.
     if short leg then credit + p_AverageEntryPrice leg * ratio_of sets leg
     else credit - p_AverageEntryPrice leg * ratio_of sets leg) 0 legs"

definition oneForOne :: "Position list \<Rightarrow> bool" where
  "oneForOne legs =
     (if length legs \<noteq> 2 then False else
      let (sold, bought) = foldl (\<lambda>(sold, bought) leg.
            if short leg then (sold + \<bar>p_Quantity leg\<bar>, bought)
            else (sold, bought + p_Quantity leg)) (0, 0) legs
      in sold > 0 \<and> sold = bought)"

definition optionable :: "Position \<Rightarrow> bool" where
  "optionable p \<longleftrightarrow> EqualFold (p_AssetClass p) ''us_option'' \<or> EqualFold (p_AssetClass p) ''option''"

definition tp_series :: "Position \<Rightarrow> string option" where
  "tp_series p = (if \<not> optionable p then None else
     map_option (\<lambda>(underlying, expiry, kind). underlying @ CHR ''|'' # expiry @ CHR ''|'' # kind)
       (readSymbol (p_Symbol p)))"

definition tp_series_legs :: "Position list \<Rightarrow> string \<Rightarrow> Position list" where
  "tp_series_legs held k = filter (\<lambda>p. tp_series p = Some k) held"

definition structure_of :: "string \<Rightarrow> Position list \<Rightarrow> Structure option" where
  "structure_of k legs0 =
     (let parts = Split CHR ''|'' k;
          legs = sort_by (\<lambda>a b. p_Symbol a < p_Symbol b) legs0;
          sets = setsIn legs
      in if sets < 1 then None
         else Some \<lparr>st_Underlying = parts ! 0, st_Expiration = parts ! 1, st_Kind = parts ! 2,
                st_Legs = legs, st_Credit = credit_of sets legs, st_Sets = sets\<rparr>)"

definition tp_series_of :: "Position list \<Rightarrow> string list" where
  "tp_series_of held = firsts [] (List.map_filter tp_series held)"

definition structures_in :: "string iteration \<Rightarrow> Position list \<Rightarrow> Structure list" where
  "structures_in it held =
     List.map_filter (\<lambda>k. structure_of k (tp_series_legs held k)) (it (tp_series_of held))"

definition Group :: "string iteration \<Rightarrow> Position list \<Rightarrow> Structure list \<times> string list" where
  "Group it held =
     (let all = structures_in it held in
      (sort_by (\<lambda>a b. key a < key b) (filter (\<lambda>s. oneForOne (st_Legs s)) all),
       sort (map key (filter (\<lambda>s. \<not> oneForOne (st_Legs s)) all))))"

subsection \<open>The price of closing\<close>

fun buy_back :: "int \<Rightarrow> (string \<rightharpoonup> Quote) \<Rightarrow> f64 \<Rightarrow> Position list \<Rightarrow> f64 option" where
  "buy_back sets quotes cost [] = Some cost"
| "buy_back sets quotes cost (leg # legs) =
     (case quotes (p_Symbol leg) of
        None \<Rightarrow> None
      | Some quote \<Rightarrow>
          if q_Bid quote \<le> 0 \<or> q_Ask quote \<le> 0 \<or> q_Ask quote < q_Bid quote then None
          else if short leg then buy_back sets quotes (cost + q_Ask quote * ratio_of sets leg) legs
          else buy_back sets quotes (cost - q_Bid quote * ratio_of sets leg) legs)"

definition BuyBack :: "Structure \<Rightarrow> (string \<rightharpoonup> Quote) \<Rightarrow> f64 option" where
  "BuyBack s quotes = buy_back (st_Sets s) quotes 0 (st_Legs s)"

fun close_legs :: "int \<Rightarrow> Position list \<Rightarrow> CloseLeg list option" where
  "close_legs sets [] = Some []"
| "close_legs sets (leg # legs) =
     (let ratio = go_div (contracts_held leg) sets in
      if ratio < 1 then None
      else map_option ((#) \<lparr>cl_Symbol = p_Symbol leg, cl_Ratio = ratio, cl_Buy = short leg\<rparr>)
             (close_legs sets legs))"

subsection \<open>State, effects and environment\<close>

record Watch =
  w_Every :: duration
  w_Where :: "location option"
  w_sent :: "string \<rightharpoonup> time"
  w_declined :: "string set"

text \<open>A close is kept with the structure it is for, the instant it was sent at and the answer.\<close>

datatype tp_effect =
    CloseStructure string time "CloseLeg list" int f64 string "string option"
  | Kept ExecutionStep
  | Leaving string
  | Inverted string f64

datatype share_error = ShareUnread string | NothingCloses f64 | NotAShare f64

record tp_env =
  t_positions :: "(string, Position list) result"
  t_orders :: "(string, Order list) result"
  t_At :: "(string, f64) result"
  t_now :: "tp_effect list \<Rightarrow> time"
  t_quotes :: "tp_effect list \<Rightarrow> string list \<Rightarrow> (string, string \<rightharpoonup> Quote) result"
  t_close :: "tp_effect list \<Rightarrow> CloseLeg list \<Rightarrow> int \<Rightarrow> f64 \<Rightarrow> string \<Rightarrow> (string, string) result"
  t_record :: bool
  t_it :: "string iteration"

record tp_pass =
  tp_watch :: Watch
  tp_done :: "tp_effect list"

definition acts :: "tp_effect \<Rightarrow> tp_pass \<Rightarrow> tp_pass" where
  "acts x p = p\<lparr>tp_done := tp_done p @ [x]\<rparr>"

definition sent_for :: duration where
  "sent_for = 10 * minute"

definition share :: "tp_env \<Rightarrow> (share_error, f64) result" where
  "share e = (case t_At e of
       Err err \<Rightarrow> Err (ShareUnread err)
     | Ok at' \<Rightarrow>
         if at' \<le> 0 then Err (NothingCloses at')
         else if at' > 1 then Err (NotAShare at')
         else Ok at')"

definition expired :: "Watch \<Rightarrow> time \<Rightarrow> Structure \<Rightarrow> bool" where
  "expired w now s =
     (let where' = (case w_Where w of None \<Rightarrow> UTC | Some l \<Rightarrow> l) in
      (case parse_dateonly (st_Expiration s) of
         None \<Rightarrow> True
       | Some day \<Rightarrow> midnight day < midnight (date_in where' now)))"

subsection \<open>One structure\<close>

definition placed_step :: "string \<Rightarrow> time \<Rightarrow> f64 \<Rightarrow> ExecutionStep" where
  "placed_step orderRef now limit = \<lparr>x_OrderRef = orderRef, x_At = now, x_Action = ''placed'',
     x_Was = limit, x_Became = None, x_Showing = None, x_Floor = None, x_Quantity = None,
     x_ReplacedBy = None\<rparr>"

definition tp_wroteDown :: "tp_env \<Rightarrow> string \<Rightarrow> f64 \<Rightarrow> tp_pass \<Rightarrow> tp_pass" where
  "tp_wroteDown e orderRef limit p =
     (if \<not> t_record e \<or> orderRef = [] then p
      else acts (Kept (placed_step orderRef (t_now e (tp_done p)) limit)) p)"

definition close_name :: "f64 \<Rightarrow> string \<Rightarrow> time \<Rightarrow> string" where
  "close_name worst k now = NameFor worst @ '';tp-'' @ k @ CHR ''-'' # dec_int (now div second)"

definition sent_lately :: "Watch \<Rightarrow> string \<Rightarrow> time \<Rightarrow> bool" where
  "sent_lately w k now = (case w_sent w k of None \<Rightarrow> False | Some at' \<Rightarrow> now - at' < sent_for)"

definition send_close :: "tp_env \<Rightarrow> f64 \<Rightarrow> Structure \<Rightarrow> f64 \<Rightarrow> CloseLeg list \<Rightarrow> tp_pass \<Rightarrow> tp_pass" where
  "send_close e share' s cost legs p =
     (let now = t_now e (tp_done p);
          name = close_name (st_Credit s * share') (key s) now;
          verb = CloseStructure (key s) now legs (st_Sets s) cost name in
      (case t_close e (tp_done p) legs (st_Sets s) cost name of
         Err err \<Rightarrow> acts (verb None) p
       | Ok ref \<Rightarrow>
           let p = tp_wroteDown e ref cost (acts (verb (Some ref)) p);
               w = tp_watch p
           in p\<lparr>tp_watch := w\<lparr>w_sent := (w_sent w)(key s \<mapsto> t_now e (tp_done p))\<rparr>\<rparr>))"

definition consider_one :: "tp_env \<Rightarrow> string set \<Rightarrow> f64 \<Rightarrow> Structure \<Rightarrow> tp_pass \<Rightarrow> tp_pass" where
  "consider_one e walking share' s p =
     (let now = t_now e (tp_done p) in
      if st_Credit s \<le> 0 then p
      else if expired (tp_watch p) now s then p
      else if sent_lately (tp_watch p) (key s) now then p
      else if \<exists>leg \<in> set (st_Legs s). ToUpper (p_Symbol leg) \<in> walking then p else
      (case t_quotes e (tp_done p) (map p_Symbol (st_Legs s)) of
         Err err \<Rightarrow> p
       | Ok quotes \<Rightarrow>
           (case BuyBack s quotes of
              None \<Rightarrow> p
            | Some cost \<Rightarrow>
                if cost < 0 then acts (Inverted (key s) cost) p
                else if cost > st_Credit s * share' then p
                else (case close_legs (st_Sets s) (st_Legs s) of
                        None \<Rightarrow> p
                      | Some legs \<Rightarrow> send_close e share' s cost legs p))))"

subsection \<open>One pass\<close>

text \<open>Every contract an order still in play names, in capitals; an order of several legs names none itself.\<close>

definition names_in :: "Order \<Rightarrow> string list" where
  "names_in ord = filter (\<lambda>x. x \<noteq> []) (o_Symbol ord # map o_Symbol (o_Legs ord))"

definition in_play :: "Order list \<Rightarrow> string set" where
  "in_play orders = set (concat (map (\<lambda>ord. map ToUpper (names_in ord)) (filter Active orders)))"

definition decline :: "string list \<Rightarrow> tp_pass \<Rightarrow> tp_pass" where
  "decline ambiguous p =
     (let p = foldl (\<lambda>p name.
            if name \<in> w_declined (tp_watch p) then p
            else acts (Leaving name)
              (p\<lparr>tp_watch := (tp_watch p)\<lparr>w_declined := insert name (w_declined (tp_watch p))\<rparr>\<rparr>)) p ambiguous
      in p\<lparr>tp_watch := (tp_watch p)\<lparr>w_declined := {n \<in> w_declined (tp_watch p). n \<in> set ambiguous}\<rparr>\<rparr>)"

definition tp_step :: "tp_env \<Rightarrow> Watch \<Rightarrow> Watch \<times> tp_effect list" where
  "tp_step e w =
     (case t_positions e of
        Err err \<Rightarrow> (w, [])
      | Ok held \<Rightarrow>
          let (structures, ambiguous) = Group (t_it e) held;
              p = decline ambiguous \<lparr>tp_watch = w, tp_done = []\<rparr>;
              p = (if structures = [] then p else
                   (case t_orders e of
                      Err err \<Rightarrow> p
                    | Ok orders \<Rightarrow>
                        (case share e of
                           Err err \<Rightarrow> p
                         | Ok share' \<Rightarrow>
                             foldl (\<lambda>p s. consider_one e (in_play orders) share' s p) p structures)))
          in (tp_watch p, tp_done p))"

text \<open>The start of \<open>Run\<close>, which refuses a share it cannot read, and its ticks.\<close>

definition tp_start :: "(share_error, f64) result \<Rightarrow> Watch \<Rightarrow> (share_error, Watch) result" where
  "tp_start answer w = (case answer of
       Err err \<Rightarrow> Err err
     | Ok share' \<Rightarrow>
         let every = (if w_Every w \<le> 0 then 30 * second else w_Every w)
         in Ok (w\<lparr>w_Every := every, w_sent := Map.empty, w_declined := {}\<rparr>))"

fun tp_ticks :: "tp_env list \<Rightarrow> Watch \<Rightarrow> Watch \<times> tp_effect list" where
  "tp_ticks [] w = (w, [])"
| "tp_ticks (e # es) w =
     (let (w, xs) = tp_step e w; (w, ys) = tp_ticks es w in (w, xs @ ys))"

end
