(* ===== verification/TakeProfitLaws.thy ===== *)
theory TakeProfitLaws
  imports TakeProfit
begin

text \<open>
  What holds of the profit watch: the number of sets is the greatest common divisor of what is
  held, a close undoes exactly what is held, nothing is closed that is not a won vertical nobody is
  already closing, and no structure is closed twice within ten minutes.
\<close>

subsection \<open>How many sets\<close>

lemma gcd_loop_eq: "0 \<le> a \<Longrightarrow> 0 \<le> b \<Longrightarrow> gcd_loop a b = gcd a b"
proof (induction a b rule: gcd_loop.induct)
  case (1 a b)
  show ?case
  proof (cases "b = 0")
    case True
    with 1(2) show ?thesis by (subst gcd_loop.simps) simp
  next
    case False
    with 1(2,3) have m: "go_mod a b = a mod b" by (simp add: go_mod_nonneg)
    then have "gcd_loop b (go_mod a b) = gcd b (a mod b)" using 1 False by simp
    with False show ?thesis by (subst gcd_loop.simps) (simp add: gcd_red_int [of a b] m)
  qed
qed

lemma contracts_held_nonneg [simp]: "0 \<le> contracts_held leg"
  using rha_mono [of 0 "\<bar>val (p_Quantity leg)\<bar>"] by (simp add: contracts_held_def ftrunc_def val_fround)

lemma sets_from_eq:
  assumes "0 \<le> n"
  shows "sets_from n legs = (if \<exists>leg \<in> set legs. contracts_held leg = 0 then 0
    else gcd n (Gcd (contracts_held ` set legs)))"
  using assms
proof (induction legs arbitrary: n)
  case (Cons leg legs)
  have "sets_from (gcd_loop n (contracts_held leg)) legs =
      (if \<exists>leg \<in> set legs. contracts_held leg = 0 then 0
       else gcd (gcd n (contracts_held leg)) (Gcd (contracts_held ` set legs)))"
    using Cons by (simp add: gcd_loop_eq)
  then show ?case by (auto simp: Let_def gcd.assoc)
qed simp

text \<open>C39. The number of sets the watch finds in what is held, with the loop of Euclid it runs over the
  rounded quantities, is their greatest common divisor, and nought when one of them rounds to nothing.\<close>

theorem setsIn_is_the_gcd:
  "setsIn legs = (if \<exists>leg \<in> set legs. contracts_held leg = 0 then 0
    else Gcd (contracts_held ` set legs))"
  by (simp add: setsIn_def sets_from_eq)

lemma setsIn_dvd: "leg \<in> set legs \<Longrightarrow> 1 \<le> setsIn legs \<Longrightarrow> setsIn legs dvd contracts_held leg"
  using sets_from_eq [of 0 legs] by (auto simp: setsIn_def split: if_splits)

subsection \<open>What is grouped\<close>

definition vertical :: "Structure \<Rightarrow> bool" where
  "vertical s \<longleftrightarrow> (\<exists>a b. (st_Legs s = [a, b] \<or> st_Legs s = [b, a]) \<and> short a \<and> \<not> short b \<and>
     p_Quantity b = - p_Quantity a)"

lemma oneForOne_vertical:
  assumes "oneForOne (st_Legs s)"
  shows "vertical s"
proof -
  obtain a b where ab: "st_Legs s = [a, b]"
    using assms by (auto simp: oneForOne_def length_Suc_conv numeral_2_eq_2 split: if_splits)
  consider "short a \<and> \<not> short b \<and> p_Quantity b = - p_Quantity a"
    | "short b \<and> \<not> short a \<and> p_Quantity a = - p_Quantity b"
    using assms ab by (auto simp: oneForOne_def short_def f64_abs_of_nonneg split: if_splits)
  then show ?thesis unfolding vertical_def using ab by cases blast+
qed

lemma Group_structure:
  assumes "s \<in> set (fst (Group it held))" "iterates it"
  shows "vertical s" "set (st_Legs s) \<subseteq> set held" "st_Sets s = setsIn (st_Legs s)" "1 \<le> st_Sets s"
    "st_Credit s = credit_of (st_Sets s) (st_Legs s)"
    "\<exists>k. \<forall>p \<in> set (st_Legs s). optionable p \<and> tp_series p = Some k"
proof -
  obtain k where k: "structure_of k (tp_series_legs held k) = Some s" and one: "oneForOne (st_Legs s)"
    using assms by (auto simp: Group_def Let_def structures_in_def map_filter_def split: option.splits)
  show "vertical s" by (rule oneForOne_vertical [OF one])
  show "set (st_Legs s) \<subseteq> set held" "st_Sets s = setsIn (st_Legs s)" "1 \<le> st_Sets s"
    "st_Credit s = credit_of (st_Sets s) (st_Legs s)"
    using k by (auto simp: structure_of_def Let_def tp_series_legs_def split: if_splits)
  show "\<exists>k. \<forall>p \<in> set (st_Legs s). optionable p \<and> tp_series p = Some k"
    using k by (intro exI [of _ k])
      (auto simp: structure_of_def Let_def tp_series_legs_def tp_series_def split: if_splits)
qed

subsection \<open>What a close sends\<close>

lemma close_legs_undo:
  assumes "close_legs sets ps = Some legs" "1 \<le> sets" "\<forall>p \<in> set ps. sets dvd contracts_held p"
  shows "map (\<lambda>l. (cl_Symbol l, cl_Buy l, sets * cl_Ratio l)) legs =
    map (\<lambda>p. (p_Symbol p, short p, contracts_held p)) ps"
  using assms
proof (induction ps arbitrary: legs)
  case (Cons p ps)
  then have "sets * go_div (contracts_held p) sets = contracts_held p"
    by (simp add: go_div_nonneg)
  with Cons show ?case by (auto simp: Let_def split: if_splits)
qed simp

lemma contracts_held_whole:
  assumes "val (p_Quantity p) = of_int n"
  shows "contracts_held p = \<bar>n\<bar>" "short p \<longleftrightarrow> n < 0" "ftrunc (p_Quantity p) = n"
proof -
  have "val (fround \<bar>p_Quantity p\<bar>) = of_int \<bar>n\<bar>"
    using assms rha_of_int [of "\<bar>n\<bar>"] by (simp add: val_fround flip: of_int_abs)
  then show "contracts_held p = \<bar>n\<bar>"
    by (simp add: contracts_held_def ftrunc_def flip: of_int_abs)
  show "short p \<longleftrightarrow> n < 0" using assms by (simp add: short_def less_f64_iff)
  show "ftrunc (p_Quantity p) = n" using assms by (simp add: ftrunc_def)
qed

subsection \<open>One structure at a time\<close>

text \<open>When \<open>consider_one\<close> sends a close, and what the close is.\<close>

definition ripe :: "tp_env \<Rightarrow> string set \<Rightarrow> f64 \<Rightarrow> Structure \<Rightarrow> tp_pass \<Rightarrow> (string \<rightharpoonup> Quote) \<Rightarrow> f64 \<Rightarrow> CloseLeg list \<Rightarrow> bool" where
  "ripe e walking share' s p quotes cost legs \<longleftrightarrow>
     0 < st_Credit s \<and> \<not> expired (tp_watch p) (t_now e (tp_done p)) s \<and>
     \<not> sent_lately (tp_watch p) (key s) (t_now e (tp_done p)) \<and>
     (\<forall>leg \<in> set (st_Legs s). ToUpper (p_Symbol leg) \<notin> walking) \<and>
     t_quotes e (tp_done p) (map p_Symbol (st_Legs s)) = Ok quotes \<and>
     BuyBack s quotes = Some cost \<and> 0 \<le> cost \<and> cost \<le> st_Credit s * share' \<and>
     close_legs (st_Sets s) (st_Legs s) = Some legs"

lemma consider_one_cases:
  obtains (left) "consider_one e walking share' s p = p"
    | (inverted) cost where "consider_one e walking share' s p = acts (Inverted (key s) cost) p"
    | (sent) quotes cost legs where "ripe e walking share' s p quotes cost legs"
        "consider_one e walking share' s p = send_close e share' s cost legs p"
proof (cases "st_Credit s \<le> 0 \<or> expired (tp_watch p) (t_now e (tp_done p)) s \<or>
    sent_lately (tp_watch p) (key s) (t_now e (tp_done p)) \<or>
    (\<exists>leg \<in> set (st_Legs s). ToUpper (p_Symbol leg) \<in> walking)")
  case True
  then show ?thesis by (intro left) (auto simp: consider_one_def Let_def)
next
  case guards: False
  show ?thesis
  proof (cases "t_quotes e (tp_done p) (map p_Symbol (st_Legs s))")
    case (Inl err)
    with guards show ?thesis by (intro left) (auto simp: consider_one_def Let_def)
  next
    case quotes: (Inr quotes)
    show ?thesis
    proof (cases "BuyBack s quotes")
      case None
      with guards quotes show ?thesis by (intro left) (auto simp: consider_one_def Let_def)
    next
      case cost: (Some cost)
      show ?thesis
      proof (cases "cost < 0")
        case True
        with guards quotes cost show ?thesis by (intro inverted) (auto simp: consider_one_def Let_def)
      next
        case False
        show ?thesis
        proof (cases "st_Credit s * share' < cost \<or> close_legs (st_Sets s) (st_Legs s) = None")
          case True
          with guards quotes cost \<open>\<not> cost < 0\<close> show ?thesis
            by (intro left) (auto simp: consider_one_def Let_def)
        next
          case small: False
          then obtain legs where "close_legs (st_Sets s) (st_Legs s) = Some legs" by auto
          with guards quotes cost \<open>\<not> cost < 0\<close> small show ?thesis
            by (intro sent [of quotes cost legs]) (auto simp: consider_one_def ripe_def Let_def)
        qed
      qed
    qed
  qed
qed

text \<open>What sending does: one close, perhaps the line that keeps it, and the memory of it when it was taken.\<close>

definition the_close :: "tp_env \<Rightarrow> f64 \<Rightarrow> Structure \<Rightarrow> f64 \<Rightarrow> CloseLeg list \<Rightarrow> tp_pass \<Rightarrow> string option \<Rightarrow> tp_effect" where
  "the_close e share' s cost legs p = (let now = t_now e (tp_done p) in
     CloseStructure (key s) now legs (st_Sets s) cost (close_name (st_Credit s * share') (key s) now))"

lemma send_close_cases:
  obtains (refused) "send_close e share' s cost legs p = acts (the_close e share' s cost legs p None) p"
    | (taken) ref kept where
      "tp_done (send_close e share' s cost legs p) = tp_done p @ the_close e share' s cost legs p (Some ref) # kept"
      "tp_watch (send_close e share' s cost legs p) = (tp_watch p)\<lparr>w_sent := (w_sent (tp_watch p))
         (key s \<mapsto> t_now e (tp_done p @ the_close e share' s cost legs p (Some ref) # kept))\<rparr>"
      "\<forall>x \<in> set kept. \<exists>step. x = Kept step"
proof (cases "t_close e (tp_done p) legs (st_Sets s) cost
    (close_name (st_Credit s * share') (key s) (t_now e (tp_done p)))")
  case (Inl err)
  then show ?thesis by (intro refused) (simp add: send_close_def the_close_def Let_def)
next
  case (Inr ref)
  define p1 where "p1 = acts (the_close e share' s cost legs p (Some ref)) p"
  have s: "send_close e share' s cost legs p = (let p = tp_wroteDown e ref cost p1 in
      p\<lparr>tp_watch := (tp_watch p)\<lparr>w_sent := (w_sent (tp_watch p))(key s \<mapsto> t_now e (tp_done p))\<rparr>\<rparr>)"
    using Inr by (simp add: send_close_def the_close_def p1_def Let_def)
  obtain kept where k: "tp_done (tp_wroteDown e ref cost p1) = tp_done p1 @ kept"
    "tp_watch (tp_wroteDown e ref cost p1) = tp_watch p1" "\<forall>x \<in> set kept. \<exists>step. x = Kept step"
    by (cases "\<not> t_record e \<or> ref = []") (auto simp: tp_wroteDown_def acts_def)
  show ?thesis
    by (rule taken [of ref kept]) (simp_all add: s Let_def k, simp_all add: p1_def acts_def)
qed

lemma consider_one_where [simp]: "w_Where (tp_watch (consider_one e walking share' s p)) = w_Where (tp_watch p)"
proof (cases rule: consider_one_cases [of e walking share' s p, case_names left inverted sent])
  case (sent quotes cost legs)
  then show ?thesis
    by (cases rule: send_close_cases [of e share' s cost legs p, case_names refused taken]) (auto simp: acts_def)
qed (auto simp: acts_def)

lemma expired_where: "w_Where w = w_Where w' \<Longrightarrow> expired w now s = expired w' now s"
  by (simp add: expired_def)

subsection \<open>A pass\<close>

lemma decline_keeps:
  assumes "\<forall>x \<in> set (tp_done p). \<exists>n. x = Leaving n"
  shows "w_sent (tp_watch (decline names p)) = w_sent (tp_watch p)"
    and "w_Where (tp_watch (decline names p)) = w_Where (tp_watch p)"
    and "\<forall>x \<in> set (tp_done (decline names p)). \<exists>n. x = Leaving n"
proof -
  let ?P = "\<lambda>q. w_sent (tp_watch q) = w_sent (tp_watch p) \<and> w_Where (tp_watch q) = w_Where (tp_watch p) \<and>
    (\<forall>x \<in> set (tp_done q). \<exists>n. x = Leaving n)"
  have "?P (foldl (\<lambda>p name.
      if name \<in> w_declined (tp_watch p) then p
      else acts (Leaving name)
        (p\<lparr>tp_watch := (tp_watch p)\<lparr>w_declined := insert name (w_declined (tp_watch p))\<rparr>\<rparr>)) p names)"
    by (rule foldl_invariant [of ?P]) (auto simp: acts_def assms)
  then show "w_sent (tp_watch (decline names p)) = w_sent (tp_watch p)"
    "w_Where (tp_watch (decline names p)) = w_Where (tp_watch p)"
    "\<forall>x \<in> set (tp_done (decline names p)). \<exists>n. x = Leaving n"
    by (simp_all add: decline_def Let_def)
qed

text \<open>What holds after every structure of a pass holds at its end.\<close>

lemma tp_step_invariant:
  assumes start: "\<And>p. w_sent (tp_watch p) = w_sent w \<Longrightarrow> w_Where (tp_watch p) = w_Where w \<Longrightarrow>
      \<forall>x \<in> set (tp_done p). \<exists>n. x = Leaving n \<Longrightarrow> P p"
    and one: "\<And>held orders share' s p. t_positions e = Ok held \<Longrightarrow> t_orders e = Ok orders \<Longrightarrow>
      share e = Ok share' \<Longrightarrow> s \<in> set (fst (Group (t_it e) held)) \<Longrightarrow> P p \<Longrightarrow>
      P (consider_one e (in_play orders) share' s p)"
  shows "\<exists>p. P p \<and> tp_step e w = (tp_watch p, tp_done p)"
proof (cases "t_positions e")
  case (Inl err)
  then show ?thesis by (intro exI [of _ "\<lparr>tp_watch = w, tp_done = []\<rparr>"] conjI start) (auto simp: tp_step_def)
next
  case held: (Inr held)
  obtain structures ambiguous where g: "Group (t_it e) held = (structures, ambiguous)" by fastforce
  define p where "p = decline ambiguous \<lparr>tp_watch = w, tp_done = []\<rparr>"
  have P: "P p" unfolding p_def by (rule start) (use decline_keeps [of "\<lparr>tp_watch = w, tp_done = []\<rparr>" ambiguous] in auto)
  show ?thesis
  proof (cases "structures = []")
    case True
    with P show ?thesis by (intro exI [of _ p] conjI) (simp_all add: tp_step_def Let_def held g p_def)
  next
    case ne: False
    show ?thesis
    proof (cases "t_orders e")
      case (Inl err)
      with P ne show ?thesis by (intro exI [of _ p] conjI) (simp_all add: tp_step_def Let_def held g p_def)
    next
      case orders: (Inr orders)
      show ?thesis
      proof (cases "share e")
        case (Inl err)
        with P ne orders show ?thesis by (intro exI [of _ p] conjI) (simp_all add: tp_step_def Let_def held g p_def)
      next
        case share: (Inr share')
        have "P (foldl (\<lambda>p s. consider_one e (in_play orders) share' s p) p structures)"
          using P by (rule foldl_invariant) (auto intro: one [OF held orders share] simp: g)
        then show ?thesis
          by (intro exI conjI) (simp_all add: tp_step_def Let_def held g p_def ne orders share)
      qed
    qed
  qed
qed

lemma share_Ok: "share e = Ok at' \<Longrightarrow> t_At e = Ok at' \<and> 0 < at' \<and> at' \<le> 1"
  by (auto simp: share_def split: sum.splits if_splits)

subsection \<open>What is closed\<close>

text \<open>The closes a list of effects holds were all sent for structures that satisfy \<open>Q\<close>.\<close>

definition closes_were :: "(string \<Rightarrow> time \<Rightarrow> CloseLeg list \<Rightarrow> int \<Rightarrow> f64 \<Rightarrow> string \<Rightarrow> bool) \<Rightarrow> tp_effect list \<Rightarrow> bool" where
  "closes_were Q xs \<longleftrightarrow>
     (\<forall>k now legs sets limit name answer. CloseStructure k now legs sets limit name answer \<in> set xs \<longrightarrow>
        Q k now legs sets limit name)"

lemma consider_one_closes_were:
  assumes "closes_were Q (tp_done p)"
    and "\<And>quotes cost legs. ripe e walking share' s p quotes cost legs \<Longrightarrow>
      Q (key s) (t_now e (tp_done p)) legs (st_Sets s) cost
        (close_name (st_Credit s * share') (key s) (t_now e (tp_done p)))"
  shows "closes_were Q (tp_done (consider_one e walking share' s p))"
proof (cases rule: consider_one_cases [of e walking share' s p, case_names left inverted sent])
  case (sent quotes cost legs)
  then show ?thesis
    using assms
    by (cases rule: send_close_cases [of e share' s cost legs p, case_names refused taken])
      (fastforce simp: closes_were_def acts_def the_close_def Let_def)+
qed (use assms in \<open>auto simp: acts_def closes_were_def\<close>)

lemma closes_were_step:
  assumes "\<And>held orders share' s p quotes cost legs. t_positions e = Ok held \<Longrightarrow> t_orders e = Ok orders \<Longrightarrow>
      share e = Ok share' \<Longrightarrow> s \<in> set (fst (Group (t_it e) held)) \<Longrightarrow> w_Where (tp_watch p) = w_Where w \<Longrightarrow>
      ripe e (in_play orders) share' s p quotes cost legs \<Longrightarrow>
      Q (key s) (t_now e (tp_done p)) legs (st_Sets s) cost
        (close_name (st_Credit s * share') (key s) (t_now e (tp_done p)))"
  shows "closes_were Q (snd (tp_step e w))"
proof -
  have "\<exists>p :: tp_pass. (closes_were Q (tp_done p) \<and> w_Where (tp_watch p) = w_Where w) \<and>
    tp_step e w = (tp_watch p, tp_done p)"
  proof (rule tp_step_invariant [where P = "\<lambda>p. closes_were Q (tp_done p) \<and> w_Where (tp_watch p) = w_Where w"])
    fix p :: tp_pass
    assume "w_Where (tp_watch p) = w_Where w" "\<forall>x \<in> set (tp_done p). \<exists>n. x = Leaving n"
    then show "closes_were Q (tp_done p) \<and> w_Where (tp_watch p) = w_Where w"
      by (fastforce simp: closes_were_def)
  next
    fix held orders share' s and p :: tp_pass
    assume a: "t_positions e = Ok held" "t_orders e = Ok orders" "share e = Ok share'"
      "s \<in> set (fst (Group (t_it e) held))" "closes_were Q (tp_done p) \<and> w_Where (tp_watch p) = w_Where w"
    then show "closes_were Q (tp_done (consider_one e (in_play orders) share' s p)) \<and>
        w_Where (tp_watch (consider_one e (in_play orders) share' s p)) = w_Where w"
      using consider_one_closes_were [of Q p e "in_play orders" share' s] assms [OF a(1-4)] by simp
  qed
  then show ?thesis by auto
qed

lemma in_playI: "ord \<in> set orders \<Longrightarrow> Active ord \<Longrightarrow> x \<in> set (names_in ord) \<Longrightarrow> ToUpper x \<in> in_play orders"
  by (auto simp: in_play_def)

text \<open>C29. Every close the profit watch sends is for a vertical it holds: one leg sold and as many of one
  leg bought, of one underlying, one expiration and one type; opened for a credit; not past its
  expiration; named by no order still in play; and priced, at the sides of the book an order would
  cross, between nothing and the declared share of the credit, which is a share.\<close>

theorem closes_only_what_is_ripe:
  assumes "CloseStructure k now legs sets limit name answer \<in> set (snd (tp_step e w))"
    and "iterates (t_it e)"
  shows "\<exists>held orders at' s quotes. t_positions e = Ok held \<and> t_orders e = Ok orders \<and>
    t_At e = Ok at' \<and> 0 < at' \<and> at' \<le> 1 \<and>
    s \<in> set (fst (Group (t_it e) held)) \<and> set (st_Legs s) \<subseteq> set held \<and> vertical s \<and>
    (\<exists>series. \<forall>p \<in> set (st_Legs s). optionable p \<and> tp_series p = Some series) \<and>
    k = key s \<and> sets = st_Sets s \<and> 0 < st_Credit s \<and> \<not> expired w now s \<and>
    (\<forall>ord \<in> set orders. Active ord \<longrightarrow>
       (\<forall>p \<in> set (st_Legs s). \<forall>x \<in> set (names_in ord). ToUpper x \<noteq> ToUpper (p_Symbol p))) \<and>
    BuyBack s quotes = Some limit \<and> 0 \<le> limit \<and> limit \<le> st_Credit s * at'"
proof -
  let ?Q = "\<lambda>k now legs sets limit name. \<exists>held orders at' s quotes. t_positions e = Ok held \<and>
    t_orders e = Ok orders \<and> t_At e = Ok at' \<and> 0 < at' \<and> at' \<le> 1 \<and>
    s \<in> set (fst (Group (t_it e) held)) \<and> set (st_Legs s) \<subseteq> set held \<and> vertical s \<and>
    (\<exists>series. \<forall>p \<in> set (st_Legs s). optionable p \<and> tp_series p = Some series) \<and>
    k = key s \<and> sets = st_Sets s \<and> 0 < st_Credit s \<and> \<not> expired w now s \<and>
    (\<forall>ord \<in> set orders. Active ord \<longrightarrow>
       (\<forall>p \<in> set (st_Legs s). \<forall>x \<in> set (names_in ord). ToUpper x \<noteq> ToUpper (p_Symbol p))) \<and>
    BuyBack s quotes = Some limit \<and> 0 \<le> limit \<and> limit \<le> st_Credit s * at'"
  have "closes_were ?Q (snd (tp_step e w))"
  proof (rule closes_were_step)
    fix held orders share' s and p :: tp_pass and quotes cost legs
    assume a: "t_positions e = Ok held" "t_orders e = Ok orders" "share e = Ok share'"
      "s \<in> set (fst (Group (t_it e) held))" "w_Where (tp_watch p) = w_Where w"
      and r: "ripe e (in_play orders) share' s p quotes cost legs"
    have "\<forall>ord \<in> set orders. Active ord \<longrightarrow>
        (\<forall>p \<in> set (st_Legs s). \<forall>x \<in> set (names_in ord). ToUpper x \<noteq> ToUpper (p_Symbol p))"
      using r in_playI unfolding ripe_def by metis
    then show "?Q (key s) (t_now e (tp_done p)) legs (st_Sets s) cost
        (close_name (st_Credit s * share') (key s) (t_now e (tp_done p)))"
      using a r Group_structure [OF a(4) assms(2)] share_Ok [OF a(3)] expired_where [OF a(5)]
      by (intro exI [of _ held] exI [of _ orders] exI [of _ share'] exI [of _ s] exI [of _ quotes])
        (simp add: ripe_def)
  qed
  then show ?thesis using assms(1) unfolding closes_were_def by blast
qed

text \<open>C31. A close undoes exactly what is held: where the quantities are whole numbers of contracts, each
  of its legs is a leg of the structure, bought back if it was sold and sold if it was bought, and
  the sets times the ratio is the number held. Filled, it leaves none of them.\<close>

theorem a_close_undoes_the_structure:
  assumes "CloseStructure k now legs sets limit name answer \<in> set (snd (tp_step e w))"
    and "iterates (t_it e)" and "t_positions e = Ok held"
    and "\<forall>p \<in> set held. \<exists>n :: int. val (p_Quantity p) = of_int n"
  shows "\<exists>s \<in> set (fst (Group (t_it e) held)). k = key s \<and> set (st_Legs s) \<subseteq> set held \<and>
    map (\<lambda>l. (cl_Symbol l, (if cl_Buy l then 1 else - 1) * (sets * cl_Ratio l))) legs =
    map (\<lambda>p. (p_Symbol p, - ftrunc (p_Quantity p))) (st_Legs s)"
proof -
  let ?Q = "\<lambda>k now legs sets limit name. \<exists>s \<in> set (fst (Group (t_it e) held)). k = key s \<and> set (st_Legs s) \<subseteq> set held \<and>
    map (\<lambda>l. (cl_Symbol l, (if cl_Buy l then 1 else - 1) * (sets * cl_Ratio l))) legs =
    map (\<lambda>p. (p_Symbol p, - ftrunc (p_Quantity p))) (st_Legs s)"
  have "closes_were ?Q (snd (tp_step e w))"
  proof (rule closes_were_step)
    fix held' orders share' s and p :: tp_pass and quotes cost legs
    assume "t_positions e = Ok held'" and s': "s \<in> set (fst (Group (t_it e) held'))"
      and r: "ripe e (in_play orders) share' s p quotes cost legs"
    with assms(3) have s: "s \<in> set (fst (Group (t_it e) held))" by simp
    note g = Group_structure [OF s assms(2)]
    have "map (\<lambda>l. (cl_Symbol l, cl_Buy l, st_Sets s * cl_Ratio l)) legs =
        map (\<lambda>p. (p_Symbol p, short p, contracts_held p)) (st_Legs s)"
      using r g setsIn_dvd by (intro close_legs_undo) (auto simp: ripe_def)
    then have "map (\<lambda>(x, b, n). (x, (if b then 1 else - 1) * n)) (map (\<lambda>l. (cl_Symbol l, cl_Buy l, st_Sets s * cl_Ratio l)) legs) =
        map (\<lambda>(x, b, n). (x, (if b then 1 else - 1) * n)) (map (\<lambda>p. (p_Symbol p, short p, contracts_held p)) (st_Legs s))"
      by (rule arg_cong)
    then have "map (\<lambda>l. (cl_Symbol l, (if cl_Buy l then 1 else - 1) * (st_Sets s * cl_Ratio l))) legs =
        map (\<lambda>p. (p_Symbol p, (if short p then 1 else - 1) * contracts_held p)) (st_Legs s)"
      by (simp add: o_def)
    also have "\<dots> = map (\<lambda>p. (p_Symbol p, - ftrunc (p_Quantity p))) (st_Legs s)"
    proof (rule map_cong [OF refl])
      fix x assume "x \<in> set (st_Legs s)"
      then obtain n where "val (p_Quantity x) = of_int n" using assms(4) g(2) by blast
      from contracts_held_whole [OF this]
      show "(p_Symbol x, (if short x then 1 else - 1) * contracts_held x) = (p_Symbol x, - ftrunc (p_Quantity x))"
        by simp
    qed
    finally show "?Q (key s) (t_now e (tp_done p)) legs (st_Sets s) cost
        (close_name (st_Credit s * share') (key s) (t_now e (tp_done p)))"
      using s g(2) by blast
  qed
  then show ?thesis using assms(1) unfolding closes_were_def by blast
qed

subsection \<open>The worst price a close accepts\<close>

lemma fmt2_nonneg: "0 \<le> x \<Longrightarrow> val x * 100 \<le> 2 ^ 50 \<Longrightarrow> fmt2 x = fmt2 (cent (rne (val x * 100)))"
proof -
  assume x: "0 \<le> x" "val x * 100 \<le> 2 ^ 50"
  then have v: "0 \<le> val x" by (simp add: le_f64_iff)
  define k where "k = rne (val x * 100)"
  have k: "0 \<le> k" "k \<le> 2 ^ 50"
    using rne_mono [of 0 "val x * 100"] rne_mono [of "val x * 100" "of_int (2 ^ 50)"] x v
      rne_of_int [of 0] rne_of_int [of "2 ^ 50"] by (simp_all add: k_def)
  then have "rne (\<bar>val (cent k)\<bar> * 100) = k" using rne_cent [of k] by simp
  moreover have "0 \<le> val (cent k)" using k by (simp add: val_cent)
  ultimately show ?thesis using v by (simp add: fmt2_def k_def)
qed

lemma stated_close_name:
  assumes "0 \<le> x" "val x * 100 \<le> 2 ^ 50"
  shows "stated (close_name x k now) reservationPrefix = Some (cent (rne (val x * 100)))"
proof -
  let ?k = "rne (val x * 100)"
  have v: "0 \<le> val x" using assms(1) by (simp add: le_f64_iff)
  have k: "\<bar>?k\<bar> \<le> 2 ^ 50"
    using rne_mono [of 0 "val x * 100"] rne_mono [of "val x * 100" "of_int (2 ^ 50)"] assms(2) v
      rne_of_int [of 0] rne_of_int [of "2 ^ 50"] by simp
  have n: "NameFor x = NameFor (cent ?k)" by (simp add: NameFor_def fmt2_nonneg [OF assms])
  have "stated (NameFor (cent ?k) @ CHR '';'' # t) reservationPrefix = stated (NameFor (cent ?k)) reservationPrefix" for t
    unfolding stated_def FieldsFunc_append_sep [of name_sep "CHR '';''", OF name_sep_semicolon] NameFor_single
    by (simp add: NameFor_def HasPrefix_def)
  then show ?thesis
    by (simp add: close_name_def n stated_NameFor [OF k])
qed

text \<open>The name of a close is read back by the ladder as the worst price the watch meant: the declared
  share of the structure's credit, to the cent. An order carrying the name so has a floor the ladder
  can walk it to, and the price it was sent at is not past what was meant.\<close>

theorem a_close_states_its_worst_price:
  assumes "CloseStructure k now legs sets limit name answer \<in> set (snd (tp_step e w))"
    and "t_positions e = Ok held" "t_At e = Ok at'"
    and "\<forall>s \<in> set (fst (Group (t_it e) held)). val (st_Credit s * at') \<le> 10 ^ 12"
    and "o_ClientID ord = name"
  shows "\<exists>s \<in> set (fst (Group (t_it e) held)). k = key s \<and> limit \<le> st_Credit s * at' \<and>
    Reservation ord = Some (cent (rne (val (st_Credit s * at') * 100)))"
proof -
  let ?Q = "\<lambda>k now legs sets limit name. \<exists>s \<in> set (fst (Group (t_it e) held)). k = key s \<and>
    limit \<le> st_Credit s * at' \<and>
    stated name reservationPrefix = Some (cent (rne (val (st_Credit s * at') * 100)))"
  have "closes_were ?Q (snd (tp_step e w))"
  proof (rule closes_were_step)
    fix held' orders share' s and p :: tp_pass and quotes cost legs
    assume "t_positions e = Ok held'" and share: "share e = Ok share'" and s': "s \<in> set (fst (Group (t_it e) held'))"
      and r: "ripe e (in_play orders) share' s p quotes cost legs"
    with assms(2,3) share_Ok [OF share] have s: "s \<in> set (fst (Group (t_it e) held))"
      and at': "share' = at'" by auto
    have "0 \<le> st_Credit s * at'"
      using r share_Ok [OF share] by (auto simp: ripe_def at' intro!: f64_mult_nonneg)
    moreover have "val (st_Credit s * at') * 100 \<le> 2 ^ 50" using assms(4) s by force
    ultimately have "stated (close_name (st_Credit s * at') (key s) (t_now e (tp_done p))) reservationPrefix
        = Some (cent (rne (val (st_Credit s * at') * 100)))" by (rule stated_close_name)
    then show "?Q (key s) (t_now e (tp_done p)) legs (st_Sets s) cost
        (close_name (st_Credit s * share') (key s) (t_now e (tp_done p)))"
      using s r by (auto simp: at' ripe_def)
  qed
  then show ?thesis using assms(1,5) unfolding closes_were_def Reservation_def by blast
qed

subsection \<open>Not twice within ten minutes\<close>

definition taken_closes :: "tp_effect list \<Rightarrow> (string \<times> time) list" where
  "taken_closes xs = List.map_filter (\<lambda>x. case x of
     CloseStructure k now legs sets limit name (Some ref) \<Rightarrow> Some (k, now) | _ \<Rightarrow> None) xs"

text \<open>While a pass runs the clock does not go back.\<close>

definition clock_forward :: "tp_env \<Rightarrow> bool" where
  "clock_forward e \<longleftrightarrow> (\<forall>xs ys. t_now e xs \<le> t_now e (xs @ ys))"

definition far_apart :: "(string \<times> time) list \<Rightarrow> bool" where
  "far_apart ks \<longleftrightarrow> sorted_wrt (\<lambda>a b. fst a = fst b \<longrightarrow> sent_for \<le> snd b - snd a) ks"

definition all_remembered :: "Watch \<Rightarrow> (string \<times> time) list \<Rightarrow> bool" where
  "all_remembered w ks \<longleftrightarrow> (\<forall>k t. (k, t) \<in> set ks \<longrightarrow> (\<exists>u. w_sent w k = Some u \<and> t \<le> u))"

lemma taken_closes_append [simp]: "taken_closes (xs @ ys) = taken_closes xs @ taken_closes ys"
  by (simp add: taken_closes_def map_filter_def)

lemma taken_closes_Nil [simp]: "taken_closes [] = []"
  by (simp add: taken_closes_def map_filter_def)

lemma taken_closes_other:
  "\<forall>x \<in> set xs. \<exists>n. x = Leaving n \<Longrightarrow> taken_closes xs = []"
  "\<forall>x \<in> set xs. \<exists>s. x = Kept s \<Longrightarrow> taken_closes xs = []"
  by (induction xs) (auto simp: taken_closes_def map_filter_def)

lemma consider_one_far_apart:
  assumes "clock_forward e" "far_apart (ks @ taken_closes (tp_done p))"
    "all_remembered (tp_watch p) (ks @ taken_closes (tp_done p))"
    and q_def: "q = consider_one e walking share' s p"
  shows "far_apart (ks @ taken_closes (tp_done q)) \<and> all_remembered (tp_watch q) (ks @ taken_closes (tp_done q))"
proof (cases rule: consider_one_cases [of e walking share' s p, case_names left inverted sent])
  case left
  with assms show ?thesis by simp
next
  case (inverted cost)
  with assms show ?thesis by (simp add: acts_def taken_closes_def map_filter_def)
next
  case (sent quotes cost legs)
  let ?now = "t_now e (tp_done p)"
  show ?thesis
  proof (cases rule: send_close_cases [of e share' s cost legs p, case_names refused taken])
    case refused
    with sent assms show ?thesis
      by (simp add: acts_def taken_closes_def map_filter_def the_close_def Let_def)
  next
    case (taken ref kept)
    have c: "taken_closes (the_close e share' s cost legs p (Some ref) # kept) = [(key s, ?now)]"
      using taken_closes_other(2) [OF taken(3)] by (simp add: taken_closes_def map_filter_def the_close_def Let_def)
    have done': "taken_closes (tp_done q) = taken_closes (tp_done p) @ [(key s, ?now)]"
      by (simp add: q_def sent(2) taken(1) c)
    have later: "?now \<le> t_now e (tp_done p @ the_close e share' s cost legs p (Some ref) # kept)"
      using assms(1) by (simp add: clock_forward_def)
    have apart: "sent_for \<le> ?now - t" if "(key s, t) \<in> set (ks @ taken_closes (tp_done p))" for t
    proof -
      from assms(3) that obtain u where u: "w_sent (tp_watch p) (key s) = Some u" "t \<le> u"
        unfolding all_remembered_def by blast
      then have "\<not> ?now - u < sent_for" using sent(1) by (simp add: ripe_def sent_lately_def)
      with u show ?thesis by simp
    qed
    have "far_apart ((ks @ taken_closes (tp_done p)) @ [(key s, ?now)])"
      using assms(2) apart unfolding far_apart_def sorted_wrt_append by auto
    moreover have "all_remembered (tp_watch q) ((ks @ taken_closes (tp_done p)) @ [(key s, ?now)])"
    proof -
      let ?u = "t_now e (tp_done p @ the_close e share' s cost legs p (Some ref) # kept)"
      have "t \<le> ?u" if "(key s, t) \<in> set (ks @ taken_closes (tp_done p))" for t
        using apart [OF that] later by (simp add: sent_for_def minute_def second_def)
      then show ?thesis
        using assms(3) later by (auto simp: all_remembered_def q_def sent(2) taken(2))
    qed
    ultimately show ?thesis by (simp add: done')
  qed
qed

lemma tp_step_far_apart:
  assumes "clock_forward e" "far_apart ks" "all_remembered w ks"
  shows "far_apart (ks @ taken_closes (snd (tp_step e w))) \<and>
    all_remembered (fst (tp_step e w)) (ks @ taken_closes (snd (tp_step e w)))"
proof -
  let ?P = "\<lambda>p. far_apart (ks @ taken_closes (tp_done p)) \<and> all_remembered (tp_watch p) (ks @ taken_closes (tp_done p))"
  have "\<exists>p :: tp_pass. ?P p \<and> tp_step e w = (tp_watch p, tp_done p)"
  proof (rule tp_step_invariant [where P = ?P])
    fix p :: tp_pass
    assume "w_sent (tp_watch p) = w_sent w" "\<forall>x \<in> set (tp_done p). \<exists>n. x = Leaving n"
    then show "?P p" using assms by (simp add: taken_closes_other all_remembered_def)
  qed (use assms(1) consider_one_far_apart in blast)
  then show ?thesis by auto
qed

text \<open>Over any number of passes, whatever the broker answers in them, two closes of one structure that
  the broker took were sent at least ten minutes apart, provided the clock does not go back while a
  pass runs.\<close>

theorem closes_of_a_structure_are_apart:
  assumes "tp_start answer w0 = Ok w" "\<forall>e \<in> set es. clock_forward e"
    and "closes = taken_closes (snd (tp_ticks es w))"
    and "i < j" "j < length closes" "fst (closes ! i) = fst (closes ! j)"
  shows "10 * minute \<le> snd (closes ! j) - snd (closes ! i)"
proof -
  have "far_apart (ks @ taken_closes (snd (tp_ticks es w)))"
    if "\<forall>e \<in> set es. clock_forward e" "far_apart ks" "all_remembered w ks" for ks w es
    using that
  proof (induction es arbitrary: w ks)
    case (Cons e es)
    then show ?case
      using tp_step_far_apart [of e ks w] Cons.IH [of "ks @ taken_closes (snd (tp_step e w))" "fst (tp_step e w)"]
      by (simp add: split_beta Let_def)
  qed simp
  from this [of es "[]" w] assms(2) have "far_apart closes"
    by (simp add: assms(3) far_apart_def all_remembered_def)
  with assms(4-6) show ?thesis
    by (simp add: far_apart_def sorted_wrt_iff_nth_less sent_for_def)
qed

end
