(* ===== verification/TakeProfitExample.thy ===== *)
theory TakeProfitExample
  imports TakeProfitLaws
begin

text \<open>
  The profit watch on a concrete book: two QQQ calls sold at 725 against two bought at 726, opened
  for half a dollar a set, which the market now hands back for an eighth. The properties of the
  watch hold there with every hypothesis discharged.
\<close>

definition tp_leg :: "string \<Rightarrow> f64 \<Rightarrow> f64 \<Rightarrow> Position" where
  "tp_leg symbol quantity price = \<lparr>p_Symbol = symbol, p_AssetClass = ''us_option'', p_Side = ''long'',
     p_Quantity = quantity, p_AverageEntryPrice = price, p_CurrentPrice = 0, p_MarketValue = 0,
     p_CostBasis = 0, p_UnrealizedPL = 0, p_UnrealizedPLFraction = 0\<rparr>"

definition tp_sold :: Position where
  "tp_sold = tp_leg ''QQQ260828C00725000'' (lit (- 2)) 1"

definition tp_bought :: Position where
  "tp_bought = tp_leg ''QQQ260828C00726000'' (lit 2) (lit (1 / 2))"

definition tp_noon :: time where
  "tp_noon = 20693 * 86400000000000 + 12 * 3600000000000"

definition tp_quote :: "string \<Rightarrow> f64 \<Rightarrow> f64 \<Rightarrow> Quote" where
  "tp_quote s b a = \<lparr>q_Symbol = s, q_Bid = b, q_Ask = a, q_BidSize = 10, q_AskSize = 10,
     q_ImpliedVolatility = None, q_Delta = None\<rparr>"

definition tp_book :: "string \<rightharpoonup> Quote" where
  "tp_book = map_of [(''QQQ260828C00725000'', tp_quote ''QQQ260828C00725000'' (lit (1 / 8)) (lit (1 / 4))),
     (''QQQ260828C00726000'', tp_quote ''QQQ260828C00726000'' (lit (1 / 8)) (lit (1 / 4)))]"

definition tp_e :: "time \<Rightarrow> tp_env" where
  "tp_e now = \<lparr>t_positions = Ok [tp_bought, tp_sold], t_orders = Ok [], t_At = Ok (lit (1 / 2)),
     t_now = (\<lambda>xs. now), t_quotes = (\<lambda>xs symbols. Ok tp_book),
     t_close = (\<lambda>xs legs sets limit name. Ok ''ref''), t_record = True, t_it = rev\<rparr>"

definition tp_w :: Watch where
  "tp_w = \<lparr>w_Every = 30 * second, w_Where = None, w_sent = Map.empty, w_declined = {}\<rparr>"

definition tp_series_name :: string where
  "tp_series_name = ''QQQ|2026-08-28|call''"

definition tp_held :: Structure where
  "tp_held = \<lparr>st_Underlying = ''QQQ'', st_Expiration = ''2026-08-28'', st_Kind = ''call'',
     st_Legs = [tp_sold, tp_bought], st_Credit = lit (1 / 2), st_Sets = 2\<rparr>"

lemma tp_read: "tp_series tp_sold = Some tp_series_name" "tp_series tp_bought = Some tp_series_name"
  by code_simp+

lemma tp_quantities [simp]: "p_Quantity tp_sold = lit (- 2)" "p_Quantity tp_bought = lit 2"
  "p_AverageEntryPrice tp_sold = 1" "p_AverageEntryPrice tp_bought = lit (1 / 2)"
  by (simp_all add: tp_sold_def tp_bought_def tp_leg_def)

lemma tp_sides [simp]: "short tp_sold" "\<not> short tp_bought" "contracts_held tp_sold = 2" "contracts_held tp_bought = 2"
  by (simp_all add: short_def contracts_held_def ftrunc_def val_fround f64_eval)

lemma tp_order: "p_Symbol tp_sold < p_Symbol tp_bought" "\<not> p_Symbol tp_bought < p_Symbol tp_sold"
  by code_simp+

lemma tp_ratio [simp]: "ratio_of 2 tp_sold = 1" "ratio_of 2 tp_bought = 1"
  by (simp_all add: ratio_of_def f64_eval)

lemma tp_parts: "Split CHR ''|'' tp_series_name = [''QQQ'', ''2026-08-28'', ''call'']"
  by code_simp

lemma tp_sets: "setsIn [tp_sold, tp_bought] = 2"
  by (simp add: setsIn_def gcd_loop_eq)

lemma tp_credit: "credit_of 2 [tp_sold, tp_bought] = lit (1 / 2)"
  by (simp add: credit_of_def f64_eval)

lemma tp_structure: "structure_of tp_series_name [tp_bought, tp_sold] = Some tp_held"
  by (simp add: structure_of_def Let_def tp_order tp_sets tp_credit tp_parts tp_held_def)

lemma tp_one: "oneForOne (st_Legs tp_held)"
  by (simp add: oneForOne_def tp_held_def f64_eval)

lemma tp_Group: "Group rev [tp_bought, tp_sold] = ([tp_held], [])"
  by (simp add: Group_def structures_in_def tp_series_of_def map_filter_def tp_series_legs_def tp_read
      tp_structure tp_one Let_def)

lemma tp_BuyBack: "BuyBack tp_held tp_book = Some (lit (1 / 8))"
  by (simp add: BuyBack_def tp_held_def) (simp add: tp_sold_def tp_bought_def tp_leg_def tp_book_def tp_quote_def short_def ratio_of_def f64_eval)

lemma tp_div [simp]: "go_div 2 2 = 1"
  by (simp add: go_div_def)

lemma tp_legs: "close_legs 2 [tp_sold, tp_bought] =
    Some [\<lparr>cl_Symbol = p_Symbol tp_sold, cl_Ratio = 1, cl_Buy = True\<rparr>,
      \<lparr>cl_Symbol = p_Symbol tp_bought, cl_Ratio = 1, cl_Buy = False\<rparr>]"
  by (simp add: go_div_def)

lemma tp_live: "\<not> expired tp_w tp_noon tp_held"
  by code_simp

definition tp_sent_legs :: "CloseLeg list" where
  "tp_sent_legs = [\<lparr>cl_Symbol = p_Symbol tp_sold, cl_Ratio = 1, cl_Buy = True\<rparr>,
      \<lparr>cl_Symbol = p_Symbol tp_bought, cl_Ratio = 1, cl_Buy = False\<rparr>]"

definition tp_name :: string where
  "tp_name = close_name (lit (1 / 4)) (key tp_held) tp_noon"

definition tp_effects :: "tp_effect list" where
  "tp_effects = [CloseStructure (key tp_held) tp_noon tp_sent_legs 2 (lit (1 / 8)) tp_name (Some ''ref''),
     Kept (placed_step ''ref'' tp_noon (lit (1 / 8)))]"

lemma tp_prices: "\<not> st_Credit tp_held \<le> 0" "\<not> lit (1 / 8) < (0 :: f64)" "st_Credit tp_held * lit (1 / 2) = lit (1 / 4)"
  "\<not> lit (1 / 4) < lit (1 / 8)" "\<not> lit (1 / 2) \<le> (0 :: f64)" "\<not> 1 < lit (1 / 2)"
  by (simp_all add: tp_held_def f64_eval)

lemma tp_fields: "st_Sets tp_held = 2" "st_Legs tp_held = [tp_sold, tp_bought]"
  by (simp_all add: tp_held_def)

lemma tp_fresh: "tp_w\<lparr>w_declined := {}\<rparr> = tp_w" "w_sent tp_w = Map.empty"
  by (simp_all add: tp_w_def)

lemma tp_run: "tp_step (tp_e tp_noon) tp_w = (tp_w\<lparr>w_sent := [key tp_held \<mapsto> tp_noon]\<rparr>, tp_effects)"
  by (simp add: tp_step_def Let_def tp_fresh tp_e_def tp_Group decline_def share_def consider_one_def tp_live tp_BuyBack
      tp_prices tp_fields tp_legs in_play_def sent_lately_def send_close_def tp_wroteDown_def acts_def
      tp_effects_def tp_sent_legs_def tp_name_def)

theorem setsIn_witness: "setsIn [tp_sold, tp_bought] = 2"
  using setsIn_is_the_gcd [of "[tp_sold, tp_bought]"] by simp

theorem closes_only_what_is_ripe_witness:
  "\<exists>s \<in> set (fst (Group rev [tp_bought, tp_sold])). vertical s \<and> key tp_held = key s \<and> 0 < st_Credit s \<and>
    BuyBack s tp_book = Some (lit (1 / 8)) \<and> lit (1 / 8) \<le> st_Credit s * lit (1 / 2)"
proof -
  have "CloseStructure (key tp_held) tp_noon tp_sent_legs 2 (lit (1 / 8)) tp_name (Some ''ref'')
      \<in> set (snd (tp_step (tp_e tp_noon) tp_w))" by (simp add: tp_run tp_effects_def)
  from closes_only_what_is_ripe [OF this] have "\<exists>s. s \<in> set (fst (Group rev [tp_bought, tp_sold])) \<and> vertical s \<and>
      key tp_held = key s \<and> 0 < st_Credit s"
    by (auto simp: tp_e_def)
  then show ?thesis by (auto simp: tp_Group tp_BuyBack tp_prices f64_eval)
qed

theorem a_close_undoes_the_structure_witness:
  "map (\<lambda>l. (cl_Symbol l, (if cl_Buy l then 1 else - 1) * (2 * cl_Ratio l))) tp_sent_legs =
    [(p_Symbol tp_sold, 2), (p_Symbol tp_bought, - 2)]"
proof -
  have sent: "CloseStructure (key tp_held) tp_noon tp_sent_legs 2 (lit (1 / 8)) tp_name (Some ''ref'')
      \<in> set (snd (tp_step (tp_e tp_noon) tp_w))" by (simp add: tp_run tp_effects_def)
  have whole: "val (p_Quantity tp_bought) = of_int 2" "val (p_Quantity tp_sold) = of_int (- 2)"
    by (simp_all add: f64_eval)
  then have "\<forall>p \<in> set [tp_bought, tp_sold]. \<exists>n :: int. val (p_Quantity p) = of_int n"
    by (metis empty_iff empty_set insert_iff list.set(2))
  from a_close_undoes_the_structure [OF sent _ _ this]
  have "map (\<lambda>l. (cl_Symbol l, (if cl_Buy l then 1 else - 1) * (2 * cl_Ratio l))) tp_sent_legs =
      map (\<lambda>p. (p_Symbol p, - ftrunc (p_Quantity p))) [tp_sold, tp_bought]"
    by (simp add: tp_e_def tp_Group tp_fields)
  moreover have "ftrunc (lit (- 2)) = - 2" "ftrunc (lit 2) = 2" by (simp_all add: ftrunc_def f64_eval)
  ultimately show ?thesis by simp
qed

definition tp_ord :: Order where
  "tp_ord = \<lparr>o_ID = ''1'', o_ClientID = tp_name, o_Symbol = [], o_Side = [], o_Type = ''limit'',
    o_Class = ''mleg'', o_Status = ''new'', o_PositionIntent = [], o_Quantity = lit 2, o_Ratio = 0,
    o_Notional = 0, o_FilledQuantity = 0, o_LimitPrice = lit (1 / 8), o_FilledPrice = 0,
    o_SubmittedAt = None, o_FilledAt = None, o_CanceledAt = None, o_Legs = []\<rparr>"

theorem a_close_states_its_worst_price_witness: "Reservation tp_ord = Some (cent 25)"
proof -
  have sent: "CloseStructure (key tp_held) tp_noon tp_sent_legs 2 (lit (1 / 8)) tp_name (Some ''ref'')
      \<in> set (snd (tp_step (tp_e tp_noon) tp_w))" by (simp add: tp_run tp_effects_def)
  have small: "\<forall>s \<in> set (fst (Group (t_it (tp_e tp_noon)) [tp_bought, tp_sold])). val (st_Credit s * lit (1 / 2)) \<le> 10 ^ 12"
    by (simp add: tp_e_def tp_Group tp_prices f64_eval)
  have "val (lit (1 / 4)) * 100 = of_int 25" by (simp add: f64_eval)
  then have r: "rne (val (lit (1 / 4)) * 100) = 25" by (simp only: rne_of_int)
  have "\<exists>s \<in> set (fst (Group (t_it (tp_e tp_noon)) [tp_bought, tp_sold])). key tp_held = key s \<and>
      lit (1 / 8) \<le> st_Credit s * lit (1 / 2) \<and> Reservation tp_ord = Some (cent (rne (val (st_Credit s * lit (1 / 2)) * 100)))"
    by (rule a_close_states_its_worst_price [OF sent _ _ small]) (simp_all add: tp_e_def tp_ord_def)
  then show ?thesis by (simp add: tp_e_def tp_Group tp_prices r)
qed

text \<open>Two passes: the second, ten minutes after the first, may close the structure again.\<close>

lemma tp_run_again:
  "tp_step (tp_e (tp_noon + sent_for)) (tp_w\<lparr>w_sent := [key tp_held \<mapsto> tp_noon]\<rparr>) =
    (tp_w\<lparr>w_sent := [key tp_held \<mapsto> tp_noon + sent_for]\<rparr>,
     [CloseStructure (key tp_held) (tp_noon + sent_for) tp_sent_legs 2 (lit (1 / 8))
        (close_name (lit (1 / 4)) (key tp_held) (tp_noon + sent_for)) (Some ''ref''),
      Kept (placed_step ''ref'' (tp_noon + sent_for) (lit (1 / 8)))])"
proof -
  have live: "\<not> expired (tp_w\<lparr>w_sent := [key tp_held \<mapsto> tp_noon]\<rparr>) (tp_noon + sent_for) tp_held" by code_simp
  have fresh: "tp_w\<lparr>w_sent := m, w_declined := {}\<rparr> = tp_w\<lparr>w_sent := m\<rparr>" for m by (simp add: tp_w_def)
  show ?thesis
    using live
    by (simp add: tp_step_def Let_def fresh tp_e_def tp_Group decline_def share_def consider_one_def tp_BuyBack
      tp_prices tp_fields tp_legs in_play_def sent_lately_def send_close_def tp_wroteDown_def acts_def tp_sent_legs_def)
qed

theorem closes_of_a_structure_are_apart_witness:
  "10 * minute \<le> (tp_noon + sent_for) - tp_noon"
proof -
  let ?es = "[tp_e tp_noon, tp_e (tp_noon + sent_for)]"
  have c: "taken_closes (snd (tp_ticks ?es tp_w)) = [(key tp_held, tp_noon), (key tp_held, tp_noon + sent_for)]"
    by (simp add: tp_run tp_run_again tp_effects_def taken_closes_def map_filter_def)
  have start: "tp_start (Ok (lit (1 / 2))) tp_w = Ok tp_w"
    by (simp add: tp_start_def tp_w_def second_def Let_def)
  have "\<forall>e \<in> set ?es. clock_forward e" by (simp add: clock_forward_def tp_e_def)
  from closes_of_a_structure_are_apart [OF start this c [symmetric], of 0 1] show ?thesis by simp
qed

end
