(* ===== verification/Wakeups.thy ===== *)
theory Wakeups
  imports GoStd "HOL-Library.List_Lexorder" "HOL-Library.Char_ord"
begin

text \<open>
  The wake-ups a session asks for (\<open>golang/internal/wakeup/wakeup.go\<close>): the store, the file it is
  written through to, and what each call does to both. A time that was never set, Go's zero
  \<open>time.Time\<close>, is \<open>None\<close>. The file system is the environment of a call: the answer of each of the
  four steps of a write. A file holds the JSON objects of the list, each as the fields that were
  written; the bytes of their encoding are left to the library.
\<close>

subsection \<open>Wake-ups\<close>

definition KindAt :: string where "KindAt = ''at''"
definition KindPrice :: string where "KindPrice = ''price''"
definition Above :: string where "Above = ''above''"
definition Below :: string where "Below = ''below''"

record Wakeup =
  wk_ID :: string
  wk_Cause :: string
  wk_Kind :: string
  wk_At :: "time option"
  wk_Symbol :: string
  wk_Direction :: string
  wk_Level :: f64
  wk_CreatedAt :: "time option"

subsection \<open>As JSON\<close>

datatype json = JString string | JNumber f64 | JTime "time option"

type_synonym wire = "(string \<times> json) list"

text \<open>Fields with \<open>omitempty\<close> are left out at their zero, and the time of a price wake-up by \<open>MarshalJSON\<close>.\<close>

definition MarshalJSON :: "Wakeup \<Rightarrow> wire" where
  "MarshalJSON w =
     [(''id'', JString (wk_ID w)), (''cause'', JString (wk_Cause w)), (''kind'', JString (wk_Kind w))] @
     (if wk_At w = None then [] else [(''at'', JTime (wk_At w))]) @
     (if wk_Symbol w = [] then [] else [(''symbol'', JString (wk_Symbol w))]) @
     (if wk_Direction w = [] then [] else [(''direction'', JString (wk_Direction w))]) @
     (if wk_Level w = 0 then [] else [(''level'', JNumber (wk_Level w))]) @
     [(''created_at'', JTime (wk_CreatedAt w))]"

definition text_field :: "wire \<Rightarrow> string \<Rightarrow> string" where
  "text_field o' k = (case map_of o' k of Some (JString s) \<Rightarrow> s | _ \<Rightarrow> [])"

definition number_field :: "wire \<Rightarrow> string \<Rightarrow> f64" where
  "number_field o' k = (case map_of o' k of Some (JNumber x) \<Rightarrow> x | _ \<Rightarrow> 0)"

definition time_field :: "wire \<Rightarrow> string \<Rightarrow> time option" where
  "time_field o' k = (case map_of o' k of Some (JTime t) \<Rightarrow> t | _ \<Rightarrow> None)"

definition Unmarshal :: "wire \<Rightarrow> Wakeup" where
  "Unmarshal o' = \<lparr>wk_ID = text_field o' ''id'', wk_Cause = text_field o' ''cause'',
     wk_Kind = text_field o' ''kind'', wk_At = time_field o' ''at'', wk_Symbol = text_field o' ''symbol'',
     wk_Direction = text_field o' ''direction'', wk_Level = number_field o' ''level'',
     wk_CreatedAt = time_field o' ''created_at''\<rparr>"

lemma Unmarshal_MarshalJSON [simp]: "Unmarshal (MarshalJSON w) = w"
  by (cases w) (simp add: Unmarshal_def MarshalJSON_def text_field_def number_field_def time_field_def)

subsection \<open>The store and its file\<close>

record Store =
  k_list :: "Wakeup list"
  k_next :: int

datatype wk_file = Missing | Unreadable_file string | NotJSON string | Holds "wire list"

record disk =
  k_file :: wk_file
  k_writing :: "wire list option"

record wk_io =
  io_marshal :: "(string, unit) result"
  io_mkdir :: "(string, unit) result"
  io_write :: "(string, unit) result"
  io_rename :: "(string, unit) result"

datatype wk_error =
    NeedsCause | NotInTheFuture "time option" | NeedsSymbol | BadDirection string | NotAPrice f64
  | NotWritten string | NoWakeup string | ReadFailed string

type_synonym kept = "Store \<times> disk"

text \<open>Written beside the file and renamed: the file changes in the last step or not at all.\<close>

definition write_out :: "wk_io \<Rightarrow> kept \<Rightarrow> (wk_error, unit) result \<times> disk" where
  "write_out io sd = (case sd of (s, d) \<Rightarrow>
     (case io_marshal io of Err e \<Rightarrow> (Err (NotWritten e), d) | Ok u \<Rightarrow>
     (case io_mkdir io of Err e \<Rightarrow> (Err (NotWritten e), d) | Ok u \<Rightarrow>
     (case io_write io of Err e \<Rightarrow> (Err (NotWritten e), d\<lparr>k_writing := None\<rparr>) | Ok u \<Rightarrow>
       let raw = map MarshalJSON (k_list s); d = d\<lparr>k_writing := Some raw\<rparr> in
     (case io_rename io of Err e \<Rightarrow> (Err (NotWritten e), d) | Ok u \<Rightarrow>
       (Ok (), d\<lparr>k_file := Holds raw, k_writing := None\<rparr>))))))"

text \<open>\<open>Sscanf(id, "w%d", &n)\<close>: a \<open>w\<close>, spaces, a sign, and the digits that follow; what comes after is ignored.\<close>

definition idNumber :: "string \<Rightarrow> int" where
  "idNumber i = (case i of
       [] \<Rightarrow> 0
     | c # rest \<Rightarrow>
         if c \<noteq> CHR ''w'' then 0 else
         let r = dropWhile (\<lambda>x. is_space x \<and> byte x \<noteq> 10) rest;
             sign = takeWhile (\<lambda>x. x = CHR ''-'' \<or> x = CHR ''+'') (take 1 r);
             digits = takeWhile is_digit (drop (length sign) r)
         in (case ParseInt (sign @ digits) of None \<Rightarrow> 0 | Some n \<Rightarrow> n))"

definition Open_store :: "wk_file \<Rightarrow> (wk_error, Store) result" where
  "Open_store f = (case f of
       Missing \<Rightarrow> Ok \<lparr>k_list = [], k_next = 0\<rparr>
     | Unreadable_file e \<Rightarrow> Err (ReadFailed e)
     | NotJSON e \<Rightarrow> Err (ReadFailed e)
     | Holds ws \<Rightarrow>
         let l = map Unmarshal ws
         in Ok \<lparr>k_list = l, k_next = foldl (\<lambda>n w. if idNumber (wk_ID w) > n then idNumber (wk_ID w) else n) 0 l\<rparr>)"

subsection \<open>Asking for one\<close>

definition id_of :: "int \<Rightarrow> string" where
  "id_of n = CHR ''w'' # dec_int n"

definition add :: "wk_io \<Rightarrow> Wakeup \<Rightarrow> kept \<Rightarrow> (wk_error, Wakeup) result \<times> kept" where
  "add io w sd = (case sd of (s, d) \<Rightarrow>
     let n = k_next s + 1;
         w = w\<lparr>wk_ID := id_of n\<rparr>;
         s1 = s\<lparr>k_next := n, k_list := k_list s @ [w]\<rparr>
     in (case write_out io (s1, d) of
           (Err e, d) \<Rightarrow> (Err e, s1\<lparr>k_list := take (length (k_list s1) - 1) (k_list s1)\<rparr>, d)
         | (Ok u, d) \<Rightarrow> (Ok w, s1, d)))"

definition AddAt :: "wk_io \<Rightarrow> string \<Rightarrow> time option \<Rightarrow> time \<Rightarrow> kept \<Rightarrow> (wk_error, Wakeup) result \<times> kept" where
  "AddAt io cause at' now sd =
     (if TrimSpace cause = [] then (Err NeedsCause, sd)
      else if \<not> (case at' of None \<Rightarrow> False | Some t \<Rightarrow> now < t) then (Err (NotInTheFuture at'), sd)
      else add io \<lparr>wk_ID = [], wk_Cause = cause, wk_Kind = KindAt, wk_At = at', wk_Symbol = [],
             wk_Direction = [], wk_Level = 0, wk_CreatedAt = Some now\<rparr> sd)"

definition AddPrice :: "wk_io \<Rightarrow> string \<Rightarrow> string \<Rightarrow> string \<Rightarrow> f64 \<Rightarrow> time \<Rightarrow> kept \<Rightarrow>
    (wk_error, Wakeup) result \<times> kept" where
  "AddPrice io cause symbol direction level now sd =
     (if TrimSpace cause = [] then (Err NeedsCause, sd)
      else if TrimSpace symbol = [] then (Err NeedsSymbol, sd)
      else if direction \<noteq> Above \<and> direction \<noteq> Below then (Err (BadDirection direction), sd)
      else if level \<le> 0 then (Err (NotAPrice level), sd)
      else add io \<lparr>wk_ID = [], wk_Cause = cause, wk_Kind = KindPrice, wk_At = None,
             wk_Symbol = ToUpper symbol, wk_Direction = direction, wk_Level = level,
             wk_CreatedAt = Some now\<rparr> sd)"

subsection \<open>Reading, dropping and firing\<close>

definition created_before :: "Wakeup \<Rightarrow> Wakeup \<Rightarrow> bool" where
  "created_before a b = (case (wk_CreatedAt a, wk_CreatedAt b) of
       (Some s, Some t) \<Rightarrow> s < t | (None, Some t) \<Rightarrow> True | (_, None) \<Rightarrow> False)"

definition List_standing :: "kept \<Rightarrow> Wakeup list" where
  "List_standing sd = sort_by created_before (k_list (fst sd))"

fun cut_id :: "string \<Rightarrow> Wakeup list \<Rightarrow> Wakeup list option" where
  "cut_id i [] = None"
| "cut_id i (w # ws) = (if wk_ID w = i then Some ws else map_option ((#) w) (cut_id i ws))"

definition Cancel_wakeup :: "wk_io \<Rightarrow> string \<Rightarrow> kept \<Rightarrow> (wk_error, unit) result \<times> kept" where
  "Cancel_wakeup io i sd = (case sd of (s, d) \<Rightarrow>
     (case cut_id i (k_list s) of
        None \<Rightarrow> (Err (NoWakeup i), sd)
      | Some rest \<Rightarrow>
          let s = s\<lparr>k_list := rest\<rparr>; (answer, d) = write_out io (s, d) in (answer, s, d)))"

definition fires :: "time \<Rightarrow> (string \<rightharpoonup> f64) \<Rightarrow> Wakeup \<Rightarrow> bool" where
  "fires now price w =
     (if wk_Kind w = KindAt then (case wk_At w of None \<Rightarrow> True | Some t \<Rightarrow> \<not> now < t)
      else if wk_Kind w = KindPrice then
        (case price (wk_Symbol w) of
           None \<Rightarrow> False
         | Some last' \<Rightarrow> if wk_Direction w = Above then last' \<ge> wk_Level w else last' \<le> wk_Level w)
      else False)"

definition Due_now :: "wk_io \<Rightarrow> time \<Rightarrow> (string \<rightharpoonup> f64) \<Rightarrow> kept \<Rightarrow> Wakeup list \<times> kept" where
  "Due_now io now price sd = (case sd of (s, d) \<Rightarrow>
     let due = filter (fires now price) (k_list s);
         s = s\<lparr>k_list := filter (\<lambda>w. \<not> fires now price w) (k_list s)\<rparr>
     in if due = [] then (due, s, d) else (due, s, snd (write_out io (s, d))))"

definition Watching :: "kept \<Rightarrow> string list" where
  "Watching sd = sort (firsts [] (map wk_Symbol (filter (\<lambda>w. wk_Kind w = KindPrice) (k_list (fst sd)))))"

datatype prompt = WokenByPrice string string f64 string | WokenByTime "time option" string

definition Prompt :: "Wakeup \<Rightarrow> prompt" where
  "Prompt w = (if wk_Kind w = KindPrice
     then WokenByPrice (wk_Symbol w) (wk_Direction w) (wk_Level w) (wk_Cause w)
     else WokenByTime (wk_At w) (wk_Cause w))"

subsection \<open>Calls\<close>

text \<open>What a process asks of the store while it lives, with how the file system answered.\<close>

datatype call =
    CAddAt wk_io string "time option" time
  | CAddPrice wk_io string string string f64 time
  | CCancel wk_io string
  | CDue wk_io time "string \<rightharpoonup> f64"

datatype answer = Added "(wk_error, Wakeup) result" | Cancelled "(wk_error, unit) result" | Woke "Wakeup list"

fun exec :: "call \<Rightarrow> kept \<Rightarrow> answer \<times> kept" where
  "exec (CAddAt io cause at' now) sd = map_prod Added id (AddAt io cause at' now sd)"
| "exec (CAddPrice io cause symbol dir level now) sd = map_prod Added id (AddPrice io cause symbol dir level now sd)"
| "exec (CCancel io i) sd = map_prod Cancelled id (Cancel_wakeup io i sd)"
| "exec (CDue io now price) sd = map_prod Woke id (Due_now io now price sd)"

fun exec_all :: "call list \<Rightarrow> kept \<Rightarrow> answer list \<times> kept" where
  "exec_all [] sd = ([], sd)"
| "exec_all (c # cs) sd = (let (a, sd) = exec c sd; (rest, sd) = exec_all cs sd in (a # rest, sd))"

end
