(* ===== verification/WakeupLaws.thy ===== *)
theory WakeupLaws
  imports Wakeups
begin

text \<open>
  What the store of wake-ups promises: it is a board of standing requests, each under a name of its
  own, whatever the file system does; a wake-up fires once; and a restart forgets nothing that was
  written.
\<close>

subsection \<open>Names\<close>

lemma dec_nat_inj: "dec_nat m = dec_nat n \<Longrightarrow> m = n"
  by (metis nat_of_digits_dec_nat)

lemma id_of_inj: "0 \<le> m \<Longrightarrow> 0 \<le> n \<Longrightarrow> id_of m = id_of n \<longleftrightarrow> m = n"
  by (auto simp: id_of_def dec_int_def dest: dec_nat_inj)

lemma digit_starts:
  assumes "list_all is_digit s" "s \<noteq> []"
  shows "dropWhile (\<lambda>x. is_space x \<and> byte x \<noteq> 10) s = s"
    and "takeWhile (\<lambda>x. x = CHR ''-'' \<or> x = CHR ''+'') (take 1 s) = []"
    and "takeWhile is_digit s = s"
proof -
  obtain c cs where s: "s = c # cs" using assms by (cases s) auto
  then have c: "is_digit c" using assms by simp
  then show "dropWhile (\<lambda>x. is_space x \<and> byte x \<noteq> 10) s = s" by (auto simp: s is_digit_def is_space_def)
  show "takeWhile (\<lambda>x. x = CHR ''-'' \<or> x = CHR ''+'') (take 1 s) = []" using c by (auto simp: s)
  show "takeWhile is_digit s = s" using assms by (auto simp: list_all_iff)
qed

lemma idNumber_id_of: "0 \<le> n \<Longrightarrow> n < 2 ^ 63 \<Longrightarrow> idNumber (id_of n) = n"
proof -
  assume n: "0 \<le> n" "n < 2 ^ 63"
  have d: "dec_int n = dec_nat (nat n)" using n by (simp add: dec_int_def)
  have "ParseInt (dec_nat (nat n)) = Some n" using ParseInt_dec_int [of n] n by (simp add: d)
  then show ?thesis
    using digit_starts [OF dec_nat_digits dec_nat_ne, of "nat n"]
    unfolding idNumber_def id_of_def d Let_def
    by (simp only: list.case simp_thms if_False append_Nil drop_0 list.size option.case)
qed

subsection \<open>The store is well formed\<close>

definition ids :: "Wakeup list \<Rightarrow> string list" where
  "ids ws = map wk_ID ws"

definition named_to :: "int \<Rightarrow> string set" where
  "named_to n = id_of ` {1..n}"

definition store_wf :: "Store \<Rightarrow> bool" where
  "store_wf s \<longleftrightarrow> 0 \<le> k_next s \<and> distinct (ids (k_list s)) \<and> set (ids (k_list s)) \<subseteq> named_to (k_next s)"

lemma fresh_id: "0 \<le> n \<Longrightarrow> id_of (n + 1) \<notin> named_to n"
  by (auto simp: named_to_def id_of_inj)

lemma named_to_mono: "m \<le> n \<Longrightarrow> named_to m \<subseteq> named_to n"
  by (auto simp: named_to_def)

lemma named_to_Suc: "0 \<le> n \<Longrightarrow> named_to (n + 1) = insert (id_of (n + 1)) (named_to n)"
proof -
  assume "0 \<le> n"
  then have "{1..n + 1} = insert (n + 1) {1..n}" by auto
  then show ?thesis by (simp add: named_to_def)
qed

lemma cut_id_eq:
  assumes "distinct (ids ws)"
  shows "cut_id i ws = (if i \<in> set (ids ws) then Some (filter (\<lambda>w. wk_ID w \<noteq> i) ws) else None)"
  using assms
proof (induction ws)
  case (Cons w ws)
  moreover have "filter (\<lambda>w. wk_ID w \<noteq> i) ws = ws" if "i \<notin> set (ids ws)"
    using that by (auto simp: ids_def filter_id_conv)
  ultimately show ?case by (auto simp: ids_def)
qed (simp add: ids_def)

lemma ids_filter: "set (ids (filter P ws)) \<subseteq> set (ids ws)" "distinct (ids ws) \<Longrightarrow> distinct (ids (filter P ws))"
  by (auto simp: ids_def distinct_map_filter)

subsection \<open>The board it stands for\<close>

text \<open>A board: the requests standing, each under its name.\<close>

type_synonym board = "string \<rightharpoonup> Wakeup"

definition board_of :: "Store \<Rightarrow> board" where
  "board_of s = map_of (map (\<lambda>w. (wk_ID w, w)) (k_list s))"

text \<open>
  What a call may answer and do to the board. A request is refused and nothing changes, or it
  stands under a new name. Dropping one takes it off the board, even if the file could not be
  written. What comes true is answered and taken off, and nothing else is.
\<close>

definition adds :: "(Wakeup \<Rightarrow> bool) \<Rightarrow> board \<Rightarrow> (wk_error, Wakeup) result \<Rightarrow> board \<Rightarrow> bool" where
  "adds P b r b' = (case r of Err e \<Rightarrow> b' = b
     | Ok w \<Rightarrow> P w \<and> b (wk_ID w) = None \<and> b' = b(wk_ID w \<mapsto> w))"

fun promised :: "call \<Rightarrow> board \<Rightarrow> answer \<Rightarrow> board \<Rightarrow> bool" where
  "promised (CAddAt io cause at' now) b (Added r) b' =
     adds (\<lambda>w. TrimSpace cause \<noteq> [] \<and> (\<exists>t. at' = Some t \<and> now < t) \<and> wk_Cause w = cause \<and>
       wk_Kind w = KindAt \<and> wk_At w = at' \<and> wk_CreatedAt w = Some now) b r b'"
| "promised (CAddPrice io cause symbol dir level now) b (Added r) b' =
     adds (\<lambda>w. TrimSpace cause \<noteq> [] \<and> TrimSpace symbol \<noteq> [] \<and> dir \<in> {Above, Below} \<and> 0 < level \<and>
       wk_Cause w = cause \<and> wk_Kind w = KindPrice \<and> wk_Symbol w = ToUpper symbol \<and>
       wk_Direction w = dir \<and> wk_Level w = level \<and> wk_CreatedAt w = Some now) b r b'"
| "promised (CCancel io i) b (Cancelled r) b' =
     (b' = b(i := None) \<and> (r = Err (NoWakeup i) \<longleftrightarrow> b i = None))"
| "promised (CDue io now price) b (Woke ws) b' =
     (set ws = {w \<in> ran b. fires now price w} \<and> distinct (ids ws) \<and>
      b' = (\<lambda>i. case b i of None \<Rightarrow> None | Some w \<Rightarrow> if fires now price w then None else Some w))"
| "promised _ b _ b' = False"

lemma board_of_Some: "store_wf s \<Longrightarrow> board_of s i = Some w \<longleftrightarrow> w \<in> set (k_list s) \<and> wk_ID w = i"
  by (auto simp: board_of_def store_wf_def ids_def map_of_eq_Some_iff o_def)

lemma board_of_None: "board_of s i = None \<longleftrightarrow> i \<notin> set (ids (k_list s))"
  by (auto simp: board_of_def map_of_eq_None_iff ids_def o_def image_image)

lemma ran_board: "store_wf s \<Longrightarrow> ran (board_of s) = set (k_list s)"
  by (auto simp: ran_def board_of_Some)

lemma map_of_filter_ids:
  assumes "distinct (ids ws)"
  shows "map_of (map (\<lambda>w. (wk_ID w, w)) (filter P ws)) =
    (\<lambda>i. case map_of (map (\<lambda>w. (wk_ID w, w)) ws) i of None \<Rightarrow> None | Some w \<Rightarrow> if P w then Some w else None)"
  using assms
proof (induction ws)
  case (Cons w ws)
  then have "map_of (map (\<lambda>w. (wk_ID w, w)) ws) (wk_ID w) = None"
    by (auto simp: map_of_eq_None_iff ids_def)
  with Cons show ?case by (auto simp: ids_def fun_eq_iff split: option.splits)
qed simp

subsection \<open>Every call keeps the promise\<close>

lemma write_out_store: "write_out io (s, d) = (r, d') \<Longrightarrow> r = Ok () \<or> (\<exists>e. r = Err (NotWritten e))"
  by (auto simp: write_out_def Let_def split: sum.splits)

lemma board_of_snoc:
  assumes "board_of s (wk_ID w) = None"
  shows "board_of (s\<lparr>k_next := n, k_list := k_list s @ [w]\<rparr>) = (board_of s)(wk_ID w \<mapsto> w)"
  using assms by (auto simp: board_of_def fun_eq_iff map_add_def split: option.splits)

lemma add_keeps:
  assumes "store_wf s" "add io w (s, d) = (r, s', d')" "P (w\<lparr>wk_ID := id_of (k_next s + 1)\<rparr>)"
  shows "store_wf s' \<and> adds P (board_of s) r (board_of s')"
proof -
  let ?w = "w\<lparr>wk_ID := id_of (k_next s + 1)\<rparr>"
  have fresh: "id_of (k_next s + 1) \<notin> set (ids (k_list s))"
    using assms(1) fresh_id unfolding store_wf_def by blast
  have wf: "store_wf (s\<lparr>k_next := k_next s + 1\<rparr>)"
    using assms(1) named_to_mono [of "k_next s" "k_next s + 1"] by (auto simp: store_wf_def)
  have wf1: "store_wf (s\<lparr>k_next := k_next s + 1, k_list := k_list s @ [?w]\<rparr>)"
    using assms(1) fresh by (auto simp: store_wf_def ids_def named_to_Suc)
  show ?thesis
  proof (cases "fst (write_out io (s\<lparr>k_next := k_next s + 1, k_list := k_list s @ [?w]\<rparr>, d))")
    case (Inl e)
    with assms(2) have "r = Err e" "s' = s\<lparr>k_next := k_next s + 1\<rparr>"
      by (auto simp: add_def Let_def split: prod.splits)
    with wf show ?thesis by (simp add: adds_def board_of_def)
  next
    case (Inr u)
    with assms(2) have "r = Ok ?w" "s' = s\<lparr>k_next := k_next s + 1, k_list := k_list s @ [?w]\<rparr>"
      by (auto simp: add_def Let_def split: prod.splits)
    with wf1 fresh assms(3) show ?thesis
      using board_of_snoc [of s ?w "k_next s + 1"]
      by (simp add: adds_def board_of_None)
  qed
qed

lemma store_wf_filter: "store_wf s \<Longrightarrow> store_wf (s\<lparr>k_list := filter P (k_list s)\<rparr>)"
  using ids_filter [where P = P and ws = "k_list s"] unfolding store_wf_def by auto

lemma cancel_keeps:
  assumes "store_wf s" "Cancel_wakeup io i (s, d) = (r, s', d')"
  shows "store_wf s' \<and> board_of s' = (board_of s)(i := None) \<and> (r = Err (NoWakeup i) \<longleftrightarrow> board_of s i = None)"
proof (cases "i \<in> set (ids (k_list s))")
  case False
  then have "cut_id i (k_list s) = None" using assms(1) by (simp add: cut_id_eq store_wf_def)
  with assms False show ?thesis by (auto simp: Cancel_wakeup_def board_of_None fun_upd_idem_iff)
next
  case True
  let ?rest = "filter (\<lambda>w. wk_ID w \<noteq> i) (k_list s)"
  have cut: "cut_id i (k_list s) = Some ?rest" using assms(1) True by (simp add: cut_id_eq store_wf_def)
  then have s': "s' = s\<lparr>k_list := ?rest\<rparr>" and w: "write_out io (s\<lparr>k_list := ?rest\<rparr>, d) = (r, d')"
    using assms(2) by (auto simp: Cancel_wakeup_def Let_def split: prod.splits)
  have "board_of s' = (board_of s)(i := None)"
    using assms(1) unfolding s' board_of_def
    by (auto simp: map_of_filter_ids store_wf_def fun_eq_iff split: option.splits dest!: map_of_SomeD)
  moreover have "store_wf s'" using assms(1) by (simp add: s' store_wf_filter)
  moreover have "r \<noteq> Err (NoWakeup i)" using write_out_store [OF w] by auto
  moreover have "board_of s i \<noteq> None" using True by (simp add: board_of_None)
  ultimately show ?thesis by simp
qed

lemma due_keeps:
  assumes "store_wf s" "Due_now io now price (s, d) = (ws, s', d')"
  shows "store_wf s'" "ws = filter (fires now price) (k_list s)" "k_next s' = k_next s"
    "k_list s' = filter (\<lambda>w. \<not> fires now price w) (k_list s)"
proof -
  have s': "s' = s\<lparr>k_list := filter (\<lambda>w. \<not> fires now price w) (k_list s)\<rparr>"
    and "ws = filter (fires now price) (k_list s)"
    using assms(2) by (auto simp: Due_now_def Let_def split: if_splits)
  then show "ws = filter (fires now price) (k_list s)" "k_next s' = k_next s"
    "k_list s' = filter (\<lambda>w. \<not> fires now price w) (k_list s)" "store_wf s'"
    using assms(1) by (simp_all add: store_wf_filter)
qed

text \<open>A board follows a list of calls when each call keeps its promise from one board to the next.\<close>

inductive follows :: "board \<Rightarrow> call list \<Rightarrow> answer list \<Rightarrow> board \<Rightarrow> bool" where
  follows_Nil: "follows b [] [] b"
| follows_Cons: "promised c b a b1 \<Longrightarrow> follows b1 cs as b2 \<Longrightarrow> follows b (c # cs) (a # as) b2"

lemma exec_refines:
  assumes "store_wf s" "exec c (s, d) = (a, s', d')"
  shows "store_wf s'" "promised c (board_of s) a (board_of s')"
proof -
  have "store_wf s' \<and> promised c (board_of s) a (board_of s')"
  proof (cases c)
    case (CAddAt io cause at' now)
    let ?w = "\<lparr>wk_ID = [], wk_Cause = cause, wk_Kind = KindAt, wk_At = at', wk_Symbol = [],
      wk_Direction = [], wk_Level = 0, wk_CreatedAt = Some now\<rparr>"
    from assms(2) CAddAt obtain r where r: "a = Added r" "AddAt io cause at' now (s, d) = (r, s', d')"
      by (auto simp: map_prod_def split: prod.splits)
    show ?thesis
    proof (cases "TrimSpace cause \<noteq> [] \<and> (\<exists>t. at' = Some t \<and> now < t)")
      case True
      with r have "add io ?w (s, d) = (r, s', d')" by (auto simp: AddAt_def)
      from add_keeps [OF assms(1) this] True show ?thesis by (simp add: CAddAt r)
    next
      case False
      with r assms(1) show ?thesis by (auto simp: AddAt_def CAddAt adds_def split: option.splits if_splits)
    qed
  next
    case (CAddPrice io cause symbol dir level now)
    let ?w = "\<lparr>wk_ID = [], wk_Cause = cause, wk_Kind = KindPrice, wk_At = None, wk_Symbol = ToUpper symbol,
      wk_Direction = dir, wk_Level = level, wk_CreatedAt = Some now\<rparr>"
    from assms(2) CAddPrice obtain r where r: "a = Added r"
      "AddPrice io cause symbol dir level now (s, d) = (r, s', d')"
      by (auto simp: map_prod_def split: prod.splits)
    show ?thesis
    proof (cases "TrimSpace cause \<noteq> [] \<and> TrimSpace symbol \<noteq> [] \<and> dir \<in> {Above, Below} \<and> 0 < level")
      case True
      then have "\<not> (dir \<noteq> Above \<and> dir \<noteq> Below)" "\<not> level \<le> 0" by auto
      with True r have "add io ?w (s, d) = (r, s', d')" by (simp add: AddPrice_def)
      from add_keeps [OF assms(1) this] True show ?thesis by (simp add: CAddPrice r)
    next
      case False
      with r assms(1) show ?thesis by (auto simp: AddPrice_def CAddPrice adds_def split: if_splits)
    qed
  next
    case (CCancel io i)
    from assms(2) CCancel obtain r where "a = Cancelled r" "Cancel_wakeup io i (s, d) = (r, s', d')"
      by (auto simp: map_prod_def split: prod.splits)
    with cancel_keeps [OF assms(1)] show ?thesis by (auto simp: CCancel)
  next
    case (CDue io now price)
    from assms(2) CDue obtain ws where ws: "a = Woke ws" "Due_now io now price (s, d) = (ws, s', d')"
      by (auto simp: map_prod_def split: prod.splits)
    note k = due_keeps [OF assms(1) ws(2)]
    have "board_of s' = (\<lambda>i. case board_of s i of None \<Rightarrow> None | Some w \<Rightarrow> if fires now price w then None else Some w)"
      using assms(1) by (simp add: board_of_def k(4) store_wf_def map_of_filter_ids fun_eq_iff split: option.split)
    moreover have "distinct (ids ws)" using assms(1) ids_filter(2) by (simp add: k(2) store_wf_def)
    ultimately show ?thesis using k(1,2) assms(1) by (simp add: CDue ws ran_board) 
  qed
  then show "store_wf s'" "promised c (board_of s) a (board_of s')" by simp_all
qed

lemma exec_all_refines:
  assumes "store_wf s" "exec_all cs (s, d) = (as, s', d')"
  shows "store_wf s' \<and> follows (board_of s) cs as (board_of s')"
  using assms
proof (induction cs arbitrary: s d as)
  case Nil
  then show ?case by (auto intro: follows.intros)
next
  case (Cons c cs)
  obtain a s1 d1 where e: "exec c (s, d) = (a, s1, d1)" by (metis prod.exhaust)
  obtain as' where r: "exec_all cs (s1, d1) = (as', s', d')" "as = a # as'"
    using Cons.prems(2) e by (auto split: prod.splits)
  show ?case
    using Cons.IH [OF exec_refines(1) [OF Cons.prems(1) e] r(1)] exec_refines(2) [OF Cons.prems(1) e]
    by (auto simp: r(2) intro: follows_Cons)
qed

text \<open>A file another process left: well named, every name once.\<close>

definition file_wf :: "wk_file \<Rightarrow> bool" where
  "file_wf f \<longleftrightarrow> (\<forall>ws. f = Holds ws \<longrightarrow> distinct (ids (map Unmarshal ws)) \<and>
     set (ids (map Unmarshal ws)) \<subseteq> named_to (2 ^ 63 - 1))"

lemma foldl_max:
  fixes f :: "'a \<Rightarrow> int"
  shows "n \<le> foldl (\<lambda>n w. if f w > n then f w else n) n ws \<and>
    (\<forall>w \<in> set ws. f w \<le> foldl (\<lambda>n w. if f w > n then f w else n) n ws)"
proof (induction ws arbitrary: n)
  case (Cons w ws)
  show ?case using Cons.IH [of "if f w > n then f w else n"] by (auto split: if_splits)
qed simp

lemma Open_store_wf:
  assumes "file_wf f" "Open_store f = Ok s"
  shows "store_wf s"
proof (cases f)
  case (Holds ws)
  let ?l = "map Unmarshal ws"
  from assms(2) Holds have l: "k_list s = ?l"
    and n: "k_next s = foldl (\<lambda>n w. if idNumber (wk_ID w) > n then idNumber (wk_ID w) else n) 0 ?l"
    by (auto simp: Open_store_def Let_def)
  note m = foldl_max [of 0 "\<lambda>w. idNumber (wk_ID w)" ?l, folded n]
  have "set (ids ?l) \<subseteq> named_to (k_next s)"
  proof
    fix i assume "i \<in> set (ids ?l)"
    then obtain w where w: "w \<in> set ?l" "wk_ID w = i" by (auto simp: ids_def)
    moreover obtain j where j: "i = id_of j" "1 \<le> j" "j \<le> 2 ^ 63 - 1"
      using assms(1) \<open>i \<in> set (ids ?l)\<close> by (auto simp: file_wf_def Holds named_to_def)
    moreover have "idNumber i = j" using j idNumber_id_of [of j] by simp
    ultimately have "j \<le> k_next s" using m by auto
    with j show "i \<in> named_to (k_next s)" by (auto simp: named_to_def)
  qed
  then show ?thesis using assms(1) m by (auto simp: store_wf_def l file_wf_def Holds)
qed (use assms in \<open>auto simp: Open_store_def store_wf_def ids_def\<close>)

text \<open>C23. The store refines a board of standing requests. Opened on any file that names its wake-ups
  once, and whatever the file system answers, each call answers and changes the board as promised: a
  request is refused and changes nothing or stands under a new name, dropping one takes exactly it
  off, and what comes true is answered, all of it and nothing else, and taken off.\<close>

theorem the_store_refines_a_board:
  assumes "file_wf (k_file d)" "Open_store (k_file d) = Ok s" "exec_all cs (s, d) = (as, s', d')"
  shows "follows (board_of s) cs as (board_of s')"
  using exec_all_refines [OF Open_store_wf [OF assms(1,2)] assms(3)] by blast

subsection \<open>Once\<close>

definition woken :: "answer list \<Rightarrow> Wakeup list" where
  "woken as = concat (map (\<lambda>a. case a of Woke ws \<Rightarrow> ws | _ \<Rightarrow> []) as)"

lemma named_above: "0 \<le> n \<Longrightarrow> id_of m \<in> named_to n \<Longrightarrow> 0 \<le> m \<Longrightarrow> m \<le> n"
  by (auto simp: named_to_def id_of_inj)

lemma exec_next:
  assumes "store_wf s" "exec c (s, d) = (a, s', d')"
  shows "k_next s \<le> k_next s'"
    and "set (ids (k_list s')) \<union> set (ids (woken [a])) \<subseteq> set (ids (k_list s)) \<union> id_of ` {k_next s + 1..k_next s'}"
    and "set (ids (k_list s')) \<inter> set (ids (woken [a])) = {}"
    and "distinct (ids (woken [a]))"
proof -
  have added: "k_next s \<le> k_next s' \<and> set (ids (k_list s')) \<subseteq> set (ids (k_list s)) \<union> id_of ` {k_next s + 1..k_next s'}"
    if "add io w (s, d) = (r, s', d')" for io w r
    using that by (auto simp: add_def Let_def ids_def split: prod.splits sum.splits)
  have "k_next s \<le> k_next s' \<and>
    set (ids (k_list s')) \<union> set (ids (woken [a])) \<subseteq> set (ids (k_list s)) \<union> id_of ` {k_next s + 1..k_next s'} \<and>
    set (ids (k_list s')) \<inter> set (ids (woken [a])) = {} \<and> distinct (ids (woken [a]))"
  proof (cases c)
    case (CAddAt io cause at' now)
    from assms(2) CAddAt obtain r where r: "a = Added r" "AddAt io cause at' now (s, d) = (r, s', d')"
      by (auto simp: map_prod_def split: prod.splits)
    have "(s' = s) \<or> (\<exists>w. add io w (s, d) = (r, s', d'))"
      using r(2) unfolding AddAt_def by (auto split: if_splits)
    then have "k_next s \<le> k_next s' \<and> set (ids (k_list s')) \<subseteq> set (ids (k_list s)) \<union> id_of ` {k_next s + 1..k_next s'}"
      using added by blast
    moreover have "ids (woken [a]) = []" by (simp add: r(1) woken_def ids_def)
    ultimately show ?thesis by simp
  next
    case (CAddPrice io cause symbol dir level now)
    from assms(2) CAddPrice obtain r where r: "a = Added r"
      "AddPrice io cause symbol dir level now (s, d) = (r, s', d')"
      by (auto simp: map_prod_def split: prod.splits)
    have "(s' = s) \<or> (\<exists>w. add io w (s, d) = (r, s', d'))"
      using r(2) unfolding AddPrice_def by (auto split: if_splits)
    then have "k_next s \<le> k_next s' \<and> set (ids (k_list s')) \<subseteq> set (ids (k_list s)) \<union> id_of ` {k_next s + 1..k_next s'}"
      using added by blast
    moreover have "ids (woken [a]) = []" by (simp add: r(1) woken_def ids_def)
    ultimately show ?thesis by simp
  next
    case (CCancel io i)
    from assms(2) CCancel obtain r where r: "a = Cancelled r" "Cancel_wakeup io i (s, d) = (r, s', d')"
      by (auto simp: map_prod_def split: prod.splits)
    have "set (ids (k_list s')) \<subseteq> set (ids (k_list s)) \<and> k_next s' = k_next s"
      using r(2) assms(1) ids_filter(1)
      by (auto simp: Cancel_wakeup_def Let_def store_wf_def cut_id_eq split: option.splits prod.splits if_splits)
        (auto simp: ids_def)
    then show ?thesis by (auto simp: r(1) woken_def ids_def)
  next
    case (CDue io now price)
    from assms(2) CDue obtain ws where ws: "a = Woke ws" "Due_now io now price (s, d) = (ws, s', d')"
      by (auto simp: map_prod_def split: prod.splits)
    note k = due_keeps [OF assms(1) ws(2)]
    have "distinct (map wk_ID (k_list s))" using assms(1) by (simp add: store_wf_def ids_def)
    then show ?thesis
      by (auto simp: ws(1) woken_def k ids_def distinct_map_filter dest: inj_onD [OF distinct_map [THEN iffD1, THEN conjunct2]])
  qed
  then show "k_next s \<le> k_next s'"
    "set (ids (k_list s')) \<union> set (ids (woken [a])) \<subseteq> set (ids (k_list s)) \<union> id_of ` {k_next s + 1..k_next s'}"
    "set (ids (k_list s')) \<inter> set (ids (woken [a])) = {}" "distinct (ids (woken [a]))" by blast+
qed

lemma woken_ids:
  assumes "store_wf s" "exec_all cs (s, d) = (as, s', d')"
  shows "distinct (ids (woken as)) \<and> (\<exists>n. set (ids (woken as)) \<subseteq> set (ids (k_list s)) \<union> id_of ` {k_next s + 1..n})"
  using assms
proof (induction cs arbitrary: s d as)
  case Nil
  then show ?case by (simp add: woken_def ids_def)
next
  case (Cons c cs)
  obtain a s1 d1 where e: "exec c (s, d) = (a, s1, d1)" by (metis prod.exhaust)
  obtain as' where r: "exec_all cs (s1, d1) = (as', s', d')" "as = a # as'"
    using Cons.prems(2) e by (auto split: prod.splits)
  note x = exec_next [OF Cons.prems(1) e]
  have wf1: "store_wf s1" using exec_refines [OF Cons.prems(1) e] by simp
  obtain n where IH: "distinct (ids (woken as'))"
    "set (ids (woken as')) \<subseteq> set (ids (k_list s1)) \<union> id_of ` {k_next s1 + 1..n}"
    using Cons.IH [OF wf1 r(1)] by blast
  have split: "ids (woken as) = ids (woken [a]) @ ids (woken as')" by (simp add: r(2) woken_def ids_def)
  have old: "set (ids (woken [a])) \<subseteq> named_to (k_next s1)"
  proof -
    have "id_of ` {k_next s + 1..k_next s1} \<subseteq> named_to (k_next s1)"
      unfolding named_to_def using Cons.prems(1) by (intro image_mono) (auto simp: store_wf_def)
    then show ?thesis using x(2) Cons.prems(1) named_to_mono [OF x(1)] unfolding store_wf_def by blast
  qed
  have "0 \<le> k_next s1" using wf1 by (simp add: store_wf_def)
  then have "id_of ` {k_next s1 + 1..n} \<inter> named_to (k_next s1) = {}"
    using named_above [of "k_next s1"] by fastforce
  then have "set (ids (woken [a])) \<inter> set (ids (woken as')) = {}" using IH(2) old x(3) by blast
  then have d: "distinct (ids (woken as))" using IH(1) x(4) by (simp add: split)
  have u: "set (ids (woken as)) \<subseteq> set (ids (k_list s)) \<union> id_of ` {k_next s + 1..max n (k_next s1)}"
  proof -
    have later: "id_of ` {k_next s1 + 1..n} \<subseteq> id_of ` {k_next s + 1..max n (k_next s1)}"
      by (rule image_mono) (use x(1) in auto)
    have here: "id_of ` {k_next s + 1..k_next s1} \<subseteq> id_of ` {k_next s + 1..max n (k_next s1)}"
      by (rule image_mono) auto
    have all: "A' \<union> B' \<subseteq> L \<union> M" if "M2 \<subseteq> M" "M1 \<subseteq> M" "B' \<subseteq> X \<union> M2" "X \<union> A' \<subseteq> L \<union> M1"
      for A' B' L M M1 M2 X :: "string set" using that by blast
    show ?thesis unfolding split set_append by (rule all [OF later here IH(2) x(2)])
  qed
  show ?case using d u by (rule conjI [OF _ exI])
qed

text \<open>C24. A wake-up fires once: over any calls to a store opened on a file that names its wake-ups once,
  no two of the wake-ups that were answered as due have the same name, even where the file could
  not be written.\<close>

theorem a_wakeup_fires_once:
  assumes "file_wf (k_file d)" "Open_store (k_file d) = Ok s" "exec_all cs (s, d) = (as, s', d')"
  shows "distinct (map wk_ID (woken as))"
  using woken_ids [OF Open_store_wf [OF assms(1,2)] assms(3)] by (simp add: ids_def)

subsection \<open>A restart\<close>

definition io_ok :: "wk_io \<Rightarrow> bool" where
  "io_ok io \<longleftrightarrow> io_marshal io = Ok () \<and> io_mkdir io = Ok () \<and> io_write io = Ok () \<and> io_rename io = Ok ()"

fun call_io :: "call \<Rightarrow> wk_io" where
  "call_io (CAddAt io cause at' now) = io"
| "call_io (CAddPrice io cause symbol dir level now) = io"
| "call_io (CCancel io i) = io"
| "call_io (CDue io now price) = io"

text \<open>What a process that opens the file finds standing.\<close>

definition found_in :: "wk_file \<Rightarrow> Wakeup list option" where
  "found_in f = (case Open_store f of Err e \<Rightarrow> None | Ok s \<Rightarrow> Some (k_list s))"

lemma found_in_Holds [simp]: "found_in (Holds (map MarshalJSON ws)) = Some ws"
  by (simp add: found_in_def Open_store_def Let_def o_def)

lemma write_out_file:
  assumes "write_out io (s, d) = (r, d')"
  shows "k_file d' = (if io_ok io then Holds (map MarshalJSON (k_list s)) else k_file d)"
    and "r = Ok () \<longleftrightarrow> io_ok io"
  using assms by (auto simp: write_out_def io_ok_def Let_def split: sum.splits)

text \<open>Whether a call comes to write the file, and how the writes of a life went, in their order.\<close>

fun reaches_write :: "call \<Rightarrow> Store \<Rightarrow> bool" where
  "reaches_write (CAddAt io cause at' now) s \<longleftrightarrow> TrimSpace cause \<noteq> [] \<and> (\<exists>t. at' = Some t \<and> now < t)"
| "reaches_write (CAddPrice io cause symbol dir level now) s \<longleftrightarrow>
     TrimSpace cause \<noteq> [] \<and> TrimSpace symbol \<noteq> [] \<and> (dir = Above \<or> dir = Below) \<and> 0 < level"
| "reaches_write (CCancel io i) s \<longleftrightarrow> cut_id i (k_list s) \<noteq> None"
| "reaches_write (CDue io now price) s \<longleftrightarrow> filter (fires now price) (k_list s) \<noteq> []"

fun writes_of :: "call list \<Rightarrow> kept \<Rightarrow> bool list" where
  "writes_of [] sd = []"
| "writes_of (c # cs) sd =
     (if reaches_write c (fst sd) then [io_ok (call_io c)] else []) @ writes_of cs (snd (exec c sd))"

lemma add_file:
  assumes "add io w (s, d) = (r, s', d')"
  shows "k_file d' = (if io_ok io then Holds (map MarshalJSON (k_list s')) else k_file d)"
  using assms write_out_file
  by (auto simp: add_def Let_def split: prod.splits sum.splits) (metis sum.distinct(1) sum.inject(2) write_out_file)+

text \<open>A call that writes leaves the list as it now stands in the file, or the file as it was; a call that
  does not write leaves both.\<close>

lemma exec_file:
  assumes "exec c (s, d) = (a, s', d')"
  shows "reaches_write c s \<Longrightarrow>
      k_file d' = (if io_ok (call_io c) then Holds (map MarshalJSON (k_list s')) else k_file d)"
    and "\<not> reaches_write c s \<Longrightarrow> k_list s' = k_list s \<and> k_file d' = k_file d"
proof -
  have "if reaches_write c s
    then k_file d' = (if io_ok (call_io c) then Holds (map MarshalJSON (k_list s')) else k_file d)
    else k_list s' = k_list s \<and> k_file d' = k_file d"
  proof (cases c)
    case (CAddAt io cause at' now)
    with assms obtain r where "AddAt io cause at' now (s, d) = (r, s', d')"
      by (auto simp: map_prod_def split: prod.splits)
    then show ?thesis using CAddAt
      by (cases at') (auto simp: AddAt_def dest!: add_file split: if_splits)
  next
    case (CAddPrice io cause symbol dir level now)
    with assms obtain r where "AddPrice io cause symbol dir level now (s, d) = (r, s', d')"
      by (auto simp: map_prod_def split: prod.splits)
    then show ?thesis using CAddPrice
      by (auto simp: AddPrice_def dest!: add_file split: if_splits)
  next
    case (CCancel io i)
    with assms obtain r where c: "Cancel_wakeup io i (s, d) = (r, s', d')"
      by (auto simp: map_prod_def split: prod.splits)
    show ?thesis
    proof (cases "cut_id i (k_list s)")
      case (Some rest)
      with c have "s' = s\<lparr>k_list := rest\<rparr>" "write_out io (s', d) = (r, d')"
        by (auto simp: Cancel_wakeup_def Let_def split: prod.splits)
      then show ?thesis using write_out_file(1) [of io s' d r d'] CCancel Some by simp
    qed (use c CCancel in \<open>simp add: Cancel_wakeup_def\<close>)
  next
    case (CDue io now price)
    with assms obtain ws where c: "Due_now io now price (s, d) = (ws, s', d')"
      by (auto simp: map_prod_def split: prod.splits)
    show ?thesis
    proof (cases "filter (fires now price) (k_list s) = []")
      case True
      then have "filter (\<lambda>w. \<not> fires now price w) (k_list s) = k_list s"
        by (auto simp: filter_empty_conv filter_id_conv)
      with True c CDue show ?thesis by (auto simp: Due_now_def Let_def)
    next
      case False
      with c have "d' = snd (write_out io (s', d))" by (auto simp: Due_now_def Let_def)
      then show ?thesis
        using write_out_file(1) [of io s' d "fst (write_out io (s', d))" d'] CDue False by simp
    qed
  qed
  then show "reaches_write c s \<Longrightarrow>
      k_file d' = (if io_ok (call_io c) then Holds (map MarshalJSON (k_list s')) else k_file d)"
    and "\<not> reaches_write c s \<Longrightarrow> k_list s' = k_list s \<and> k_file d' = k_file d" by simp_all
qed

lemma no_write_succeeds: "True \<notin> set (writes_of cs (s, d)) \<Longrightarrow> k_file (snd (snd (exec_all cs (s, d)))) = k_file d"
proof (induction cs arbitrary: s d)
  case (Cons c cs)
  obtain a s1 d1 where e: "exec c (s, d) = (a, s1, d1)" by (metis prod.exhaust)
  then have "k_file d1 = k_file d" using exec_file [OF e] Cons.prems by (cases "reaches_write c s") auto
  then show ?case using Cons e by (simp add: case_prod_unfold Let_def)
qed simp

lemma no_write_tried:
  "writes_of cs (s, d) = [] \<Longrightarrow> k_list (fst (snd (exec_all cs (s, d)))) = k_list s"
proof (induction cs arbitrary: s d)
  case (Cons c cs)
  obtain a s1 d1 where e: "exec c (s, d) = (a, s1, d1)" by (metis prod.exhaust)
  then have "k_list s1 = k_list s" using exec_file(2) [OF e] Cons.prems by (auto split: if_splits)
  then show ?case using Cons e by (auto simp: case_prod_unfold Let_def split: if_splits)
qed simp

lemma exec_all_append: "snd (exec_all (b @ a) sd) = snd (exec_all a (snd (exec_all b sd)))"
  by (induction b arbitrary: sd) (simp_all add: case_prod_unfold Let_def)

lemma writes_of_append: "writes_of (b @ a) sd = writes_of b sd @ writes_of a (snd (exec_all b sd))"
  by (induction b arbitrary: sd) (simp_all add: case_prod_unfold Let_def)

text \<open>The last write that succeeded splits a life; after it the file is the list as it stood then.\<close>

lemma last_success:
  assumes "True \<in> set (writes_of cs sd)"
  shows "\<exists>b a. cs = b @ a \<and> True \<notin> set (writes_of a (snd (exec_all b sd))) \<and>
    (\<exists>ws. writes_of b sd = ws @ [True]) \<and>
    found_in (k_file (snd (snd (exec_all b sd)))) = Some (k_list (fst (snd (exec_all b sd))))"
  using assms
proof (induction cs rule: rev_induct)
  case (snoc c cs)
  obtain s d where sd: "snd (exec_all cs sd) = (s, d)" by (metis prod.exhaust)
  obtain a s1 d1 where e: "exec c (s, d) = (a, s1, d1)" by (metis prod.exhaust)
  have w: "writes_of (cs @ [c]) sd = writes_of cs sd @ (if reaches_write c s then [io_ok (call_io c)] else [])"
    by (simp add: writes_of_append sd)
  have s1: "snd (exec_all (cs @ [c]) sd) = (s1, d1)" by (simp add: exec_all_append sd e)
  show ?case
  proof (cases "reaches_write c s \<and> io_ok (call_io c)")
    case True
    then have "found_in (k_file d1) = Some (k_list s1)" using exec_file(1) [OF e] by simp
    then show ?thesis using True w s1 by (intro exI [of _ "cs @ [c]"] exI [of _ "[]"]) simp
  next
    case False
    then have "True \<in> set (writes_of cs sd)" using snoc.prems w by (auto split: if_splits)
    from snoc.IH [OF this] obtain b a' where b: "cs = b @ a'" "True \<notin> set (writes_of a' (snd (exec_all b sd)))"
      "\<exists>ws. writes_of b sd = ws @ [True]"
      "found_in (k_file (snd (snd (exec_all b sd)))) = Some (k_list (fst (snd (exec_all b sd))))" by blast
    have "snd (exec_all a' (snd (exec_all b sd))) = (s, d)" using sd by (simp add: b(1) exec_all_append)
    then have "True \<notin> set (writes_of (a' @ [c]) (snd (exec_all b sd)))"
      using b(2) False by (auto simp: writes_of_append)
    then show ?thesis using b by (intro exI [of _ b] exI [of _ "a' @ [c]"]) simp
  qed
qed simp

text \<open>C33. A restart forgets nothing. Whatever writes of a life failed, the process that opens the file next
  finds the list as it stood at some moment of that life (each wake-up with every field it had), and no
  write after that moment succeeded; and when the last write that was tried succeeded, or none was
  tried, it finds exactly the wake-ups that stood at the end.\<close>

theorem a_restart_forgets_nothing:
  assumes "Open_store (k_file d) = Ok s" "exec_all cs (s, d) = (as, s', d')"
  shows "\<exists>s2. Open_store (k_file d') = Ok s2 \<and>
    (\<exists>earlier later. cs = earlier @ later \<and> k_list s2 = k_list (fst (snd (exec_all earlier (s, d)))) \<and>
       True \<notin> set (writes_of later (snd (exec_all earlier (s, d))))) \<and>
    (writes_of cs (s, d) = [] \<or> last (writes_of cs (s, d)) \<longrightarrow> k_list s2 = k_list s')"
proof -
  have start: "found_in (k_file d) = Some (k_list s)" using assms(1) by (simp add: found_in_def)
  have "\<exists>b a. cs = b @ a \<and> True \<notin> set (writes_of a (snd (exec_all b (s, d)))) \<and>
    (b = [] \<or> (\<exists>ws. writes_of b (s, d) = ws @ [True])) \<and>
    found_in (k_file (snd (snd (exec_all b (s, d))))) = Some (k_list (fst (snd (exec_all b (s, d)))))"
  proof (cases "True \<in> set (writes_of cs (s, d))")
    case True
    from last_success [OF this] show ?thesis by blast
  qed (use start in \<open>simp add: exI [of _ "[]"]\<close>)
  then obtain b a where b: "cs = b @ a" "True \<notin> set (writes_of a (snd (exec_all b (s, d))))"
    "b = [] \<or> (\<exists>ws. writes_of b (s, d) = ws @ [True])"
    "found_in (k_file (snd (snd (exec_all b (s, d))))) = Some (k_list (fst (snd (exec_all b (s, d)))))" by blast
  obtain sb db where sb: "snd (exec_all b (s, d)) = (sb, db)" by (metis prod.exhaust)
  have fin: "snd (exec_all a (sb, db)) = (s', d')" using assms(2) sb exec_all_append [of b a "(s, d)"] by (simp add: b(1))
  have "k_file d' = k_file db" using no_write_succeeds [of a sb db] b(2) fin sb by simp
  then have found: "found_in (k_file d') = Some (k_list sb)" using b(4) sb by simp
  then obtain s2 where s2: "Open_store (k_file d') = Ok s2" "k_list s2 = k_list sb"
    by (auto simp: found_in_def split: sum.splits)
  have "k_list sb = k_list s'" if w: "writes_of cs (s, d) = [] \<or> last (writes_of cs (s, d))"
  proof -
    have "writes_of a (sb, db) = []"
    proof (rule ccontr)
      assume "writes_of a (sb, db) \<noteq> []"
      then have "last (writes_of a (sb, db)) \<in> set (writes_of a (sb, db))" "writes_of cs (s, d) \<noteq> []"
        "last (writes_of cs (s, d)) = last (writes_of a (sb, db))"
        by (simp_all add: b(1) writes_of_append sb)
      then show False using w b(2) sb by auto
    qed
    then show ?thesis using no_write_tried [of a sb db] fin by simp
  qed
  then show ?thesis using s2 b(1,2) sb by (metis fst_conv)
qed

end
