(* ===== verification/WakeupExample.thy ===== *)
theory WakeupExample
  imports WakeupLaws
begin

text \<open>
  A store opened on a file with one wake-up in it, asked for two more; the time comes, then the
  price. The properties of the store hold there with every hypothesis discharged.
\<close>

definition we_io :: wk_io where
  "we_io = \<lparr>io_marshal = Ok (), io_mkdir = Ok (), io_write = Ok (), io_rename = Ok ()\<rparr>"

definition we_old :: Wakeup where
  "we_old = \<lparr>wk_ID = ''w3'', wk_Cause = ''close'', wk_Kind = ''price'', wk_At = None, wk_Symbol = ''SPY'',
     wk_Direction = ''above'', wk_Level = lit 800, wk_CreatedAt = Some 1\<rparr>"

definition we_time :: Wakeup where
  "we_time = \<lparr>wk_ID = ''w4'', wk_Cause = ''look'', wk_Kind = ''at'', wk_At = Some 10, wk_Symbol = [],
     wk_Direction = [], wk_Level = 0, wk_CreatedAt = Some 5\<rparr>"

definition we_price :: Wakeup where
  "we_price = \<lparr>wk_ID = ''w5'', wk_Cause = ''buy'', wk_Kind = ''price'', wk_At = None, wk_Symbol = ''SPY'',
     wk_Direction = ''below'', wk_Level = lit 760, wk_CreatedAt = Some 6\<rparr>"

definition we_disk :: "Wakeup list \<Rightarrow> disk" where
  "we_disk ws = \<lparr>k_file = Holds (map MarshalJSON ws), k_writing = None\<rparr>"

definition we_store :: "Wakeup list \<Rightarrow> int \<Rightarrow> Store" where
  "we_store ws n = \<lparr>k_list = ws, k_next = n\<rparr>"

definition we_calls :: "call list" where
  "we_calls = [CAddAt we_io ''look'' (Some 10) 5, CAddPrice we_io ''buy'' ''spy'' ''below'' (lit 760) 6,
     CDue we_io 12 [''SPY'' \<mapsto> lit 761], CDue we_io 13 [''SPY'' \<mapsto> lit 759]]"

definition we_answers :: "answer list" where
  "we_answers = [Added (Ok we_time), Added (Ok we_price), Woke [we_time], Woke [we_price]]"

lemma we_ids: "id_of 3 = ''w3''" "id_of 4 = ''w4''" "id_of 5 = ''w5''"
  by code_simp+

lemma we_number: "idNumber ''w3'' = 3"
  using idNumber_id_of [of 3] by (simp add: we_ids)

lemma we_open: "Open_store (k_file (we_disk [we_old])) = Ok (we_store [we_old] 3)"
  by (simp add: Open_store_def we_disk_def we_store_def) (simp add: we_old_def we_number)

lemma we_file: "file_wf (k_file (we_disk [we_old]))"
proof -
  have "id_of 3 \<in> named_to (2 ^ 63 - 1)" by (auto simp: named_to_def)
  then show ?thesis by (simp add: file_wf_def we_disk_def ids_def we_ids) (simp add: we_old_def)
qed

lemma we_write: "write_out we_io (we_store ws n, d) = (Ok (), d\<lparr>k_file := Holds (map MarshalJSON ws), k_writing := None\<rparr>)"
  by (simp add: write_out_def we_io_def we_store_def Let_def)

lemma we_disk_set: "(we_disk ws)\<lparr>k_file := Holds (map MarshalJSON vs), k_writing := None\<rparr> = we_disk vs"
  by (simp add: we_disk_def)

lemma we_add: "add we_io w (we_store ws n, we_disk vs) =
    (Ok (w\<lparr>wk_ID := id_of (n + 1)\<rparr>), we_store (ws @ [w\<lparr>wk_ID := id_of (n + 1)\<rparr>]) (n + 1),
     we_disk (ws @ [w\<lparr>wk_ID := id_of (n + 1)\<rparr>]))"
  using we_write [of "ws @ [w\<lparr>wk_ID := id_of (n + 1)\<rparr>]" "n + 1" "we_disk vs"]
  by (simp add: add_def Let_def we_store_def we_disk_def)

lemma we_due: "Due_now we_io now price (we_store ws n, we_disk ws) =
    (filter (fires now price) ws, we_store (filter (\<lambda>w. \<not> fires now price w) ws) n,
     we_disk (filter (\<lambda>w. \<not> fires now price w) ws))"
proof (cases "filter (fires now price) ws = []")
  case True
  then have "filter (\<lambda>w. \<not> fires now price w) ws = ws" by (auto simp: filter_empty_conv filter_id_conv)
  with True show ?thesis by (simp add: Due_now_def we_store_def Let_def)
next
  case False
  then show ?thesis
    using we_write [of "filter (\<lambda>w. \<not> fires now price w) ws" n "we_disk ws"]
    by (simp add: Due_now_def we_store_def Let_def we_disk_set)
qed

lemma we_look: "AddAt we_io ''look'' (Some 10) 5 (we_store [we_old] 3, we_disk [we_old]) =
    (Ok we_time, we_store [we_old, we_time] 4, we_disk [we_old, we_time])"
proof -
  have "TrimSpace ''look'' \<noteq> []" by code_simp
  then show ?thesis by (simp add: AddAt_def we_add we_ids) (simp add: we_time_def KindAt_def)
qed

lemma we_buy: "AddPrice we_io ''buy'' ''spy'' ''below'' (lit 760) 6 (we_store [we_old, we_time] 4, we_disk [we_old, we_time]) =
    (Ok we_price, we_store [we_old, we_time, we_price] 5, we_disk [we_old, we_time, we_price])"
proof -
  have "TrimSpace ''buy'' \<noteq> []" "TrimSpace ''spy'' \<noteq> []" "ToUpper ''spy'' = ''SPY''" by code_simp+
  moreover have "\<not> lit 760 \<le> (0 :: f64)" by (simp add: not_le)
  ultimately show ?thesis
    by (simp add: AddPrice_def we_add we_ids Above_def Below_def) (simp add: we_price_def KindPrice_def)
qed

lemma we_fires:
  "fires 12 [''SPY'' \<mapsto> lit 761] we_time" "\<not> fires 12 [''SPY'' \<mapsto> lit 761] we_old" "\<not> fires 12 [''SPY'' \<mapsto> lit 761] we_price"
  "fires 13 [''SPY'' \<mapsto> lit 759] we_price" "\<not> fires 13 [''SPY'' \<mapsto> lit 759] we_old"
  by (simp_all add: fires_def we_time_def we_old_def we_price_def KindAt_def KindPrice_def Above_def f64_eval)

lemma we_run: "exec_all we_calls (we_store [we_old] 3, we_disk [we_old]) =
    (we_answers, we_store [we_old] 5, we_disk [we_old])"
  by (simp add: we_calls_def we_answers_def we_look we_buy we_due we_fires)

theorem the_store_refines_a_board_witness:
  "follows (board_of (we_store [we_old] 3)) we_calls we_answers (board_of (we_store [we_old] 5))"
  by (rule the_store_refines_a_board [OF we_file we_open we_run])

theorem a_wakeup_fires_once_witness: "distinct (map wk_ID (woken we_answers)) \<and> woken we_answers = [we_time, we_price]"
  using a_wakeup_fires_once [OF we_file we_open we_run] by (simp add: woken_def we_answers_def)

theorem a_restart_forgets_nothing_witness:
  "\<exists>s2. Open_store (k_file (we_disk [we_old])) = Ok s2 \<and> k_list s2 = [we_old]"
proof -
  have "list_all id (writes_of cs sd)" if "\<forall>c \<in> set cs. io_ok (call_io c)" for cs sd
    using that
  proof (induction cs arbitrary: sd)
    case (Cons c cs)
    then show ?case using Cons.IH [of "snd (exec c sd)"] by simp
  qed simp
  moreover have "\<forall>c \<in> set we_calls. io_ok (call_io c)" by (simp add: we_calls_def io_ok_def we_io_def)
  ultimately have "writes_of we_calls (we_store [we_old] 3, we_disk [we_old]) = [] \<or>
      last (writes_of we_calls (we_store [we_old] 3, we_disk [we_old]))"
    using last_in_set by (fastforce simp: list_all_iff)
  then show ?thesis using a_restart_forgets_nothing [OF we_open we_run] by (auto simp: we_store_def)
qed

end
