(* ===== verification/Envelope.thy ===== *)
theory Envelope
  imports GoStd "HOL-Library.List_Lexorder" "HOL-Library.Char_ord"
begin

text \<open>
  What a session may do (\<open>golang/internal/envelope\<close>): the rules an operator edits, what makes a
  file of them acceptable, the envelope served to one caller on one tool, and the reading of a
  limit stated as a share of the account. The file and its YAML are the environment: reading
  answers the text or an error, and the parser, a library outside the repository, is a parameter.
  A Go map is the list of its entries; ranging over it takes their order as an argument.
\<close>

subsection \<open>Rules\<close>

text \<open>What YAML gives for a value: a whole number, a number, or anything else.\<close>

datatype yaml_value = VInt int | VFloat f64 | VOther string

record Constraint =
  co_Rule :: string
  co_Disclosure :: string
  co_Subject :: string
  co_Kind :: string
  co_Value :: "yaml_value option"
  co_Unit :: string
  co_Says :: string

record Envelope =
  en_Tool :: string
  en_Identity :: string
  en_RulesetVersion :: string
  en_Governed :: bool
  en_Constraints :: "Constraint list"

record Agent =
  ag_Tools :: "(string \<times> Constraint list) list"

record Ruleset =
  rs_Version :: string
  rs_Agents :: "(string \<times> Agent) list"

definition Boundary :: string where "Boundary = ''boundary''"
definition Existence :: string where "Existence = ''existence''"

definition subjects :: "string list" where
  "subjects = [''position_max_loss'', ''portfolio_max_loss'', ''same_direction_max_loss'', ''underlying'', ''expiration'']"

definition units :: "string list" where
  "units = [''percent_of_equity'', ''trading_days_from_today'']"

definition kinds :: "string list" where
  "kinds = [''maximum'', ''minimum'', ''enum'', ''range'']"

fun known :: "string list \<Rightarrow> string \<Rightarrow> bool" where
  "known [] value = False"
| "known (item # rest) value = (if item = value then True else known rest value)"

datatype rule_error =
    NoRuleName | ExistenceCarries string | BoundaryWithoutValue string | UnknownSubject string string
  | UnknownKind string string | UnknownUnit string string | BoundarySays string | BadDisclosure string string

definition check :: "Constraint \<Rightarrow> (rule_error, unit) result" where
  "check c =
     (if TrimSpace (co_Rule c) = [] then Err NoRuleName
      else if co_Disclosure c = Existence then
        (if co_Subject c \<noteq> [] \<or> co_Kind c \<noteq> [] \<or> co_Value c \<noteq> None \<or> co_Unit c \<noteq> []
         then Err (ExistenceCarries (co_Rule c)) else Ok ())
      else if co_Disclosure c = Boundary then
        (if co_Value c = None then Err (BoundaryWithoutValue (co_Rule c))
         else if \<not> known subjects (co_Subject c) then Err (UnknownSubject (co_Rule c) (co_Subject c))
         else if \<not> known kinds (co_Kind c) then Err (UnknownKind (co_Rule c) (co_Kind c))
         else if co_Unit c \<noteq> [] \<and> \<not> known units (co_Unit c) then Err (UnknownUnit (co_Rule c) (co_Unit c))
         else if co_Says c \<noteq> [] then Err (BoundarySays (co_Rule c))
         else Ok ())
      else Err (BadDisclosure (co_Rule c) (co_Disclosure c)))"

subsection \<open>Loading\<close>

datatype load_error =
    NotRead string | NotParsed string | NoVersion | NoAgents
  | BadRule string string rule_error | DeclaredTwice string string string

fun check_rules :: "string \<Rightarrow> string \<Rightarrow> string list \<Rightarrow> Constraint list \<Rightarrow> (load_error, unit) result" where
  "check_rules identity tool seen [] = Ok ()"
| "check_rules identity tool seen (c # cs) =
     (case check c of
        Err e \<Rightarrow> Err (BadRule identity tool e)
      | Ok u \<Rightarrow>
          if co_Rule c \<in> set seen then Err (DeclaredTwice identity tool (co_Rule c))
          else check_rules identity tool (co_Rule c # seen) cs)"

text \<open>The two loops stop at the first error; in which order they meet the rules is the iteration's.\<close>

fun first_error :: "('a \<Rightarrow> ('e, unit) result) \<Rightarrow> 'a list \<Rightarrow> ('e, unit) result" where
  "first_error f [] = Ok ()"
| "first_error f (x # xs) = (case f x of Err e \<Rightarrow> Err e | Ok u \<Rightarrow> first_error f xs)"

definition check_agent :: "(string \<times> Constraint list) iteration \<Rightarrow> string \<Rightarrow> Agent \<Rightarrow> (load_error, unit) result" where
  "check_agent it identity agent =
     first_error (\<lambda>(tool, constraints). check_rules identity tool [] constraints) (it (ag_Tools agent))"

definition Load ::
  "(string \<times> Agent) iteration \<Rightarrow> (string \<times> Constraint list) iteration \<Rightarrow>
   (string \<Rightarrow> (string, Ruleset) result) \<Rightarrow> (string, string) result \<Rightarrow> (load_error, Ruleset) result" where
  "Load it it' parse file =
     (case file of
        Err e \<Rightarrow> Err (NotRead e)
      | Ok raw \<Rightarrow>
          (case parse raw of
             Err e \<Rightarrow> Err (NotParsed e)
           | Ok r \<Rightarrow>
               if TrimSpace (rs_Version r) = [] then Err NoVersion
               else if rs_Agents r = [] then Err NoAgents
               else (case first_error (\<lambda>(identity, agent). check_agent it' identity agent) (it (rs_Agents r)) of
                       Err e \<Rightarrow> Err e
                     | Ok u \<Rightarrow> Ok r)))"

subsection \<open>One caller's envelope on one tool\<close>

text \<open>What follows the last pair of underscores, if there is one.\<close>

fun after_last :: "string \<Rightarrow> string option" where
  "after_last [] = None"
| "after_last (c # cs) = (case after_last cs of
       Some r \<Rightarrow> Some r
     | None \<Rightarrow> if HasPrefix (c # cs) ''__'' then Some (drop 2 (c # cs)) else None)"

definition bareTool :: "string \<Rightarrow> string" where
  "bareTool tool = (case after_last tool of Some r \<Rightarrow> r | None \<Rightarrow> tool)"

definition by_rule :: "Constraint \<Rightarrow> Constraint \<Rightarrow> bool" where
  "by_rule a b \<longleftrightarrow> co_Rule a < co_Rule b"

definition For_caller :: "Ruleset \<Rightarrow> string \<Rightarrow> string \<Rightarrow> (string, Envelope) result" where
  "For_caller r identity tool =
     (case map_of (rs_Agents r) identity of
        None \<Rightarrow> Err identity
      | Some agent \<Rightarrow>
          let found = map_of (ag_Tools agent) (bareTool tool);
              constraints = (case found of None \<Rightarrow> [] | Some cs \<Rightarrow> cs)
          in Ok \<lparr>en_Tool = tool, en_Identity = identity, en_RulesetVersion = rs_Version r,
                en_Governed = (found \<noteq> None), en_Constraints = sort_by by_rule constraints\<rparr>)"

subsection \<open>A limit as a share of the account\<close>

definition PercentOfEquity_unit :: string where
  "PercentOfEquity_unit = ''percent_of_equity''"

datatype percent_error = StatedIn string string | NoNumber string | AllowsNothing string | NoSuchRule string

fun percent_of :: "string \<Rightarrow> Constraint list \<Rightarrow> (percent_error, f64) result" where
  "percent_of rule [] = Err (NoSuchRule rule)"
| "percent_of rule (c # cs) =
     (if co_Rule c \<noteq> rule then percent_of rule cs
      else if co_Unit c \<noteq> PercentOfEquity_unit then Err (StatedIn rule (co_Unit c))
      else (case (case co_Value c of
                    Some (VFloat x) \<Rightarrow> Some x
                  | Some (VInt n) \<Rightarrow> Some (f64_of_int n)
                  | _ \<Rightarrow> None) of
              None \<Rightarrow> Err (NoNumber rule)
            | Some share \<Rightarrow> if share \<le> 0 then Err (AllowsNothing rule) else Ok share))"

definition PercentOfEquity :: "Envelope \<Rightarrow> string \<Rightarrow> (percent_error, f64) result" where
  "PercentOfEquity e rule = percent_of rule (en_Constraints e)"

subsection \<open>The tool the session calls\<close>

definition TrimPrefix :: "string \<Rightarrow> string \<Rightarrow> string" where
  "TrimPrefix s p = (if HasPrefix s p then drop (length p) s else s)"

text \<open>Who the bearer of a request is; a token nobody was given, or none, is nobody.\<close>

definition identityOf :: "string \<Rightarrow> (string \<rightharpoonup> string) \<Rightarrow> string" where
  "identityOf header callers =
     (let token = TrimSpace (TrimPrefix header ''Bearer'') in
      if token = [] then [] else (case callers token of None \<Rightarrow> [] | Some i \<Rightarrow> i))"

datatype read_error = ToolRequired | UnderNoRuleset | NotLoaded load_error | Unrecognised string

definition read_envelope ::
  "(string \<times> Agent) iteration \<Rightarrow> (string \<times> Constraint list) iteration \<Rightarrow>
   (string \<Rightarrow> (string, Ruleset) result) \<Rightarrow> (string, string) result \<Rightarrow> string \<Rightarrow> string \<Rightarrow>
   (read_error, Envelope) result" where
  "read_envelope it it' parse file identity tool =
     (if TrimSpace tool = [] then Err ToolRequired
      else if identity = [] then Err UnderNoRuleset
      else (case Load it it' parse file of
              Err e \<Rightarrow> Err (NotLoaded e)
            | Ok r \<Rightarrow> (case For_caller r identity tool of Err i \<Rightarrow> Err (Unrecognised i) | Ok e \<Rightarrow> Ok e)))"

subsection \<open>What a rule may carry\<close>

definition constraint_ok :: "Constraint \<Rightarrow> bool" where
  "constraint_ok c \<longleftrightarrow> TrimSpace (co_Rule c) \<noteq> [] \<and>
     (co_Disclosure c = Existence \<and> co_Subject c = [] \<and> co_Kind c = [] \<and> co_Value c = None \<and> co_Unit c = [] \<or>
      co_Disclosure c = Boundary \<and> co_Value c \<noteq> None \<and> co_Subject c \<in> set subjects \<and>
        co_Kind c \<in> set kinds \<and> (co_Unit c = [] \<or> co_Unit c \<in> set units) \<and> co_Says c = [])"

lemma known_eq: "known list value \<longleftrightarrow> value \<in> set list"
  by (induction list) auto

lemma check_eq: "check c = Ok () \<longleftrightarrow> constraint_ok c"
  by (auto simp: check_def constraint_ok_def known_eq Boundary_def Existence_def)

lemma check_rules_eq: "check_rules identity tool seen cs = Ok () \<longleftrightarrow>
    list_all constraint_ok cs \<and> distinct (map co_Rule cs) \<and> set (map co_Rule cs) \<inter> set seen = {}"
proof (induction cs arbitrary: seen)
  case (Cons c cs)
  show ?case
  proof (cases "check c")
    case (Inl e)
    then have "\<not> constraint_ok c" using check_eq [of c] by simp
    with Inl show ?thesis by simp
  next
    case (Inr u)
    then have "constraint_ok c" using check_eq [of c] by simp
    with Inr Cons show ?thesis by auto
  qed
qed simp

lemma first_error_eq: "first_error f xs = Ok () \<longleftrightarrow> (\<forall>x \<in> set xs. f x = Ok ())"
  by (induction xs) (auto split: sum.split)

lemma Load_Ok:
  assumes "Load it it' parse file = Ok r" "iterates it" "iterates it'"
  shows "\<exists>raw. file = Ok raw \<and> parse raw = Ok r" "TrimSpace (rs_Version r) \<noteq> []"
    and "(identity, agent) \<in> set (rs_Agents r) \<Longrightarrow> (tool, cs) \<in> set (ag_Tools agent) \<Longrightarrow>
      list_all constraint_ok cs \<and> distinct (map co_Rule cs)"
proof -
  show "\<exists>raw. file = Ok raw \<and> parse raw = Ok r" "TrimSpace (rs_Version r) \<noteq> []"
    using assms(1) by (auto simp: Load_def split: sum.splits if_splits)
  have "first_error (\<lambda>(identity, agent). check_agent it' identity agent) (it (rs_Agents r)) = Ok ()"
    using assms(1) by (auto simp: Load_def split: sum.splits if_splits)
  then have "\<forall>(identity, agent) \<in> set (rs_Agents r). check_agent it' identity agent = Ok ()"
    by (auto simp: first_error_eq iterates_set [OF assms(2)])
  moreover assume "(identity, agent) \<in> set (rs_Agents r)" "(tool, cs) \<in> set (ag_Tools agent)"
  ultimately have "check_rules identity tool [] cs = Ok ()"
    by (fastforce simp: check_agent_def first_error_eq iterates_set [OF assms(3)])
  then show "list_all constraint_ok cs \<and> distinct (map co_Rule cs)" by (simp add: check_rules_eq)
qed

lemma sorted_by_rule:
  assumes "distinct (map co_Rule cs)"
  shows "sorted_wrt (\<lambda>a b. co_Rule a < co_Rule b) (sort_by by_rule cs)"
proof -
  let ?l = "sort_by by_rule cs"
  have e: "by_rule = (\<lambda>a b. co_Rule a < co_Rule b)" by (simp add: by_rule_def fun_eq_iff)
  have "sorted (map co_Rule ?l)" unfolding e by (rule sorted_sort_by_key)
  moreover have "distinct (map co_Rule ?l)"
    using assms by (metis mset_map mset_sort_by mset_eq_imp_distinct_iff)
  ultimately have "sorted_wrt (<) (map co_Rule ?l)" by (simp add: strict_sorted_iff)
  then show ?thesis by (simp add: sorted_wrt_map)
qed

text \<open>C36. An envelope is well typed. Whatever file the operator wrote, an envelope that is answered is the
  answer to a caller the token names, under a version that is not blank; it carries exactly the
  rules declared for that caller on that tool, strictly in the order of their names, and says the
  tool is governed just when it is declared; every rule has a name, one disclosed as existence
  carries nothing else, and one disclosed as boundary carries a value and only words of the agreed
  vocabularies.\<close>

theorem envelope_is_well_typed:
  assumes "read_envelope it it' parse file (identityOf header callers) tool = Ok e"
    and "iterates it" "iterates it'"
  shows "\<exists>raw r agent. file = Ok raw \<and> parse raw = Ok r \<and>
    callers (TrimSpace (TrimPrefix header ''Bearer'')) = Some (en_Identity e) \<and>
    map_of (rs_Agents r) (en_Identity e) = Some agent \<and>
    en_RulesetVersion e = rs_Version r \<and> TrimSpace (en_RulesetVersion e) \<noteq> [] \<and>
    (en_Governed e \<longleftrightarrow> map_of (ag_Tools agent) (bareTool tool) \<noteq> None) \<and>
    mset (en_Constraints e) = mset (case map_of (ag_Tools agent) (bareTool tool) of None \<Rightarrow> [] | Some cs \<Rightarrow> cs) \<and>
    sorted_wrt (\<lambda>a b. co_Rule a < co_Rule b) (en_Constraints e) \<and>
    (\<forall>c \<in> set (en_Constraints e). constraint_ok c)"
proof -
  let ?i = "identityOf header callers"
  obtain r where r: "Load it it' parse file = Ok r" "For_caller r ?i tool = Ok e" and i: "?i \<noteq> []"
    using assms(1) by (auto simp: read_envelope_def split: if_splits sum.splits)
  obtain agent where a: "map_of (rs_Agents r) ?i = Some agent"
    using r(2) by (auto simp: For_caller_def split: option.splits)
  let ?cs = "case map_of (ag_Tools agent) (bareTool tool) of None \<Rightarrow> [] | Some cs \<Rightarrow> cs"
  have e: "e = \<lparr>en_Tool = tool, en_Identity = ?i, en_RulesetVersion = rs_Version r,
      en_Governed = (map_of (ag_Tools agent) (bareTool tool) \<noteq> None), en_Constraints = sort_by by_rule ?cs\<rparr>"
    using r(2) a by (simp add: For_caller_def Let_def)
  note l = Load_Ok [OF r(1) assms(2,3)]
  have cs: "list_all constraint_ok ?cs \<and> distinct (map co_Rule ?cs)"
    using l(3) [OF map_of_SomeD [OF a]] by (auto split: option.split dest: map_of_SomeD)
  have "callers (TrimSpace (TrimPrefix header ''Bearer'')) = Some ?i"
    using i by (auto simp: identityOf_def Let_def split: if_splits option.splits)
  with l(1,2) a cs sorted_by_rule [of ?cs] show ?thesis
    by (auto simp: e list_all_iff)
qed

subsection \<open>Namespaces\<close>

lemma after_last_none: "after_last (CHR ''_'' # t) = None \<Longrightarrow> after_last (n @ ''__'' @ t) = Some t"
proof (induction n)
  case Nil
  then show ?case by (simp add: HasPrefix_def)
next
  case (Cons c n)
  then show ?case by simp
qed

lemma namespace_does_not_matter:
  assumes "after_last (CHR ''_'' # tool) = None"
  shows "map_sum id en_Constraints (For_caller r identity (client @ ''__'' @ tool)) =
    map_sum id en_Constraints (For_caller r identity tool)"
proof -
  have "after_last tool = None" using assms by (cases "after_last tool") auto
  then show ?thesis
    by (simp add: For_caller_def bareTool_def after_last_none [OF assms, simplified] Let_def split: option.split)
qed

subsection \<open>A file, a token and a tool\<close>

definition ev_rules :: "Constraint list" where
  "ev_rules =
     [\<lparr>co_Rule = ''portfolio'', co_Disclosure = ''boundary'', co_Subject = ''portfolio_max_loss'', co_Kind = ''maximum'',
       co_Value = Some (VInt 6), co_Unit = ''percent_of_equity'', co_Says = []\<rparr>,
      \<lparr>co_Rule = ''hidden'', co_Disclosure = ''existence'', co_Subject = [], co_Kind = [],
       co_Value = None, co_Unit = [], co_Says = ''a limit''\<rparr>]"

definition ev_set :: Ruleset where
  "ev_set = \<lparr>rs_Version = ''v1'', rs_Agents = [(''alpha'', \<lparr>ag_Tools = [(''place'', ev_rules)]\<rparr>)]\<rparr>"

definition ev_answer :: Envelope where
  "ev_answer = \<lparr>en_Tool = ''mcp__broker__place'', en_Identity = ''alpha'', en_RulesetVersion = ''v1'',
     en_Governed = True, en_Constraints = rev ev_rules\<rparr>"

definition ev_callers :: "string \<rightharpoonup> string" where
  "ev_callers = [''secret'' \<mapsto> ''alpha'']"

lemma ev_read: "read_envelope id id (\<lambda>raw. Ok ev_set) (Ok ''yaml'') (identityOf ''Bearer secret'' ev_callers)
    ''mcp__broker__place'' = Ok ev_answer"
  by code_simp

theorem envelope_is_well_typed_witness:
  "en_Governed ev_answer \<and> sorted_wrt (\<lambda>a b. co_Rule a < co_Rule b) (en_Constraints ev_answer) \<and>
   list_all constraint_ok (en_Constraints ev_answer)"
proof -
  have "en_Governed ev_answer" by (simp add: ev_answer_def)
  with envelope_is_well_typed [OF ev_read iterates_id(1) iterates_id(1)] show ?thesis by (auto simp: list_all_iff)
qed

end
