(* ===== verification/Screener.thy ===== *)
theory Screener
  imports Market GoTime "HOL-Library.AList"
begin

text \<open>
  The screener (\<open>golang/internal/screener\<close>): the chance that a sold strike survives, pricing one
  vertical, the best of each side an underlying offers, the broker's rate limit, and one sweep over
  the universe. \<open>math.Sqrt\<close>, \<open>math.Log\<close> and \<open>math.Erfc\<close> are arguments. The tally of refusals is a
  count per reason; a structure that is refused is refused for one reason, which pricing it answers.
\<close>

subsection \<open>Survival\<close>

record math_fns =
  m_sqrt :: "f64 \<Rightarrow> f64"
  m_log :: "f64 \<Rightarrow> f64"
  m_erfc :: "f64 \<Rightarrow> f64"

definition closeAt :: duration where
  "closeAt = 20 * hour"

definition Hours :: "duration \<Rightarrow> f64" where
  "Hours d = f64_of_int (go_div d hour) + f64_of_int (go_mod d hour) / lit 3600000000000"

definition Sqrt2 :: f64 where
  "Sqrt2 = lit (141421356237309504880168872420969807856967187537694 / 100000000000000000000000000000000000000000000000000)"

definition Survival :: "math_fns \<Rightarrow> f64 \<Rightarrow> f64 \<Rightarrow> f64 \<Rightarrow> duration \<Rightarrow> f64 option" where
  "Survival m price strike impliedVolatility left =
     (if price \<le> 0 \<or> strike \<le> 0 \<or> impliedVolatility \<le> 0 \<or> left \<le> 0 then None else
      let years = Hours left / lit 24 / lit 365;
          spread = impliedVolatility * m_sqrt m years in
      if spread \<le> 0 then None else
      let distance = \<bar>m_log m (price / strike)\<bar> / spread;
          crossed = lit (1 / 2) * m_erfc m (distance / Sqrt2)
      in Some (1 - crossed))"

definition leftUntil :: "date \<Rightarrow> time \<Rightarrow> duration" where
  "leftUntil expiration now = midnight expiration + closeAt - now"

subsection \<open>Candidates\<close>

record Candidate =
  cd_Underlying :: string
  cd_Type :: string
  cd_Expiration :: date
  cd_Short :: string
  cd_Long :: string
  cd_ShortStrike :: f64
  cd_LongStrike :: f64
  cd_Price :: f64
  cd_OutOfTheMoney :: f64
  cd_Credit :: f64
  cd_Risk :: f64
  cd_CreditToRisk :: f64
  cd_Cost :: f64
  cd_CreditAfterCost :: f64
  cd_Delta :: "f64 option"
  cd_Edge :: "f64 option"
  cd_EdgeFrom :: string
  cd_CostShare :: f64

record Wanted =
  wn_MinOutOfTheMoney :: f64
  wn_MaxOutOfTheMoney :: f64
  wn_MinCreditToRisk :: f64
  wn_MostCreditToRisk :: f64
  wn_MaxCostShare :: f64
  wn_MostDelta :: f64
  wn_LeastWidth :: f64
  wn_LeastEdge :: f64

definition widest :: nat where "widest = 5"

datatype refused_for =
    RefusedNoAnswer | RefusedTooFewContracts | RefusedNoQuote | RefusedNoCredit | RefusedDistance
  | RefusedPaysTooLittle | RefusedPaysTooMuch | RefusedDelta | RefusedCost | RefusedEatenByCost
  | RefusedEdge | RefusedTooNarrow

definition FromDelta :: string where "FromDelta = ''delta''"
definition FromBorrowedVolatility :: string where
  "FromBorrowedVolatility = ''implied volatility, borrowed from another expiration''"

type_synonym Refused = "refused_for \<Rightarrow> int"

definition note_refused :: "refused_for \<Rightarrow> Refused \<Rightarrow> Refused" where
  "note_refused reason r = r(reason := r reason + 1)"

subsection \<open>Pricing one spread\<close>

text \<open>The chance the sold strike survives and what it was read from, when there is anything to read it from.\<close>

definition survives_from ::
  "math_fns \<Rightarrow> f64 \<Rightarrow> Contract \<Rightarrow> Quote \<Rightarrow> time \<Rightarrow> f64 option \<Rightarrow> (f64 \<times> string) option" where
  "survives_from m price short shortQuote now borrowed =
     (case q_Delta shortQuote of
        Some delta \<Rightarrow> Some (1 - \<bar>delta\<bar>, FromDelta)
      | None \<Rightarrow>
          (case borrowed of
             None \<Rightarrow> None
           | Some iv \<Rightarrow> map_option (\<lambda>chance. (chance, FromBorrowedVolatility))
               (Survival m price (c_Strike short) iv (leftUntil (c_Expiration short) now))))"

definition edge_points :: "f64 \<Rightarrow> f64 \<Rightarrow> f64 \<Rightarrow> f64" where
  "edge_points survives net netRisk = round_cents ((survives - netRisk / (net + netRisk)) * lit 100)"

definition priceOneSpread ::
  "math_fns \<Rightarrow> string \<Rightarrow> string \<Rightarrow> f64 \<Rightarrow> Contract \<Rightarrow> Contract \<Rightarrow> (string \<rightharpoonup> Quote) \<Rightarrow> time \<Rightarrow>
   f64 option \<Rightarrow> Wanted \<Rightarrow> (refused_for, Candidate) result" where
  "priceOneSpread m underlying kind price short long quotes now borrowed want =
     (case (quotes (c_Symbol short), quotes (c_Symbol long)) of
        (Some shortQuote, Some longQuote) \<Rightarrow>
          if q_Bid shortQuote \<le> 0 \<or> q_Ask shortQuote \<le> 0 \<or> q_Bid longQuote \<le> 0 \<or> q_Ask longQuote \<le> 0
          then Err RefusedNoQuote else
          let width = \<bar>c_Strike short - c_Strike long\<bar> in
          if width \<le> 0 then Err RefusedNoCredit else
          if 0 < wn_LeastWidth want \<and> width < wn_LeastWidth want then Err RefusedTooNarrow else
          let credit = (q_Bid shortQuote + q_Ask shortQuote) / lit 2 - (q_Bid longQuote + q_Ask longQuote) / lit 2;
              risk = width - credit in
          if credit \<le> 0 \<or> risk \<le> 0 then Err RefusedNoCredit else
          let out = (if kind = ''call'' then (c_Strike short - price) / price * lit 100
                     else (price - c_Strike short) / price * lit 100) in
          if out < wn_MinOutOfTheMoney want \<or> out > wn_MaxOutOfTheMoney want then Err RefusedDistance else
          let toRisk = credit / risk * lit 100 in
          if toRisk < wn_MinCreditToRisk want then Err RefusedPaysTooLittle else
          if 0 < wn_MostCreditToRisk want \<and> toRisk > wn_MostCreditToRisk want then Err RefusedPaysTooMuch else
          if 0 < wn_MostDelta want \<and> (\<exists>d. q_Delta shortQuote = Some d \<and> \<bar>d\<bar> > wn_MostDelta want)
          then Err RefusedDelta else
          let cost = (q_Ask shortQuote - q_Bid shortQuote) + (q_Ask longQuote - q_Bid longQuote);
              share = cost / credit * lit 100 in
          if share > wn_MaxCostShare want then Err RefusedCost else
          let net = credit - cost / lit 2; netRisk = width - net in
          if net \<le> 0 \<or> netRisk \<le> 0 then Err RefusedEatenByCost else
          let chance = survives_from m price short shortQuote now borrowed;
              edge = map_option (\<lambda>(survives, from'). edge_points survives net netRisk) chance in
          if wn_LeastEdge want \<noteq> 0 \<and> (\<exists>points. edge = Some points \<and> points < wn_LeastEdge want)
          then Err RefusedEdge
          else Ok \<lparr>cd_Underlying = underlying, cd_Type = kind, cd_Expiration = c_Expiration short,
                 cd_Short = c_Symbol short, cd_Long = c_Symbol long, cd_ShortStrike = c_Strike short,
                 cd_LongStrike = c_Strike long, cd_Price = price, cd_OutOfTheMoney = round_cents out,
                 cd_Credit = round_cents credit, cd_Risk = round_cents risk, cd_CreditToRisk = round_cents toRisk,
                 cd_Cost = round_cents cost, cd_CreditAfterCost = round_cents net, cd_Delta = q_Delta shortQuote,
                 cd_Edge = edge, cd_EdgeFrom = (case chance of None \<Rightarrow> [] | Some (s, from') \<Rightarrow> from'),
                 cd_CostShare = round_cents share\<rparr>
      | _ \<Rightarrow> Err RefusedNoQuote)"

definition richer :: "Candidate \<Rightarrow> Candidate \<Rightarrow> bool" where
  "richer one than =
     (case (cd_Edge one, cd_Edge than) of
        (Some a, Some b) \<Rightarrow> a > b
      | (Some a, None) \<Rightarrow> True
      | (None, Some b) \<Rightarrow> False
      | (None, None) \<Rightarrow> cd_CreditToRisk one > cd_CreditToRisk than)"

subsection \<open>The best of each side\<close>

text \<open>The volatility of the soonest expiration still alive that carries one; the first of equals is kept.\<close>

definition nearest_step :: "(string \<rightharpoonup> Quote) \<Rightarrow> time \<Rightarrow> (date \<times> f64) option \<Rightarrow> Contract \<Rightarrow> (date \<times> f64) option" where
  "nearest_step quotes now found contract =
     (case quotes (c_Symbol contract) of
        None \<Rightarrow> found
      | Some quote \<Rightarrow>
          (case q_ImpliedVolatility quote of
             None \<Rightarrow> found
           | Some iv \<Rightarrow>
               if iv \<le> 0 then found
               else if leftUntil (c_Expiration contract) now \<le> 0 then found
               else (case found of
                       None \<Rightarrow> Some (c_Expiration contract, iv)
                     | Some (soonest, v) \<Rightarrow>
                         if midnight (c_Expiration contract) < midnight soonest
                         then Some (c_Expiration contract, iv) else found)))"

definition nearestVolatility :: "Contract list \<Rightarrow> (string \<rightharpoonup> Quote) \<Rightarrow> time \<Rightarrow> f64 option" where
  "nearestVolatility contracts quotes now =
     map_option snd (foldl (nearest_step quotes now) None contracts)"

text \<open>Each strike against up to five behind it, in the order of the two loops.\<close>

definition strike_pairs :: "nat \<Rightarrow> (nat \<times> nat) list" where
  "strike_pairs n = concat (map (\<lambda>i. map (\<lambda>b. (i, i - b)) [1..<Suc (min widest i)]) [1..<n])"

definition pair_of :: "string \<Rightarrow> Contract list \<Rightarrow> nat \<times> nat \<Rightarrow> Contract \<times> Contract" where
  "pair_of kind list ij = (case ij of (i, j) \<Rightarrow>
     if kind = ''call'' then (list ! j, list ! i) else (list ! i, list ! j))"

type_synonym slot = "string \<times> bool"

definition slot_of :: "Candidate \<Rightarrow> slot" where
  "slot_of c = (cd_Type c, cd_Edge c \<noteq> None)"

text \<open>A priced spread takes its slot if it is the first there or richer than what is; a refusal is counted.\<close>

definition keep ::
  "(refused_for, Candidate) result \<Rightarrow> (slot \<times> Candidate) list \<times> Refused \<Rightarrow> (slot \<times> Candidate) list \<times> Refused" where
  "keep answer br = (case br of (best, refused) \<Rightarrow>
     (case answer of
        Err reason \<Rightarrow> (best, note_refused reason refused)
      | Ok c \<Rightarrow>
          (case map_of best (slot_of c) of
             None \<Rightarrow> (AList.update (slot_of c) c best, refused)
           | Some kept \<Rightarrow> (if richer c kept then AList.update (slot_of c) c best else best, refused))))"

definition series_contracts :: "Contract list \<Rightarrow> string \<times> date \<Rightarrow> Contract list" where
  "series_contracts contracts k =
     sort_by (\<lambda>a b. c_Strike a < c_Strike b) (grouped (\<lambda>c. (c_Type c, c_Expiration c)) contracts k)"

text \<open>Every answer of pricing, in the order the loops meet them.\<close>

definition priced_in ::
  "math_fns \<Rightarrow> string \<Rightarrow> f64 \<Rightarrow> Contract list \<Rightarrow> (string \<rightharpoonup> Quote) \<Rightarrow> time \<Rightarrow> Wanted \<Rightarrow> string \<times> date \<Rightarrow>
   (refused_for, Candidate) result list" where
  "priced_in m underlying price contracts quotes now want k =
     (let list = series_contracts contracts k; borrowed = nearestVolatility contracts quotes now in
      map (\<lambda>ij. case pair_of (fst k) list ij of (short, long) \<Rightarrow>
             priceOneSpread m underlying (fst k) price short long quotes now borrowed want)
        (strike_pairs (length list)))"

definition Best ::
  "(string \<times> date) iteration \<Rightarrow> (slot \<times> Candidate) iteration \<Rightarrow> math_fns \<Rightarrow> string \<Rightarrow> f64 \<Rightarrow>
   Contract list \<Rightarrow> (string \<rightharpoonup> Quote) \<Rightarrow> time \<Rightarrow> Wanted \<Rightarrow> Refused \<Rightarrow> Candidate list \<times> Refused" where
  "Best it it' m underlying price contracts quotes now want refused =
     (if price \<le> 0 then ([], refused) else
      let answers = concat (map (priced_in m underlying price contracts quotes now want)
            (it (keys_of (\<lambda>c. (c_Type c, c_Expiration c)) contracts)));
          (best, refused) = foldl (\<lambda>br a. keep a br) ([], refused) answers
      in (sort_by richer (map snd (it' best)), refused))"

end
