(* ===== verification/ScreenerLaws.thy ===== *)
theory ScreenerLaws
  imports Screener
begin

text \<open>
  What the screener offers: every candidate clears every bound it was given, none is poorer than
  another the same side could offer, and what was not offered is counted under the reason.
\<close>

subsection \<open>Pricing\<close>

text \<open>The credit at the midpoints of both legs, and what crossing both costs.\<close>

definition mid_credit :: "Quote \<Rightarrow> Quote \<Rightarrow> f64" where
  "mid_credit s l = (q_Bid s + q_Ask s) / lit 2 - (q_Bid l + q_Ask l) / lit 2"

definition crossing :: "Quote \<Rightarrow> Quote \<Rightarrow> f64" where
  "crossing s l = (q_Ask s - q_Bid s) + (q_Ask l - q_Bid l)"

definition out_of_the_money :: "string \<Rightarrow> f64 \<Rightarrow> f64 \<Rightarrow> f64" where
  "out_of_the_money kind price strike = (if kind = ''call'' then (strike - price) / price * lit 100
     else (price - strike) / price * lit 100)"

text \<open>Everything a spread has to clear, as the bounds state it.\<close>

definition clears :: "Wanted \<Rightarrow> string \<Rightarrow> f64 \<Rightarrow> Contract \<Rightarrow> Contract \<Rightarrow> Quote \<Rightarrow> Quote \<Rightarrow> f64 option \<Rightarrow> bool" where
  "clears want kind price short long s l edge \<longleftrightarrow>
     (let width = \<bar>c_Strike short - c_Strike long\<bar>; credit = mid_credit s l; risk = width - credit;
          net = credit - crossing s l / lit 2; out = out_of_the_money kind price (c_Strike short) in
      0 < q_Bid s \<and> 0 < q_Ask s \<and> 0 < q_Bid l \<and> 0 < q_Ask l \<and>
      0 < width \<and> wn_LeastWidth want \<le> width \<and> 0 < credit \<and> credit < width \<and>
      wn_MinOutOfTheMoney want \<le> out \<and> out \<le> wn_MaxOutOfTheMoney want \<and>
      wn_MinCreditToRisk want \<le> credit / risk * lit 100 \<and>
      (0 < wn_MostCreditToRisk want \<longrightarrow> credit / risk * lit 100 \<le> wn_MostCreditToRisk want) \<and>
      (0 < wn_MostDelta want \<longrightarrow> (\<forall>d. q_Delta s = Some d \<longrightarrow> \<bar>d\<bar> \<le> wn_MostDelta want)) \<and>
      crossing s l / credit * lit 100 \<le> wn_MaxCostShare want \<and> 0 < net \<and> net < width \<and>
      (wn_LeastEdge want \<noteq> 0 \<longrightarrow> (\<forall>points. edge = Some points \<longrightarrow> wn_LeastEdge want \<le> points)))"

lemma priceOneSpread_Ok:
  assumes "priceOneSpread m underlying kind price short long quotes now borrowed want = Ok c"
  shows "\<exists>s l. quotes (c_Symbol short) = Some s \<and> quotes (c_Symbol long) = Some l \<and>
      clears want kind price short long s l (cd_Edge c)"
    and "cd_Type c = kind" "cd_Short c = c_Symbol short" "cd_Long c = c_Symbol long"
      "cd_Expiration c = c_Expiration short" "cd_Underlying c = underlying"
proof -
  obtain s l where q: "quotes (c_Symbol short) = Some s" "quotes (c_Symbol long) = Some l"
    using assms by (auto simp: priceOneSpread_def split: option.splits)
  have "clears want kind price short long s l (cd_Edge c) \<and> cd_Type c = kind \<and> cd_Short c = c_Symbol short \<and>
      cd_Long c = c_Symbol long \<and> cd_Expiration c = c_Expiration short \<and> cd_Underlying c = underlying"
    using assms
    by (auto simp: priceOneSpread_def q clears_def Let_def mid_credit_def crossing_def out_of_the_money_def
        not_le not_less split: if_splits)
  with q show "\<exists>s l. quotes (c_Symbol short) = Some s \<and> quotes (c_Symbol long) = Some l \<and>
      clears want kind price short long s l (cd_Edge c)"
    "cd_Type c = kind" "cd_Short c = c_Symbol short" "cd_Long c = c_Symbol long"
    "cd_Expiration c = c_Expiration short" "cd_Underlying c = underlying" by auto
qed

subsection \<open>The pairs that are priced\<close>

lemma strike_pairs_bounds: "(i, j) \<in> set (strike_pairs n) \<Longrightarrow> j < i \<and> i < n"
  by (auto simp: strike_pairs_def)

lemma in_series: "x \<in> set (series_contracts contracts k) \<Longrightarrow>
    x \<in> set contracts \<and> c_Type x = fst k \<and> c_Expiration x = snd k"
  by (cases k) (auto simp: series_contracts_def set_grouped)

lemma priced_in_Ok:
  assumes "Ok c \<in> set (priced_in m underlying price contracts quotes now want k)"
  shows "\<exists>short long s l. {short, long} \<subseteq> set contracts \<and> cd_Short c = c_Symbol short \<and>
    cd_Long c = c_Symbol long \<and> c_Type short = cd_Type c \<and> c_Type long = cd_Type c \<and>
    c_Expiration short = cd_Expiration c \<and> c_Expiration long = cd_Expiration c \<and>
    (if cd_Type c = ''call'' then c_Strike short < c_Strike long else c_Strike long < c_Strike short) \<and>
    quotes (c_Symbol short) = Some s \<and> quotes (c_Symbol long) = Some l \<and>
    clears want (cd_Type c) price short long s l (cd_Edge c)"
proof -
  let ?list = "series_contracts contracts k"
  obtain i j where ij: "(i, j) \<in> set (strike_pairs (length ?list))"
    and p: "(case pair_of (fst k) ?list (i, j) of (short, long) \<Rightarrow> priceOneSpread m underlying (fst k) price short long
      quotes now (nearestVolatility contracts quotes now) want) = Ok c"
    using assms by (auto simp: priced_in_def Let_def)
  obtain short long where sl: "pair_of (fst k) ?list (i, j) = (short, long)" by (metis prod.exhaust)
  note b = strike_pairs_bounds [OF ij]
  have both: "{short, long} = {?list ! i, ?list ! j}"
    using sl by (auto simp: pair_of_def split: if_splits)
  have sorted: "sorted (map c_Strike ?list)" unfolding series_contracts_def by (rule sorted_sort_by_key)
  have "c_Strike (?list ! j) \<le> c_Strike (?list ! i)"
    using sorted_nth_mono [OF sorted, of j i] b by simp
  moreover have "?list ! i \<in> set ?list" "?list ! j \<in> set ?list" using b by auto
  then have "?list ! i \<in> set contracts \<and> c_Type (?list ! i) = fst k \<and> c_Expiration (?list ! i) = snd k"
    "?list ! j \<in> set contracts \<and> c_Type (?list ! j) = fst k \<and> c_Expiration (?list ! j) = snd k"
    using in_series by blast+
  moreover note ok = priceOneSpread_Ok [OF p [unfolded sl prod.case]]
  obtain s l where q: "quotes (c_Symbol short) = Some s" "quotes (c_Symbol long) = Some l"
    "clears want (fst k) price short long s l (cd_Edge c)" using ok(1) by blast
  then have "c_Strike short \<noteq> c_Strike long" by (auto simp: clears_def Let_def f64_abs_of_nonneg)
  ultimately show ?thesis
    using q ok(2-) sl
    by (intro exI [of _ short] exI [of _ long] exI [of _ s] exI [of _ l])
      (auto simp: pair_of_def split: if_splits)
qed

subsection \<open>Keeping the best\<close>

lemma richer_asym: "richer a b \<Longrightarrow> \<not> richer b a"
  by (auto simp: richer_def split: option.splits)

lemma richer_negtrans: "\<not> richer b a \<Longrightarrow> \<not> richer c b \<Longrightarrow> \<not> richer c a"
  by (auto simp: richer_def split: option.splits)

text \<open>What the map of slots holds after some answers.\<close>

definition best_of :: "(refused_for, Candidate) result list \<Rightarrow> (slot \<times> Candidate) list \<Rightarrow> bool" where
  "best_of answers best \<longleftrightarrow> distinct (map fst best) \<and>
     (\<forall>e \<in> set best. slot_of (snd e) = fst e \<and> Ok (snd e) \<in> set answers) \<and>
     (\<forall>c. Ok c \<in> set answers \<longrightarrow> (\<exists>b. map_of best (slot_of c) = Some b \<and> \<not> richer c b))"

definition refusals :: "refused_for \<Rightarrow> (refused_for, Candidate) result list \<Rightarrow> int" where
  "refusals reason answers = int (length (filter (\<lambda>a. a = Err reason) answers))"

lemma in_update: "e \<in> set (AList.update k v al) \<Longrightarrow> e = (k, v) \<or> e \<in> set al"
  by (induction al) (auto split: if_splits)

lemma keep_best_of:
  assumes "best_of answers best" "keep a (best, refused) = (best', refused')"
  shows "best_of (answers @ [a]) best'" "refused' reason = refused reason + refusals reason [a]"
proof -
  show "refused' reason = refused reason + refusals reason [a]"
    using assms(2)
    by (auto simp: keep_def refusals_def note_refused_def split: sum.splits option.splits if_splits)
  show "best_of (answers @ [a]) best'"
  proof (cases a)
    case (Inl r)
    with assms show ?thesis by (auto simp: keep_def best_of_def)
  next
    case (Inr c)
    show ?thesis
    proof (cases "(\<exists>b. map_of best (slot_of c) = Some b \<and> \<not> richer c b)")
      case True
      with assms(2) Inr have "best' = best" by (auto simp: keep_def)
      with True assms(1) Inr show ?thesis by (auto simp: best_of_def)
    next
      case False
      with assms(2) Inr have b': "best' = AList.update (slot_of c) c best"
        by (auto simp: keep_def split: option.splits if_splits)
      have beaten: "richer c b" if "map_of best (slot_of c) = Some b" for b using False that by blast
      have "\<exists>b. map_of best' (slot_of d) = Some b \<and> \<not> richer d b" if d: "Ok d \<in> set (answers @ [a])" for d
      proof (cases "slot_of d = slot_of c")
        case True
        have "\<not> richer d c"
        proof (cases "d = c")
          case True
          then show ?thesis using richer_asym by blast
        next
          case False
          with d Inr have "Ok d \<in> set answers" by auto
          then obtain b where "map_of best (slot_of c) = Some b" "\<not> richer d b"
            using assms(1) True unfolding best_of_def by metis
          then show ?thesis using beaten richer_asym richer_negtrans by blast
        qed
        with True show ?thesis by (simp add: b' update_conv)
      next
        case False
        with d Inr have "Ok d \<in> set answers" by auto
        then show ?thesis using assms(1) False by (auto simp: b' update_conv best_of_def)
      qed
      moreover have "slot_of (snd e) = fst e \<and> Ok (snd e) \<in> set (answers @ [a])" if "e \<in> set best'" for e
        using in_update [OF that [unfolded b']] assms(1) Inr by (auto simp: best_of_def)
      ultimately show ?thesis
        using assms(1) unfolding best_of_def b' by (simp add: distinct_update)
    qed
  qed
qed

lemma foldl_keep:
  assumes "best_of before best" "foldl (\<lambda>br a. keep a br) (best, refused) answers = (best', refused')"
  shows "best_of (before @ answers) best' \<and> refused' reason = refused reason + refusals reason answers"
  using assms
proof (induction answers arbitrary: before best refused)
  case Nil
  then show ?case by (simp add: refusals_def)
next
  case (Cons a answers)
  obtain best1 refused1 where k: "keep a (best, refused) = (best1, refused1)" by (metis prod.exhaust)
  note step = keep_best_of [OF Cons.prems(1) k]
  from Cons.IH [OF step(1)] Cons.prems(2) k
  have "best_of ((before @ [a]) @ answers) best' \<and> refused' reason = refused1 reason + refusals reason answers" by simp
  with step(2) [of reason] show ?case by (simp add: refusals_def)
qed

text \<open>Every answer of pricing over the whole chain, the series in the order of their first contract.\<close>

definition all_priced ::
  "math_fns \<Rightarrow> string \<Rightarrow> f64 \<Rightarrow> Contract list \<Rightarrow> (string \<rightharpoonup> Quote) \<Rightarrow> time \<Rightarrow> Wanted \<Rightarrow>
   (refused_for, Candidate) result list" where
  "all_priced m underlying price contracts quotes now want =
     concat (map (priced_in m underlying price contracts quotes now want)
       (keys_of (\<lambda>c. (c_Type c, c_Expiration c)) contracts))"

lemma mset_concat_map: "mset xs = mset ys \<Longrightarrow> mset (concat (map f xs)) = mset (concat (map f ys))"
proof -
  have "mset (concat (map f zs)) = sum_mset (image_mset (mset \<circ> f) (mset zs))" for zs
    by (induction zs) auto
  then show "mset xs = mset ys \<Longrightarrow> mset (concat (map f xs)) = mset (concat (map f ys))" by simp
qed

lemma Best_eq:
  assumes "iterates it" "iterates it'" "0 < price"
  shows "\<exists>best. fst (Best it it' m underlying price contracts quotes now want refused) = sort_by richer (map snd (it' best)) \<and>
    best_of (all_priced m underlying price contracts quotes now want) best \<and>
    snd (Best it it' m underlying price contracts quotes now want refused) reason =
      refused reason + refusals reason (all_priced m underlying price contracts quotes now want)"
proof -
  let ?f = "priced_in m underlying price contracts quotes now want"
  let ?ks = "keys_of (\<lambda>c. (c_Type c, c_Expiration c)) contracts"
  define answers where "answers = concat (map ?f (it ?ks))"
  have same: "mset answers = mset (all_priced m underlying price contracts quotes now want)"
    unfolding answers_def all_priced_def using assms(1) by (intro mset_concat_map) (simp add: iterates_def)
  obtain best refused' where f: "foldl (\<lambda>br a. keep a br) ([], refused) answers = (best, refused')"
    by (metis prod.exhaust)
  have "best_of [] []" by (simp add: best_of_def)
  from foldl_keep [OF this f] have k: "best_of answers best" "refused' reason = refused reason + refusals reason answers"
    by simp_all
  have "best_of (all_priced m underlying price contracts quotes now want) best"
    using k(1) unfolding best_of_def mset_eq_setD [OF same] .
  moreover have "refusals reason answers = refusals reason (all_priced m underlying price contracts quotes now want)"
    using same by (metis refusals_def mset_filter size_mset)
  moreover have "Best it it' m underlying price contracts quotes now want refused = (sort_by richer (map snd (it' best)), refused')"
  proof -
    have "\<not> price \<le> 0" using assms(3) by (simp only: not_le)
    then show ?thesis using f by (simp add: Best_def answers_def)
  qed
  ultimately show ?thesis using k(2) by auto
qed

text \<open>The screener offers the best of each side and of nothing less. Among everything it prices on the
  chain of one underlying, one candidate is offered for each side that has one with an edge to
  measure and for each that has one without, and none the same side prices is richer; they come
  richest first; and every structure it priced and did not accept is counted under its reason.\<close>

theorem the_best_of_each_side:
  assumes "iterates it" "iterates it'" "0 < price"
    and "Best it it' m underlying price contracts quotes now want refused = (found, refused')"
  shows "(\<forall>c \<in> set found. Ok c \<in> set (all_priced m underlying price contracts quotes now want)) \<and>
    (\<forall>c. Ok c \<in> set (all_priced m underlying price contracts quotes now want) \<longrightarrow>
       (\<exists>b \<in> set found. slot_of b = slot_of c \<and> \<not> richer c b)) \<and>
    distinct (map slot_of found) \<and> sorted_wrt (\<lambda>a b. \<not> richer b a) found \<and>
    refused' reason = refused reason + refusals reason (all_priced m underlying price contracts quotes now want)"
proof -
  let ?all = "all_priced m underlying price contracts quotes now want"
  obtain best where b: "found = sort_by richer (map snd (it' best))" "best_of ?all best"
    "refused' reason = refused reason + refusals reason ?all"
    using Best_eq [OF assms(1-3), of m underlying contracts quotes now want refused reason] assms(4) by auto
  have set_found: "set found = snd ` set best" by (simp add: b(1) iterates_set [OF assms(2)])
  have entry: "slot_of v = k \<and> Ok v \<in> set ?all" if "(k, v) \<in> set best" for k v
    using that b(2) unfolding best_of_def by force
  have "mset (map slot_of found) = mset (map slot_of (map snd best))"
    using assms(2) by (simp add: b(1) iterates_def multiset.map_comp)
  also have "map slot_of (map snd best) = map fst best" using entry by (auto simp: map_eq_conv)
  finally have "distinct (map slot_of found)"
    using b(2) unfolding best_of_def by (metis mset_eq_imp_distinct_iff)
  moreover have "\<exists>x \<in> set found. slot_of x = slot_of c \<and> \<not> richer c x" if ok: "Ok c \<in> set ?all" for c
  proof -
    obtain x where "map_of best (slot_of c) = Some x" "\<not> richer c x" using ok b(2) unfolding best_of_def by blast
    then show ?thesis using entry [of "slot_of c" x] map_of_SomeD [of best "slot_of c" x] set_found by force
  qed
  moreover have "sorted_wrt (\<lambda>a b. \<not> richer b a) found"
    unfolding b(1) by (rule sorted_sort_by) (auto intro: richer_asym dest: richer_asym richer_negtrans)
  ultimately show ?thesis using entry b(3) set_found by auto
qed

text \<open>C26. Every candidate offered is a vertical that clears every bound: two contracts of the chain, of one
  type and one expiration, both quoted on both sides, the one sold nearer the money; wide enough to
  measure; paying a credit between nothing and its width, before and after the crossing is charged;
  and inside the bounds on distance, on what it pays, on delta, on cost and on edge. The least edge is
  asked of every edge that was measured, from the broker's delta or from borrowed volatility alike, as
  the code asks it; the comment on the bound speaks of the broker's delta only.\<close>

theorem offered_spreads_clear_every_bound:
  assumes "iterates it" "iterates it'"
    and "c \<in> set (fst (Best it it' m underlying price contracts quotes now want refused))"
  shows "\<exists>short long s l. {short, long} \<subseteq> set contracts \<and> cd_Short c = c_Symbol short \<and>
    cd_Long c = c_Symbol long \<and> c_Type short = cd_Type c \<and> c_Type long = cd_Type c \<and>
    c_Expiration short = cd_Expiration c \<and> c_Expiration long = cd_Expiration c \<and>
    (if cd_Type c = ''call'' then c_Strike short < c_Strike long else c_Strike long < c_Strike short) \<and>
    quotes (c_Symbol short) = Some s \<and> quotes (c_Symbol long) = Some l \<and>
    clears want (cd_Type c) price short long s l (cd_Edge c)"
proof -
  have price: "0 < price" using assms(3) by (auto simp: Best_def not_le split: if_splits)
  obtain best where b: "c \<in> set (sort_by richer (map snd (it' best)))"
    "best_of (all_priced m underlying price contracts quotes now want) best"
    using Best_eq [OF assms(1,2) price, of m underlying contracts quotes now want refused] assms(3) by metis
  then obtain k where "(k, c) \<in> set best" by (auto simp: iterates_set [OF assms(2)])
  then have "Ok c \<in> set (all_priced m underlying price contracts quotes now want)"
    using b(2) unfolding best_of_def by force
  then obtain k where "Ok c \<in> set (priced_in m underlying price contracts quotes now want k)"
    by (auto simp: all_priced_def)
  then show ?thesis by (rule priced_in_Ok)
qed

subsection \<open>Survival\<close>

text \<open>
  The side of the strike is dropped, so the chance answered is never below a half, for a strike
  already crossed as for one still ahead; only the distance counts. \<open>erfc\<close> lies between nothing and
  one from zero on.
\<close>

lemma Survival_at_least_half:
  assumes "Survival m price strike iv left = Some chance" and "\<And>x. 0 \<le> x \<Longrightarrow> 0 \<le> m_erfc m x \<and> m_erfc m x \<le> 1"
  shows "lit (1 / 2) \<le> chance \<and> chance \<le> 1"
proof -
  obtain spread where s: "0 < spread"
    "chance = 1 - lit (1 / 2) * m_erfc m (\<bar>m_log m (price / strike)\<bar> / spread / Sqrt2)"
    using assms(1) by (auto simp: Survival_def Let_def not_le split: if_splits)
  let ?x = "\<bar>m_log m (price / strike)\<bar> / spread / Sqrt2"
  have "0 \<le> ?x" using s(1) by (intro f64_divide_nonneg) (auto simp: Sqrt2_def)
  then have e: "0 \<le> m_erfc m ?x" "m_erfc m ?x \<le> 1" using assms(2) by auto
  have half: "0 \<le> lit (1 / 2)" "(1 :: f64) - lit (1 / 2) = lit (1 / 2)" by (simp, simp add: f64_eval)
  have "lit (1 / 2) * m_erfc m ?x \<le> lit (1 / 2)"
    using f64_mult_mono [OF e(2) half(1)] by (simp add: f64_mult_commute)
  then have "1 - lit (1 / 2) \<le> 1 - lit (1 / 2) * m_erfc m ?x" by (intro f64_diff_mono) simp_all
  moreover have "1 - lit (1 / 2) * m_erfc m ?x \<le> 1 - 0" using e half by (intro f64_diff_mono) (simp_all add: f64_mult_nonneg)
  ultimately show ?thesis using s(2) half(2) by simp
qed

end
