(* ===== verification/ScreenerExample.thy ===== *)
theory ScreenerExample
  imports ScreenerLaws
begin

text \<open>
  Two puts a dollar apart under a price of 128. The one structure they make is priced, clears every
  bound and is offered; the properties of the screener hold there with every hypothesis discharged.
\<close>

definition sc_put :: "string \<Rightarrow> f64 \<Rightarrow> Contract" where
  "sc_put s k = \<lparr>c_Symbol = s, c_Expiration = \<lparr>d_year = 2026, d_month = 9, d_day = 2\<rparr>, c_Strike = k, c_Type = ''put''\<rparr>"

definition sc_quote :: "f64 \<Rightarrow> f64 \<Rightarrow> Quote" where
  "sc_quote b a = \<lparr>q_Symbol = [], q_Bid = b, q_Ask = a, q_BidSize = 1, q_AskSize = 1,
     q_ImpliedVolatility = None, q_Delta = Some (lit (1 / 4))\<rparr>"

definition sc_chain :: "Contract list" where
  "sc_chain = [sc_put ''A'' (lit 124), sc_put ''B'' (lit 123)]"

definition sc_quotes :: "string \<rightharpoonup> Quote" where
  "sc_quotes = [''A'' \<mapsto> sc_quote (lit (31 / 32)) (lit (33 / 32)), ''B'' \<mapsto> sc_quote (lit (15 / 32)) (lit (17 / 32))]"

definition sc_math :: math_fns where
  "sc_math = \<lparr>m_sqrt = id, m_log = id, m_erfc = id\<rparr>"

definition sc_want :: Wanted where
  "sc_want = \<lparr>wn_MinOutOfTheMoney = 1, wn_MaxOutOfTheMoney = lit 10, wn_MinCreditToRisk = lit 10,
     wn_MostCreditToRisk = 0, wn_MaxCostShare = lit 50, wn_MostDelta = lit (1 / 2),
     wn_LeastWidth = lit (1 / 2), wn_LeastEdge = lit (- 10)\<rparr>"

definition sc_found :: Candidate where
  "sc_found = \<lparr>cd_Underlying = ''XYZ'', cd_Type = ''put'', cd_Expiration = \<lparr>d_year = 2026, d_month = 9, d_day = 2\<rparr>,
     cd_Short = ''A'', cd_Long = ''B'', cd_ShortStrike = lit 124, cd_LongStrike = lit 123, cd_Price = lit 128,
     cd_OutOfTheMoney = round_cents (lit (25 / 8)), cd_Credit = round_cents (lit (1 / 2)), cd_Risk = round_cents (lit (1 / 2)),
     cd_CreditToRisk = round_cents (lit 100), cd_Cost = round_cents (lit (1 / 8)),
     cd_CreditAfterCost = round_cents (lit (7 / 16)), cd_Delta = Some (lit (1 / 4)),
     cd_Edge = Some (round_cents (lit (75 / 4))), cd_EdgeFrom = FromDelta, cd_CostShare = round_cents (lit 25)\<rparr>"

definition sc_now :: time where
  "sc_now = 0"

lemma sc_arith:
  "(lit (31 / 32) + lit (33 / 32)) / lit 2 - (lit (15 / 32) + lit (17 / 32)) / lit 2 = lit (1 / 2)"
  "\<bar>lit 124 - lit 123\<bar> = (1 :: f64)" "(1 :: f64) - lit (1 / 2) = lit (1 / 2)"
  "(lit 128 - lit 124) / lit 128 * lit 100 = lit (25 / 8)" "lit (1 / 2) / lit (1 / 2) * lit 100 = lit 100"
  "(lit (33 / 32) - lit (31 / 32)) + (lit (17 / 32) - lit (15 / 32)) = lit (1 / 8)"
  "lit (1 / 8) / lit (1 / 2) * lit 100 = lit 25" "lit (1 / 2) - lit (1 / 8) / lit 2 = lit (7 / 16)"
  "1 - lit (7 / 16) = lit (9 / 16)" "\<bar>lit (1 / 4)\<bar> = lit (1 / 4)" "1 - lit (1 / 4) = lit (3 / 4)"
  "edge_points (lit (3 / 4)) (lit (7 / 16)) (lit (9 / 16)) = round_cents (lit (75 / 4))"
  by (simp_all add: f64_eval edge_points_def)

lemma sc_bounds:
  "\<not> lit (31 / 32) \<le> 0" "\<not> lit (33 / 32) \<le> 0" "\<not> lit (15 / 32) \<le> 0" "\<not> lit (17 / 32) \<le> 0" "\<not> (1 :: f64) \<le> 0"
  "\<not> 1 < lit (1 / 2)" "\<not> lit (1 / 2) \<le> 0" "\<not> lit (25 / 8) < 1" "\<not> lit 10 < lit (25 / 8)" "\<not> lit 100 < lit 10"
  "\<not> lit (1 / 2) < lit (1 / 4)" "\<not> lit 50 < lit 25" "\<not> lit (7 / 16) \<le> 0" "\<not> lit (9 / 16) \<le> 0"
  "\<not> round_cents (lit (75 / 4)) < lit (- 10)" "lit 123 < lit 124" "\<not> lit 124 < lit 123" "\<not> lit 128 \<le> 0" "(0 :: f64) < lit 128"
  "\<not> 1 \<le> lit (7 / 16)" "\<not> 1 \<le> lit (1 / 2)"
  by (simp_all add: f64_eval)

lemma sc_series: "keys_of (\<lambda>c. (c_Type c, c_Expiration c)) sc_chain = [(''put'', \<lparr>d_year = 2026, d_month = 9, d_day = 2\<rparr>)]"
  "series_contracts sc_chain (''put'', \<lparr>d_year = 2026, d_month = 9, d_day = 2\<rparr>) = [sc_put ''B'' (lit 123), sc_put ''A'' (lit 124)]"
  by (simp_all add: sc_chain_def sc_put_def keys_of_def series_contracts_def grouped_def sc_bounds)

lemma sc_price: "priceOneSpread sc_math ''XYZ'' ''put'' (lit 128) (sc_put ''A'' (lit 124)) (sc_put ''B'' (lit 123))
    sc_quotes sc_now borrowed sc_want = Ok sc_found"
proof -
  have q: "sc_quotes ''A'' = Some (sc_quote (lit (31 / 32)) (lit (33 / 32)))"
    "sc_quotes ''B'' = Some (sc_quote (lit (15 / 32)) (lit (17 / 32)))" by (simp_all add: sc_quotes_def)
  have f: "q_Bid (sc_quote b a) = b" "q_Ask (sc_quote b a) = a" "q_Delta (sc_quote b a) = Some (lit (1 / 4))"
    "c_Symbol (sc_put s k) = s" "c_Strike (sc_put s k) = k" for b a s k
    by (simp_all add: sc_quote_def sc_put_def)
  have want: "wn_LeastWidth sc_want = lit (1 / 2)" "wn_MinOutOfTheMoney sc_want = 1" "wn_MaxOutOfTheMoney sc_want = lit 10"
    "wn_MinCreditToRisk sc_want = lit 10" "wn_MostCreditToRisk sc_want = 0" "wn_MaxCostShare sc_want = lit 50"
    "wn_MostDelta sc_want = lit (1 / 2)" "wn_LeastEdge sc_want = lit (- 10)" by (simp_all add: sc_want_def)
  show ?thesis
    by (simp add: priceOneSpread_def q f want Let_def sc_arith sc_bounds survives_from_def)
      (simp add: sc_found_def sc_put_def)
qed

lemma sc_all: "all_priced sc_math ''XYZ'' (lit 128) sc_chain sc_quotes sc_now sc_want = [Ok sc_found]"
  by (simp add: all_priced_def sc_series priced_in_def strike_pairs_def widest_def pair_of_def sc_price Let_def)

lemma sc_Best: "Best id id sc_math ''XYZ'' (lit 128) sc_chain sc_quotes sc_now sc_want refused = ([sc_found], refused)"
  using sc_all by (simp add: Best_def all_priced_def sc_bounds keep_def)

theorem the_best_of_each_side_witness:
  "sorted_wrt (\<lambda>a b. \<not> richer b a) [sc_found] \<and> distinct (map slot_of [sc_found])"
proof -
  have "0 < lit 128" by simp
  from the_best_of_each_side [OF iterates_id(1) iterates_id(1) this sc_Best] show ?thesis by blast
qed

theorem offered_spreads_clear_every_bound_witness:
  "\<exists>short long s l. {short, long} \<subseteq> set sc_chain \<and> c_Strike long < c_Strike short \<and>
    clears sc_want ''put'' (lit 128) short long s l (cd_Edge sc_found)"
proof -
  have "sc_found \<in> set (fst (Best id id sc_math ''XYZ'' (lit 128) sc_chain sc_quotes sc_now sc_want (\<lambda>r. 0)))"
    by (simp add: sc_Best)
  from offered_spreads_clear_every_bound [OF iterates_id(1) iterates_id(1) this]
  show ?thesis by (auto simp: sc_found_def)
qed

end
