(* ===== verification/Sweep.thy ===== *)
theory Sweep
  imports Screener
begin

text \<open>
  The sweep around the screener (\<open>screener/sweep.go\<close>): what it refuses to start with, the batches it
  asks prices in, the limiter that keeps it inside the broker's rate, one look over the universe and
  one pass. The broker, the thresholds and the clock are the environment. The workers answer for
  the underlyings independently; in which order they finish is an argument, and their tallies add
  up to the same sums in any order.
\<close>

subsection \<open>The limiter\<close>

record limiter =
  lm_spent :: int
  lm_since :: "time option"

text \<open>
  One turn: the instant it was asked at, and the instant the clock shows after sleeping when it has
  to. The answer is how long it sleeps.
\<close>

definition wait_turn :: "int \<Rightarrow> time \<Rightarrow> time \<Rightarrow> limiter \<Rightarrow> duration option \<times> limiter" where
  "wait_turn perMinute now later l =
     (let fresh = (case lm_since l of None \<Rightarrow> True | Some since \<Rightarrow> now - since \<ge> minute);
          since = (if fresh then now else the (lm_since l));
          spent = (if fresh then 0 else lm_spent l)
      in if spent < perMinute then (None, \<lparr>lm_spent = spent + 1, lm_since = Some since\<rparr>)
         else (Some (minute - (now - since)), \<lparr>lm_spent = 1, lm_since = Some later\<rparr>))"

subsection \<open>Batches\<close>

text \<open>The loop would not end on batches of nothing; it is only asked for batches of twenty.\<close>

function batches :: "nat \<Rightarrow> 'a list \<Rightarrow> 'a list list" where
  "batches n xs = (if xs = [] \<or> n = 0 then [] else take n xs # batches n (drop n xs))"
  by pat_completeness auto
termination by (relation "measure (\<lambda>(n, xs). length xs)") auto

declare batches.simps [simp del]

lemma batches_batches:
  assumes "0 < n"
  shows "concat (batches n xs) = xs" "\<forall>batch \<in> set (batches n xs). batch \<noteq> [] \<and> length batch \<le> n"
proof -
  have "concat (batches n xs) = xs \<and> (\<forall>batch \<in> set (batches n xs). batch \<noteq> [] \<and> length batch \<le> n)"
    using assms
  proof (induction n xs rule: batches.induct)
    case (1 n xs)
    show ?case
    proof (cases "xs = []")
      case True
      then show ?thesis by (simp add: batches.simps [of n "[]"])
    next
      case False
      with 1 have rec: "concat (batches n (drop n xs)) = drop n xs"
        "\<forall>batch \<in> set (batches n (drop n xs)). batch \<noteq> [] \<and> length batch \<le> n" by simp_all
      have "batches n xs = take n xs # batches n (drop n xs)"
        using False 1(2) by (subst batches.simps) simp
      then show ?thesis using rec False 1(2) by simp
    qed
  qed
  then show "concat (batches n xs) = xs" "\<forall>batch \<in> set (batches n xs). batch \<noteq> [] \<and> length batch \<le> n" by simp_all
qed

definition pricesPerCall :: nat where "pricesPerCall = 20"
definition chainMost :: int where "chainMost = 1000"

subsection \<open>One look\<close>

record sweep_env =
  sw_open :: "(string, bool) result"
  sw_thresholds :: "(string, Wanted) result"
  sw_trades :: "string list \<Rightarrow> (string, (string \<times> f64) list) result"
  sw_chain :: "string \<Rightarrow> f64 \<Rightarrow> f64 \<Rightarrow> int \<Rightarrow> (string, Contract list \<times> (string \<rightharpoonup> Quote)) result"
  sw_now :: "string \<Rightarrow> time"
  sw_math :: math_fns
  sw_cancelled :: "string \<Rightarrow> bool"

definition no_refusals :: Refused where
  "no_refusals = (\<lambda>reason. 0)"

definition add_refusals :: "Refused \<Rightarrow> Refused \<Rightarrow> Refused" where
  "add_refusals a b = (\<lambda>reason. a reason + b reason)"

text \<open>Prices of the whole universe, batch by batch; a batch the broker does not answer is skipped.\<close>

definition read_prices :: "sweep_env \<Rightarrow> string list \<Rightarrow> string \<rightharpoonup> f64" where
  "read_prices e universe = foldl (\<lambda>prices batch.
     (case sw_trades e batch of Err err \<Rightarrow> prices | Ok got \<Rightarrow> foldl (\<lambda>p (s, x). p(s \<mapsto> x)) prices got))
     Map.empty (batches pricesPerCall universe)"

definition look_at ::
  "sweep_env \<Rightarrow> (string \<times> date) iteration \<Rightarrow> (slot \<times> Candidate) iteration \<Rightarrow> Wanted \<Rightarrow> (string \<rightharpoonup> f64) \<Rightarrow>
   string \<Rightarrow> Candidate list \<times> Refused" where
  "look_at e it it' wanted prices underlying =
     (let price = (case prices underlying of None \<Rightarrow> 0 | Some p \<Rightarrow> p);
          reach = price * wn_MaxOutOfTheMoney wanted / lit 100 in
      (case sw_chain e underlying (price - reach) (price + reach) chainMost of
         Err err \<Rightarrow> ([], note_refused RefusedNoAnswer no_refusals)
       | Ok (contracts, quotes) \<Rightarrow>
           if length contracts < 2 then ([], note_refused RefusedTooFewContracts no_refusals)
           else Best it it' (sw_math e) underlying price contracts quotes (sw_now e underlying) wanted no_refusals))"

text \<open>The names handed to the workers: those with a price, until the context is cancelled.\<close>

definition handed_out :: "sweep_env \<Rightarrow> (string \<rightharpoonup> f64) \<Rightarrow> string list \<Rightarrow> string list" where
  "handed_out e prices universe =
     takeWhile (\<lambda>u. \<not> sw_cancelled e u)
       (filter (\<lambda>u. case prices u of None \<Rightarrow> False | Some price \<Rightarrow> \<not> price \<le> 0) universe)"

definition look ::
  "string iteration \<Rightarrow> (string \<times> date) iteration \<Rightarrow> (slot \<times> Candidate) iteration \<Rightarrow> sweep_env \<Rightarrow> string list \<Rightarrow>
   Candidate list \<times> Refused" where
  "look crew it it' e universe =
     (case sw_thresholds e of
        Err err \<Rightarrow> ([], no_refusals)
      | Ok wanted \<Rightarrow>
          let prices = read_prices e universe;
              answers = map (look_at e it it' wanted prices) (crew (handed_out e prices universe))
          in (sort_by richer (concat (map fst answers)), foldl add_refusals no_refusals (map snd answers)))"

subsection \<open>One pass, and what the sweep refuses to start with\<close>

datatype sweep_effect = RecordCandidates time "Candidate list" | PurgeCandidates time

definition sweep_once ::
  "string iteration \<Rightarrow> (string \<times> date) iteration \<Rightarrow> (slot \<times> Candidate) iteration \<Rightarrow> bool \<Rightarrow> duration \<Rightarrow>
   time \<Rightarrow> sweep_env \<Rightarrow> string list \<Rightarrow> sweep_effect list" where
  "sweep_once crew it it' recording keep_for started e universe =
     (case sw_open e of
        Err err \<Rightarrow> []
      | Ok is_open \<Rightarrow>
          if \<not> is_open then []
          else let (found, refused) = look crew it it' e universe in
               if recording then [RecordCandidates started found, PurgeCandidates (started + - keep_for)] else [])"

datatype sweep_error =
    NoBroker | NothingToLookAt | NoEvery | NoRate | NoClock | NoThresholds | NoKeep

definition sweep_start ::
  "bool \<Rightarrow> string list \<Rightarrow> duration \<Rightarrow> int \<Rightarrow> bool \<Rightarrow> bool \<Rightarrow> bool \<Rightarrow> duration \<Rightarrow> (sweep_error, unit) result" where
  "sweep_start broker universe every perMinute clock thresholds recording keep_for =
     (if \<not> broker then Err NoBroker
      else if universe = [] then Err NothingToLookAt
      else if every \<le> 0 then Err NoEvery
      else if perMinute \<le> 0 then Err NoRate
      else if \<not> clock then Err NoClock
      else if \<not> thresholds then Err NoThresholds
      else if recording \<and> keep_for \<le> 0 then Err NoKeep
      else Ok ())"

subsection \<open>How many turns the limiter gives\<close>

text \<open>
  A run of turns: each is asked at an instant not before the turn before it was given, and one that
  sleeps is given after the sleep. The list holds the instants at which turns were given, last first.
\<close>

inductive turns :: "int \<Rightarrow> limiter \<Rightarrow> time list \<Rightarrow> bool" for perMinute where
  no_turns: "turns perMinute \<lparr>lm_spent = 0, lm_since = None\<rparr> []"
| at_once: "turns perMinute l ts \<Longrightarrow> \<forall>t \<in> set ts. t \<le> now \<Longrightarrow>
    wait_turn perMinute now later l = (None, l') \<Longrightarrow> turns perMinute l' (now # ts)"
| slept: "turns perMinute l ts \<Longrightarrow> \<forall>t \<in> set ts. t \<le> now \<Longrightarrow>
    wait_turn perMinute now later l = (Some rest, l') \<Longrightarrow> now + rest \<le> later \<Longrightarrow>
    turns perMinute l' (later # ts)"

lemma minute_pos [simp]: "0 < minute"
  by (simp add: minute_def second_def)

text \<open>The windows of the limiter: each begins a minute or more after the one before it, and gives at most
  so many turns. The turns split into windows, the open one first.\<close>

fun windows_ok :: "int \<Rightarrow> (time \<times> time list) list \<Rightarrow> bool" where
  "windows_ok perMinute [] = True"
| "windows_ok perMinute ((start, ts) # ws) =
     (int (length ts) \<le> perMinute \<and> (\<forall>t \<in> set ts. start \<le> t \<and> t < start + minute) \<and>
      (case ws of [] \<Rightarrow> True | (before, _) # _ \<Rightarrow> before + minute \<le> start) \<and> windows_ok perMinute ws)"

definition split_into :: "int \<Rightarrow> limiter \<Rightarrow> time list \<Rightarrow> (time \<times> time list) list \<Rightarrow> bool" where
  "split_into perMinute l ts ws \<longleftrightarrow> windows_ok perMinute ws \<and> ts = concat (map snd ws) \<and>
     (case ws of [] \<Rightarrow> lm_since l = None
      | (start, now) # _ \<Rightarrow> lm_since l = Some start \<and> lm_spent l = int (length now) \<and> now \<noteq> [])"

lemma turns_split:
  assumes "turns perMinute l ts" "0 < perMinute"
  shows "\<exists>ws. split_into perMinute l ts ws"
  using assms
proof (induction rule: turns.induct)
  case no_turns
  show ?case by (intro exI [of _ "[]"]) (simp add: split_into_def)
next
  case (at_once l ts now later l')
  then obtain ws where ws: "split_into perMinute l ts ws" by blast
  show ?case
  proof (cases ws)
    case Nil
    with ws at_once.hyps(3) at_once.prems have "split_into perMinute l' (now # ts) [(now, [now])]"
      by (auto simp: split_into_def wait_turn_def Let_def split: if_splits)
    then show ?thesis by blast
  next
    case (Cons w rest)
    obtain start open' where w: "w = (start, open')" by (cases w)
    have l: "lm_since l = Some start" "lm_spent l = int (length open')" "open' \<noteq> []" "ts = open' @ concat (map snd rest)"
      using ws by (simp_all add: split_into_def Cons w)
    show ?thesis
    proof (cases "now - start \<ge> minute")
      case True
      with ws at_once.hyps(3) at_once.prems l have "split_into perMinute l' (now # ts) ((now, [now]) # ws)"
        by (auto simp: split_into_def wait_turn_def Let_def Cons w split: if_splits)
      then show ?thesis by blast
    next
      case False
      have "start \<le> now"
      proof -
        obtain t where t: "t \<in> set open'" using l(3) by (cases open') auto
        then have "start \<le> t" using ws by (auto simp: split_into_def Cons w)
        moreover have "t \<le> now" using at_once.hyps(2) t l(4) by auto
        ultimately show ?thesis by simp
      qed
      with False ws at_once.hyps(3) l have "split_into perMinute l' (now # ts) ((start, now # open') # rest)"
        by (auto simp: split_into_def wait_turn_def Let_def Cons w split: if_splits)
      then show ?thesis by blast
    qed
  qed
next
  case (slept l ts now later rest l')
  then obtain ws where ws: "split_into perMinute l ts ws" by blast
  obtain start open' older where w: "ws = (start, open') # older"
    using ws slept.hyps(3) slept.prems
    by (cases ws) (auto simp: split_into_def wait_turn_def Let_def split: if_splits)
  have "start + minute \<le> later"
    using ws slept.hyps(3,4) slept.prems by (auto simp: split_into_def wait_turn_def Let_def w split: if_splits)
  then have "split_into perMinute l' (later # ts) ((later, [later]) # ws)"
    using ws slept.hyps(3) slept.prems
    by (auto simp: split_into_def wait_turn_def Let_def w split: if_splits)
  then show ?case by blast
qed

lemma windows_apart:
  "windows_ok perMinute ((start, ts) # ws) \<Longrightarrow> (start', ts') \<in> set ws \<Longrightarrow> start' + minute \<le> start"
proof (induction ws arbitrary: start ts)
  case (Cons w ws)
  obtain s u where w: "w = (s, u)" by (cases w)
  show ?case
  proof (cases "(start', ts') = w")
    case True
    with Cons.prems show ?thesis by (auto simp: w)
  next
    case False
    with Cons.prems w have "(start', ts') \<in> set ws" by auto
    moreover have "windows_ok perMinute ((s, u) # ws)" "s + minute \<le> start" using Cons.prems w by auto
    ultimately have "start' + minute \<le> s" using Cons.IH by blast
    with \<open>s + minute \<le> start\<close> show ?thesis using minute_pos by linarith
  qed
qed simp

definition in_minute :: "time \<Rightarrow> time list \<Rightarrow> time list" where
  "in_minute f ts = filter (\<lambda>t. f \<le> t \<and> t < f + minute) ts"

lemma in_minute_append [simp]: "in_minute f (xs @ ys) = in_minute f xs @ in_minute f ys"
  by (simp add: in_minute_def)

lemma in_minute_le: "length (in_minute f ts) \<le> length ts"
  by (simp add: in_minute_def)

lemma in_minute_before:
  "windows_ok perMinute ws \<Longrightarrow> \<forall>w \<in> set ws. fst w + minute \<le> f \<Longrightarrow> in_minute f (concat (map snd ws)) = []"
proof (induction ws)
  case (Cons w ws)
  then have "in_minute f (snd w) = []"
    by (cases w) (fastforce simp: in_minute_def filter_empty_conv)
  moreover have "windows_ok perMinute ws" using Cons.prems(1) by (cases w) simp
  ultimately show ?case using Cons by simp
qed (simp add: in_minute_def)

lemma in_minute_one:
  "windows_ok perMinute ws \<Longrightarrow> 0 \<le> perMinute \<Longrightarrow> \<forall>w \<in> set ws. fst w < f \<Longrightarrow>
    int (length (in_minute f (concat (map snd ws)))) \<le> perMinute"
proof (induction ws)
  case (Cons w ws)
  obtain start ts where w: "w = (start, ts)" by (cases w)
  have ok: "windows_ok perMinute ws" and ts: "int (length ts) \<le> perMinute"
    using Cons.prems(1) by (simp_all add: w)
  have "\<forall>v \<in> set ws. fst v + minute \<le> f"
    using windows_apart [OF Cons.prems(1) [unfolded w]] Cons.prems(3) by (fastforce simp: w)
  from in_minute_before [OF ok this] show ?case using in_minute_le [of f ts] ts by (simp add: w)
qed (simp add: in_minute_def)

lemma in_minute_two:
  "windows_ok perMinute ws \<Longrightarrow> 0 \<le> perMinute \<Longrightarrow>
    int (length (in_minute f (concat (map snd ws)))) \<le> 2 * perMinute"
proof (induction ws)
  case (Cons w ws)
  obtain start ts where w: "w = (start, ts)" by (cases w)
  have ok: "windows_ok perMinute ws" and ts: "int (length ts) \<le> perMinute" "\<forall>t \<in> set ts. start \<le> t"
    using Cons.prems(1) by (simp_all add: w)
  show ?case
  proof (cases "f + minute \<le> start")
    case True
    then have "in_minute f ts = []" using ts(2) by (fastforce simp: in_minute_def filter_empty_conv)
    with Cons.IH [OF ok Cons.prems(2)] show ?thesis by (simp add: w)
  next
    case False
    then have "\<forall>v \<in> set ws. fst v < f"
      using windows_apart [OF Cons.prems(1) [unfolded w]] by fastforce
    from in_minute_one [OF ok Cons.prems(2) this] show ?thesis using in_minute_le [of f ts] ts(1) by (simp add: w)
  qed
qed (simp add: in_minute_def)

text \<open>The limiter counts in windows of its own and not in any minute: whenever it is asked, in the
  minute from any instant on it gives at most twice the turns it is set to.\<close>

theorem at_most_twice_the_rate:
  assumes "turns perMinute l ts" "0 < perMinute"
  shows "int (length (filter (\<lambda>t. from' \<le> t \<and> t < from' + minute) ts)) \<le> 2 * perMinute"
proof -
  obtain ws where "split_into perMinute l ts ws" using turns_split [OF assms] by blast
  then have "windows_ok perMinute ws" "ts = concat (map snd ws)" by (simp_all add: split_into_def)
  with in_minute_two [of perMinute ws from'] assms(2) show ?thesis by (simp add: in_minute_def)
qed

text \<open>
  And it does give twice as many: two turns a minute, one early, three around the end of a window.
\<close>

theorem at_most_twice_the_rate_witness:
  "turns 2 \<lparr>lm_spent = 2, lm_since = Some minute\<rparr> [minute + 1, minute, minute - 1, 0] \<and>
   int (length (filter (\<lambda>t. minute - 1 \<le> t \<and> t < minute - 1 + minute) [minute + 1, minute, minute - 1, 0])) \<le> 2 * 2"
proof -
  have big: "2 < minute" by (simp add: minute_def second_def)
  have "turns 2 \<lparr>lm_spent = 1, lm_since = Some 0\<rparr> [0]"
    using at_once [OF no_turns [of 2], of 0 0 "\<lparr>lm_spent = 1, lm_since = Some 0\<rparr>"] by (simp add: wait_turn_def)
  then have "turns 2 \<lparr>lm_spent = 2, lm_since = Some 0\<rparr> [minute - 1, 0]"
    by (rule at_once [where later = 0]) (use big in \<open>simp_all add: wait_turn_def\<close>)
  then have "turns 2 \<lparr>lm_spent = 1, lm_since = Some minute\<rparr> [minute, minute - 1, 0]"
    by (rule at_once [where later = 0]) (use big in \<open>simp_all add: wait_turn_def\<close>)
  then have run: "turns 2 \<lparr>lm_spent = 2, lm_since = Some minute\<rparr> [minute + 1, minute, minute - 1, 0]"
    by (rule at_once [where later = 0]) (use big in \<open>simp_all add: wait_turn_def\<close>)
  from at_most_twice_the_rate [OF run, of "minute - 1"] run show ?thesis by simp
qed

lemma three_turns_in_a_minute:
  "length (filter (\<lambda>t. minute - 1 \<le> t \<and> t < minute - 1 + minute) [minute + 1, minute, minute - 1, 0]) = 3"
  by (simp add: minute_def second_def)

end
