(* ===== verification/Placement.thy ===== *)
theory Placement
  imports Screener
begin

text \<open>
  Where to put the legs of a backspread (\<open>golang/internal/placement\<close>): what the caller asks, the
  contracts worth building on, the moves history offers in weather like today's, every permitted
  pairing with its size, and its replay. The market is the environment; \<open>math.Sqrt\<close> and \<open>math.Log\<close>
  are arguments, as in the screener. The day asked about is a date. A volatility the code marks with
  NaN is \<open>None\<close>, and so is the infinity it starts looking for the worst window from.
\<close>

subsection \<open>What is asked and answered\<close>

record Ask =
  as_Underlying :: string
  as_Expiration :: date
  as_Kind :: string
  as_Bought :: int
  as_ShortLeastSigma :: f64
  as_ValleyLeastSigma :: f64
  as_ShortMostSigma :: f64
  as_WorstCaseMost :: f64
  as_Most :: int

record Placement =
  pl_ShortStrike :: f64
  pl_LongStrike :: f64
  pl_ShortSymbol :: string
  pl_LongSymbol :: string
  pl_Credit :: f64
  pl_Sets :: int
  pl_WorstCase :: f64
  pl_ShortSigma :: f64
  pl_ValleySigma :: f64
  pl_Expected :: f64
  pl_Median :: f64
  pl_Worst :: "f64 option"
  pl_LosingShare :: f64
  pl_TouchedShare :: f64
  pl_FromTopPercent :: "f64 option"

record Answer =
  an_Underlying :: string
  an_Expiration :: string
  an_Price :: f64
  an_TradingDays :: int
  an_Volatility :: f64
  an_Sigma :: f64
  an_Windows :: int
  an_Independent :: int
  an_Considered :: int
  an_Placements :: "Placement list"

record leg =
  lg_symbol :: string
  lg_strike :: f64
  lg_bid :: f64
  lg_ask :: f64

definition is_call :: "Ask \<Rightarrow> bool" where
  "is_call a \<longleftrightarrow> as_Kind a = ''call''"

subsection \<open>The chain\<close>

definition usable_leg :: "(string \<rightharpoonup> Quote) \<Rightarrow> Ask \<Rightarrow> Contract \<Rightarrow> leg option" where
  "usable_leg quotes a c =
     (if c_Type c \<noteq> as_Kind a then None
      else if c_Expiration c \<noteq> as_Expiration a then None
      else (case quotes (c_Symbol c) of
              None \<Rightarrow> None
            | Some q \<Rightarrow>
                if q_Bid q \<le> 0 \<or> q_Ask q \<le> 0 \<or> q_Ask q < q_Bid q then None
                else Some \<lparr>lg_symbol = c_Symbol c, lg_strike = c_Strike c, lg_bid = q_Bid q, lg_ask = q_Ask q\<rparr>))"

definition usable :: "Contract list \<Rightarrow> (string \<rightharpoonup> Quote) \<Rightarrow> Ask \<Rightarrow> leg list" where
  "usable contracts quotes a =
     sort_by (\<lambda>x y. lg_strike x < lg_strike y) (List.map_filter (usable_leg quotes a) contracts)"

definition most_sigma :: "Ask \<Rightarrow> f64" where
  "most_sigma a = (if as_ShortMostSigma a \<le> 0 then lit 4 else as_ShortMostSigma a)"

definition band :: "Ask \<Rightarrow> f64 \<Rightarrow> f64 \<Rightarrow> f64 \<times> f64" where
  "band a spot sigma =
     (let reach = max (most_sigma a) (as_ValleyLeastSigma a) + lit 3 in
      if is_call a then (spot + as_ShortLeastSigma a * sigma - sigma, spot + reach * sigma)
      else (spot - reach * sigma, spot - as_ShortLeastSigma a * sigma + sigma))"

subsection \<open>History\<close>

definition volWindow :: nat where "volWindow = 20"
definition near :: rat where "near = 1 / 4"

definition sum_of :: "f64 list \<Rightarrow> f64" where
  "sum_of xs = foldl (+) 0 xs"

definition deviation :: "math_fns \<Rightarrow> f64 list \<Rightarrow> f64" where
  "deviation m of' =
     (if length of' < 2 then 0 else
      let mean = sum_of of' / f64_of_int (int (length of'));
          total' = foldl (\<lambda>s x. s + (x - mean) * (x - mean)) 0 of'
      in m_sqrt m (total' / f64_of_int (int (length of') - 1)))"

definition log_moves :: "math_fns \<Rightarrow> f64 list \<Rightarrow> f64 list" where
  "log_moves m closes = map (\<lambda>i. m_log m (closes ! i / closes ! (i - 1))) [1..<length closes]"

definition rolling_at :: "math_fns \<Rightarrow> f64 list \<Rightarrow> nat \<Rightarrow> f64 option" where
  "rolling_at m logs i =
     (if i + 1 < volWindow then None
      else Some (deviation m (take volWindow (drop (i + 1 - volWindow) logs)) * m_sqrt m (lit 252)))"

datatype score_error =
    NoUnderlying | BadKind string | BoughtTooFew | NoCeiling | PriceUnread string | NoPrice string
  | HistoryUnread string | ExpirationPassed | NotEnoughHistory | NoVolatilityNow | TooFewWindows
  | NoSigma | ChainUnread string

text \<open>A window opens on day \<open>i\<close> with the volatility read the day before; it is kept in weather like today's.\<close>

definition window_kept :: "f64 option list \<Rightarrow> f64 \<Rightarrow> nat \<Rightarrow> bool" where
  "window_kept rolling now i \<longleftrightarrow> 0 < i \<and> i - 1 < length rolling \<and>
     (case rolling ! (i - 1) of
        None \<Rightarrow> False
      | Some v \<Rightarrow> \<not> v < now * lit (1 - near) \<and> \<not> v > now * lit (1 + near))"

definition windows :: "math_fns \<Rightarrow> f64 list \<Rightarrow> nat \<Rightarrow> (score_error, f64 list \<times> f64) result" where
  "windows m closes days =
     (if length closes < volWindow + days + 30 then Err NotEnoughHistory else
      let logs = log_moves m closes;
          rolling = map (rolling_at m logs) [0..<length logs] in
      (case last rolling of
         None \<Rightarrow> Err NoVolatilityNow
       | Some now \<Rightarrow>
           if now \<le> 0 then Err NoVolatilityNow else
           let moves = map (\<lambda>i. closes ! (i + days) / closes ! i)
                 (filter (window_kept rolling now) [0..<length closes - days])
           in if length moves < 60 then Err TooFewWindows else Ok (moves, now)))"

text \<open>The days after one day and up to another, counted one at a time; a weekend is not counted.\<close>

definition is_weekday :: "int \<Rightarrow> bool" where
  "is_weekday day \<longleftrightarrow> weekday_of_days day \<noteq> 6 \<and> weekday_of_days day \<noteq> 0"

function count_days :: "int \<Rightarrow> int \<Rightarrow> int \<Rightarrow> int" where
  "count_days day until days =
     (if day > until then days
      else count_days (day + 1) until (if is_weekday day then days + 1 else days))"
  by pat_completeness auto
termination by (relation "measure (\<lambda>(day, until, days). nat (until + 1 - day))") auto

declare count_days.simps [simp del]

definition tradingDaysUntil :: "time \<Rightarrow> date \<Rightarrow> location option \<Rightarrow> int" where
  "tradingDaysUntil now expiry where' =
     (let here = date_in (case where' of None \<Rightarrow> UTC | Some l \<Rightarrow> l) now
      in count_days (days_of here + 1) (days_of expiry) 0)"

subsection \<open>Pairings\<close>

definition distance :: "Ask \<Rightarrow> f64 \<Rightarrow> f64 \<Rightarrow> f64 \<Rightarrow> f64" where
  "distance a strike spot sigma = (if is_call a then (strike - spot) / sigma else (spot - strike) / sigma)"

definition further :: "Ask \<Rightarrow> f64 \<Rightarrow> f64 \<Rightarrow> bool" where
  "further a bought sold = (if is_call a then bought > sold else bought < sold)"

definition reached :: "Ask \<Rightarrow> f64 \<Rightarrow> f64 \<Rightarrow> bool" where
  "reached a end' short = (if is_call a then end' \<ge> short else end' \<le> short)"

definition value_at :: "Ask \<Rightarrow> f64 \<Rightarrow> f64 \<Rightarrow> f64 \<Rightarrow> f64" where
  "value_at a end' short long =
     (if is_call a then - max (end' - short) 0 + f64_of_int (as_Bought a) * max (end' - long) 0
      else - max (short - end') 0 + f64_of_int (as_Bought a) * max (long - end') 0)"

definition median :: "f64 list \<Rightarrow> f64" where
  "median xs = (let n = length xs in
     if n = 0 then 0 else if n mod 2 = 1 then xs ! (n div 2)
     else (xs ! (n div 2 - 1) + xs ! (n div 2)) / lit 2)"

definition percent_of_windows :: "nat \<Rightarrow> nat \<Rightarrow> f64" where
  "percent_of_windows k n = lit 100 * f64_of_int (int k) / f64_of_int (int n)"

definition replay :: "Ask \<Rightarrow> f64 list \<Rightarrow> f64 \<Rightarrow> leg \<Rightarrow> leg \<Rightarrow> f64 \<Rightarrow> int \<Rightarrow> Placement" where
  "replay a moves spot short long credit sets =
     (let out = map (\<lambda>move. (value_at a (spot * move) (lg_strike short) (lg_strike long) + credit) *
            lit 100 * f64_of_int sets) moves;
          n = length out;
          expected = sum_of out / f64_of_int (int n);
          worst = foldl (\<lambda>w x. case w of None \<Rightarrow> Some x | Some y \<Rightarrow> Some (if x < y then x else y)) None out;
          ordered = sort_by (<) out;
          top' = max 1 (n div 100);
          tail = sum_of (drop (n - top') ordered);
          fromTop = (if expected > 0 then Some (lit 100 * (tail / f64_of_int (int n)) / expected) else None)
      in \<lparr>pl_ShortStrike = 0, pl_LongStrike = 0, pl_ShortSymbol = [], pl_LongSymbol = [], pl_Credit = 0,
          pl_Sets = 0, pl_WorstCase = 0, pl_ShortSigma = 0, pl_ValleySigma = 0,
          pl_Expected = expected, pl_Median = median ordered, pl_Worst = worst,
          pl_LosingShare = percent_of_windows (length (filter (\<lambda>x. x < 0) out)) n,
          pl_TouchedShare = percent_of_windows (length (filter (\<lambda>move. reached a (spot * move) (lg_strike short)) moves)) n,
          pl_FromTopPercent = fromTop\<rparr>)"

text \<open>What the pairing pays to open, what it can lose in dollars, and how many sets the ceiling takes.\<close>

definition pair_credit :: "Ask \<Rightarrow> leg \<Rightarrow> leg \<Rightarrow> f64" where
  "pair_credit a short long = lg_bid short - f64_of_int (as_Bought a) * lg_ask long"

definition pair_width :: "leg \<Rightarrow> leg \<Rightarrow> f64" where
  "pair_width short long = \<bar>lg_strike long - lg_strike short\<bar>"

definition per_set :: "Ask \<Rightarrow> leg \<Rightarrow> leg \<Rightarrow> f64" where
  "per_set a short long = (pair_width short long - pair_credit a short long) * lit 100"

definition sets_for :: "Ask \<Rightarrow> f64 \<Rightarrow> int" where
  "sets_for a perSet = ftrunc (ffloor (as_WorstCaseMost a / perSet))"

definition permitted :: "Ask \<Rightarrow> f64 \<Rightarrow> f64 \<Rightarrow> leg \<Rightarrow> leg \<Rightarrow> bool" where
  "permitted a spot sigma short long \<longleftrightarrow>
     (let away = distance a (lg_strike short) spot sigma in
      \<not> (away < as_ShortLeastSigma a \<or> away > most_sigma a) \<and>
      further a (lg_strike long) (lg_strike short) \<and>
      \<not> distance a (lg_strike long) spot sigma < as_ValleyLeastSigma a)"

definition place :: "Ask \<Rightarrow> f64 \<Rightarrow> f64 \<Rightarrow> f64 list \<Rightarrow> leg \<Rightarrow> leg \<Rightarrow> Placement option" where
  "place a spot sigma moves short long =
     (let credit = pair_credit a short long; perSet = per_set a short long; sets = sets_for a perSet in
      if perSet \<le> 0 then None
      else if credit > pair_width short long / lit 2 then None
      else if sets < 1 then None
      else Some ((replay a moves spot short long credit sets)
             \<lparr>pl_ShortStrike := lg_strike short, pl_LongStrike := lg_strike long,
              pl_ShortSymbol := lg_symbol short, pl_LongSymbol := lg_symbol long,
              pl_Credit := credit, pl_Sets := sets, pl_WorstCase := - perSet * f64_of_int sets,
              pl_ShortSigma := distance a (lg_strike short) spot sigma,
              pl_ValleySigma := distance a (lg_strike long) spot sigma\<rparr>))"

definition pairings :: "Ask \<Rightarrow> f64 \<Rightarrow> f64 \<Rightarrow> leg list \<Rightarrow> (leg \<times> leg) list" where
  "pairings a spot sigma legs =
     concat (map (\<lambda>short. map (Pair short) (filter (permitted a spot sigma short) legs)) legs)"

definition enumerate_placements :: "Ask \<Rightarrow> leg list \<Rightarrow> f64 \<Rightarrow> f64 \<Rightarrow> f64 list \<Rightarrow> Placement list \<times> int" where
  "enumerate_placements a legs spot sigma moves =
     (List.map_filter (\<lambda>(short, long). place a spot sigma moves short long) (pairings a spot sigma legs),
      int (length (pairings a spot sigma legs)))"

subsection \<open>The score\<close>

record market_env =
  mk_trades :: "string \<Rightarrow> (string, string \<rightharpoonup> f64) result"
  mk_closes :: "string \<Rightarrow> (string, f64 list) result"
  mk_chain :: "string \<Rightarrow> f64 \<Rightarrow> f64 \<Rightarrow> date \<Rightarrow> string \<Rightarrow> int \<Rightarrow> (string, Contract list \<times> (string \<rightharpoonup> Quote)) result"
  mk_now :: time
  mk_where :: "location option"
  mk_math :: math_fns

definition check_ask :: "Ask \<Rightarrow> (score_error, unit) result" where
  "check_ask a =
     (if as_Underlying a = [] then Err NoUnderlying
      else if as_Kind a \<noteq> ''call'' \<and> as_Kind a \<noteq> ''put'' then Err (BadKind (as_Kind a))
      else if as_Bought a < 2 then Err BoughtTooFew
      else if as_WorstCaseMost a \<le> 0 then Err NoCeiling
      else Ok ())"

definition the_best :: "Ask \<Rightarrow> Placement list \<Rightarrow> Placement list" where
  "the_best a found =
     (let ordered = sort_by (\<lambda>x y. pl_Expected x > pl_Expected y) found in
      if as_Most a > 0 \<and> int (length ordered) > as_Most a then take (nat (as_Most a)) ordered else ordered)"

definition Score :: "market_env \<Rightarrow> Ask \<Rightarrow> (score_error, Answer) result" where
  "Score k a =
     (case check_ask a of Err e \<Rightarrow> Err e | Ok u \<Rightarrow>
     (case mk_trades k (as_Underlying a) of Err e \<Rightarrow> Err (PriceUnread e) | Ok prices \<Rightarrow>
      let spot = (case prices (as_Underlying a) of None \<Rightarrow> 0 | Some p \<Rightarrow> p) in
      if spot \<le> 0 then Err (NoPrice (as_Underlying a)) else
     (case mk_closes k (as_Underlying a) of Err e \<Rightarrow> Err (HistoryUnread e) | Ok closes \<Rightarrow>
      let days = tradingDaysUntil (mk_now k) (as_Expiration a) (mk_where k) in
      if days < 1 then Err ExpirationPassed else
     (case windows (mk_math k) closes (nat days) of Err e \<Rightarrow> Err e | Ok (moves, vol) \<Rightarrow>
      let sigma = vol * m_sqrt (mk_math k) (f64_of_int days / lit 252) * spot in
      if sigma \<le> 0 then Err NoSigma else
      let (low, high) = band a spot sigma in
     (case mk_chain k (as_Underlying a) low high (as_Expiration a) (as_Kind a) 500 of
        Err e \<Rightarrow> Err (ChainUnread e)
      | Ok (contracts, quotes) \<Rightarrow>
          let (found, considered) = enumerate_placements a (usable contracts quotes a) spot sigma moves
          in Ok \<lparr>an_Underlying = as_Underlying a, an_Expiration = fmt_date (as_Expiration a), an_Price = spot,
                an_TradingDays = days, an_Volatility = vol, an_Sigma = sigma, an_Windows = int (length moves),
                an_Independent = go_div (int (length moves)) days, an_Considered = considered,
                an_Placements = the_best a found\<rparr>)))))"

end
