(* ===== verification/PlacementLaws.thy ===== *)
theory PlacementLaws
  imports Placement
begin

text \<open>
  What is true of the placements the scorer returns: the days it counts are the weekdays up to the
  expiration, every row is a permitted pairing, and no price of the underlying makes a row lose more
  than the ceiling it was sized against, but for the last bits of a double.
\<close>

subsection \<open>Counting days\<close>

lemma count_days_eq: "count_days day until n = n + int (card {d \<in> {day..until}. is_weekday d})"
proof (induction day until n rule: count_days.induct)
  case (1 day until n)
  show ?case
  proof (cases "day > until")
    case True
    then show ?thesis by (subst count_days.simps) simp
  next
    case False
    have "{d \<in> {day..until}. is_weekday d} =
        (if is_weekday day then insert day {d \<in> {day + 1..until}. is_weekday d} else {d \<in> {day + 1..until}. is_weekday d})"
    proof -
      have "{day..until} = insert day {day + 1..until}" using False by auto
      then show ?thesis by auto
    qed
    moreover have "finite {d \<in> {day + 1..until}. is_weekday d}"
      by (rule finite_subset [of _ "{day + 1..until}"]) auto
    moreover have "day \<notin> {d \<in> {day + 1..until}. is_weekday d}" by simp
    ultimately have "int (card {d \<in> {day..until}. is_weekday d}) =
        (if is_weekday day then 1 else 0) + int (card {d \<in> {day + 1..until}. is_weekday d})"
      by simp
    then show ?thesis using 1 False by (subst count_days.simps) simp
  qed
qed

text \<open>C40. The loop over the days ends for every clock, place and expiration, and counts the weekdays after
  the date the exchange's clocks show and up to the expiration, that day included.\<close>

theorem tradingDaysUntil_counts_weekdays:
  "tradingDaysUntil now expiry where' =
    int (card {d \<in> {(now + (case where' of None \<Rightarrow> UTC | Some l \<Rightarrow> l) now) div day_ns + 1..days_of expiry}.
      weekday_of_days d \<notin> {0, 6}})"
  by (simp add: tradingDaysUntil_def Let_def count_days_eq date_in_def days_of_date_of_days is_weekday_def conj_commute conj_left_commute)

subsection \<open>What rounding can do\<close>

definition ulp :: rat where
  "ulp = 1 / 2 ^ 53"

lemma ulp_bounds: "0 < ulp" "ulp < 1 / 1000000"
  by (simp_all add: ulp_def)

lemma rnd_near:
  assumes "0 \<le> x"
  shows "x * (1 - ulp) \<le> rnd x" "rnd x \<le> x * (1 + ulp)"
proof -
  have "\<bar>rnd x - x\<bar> \<le> x * ulp" using rnd_error [of x] assms by (simp add: ulp_def)
  then show "x * (1 - ulp) \<le> rnd x" "rnd x \<le> x * (1 + ulp)"
    by (simp_all add: abs_le_iff distrib_left right_diff_distrib)
qed

lemma val_ffloor: "val (ffloor x) = of_int \<lfloor>val x\<rfloor>"
proof (cases "2 ^ 52 \<le> \<bar>val x\<bar>")
  case True
  then obtain n where n: "val x = of_int n" using f64_big_is_int by blast
  then have "rnd (of_int n) = (of_int n :: rat)" using rnd_val [of x] by simp
  then show ?thesis by (simp add: ffloor_def val_lit n)
next
  case False
  then have "- (2 ^ 52) \<le> val x" "val x < 2 ^ 52" by linarith+
  then have "- (2 ^ 52) \<le> \<lfloor>val x\<rfloor>" "\<lfloor>val x\<rfloor> < 2 ^ 52" by (simp_all add: le_floor_iff floor_less_iff)
  moreover have "\<bar>m\<bar> \<le> 2 ^ 53" if "- (2 ^ 52) \<le> m" "m < 2 ^ 52" for m :: int using that by simp
  ultimately have "\<bar>\<lfloor>val x\<rfloor>\<bar> \<le> 2 ^ 53" by blast
  then show ?thesis unfolding ffloor_def by (rule val_lit_int)
qed

lemma sets_for_le:
  assumes "0 < perSet" "0 \<le> as_WorstCaseMost a"
  shows "of_int (sets_for a perSet) * val perSet \<le> val (as_WorstCaseMost a) * (1 + ulp)"
proof -
  let ?q = "as_WorstCaseMost a / perSet"
  have p: "0 < val perSet" "0 \<le> val (as_WorstCaseMost a)" using assms by (simp_all add: less_f64_iff le_f64_iff)
  then have q: "0 \<le> val (as_WorstCaseMost a) / val perSet" by simp
  have "0 \<le> val ?q" using q by (simp add: val_divide)
  then have "sets_for a perSet = \<lfloor>val ?q\<rfloor>" by (simp add: sets_for_def ftrunc_def val_ffloor)
  then have "of_int (sets_for a perSet) \<le> val ?q" by simp
  also have "val ?q \<le> val (as_WorstCaseMost a) / val perSet * (1 + ulp)"
    unfolding val_divide by (rule rnd_near(2) [OF q])
  finally have "of_int (sets_for a perSet) * val perSet \<le> val (as_WorstCaseMost a) / val perSet * (1 + ulp) * val perSet"
    using p(1) by (intro mult_right_mono) auto
  then show ?thesis using p(1) by simp
qed

subsection \<open>What a row can lose\<close>

text \<open>The dollars one set is worth at a price of the underlying, without rounding: what it brought in, less
  the sold contract, and as many of the bought one as were asked for.\<close>

definition row_worth :: "Ask \<Rightarrow> f64 \<Rightarrow> f64 \<Rightarrow> f64 \<Rightarrow> rat \<Rightarrow> rat" where
  "row_worth a short long credit x =
     (if is_call a
      then - max (x - val short) 0 + of_int (as_Bought a) * max (x - val long) 0
      else - max (val short - x) 0 + of_int (as_Bought a) * max (val long - x) 0)
     + val credit"

lemma valley:
  assumes "further a long short" "2 \<le> as_Bought a"
  shows "- \<bar>val long - val short\<bar> + val credit \<le> row_worth a short long credit x"
proof -
  have twice: "2 * y \<le> of_int (as_Bought a) * y" if "0 \<le> y" for y :: rat
    using assms(2) that by (intro mult_right_mono) auto
  show ?thesis
    using assms(1) twice [of "max (x - val long) 0"] twice [of "max (val long - x) 0"]
    by (auto simp: row_worth_def further_def less_f64_iff max_def split: if_splits)
qed

text \<open>What is charged for a set is what it can lose, to one part in two to the fiftieth or so.\<close>

lemma per_set_covers:
  assumes "0 < per_set a short long" "\<not> pair_credit a short long > pair_width short long / lit 2"
  shows "100 * (\<bar>val (lg_strike long) - val (lg_strike short)\<bar> - val (pair_credit a short long))
    \<le> val (per_set a short long) * (1 + 9 * ulp)"
proof -
  define w where "w = \<bar>val (lg_strike long) - val (lg_strike short)\<bar>"
  define W where "W = val (pair_width short long)"
  define c where "c = val (pair_credit a short long)"
  define u where "u = ulp"
  have u: "0 < u" "u < 1 / 1000000" using ulp_bounds by (simp_all add: u_def)
  have W: "W = rnd w" by (simp add: W_def w_def pair_width_def val_diff abs_if flip: rnd_minus)
  have w0: "0 \<le> w" by (simp add: w_def)
  have wW: "w * (1 - u) \<le> W" using rnd_near(1) [OF w0] by (simp add: W u_def)
  have half: "c \<le> W / 2 * (1 + u)"
  proof -
    have "0 \<le> W / 2" using w0 by (simp add: W)
    moreover have "c \<le> rnd (W / 2)"
      using assms(2) by (simp add: not_less le_f64_iff val_divide c_def W_def val_lit_numeral)
    ultimately show ?thesis using rnd_near(2) [of "W / 2"] by (simp add: u_def)
  qed
  have p: "val (per_set a short long) = rnd (rnd (W - c) * 100)"
    by (simp add: per_set_def val_mult val_diff W_def c_def)
  have d0: "0 \<le> W - c"
  proof -
    have "0 < rnd (rnd (W - c) * 100)" using assms(1) p by (simp add: less_f64_iff)
    then show ?thesis by simp
  qed
  have big: "2 * W \<le> 5 * (W - c)"
  proof -
    have "0 \<le> W" using w0 by (simp add: W)
    moreover from this have "W * u \<le> W * (1 / 1000000)" using u by (intro mult_left_mono) auto
    moreover have "c \<le> W / 2 + W * u / 2" using half by (simp add: algebra_simps)
    ultimately show ?thesis by simp
  qed
  have step1: "(W - c) * (1 - u) \<le> rnd (W - c)" using rnd_near(1) [OF d0] by (simp add: u_def)
  have r0: "0 \<le> rnd (W - c) * 100" using d0 by simp
  have step2: "rnd (W - c) * 100 * (1 - u) \<le> val (per_set a short long)"
    using rnd_near(1) [OF r0] by (simp add: p u_def)
  have low: "100 * (W - c) * (1 - 2 * u) \<le> val (per_set a short long)"
  proof -
    have "100 * (W - c) * (1 - 2 * u) \<le> 100 * ((W - c) * (1 - u)) * (1 - u)"
    proof -
      have "(1 - 2 * u) \<le> (1 - u) * (1 - u)" by (simp add: algebra_simps)
      then have "100 * (W - c) * (1 - 2 * u) \<le> 100 * (W - c) * ((1 - u) * (1 - u))"
        using d0 by (intro mult_left_mono) auto
      then show ?thesis by (simp only: mult.assoc)
    qed
    also have "\<dots> \<le> 100 * rnd (W - c) * (1 - u)" using step1 u by (intro mult_right_mono) auto
    finally show ?thesis using step2 by (simp add: mult.commute)
  qed
  have high: "w - c \<le> (W - c) * (1 + 6 * u)"
  proof -
    have "w * u \<le> W * (1 + 2 * u) * u"
    proof -
      have "w \<le> W * (1 + 2 * u)"
      proof -
        have "1 \<le> (1 - u) * (1 + 2 * u)" using u by (simp add: algebra_simps)
        then have "w * 1 \<le> w * ((1 - u) * (1 + 2 * u))" using w0 by (intro mult_left_mono) auto
        also have "\<dots> = w * (1 - u) * (1 + 2 * u)" by (simp add: mult.assoc)
        also have "\<dots> \<le> W * (1 + 2 * u)" using wW u by (intro mult_right_mono) auto
        finally show ?thesis by simp
      qed
      then show ?thesis using u by (intro mult_right_mono) auto
    qed
    also have "\<dots> \<le> W * 2 * u" using u w0 by (intro mult_right_mono mult_left_mono) (auto simp: W)
    finally have "w - W \<le> 2 * W * u" using wW by (simp add: algebra_simps)
    also have "2 * W * u \<le> 5 * (W - c) * u" using big u by (intro mult_right_mono) auto
    also have "\<dots> \<le> (W - c) * (6 * u)" using d0 u by (simp add: mult.assoc mult_left_mono)
    finally show ?thesis by (simp add: distrib_left)
  qed
  have "100 * (w - c) \<le> 100 * (W - c) * (1 + 6 * u)" using high by (simp only: mult.assoc) simp
  also have "\<dots> \<le> 100 * (W - c) * ((1 - 2 * u) * (1 + 9 * u))"
  proof (intro mult_left_mono)
    have "u * u \<le> u * (1 / 1000000)" using u by (intro mult_left_mono) auto
    then show "1 + 6 * u \<le> (1 - 2 * u) * (1 + 9 * u)" using u by (simp add: algebra_simps)
  qed (use d0 in simp)
  also have "\<dots> = 100 * (W - c) * (1 - 2 * u) * (1 + 9 * u)" by (simp add: mult.assoc)
  also have "\<dots> \<le> val (per_set a short long) * (1 + 9 * u)" using low u by (intro mult_right_mono) auto
  finally show ?thesis by (simp add: w_def c_def u_def)
qed

text \<open>So at no price does a whole row lose more than the rounded worst case it names.\<close>

lemma row_value_bound:
  assumes "further a (lg_strike long) (lg_strike short)" "2 \<le> as_Bought a"
    and "0 < per_set a short long" "\<not> pair_credit a short long > pair_width short long / lit 2" "0 \<le> n"
  shows "- (of_int n * val (per_set a short long)) * (1 + 9 * ulp)
    \<le> 100 * of_int n * row_worth a (lg_strike short) (lg_strike long) (pair_credit a short long) x"
proof -
  let ?v = "row_worth a (lg_strike short) (lg_strike long) (pair_credit a short long) x"
  have scale: "- 100 * v \<le> p" if "- w + c \<le> v" "100 * (w - c) \<le> p" for v w c p :: rat
    using that by (simp add: algebra_simps)
  have "- 100 * ?v \<le> val (per_set a short long) * (1 + 9 * ulp)"
    by (rule scale [OF valley [OF assms(1,2)] per_set_covers [OF assms(3,4)]])
  then have "of_int n * (- 100 * ?v) \<le> of_int n * (val (per_set a short long) * (1 + 9 * ulp))"
    using assms(5) by (intro mult_left_mono) auto
  then show ?thesis by (simp add: algebra_simps)
qed

text \<open>The worst case a row names is the sets' exact loss, rounded twice.\<close>

lemma ulp_powers: "1 + 9 * ulp \<le> (1 - ulp) * ((1 - ulp) * (1 + 16 * ulp))" "(1 + ulp) * ((1 + ulp) * (1 + ulp)) \<le> 1 + 16 * ulp"
  by (simp_all add: ulp_def)

lemma worst_case_near:
  assumes "0 \<le> n" "0 \<le> val perSet"
  shows "of_int n * val perSet * (1 + 9 * ulp) \<le> - val (- perSet * f64_of_int n) * (1 + 16 * ulp)"
    and "- val (- perSet * f64_of_int n) \<le> of_int n * val perSet * (1 + ulp) * (1 + ulp)"
proof -
  define s :: rat where "s = of_int n"
  define q where "q = val perSet"
  define w where "w = rnd (q * rnd s)"
  have w: "- val (- perSet * f64_of_int n) = w" by (simp add: w_def s_def q_def val_mult val_lit)
  have s: "0 \<le> s" and q: "0 \<le> q" using assms by (simp_all add: s_def q_def)
  then have qs: "0 \<le> q * rnd s" by simp
  have u: "0 < ulp" "ulp < 1 / 1000000" by (rule ulp_bounds)+
  have "s * (1 - ulp) * (q * (1 - ulp)) \<le> rnd s * (q * (1 - ulp))"
    using rnd_near(1) [OF s] q u by (intro mult_right_mono) auto
  also have "\<dots> \<le> w" using rnd_near(1) [OF qs] by (simp add: w_def ac_simps)
  finally have low: "s * q * ((1 - ulp) * (1 - ulp)) \<le> w" by (simp add: ac_simps)
  have "s * q * (1 + 9 * ulp) \<le> s * q * ((1 - ulp) * ((1 - ulp) * (1 + 16 * ulp)))"
    using s q by (intro mult_left_mono ulp_powers) auto
  also have "\<dots> = s * q * ((1 - ulp) * (1 - ulp)) * (1 + 16 * ulp)" by (simp only: mult.assoc)
  also have "\<dots> \<le> w * (1 + 16 * ulp)" using low u by (intro mult_right_mono) auto
  finally show "of_int n * val perSet * (1 + 9 * ulp) \<le> - val (- perSet * f64_of_int n) * (1 + 16 * ulp)"
    unfolding w by (simp only: s_def q_def)
  have "w \<le> q * rnd s * (1 + ulp)" using rnd_near(2) [OF qs] by (simp add: w_def)
  also have "\<dots> \<le> q * (s * (1 + ulp)) * (1 + ulp)"
    using rnd_near(2) [OF s] q u by (intro mult_right_mono mult_left_mono) auto
  finally show "- val (- perSet * f64_of_int n) \<le> of_int n * val perSet * (1 + ulp) * (1 + ulp)"
    unfolding w by (simp add: s_def q_def ac_simps)
qed

subsection \<open>What the scorer answers\<close>

lemma place_Some:
  assumes "place a spot sigma moves short long = Some p"
  shows "0 < per_set a short long" "\<not> pair_credit a short long > pair_width short long / lit 2"
    "1 \<le> pl_Sets p" "pl_Sets p = sets_for a (per_set a short long)" "pl_WorstCase p = - per_set a short long * f64_of_int (pl_Sets p)"
    "pl_ShortStrike p = lg_strike short" "pl_LongStrike p = lg_strike long" "pl_Credit p = pair_credit a short long"
    "pl_ShortSigma p = distance a (lg_strike short) spot sigma" "pl_ValleySigma p = distance a (lg_strike long) spot sigma"
    "pl_ShortSymbol p = lg_symbol short" "pl_LongSymbol p = lg_symbol long"
  using assms by (auto simp: place_def Let_def not_le not_less split: if_splits)

lemma in_pairings: "(short, long) \<in> set (pairings a spot sigma legs) \<longleftrightarrow>
    short \<in> set legs \<and> long \<in> set legs \<and> permitted a spot sigma short long"
  by (auto simp: pairings_def)

lemma the_best_subset: "set (the_best a found) \<subseteq> set found"
  by (auto simp: the_best_def Let_def dest: in_set_takeD)

text \<open>What an answer is made of: the environment's answers, and every row built from them.\<close>

definition scored_from :: "market_env \<Rightarrow> Ask \<Rightarrow> Answer \<Rightarrow> f64 list \<Rightarrow> f64 list \<Rightarrow> Contract list \<Rightarrow> (string \<rightharpoonup> Quote) \<Rightarrow> bool" where
  "scored_from k a answer closes moves contracts quotes \<longleftrightarrow>
     (let days = tradingDaysUntil (mk_now k) (as_Expiration a) (mk_where k);
          (low, high) = band a (an_Price answer) (an_Sigma answer) in
      mk_closes k (as_Underlying a) = Ok closes \<and> 1 \<le> days \<and>
      windows (mk_math k) closes (nat days) = Ok (moves, an_Volatility answer) \<and>
      mk_chain k (as_Underlying a) low high (as_Expiration a) (as_Kind a) 500 = Ok (contracts, quotes))"

lemma Score_Ok:
  assumes "Score k a = Ok answer"
  obtains closes moves contracts quotes where "check_ask a = Ok ()" "0 < an_Price answer" "0 < an_Sigma answer"
    "scored_from k a answer closes moves contracts quotes"
    "an_Placements answer = the_best a (fst (enumerate_placements a (usable contracts quotes a) (an_Price answer) (an_Sigma answer) moves))"
    "an_Considered answer = snd (enumerate_placements a (usable contracts quotes a) (an_Price answer) (an_Sigma answer) moves)"
  using assms
  by (auto simp: Score_def scored_from_def Let_def not_le case_prod_beta intro!: that split: sum.splits if_splits)

lemma in_the_best:
  assumes "q \<in> set found" "q \<notin> set (the_best a found)" "p \<in> set (the_best a found)"
  shows "pl_Expected q \<le> pl_Expected p"
proof -
  let ?o = "sort_by (\<lambda>x y. pl_Expected x > pl_Expected y) found" and ?n = "nat (as_Most a)"
  have cut: "the_best a found = take ?n ?o" using assms(1,2) by (auto simp: the_best_def Let_def split: if_splits)
  have "sorted_wrt (\<lambda>p q. \<not> pl_Expected q > pl_Expected p) (take ?n ?o @ drop ?n ?o)"
    by (simp del: sorted_wrt_append) (rule sorted_sort_by; auto)
  moreover have "q \<in> set (drop ?n ?o)"
    using assms(1,2) unfolding cut by (metis Un_iff append_take_drop_id set_append set_sort_by)
  ultimately show ?thesis using assms(3) unfolding cut sorted_wrt_append by (auto simp: not_less)
qed

lemma sorted_the_best: "sorted_wrt (\<lambda>p q. pl_Expected q \<le> pl_Expected p) (the_best a found)"
proof -
  have "sorted_wrt (\<lambda>p q. \<not> pl_Expected q > pl_Expected p) (sort_by (\<lambda>x y. pl_Expected x > pl_Expected y) found)"
    by (rule sorted_sort_by) auto
  then show ?thesis by (simp add: the_best_def Let_def not_less sorted_wrt_take)
qed

lemma in_set_map_filter: "q \<in> set (List.map_filter f xs) \<longleftrightarrow> (\<exists>x \<in> set xs. f x = Some q)"
  by (induction xs) (auto simp: map_filter_simps split: option.split)

lemma found_placements: "q \<in> set (fst (enumerate_placements a legs spot sigma moves)) \<longleftrightarrow>
    (\<exists>short \<in> set legs. \<exists>long \<in> set legs. permitted a spot sigma short long \<and> place a spot sigma moves short long = Some q)"
  by (auto simp: enumerate_placements_def in_set_map_filter in_pairings Bex_def split_paired_Ex)

text \<open>C21. A row of an answer never costs more than it says. At every price of the underlying, not only at
  those history reached, the sets it names are worth no less than the worst case it names, and that
  worst case is within the ceiling it was asked to hold, each to one part in two to the forty-ninth for
  the rounding of doubles.\<close>

theorem a_row_loses_no_more_than_it_says:
  assumes "Score k a = Ok answer" "p \<in> set (an_Placements answer)"
  shows "val (pl_WorstCase p) * (1 + 1 / 2 ^ 49)
      \<le> 100 * of_int (pl_Sets p) * row_worth a (pl_ShortStrike p) (pl_LongStrike p) (pl_Credit p) x \<and>
    - val (pl_WorstCase p) \<le> val (as_WorstCaseMost a) * (1 + 1 / 2 ^ 49)"
proof -
  obtain moves legs where o: "check_ask a = Ok ()"
    "an_Placements answer = the_best a (fst (enumerate_placements a legs (an_Price answer) (an_Sigma answer) moves))"
    using assms(1) by (elim Score_Ok)
  obtain short long where pair: "permitted a (an_Price answer) (an_Sigma answer) short long"
    "place a (an_Price answer) (an_Sigma answer) moves short long = Some p"
    using assms(2) the_best_subset unfolding o(2) by (meson found_placements subsetD)
  note f = place_Some [OF pair(2)]
  let ?n = "pl_Sets p" and ?s = "per_set a short long" and ?W = "val (pl_WorstCase p)"
  have u: "1 + 16 * ulp = 1 + 1 / 2 ^ 49" by (simp add: ulp_def)
  have two: "2 \<le> as_Bought a" "0 \<le> as_WorstCaseMost a" using o(1) by (auto simp: check_ask_def not_le split: if_splits)
  have nn: "0 \<le> ?n" "0 \<le> val ?s" using f(1,3) by (simp_all add: less_f64_iff)
  have "further a (lg_strike long) (lg_strike short)" using pair(1) by (simp add: permitted_def Let_def)
  then have "- (of_int ?n * val ?s) * (1 + 9 * ulp)
      \<le> 100 * of_int ?n * row_worth a (lg_strike short) (lg_strike long) (pair_credit a short long) x"
    using two(1) f(1,2) nn(1) by (rule row_value_bound)
  moreover have "of_int ?n * val ?s * (1 + 9 * ulp) \<le> - ?W * (1 + 16 * ulp)"
    unfolding f(5) by (rule worst_case_near(1) [OF nn])
  ultimately have worth: "?W * (1 + 16 * ulp)
      \<le> 100 * of_int ?n * row_worth a (lg_strike short) (lg_strike long) (pair_credit a short long) x"
    by simp
  have "- ?W \<le> of_int ?n * val ?s * (1 + ulp) * (1 + ulp)"
    unfolding f(5) by (rule worst_case_near(2) [OF nn])
  also have "\<dots> \<le> val (as_WorstCaseMost a) * (1 + ulp) * (1 + ulp) * (1 + ulp)"
    using sets_for_le [OF f(1) two(2)] ulp_bounds unfolding f(4) by (intro mult_right_mono) auto
  also have "\<dots> = val (as_WorstCaseMost a) * ((1 + ulp) * ((1 + ulp) * (1 + ulp)))" by (simp only: mult.assoc)
  also have "\<dots> \<le> val (as_WorstCaseMost a) * (1 + 16 * ulp)"
    using two(2) by (intro mult_left_mono ulp_powers) (simp add: le_f64_iff)
  finally show ?thesis using worth unfolding u f(6-8) by blast
qed

text \<open>What the scorer answers is the best of what was allowed: every row is a pairing that stands where it
  was asked to stand, the sold strike within its band and the valley beyond its least, of at least one
  set; the rows run from the best expectation down, no more of them than were asked for, and no row
  left out has a better expectation than one that is shown.\<close>

theorem the_best_permitted_rows:
  assumes "Score k a = Ok answer"
  shows "\<exists>closes moves contracts quotes. scored_from k a answer closes moves contracts quotes \<and>
    (let legs = set (usable contracts quotes a); spot = an_Price answer; sigma = an_Sigma answer;
         rows = {q. \<exists>short \<in> legs. \<exists>long \<in> legs. permitted a spot sigma short long \<and>
                  place a spot sigma moves short long = Some q} in
     set (an_Placements answer) \<subseteq> rows \<and>
     (\<forall>p \<in> set (an_Placements answer). \<forall>q \<in> rows - set (an_Placements answer). pl_Expected q \<le> pl_Expected p)) \<and>
    sorted_wrt (\<lambda>p q. pl_Expected q \<le> pl_Expected p) (an_Placements answer) \<and>
    (as_Most a > 0 \<longrightarrow> int (length (an_Placements answer)) \<le> as_Most a) \<and>
    (\<forall>p \<in> set (an_Placements answer). 1 \<le> pl_Sets p \<and>
      as_ShortLeastSigma a \<le> pl_ShortSigma p \<and> pl_ShortSigma p \<le> most_sigma a \<and>
      as_ValleyLeastSigma a \<le> pl_ValleySigma p \<and> further a (pl_LongStrike p) (pl_ShortStrike p))"
proof -
  obtain closes moves contracts quotes where o: "scored_from k a answer closes moves contracts quotes"
    "an_Placements answer = the_best a (fst (enumerate_placements a (usable contracts quotes a) (an_Price answer) (an_Sigma answer) moves))"
    using assms by (elim Score_Ok)
  let ?found = "fst (enumerate_placements a (usable contracts quotes a) (an_Price answer) (an_Sigma answer) moves)"
  have rows: "set ?found = {q. \<exists>short \<in> set (usable contracts quotes a). \<exists>long \<in> set (usable contracts quotes a).
      permitted a (an_Price answer) (an_Sigma answer) short long \<and>
      place a (an_Price answer) (an_Sigma answer) moves short long = Some q}"
    by (rule set_eqI) (simp add: found_placements)
  have each: "1 \<le> pl_Sets p \<and> as_ShortLeastSigma a \<le> pl_ShortSigma p \<and> pl_ShortSigma p \<le> most_sigma a \<and>
      as_ValleyLeastSigma a \<le> pl_ValleySigma p \<and> further a (pl_LongStrike p) (pl_ShortStrike p)" if "p \<in> set ?found" for p
  proof -
    obtain short long where pair: "permitted a (an_Price answer) (an_Sigma answer) short long"
      "place a (an_Price answer) (an_Sigma answer) moves short long = Some p"
      using \<open>p \<in> set ?found\<close> unfolding found_placements by blast
    show ?thesis using pair(1) place_Some(3,6,7,9,10) [OF pair(2)] by (auto simp: permitted_def Let_def not_less)
  qed
  have short: "int (length (an_Placements answer)) \<le> as_Most a" if "as_Most a > 0"
    using that by (auto simp: o(2) the_best_def Let_def)
  show ?thesis
  proof (intro exI conjI)
    show "scored_from k a answer closes moves contracts quotes" by (rule o(1))
    show "let legs = set (usable contracts quotes a); spot = an_Price answer; sigma = an_Sigma answer;
        rows = {q. \<exists>short \<in> legs. \<exists>long \<in> legs. permitted a spot sigma short long \<and> place a spot sigma moves short long = Some q}
      in set (an_Placements answer) \<subseteq> rows \<and>
        (\<forall>p \<in> set (an_Placements answer). \<forall>q \<in> rows - set (an_Placements answer). pl_Expected q \<le> pl_Expected p)"
      unfolding Let_def rows [symmetric] o(2) using the_best_subset in_the_best by blast
    show "sorted_wrt (\<lambda>p q. pl_Expected q \<le> pl_Expected p) (an_Placements answer)"
      unfolding o(2) by (rule sorted_the_best)
    show "as_Most a > 0 \<longrightarrow> int (length (an_Placements answer)) \<le> as_Most a" using short by blast
    show "\<forall>p \<in> set (an_Placements answer). 1 \<le> pl_Sets p \<and>
      as_ShortLeastSigma a \<le> pl_ShortSigma p \<and> pl_ShortSigma p \<le> most_sigma a \<and>
      as_ValleyLeastSigma a \<le> pl_ValleySigma p \<and> further a (pl_LongStrike p) (pl_ShortStrike p)"
      using each the_best_subset unfolding o(2) by blast
  qed
qed

end
