(* ===== verification/PlacementExample.thy ===== *)
theory PlacementExample
  imports PlacementLaws
begin

text \<open>
  A call backspread scored from one day to the next: two calls above a price of 128, a history of ninety
  days, one permitted pairing of ten sets. The properties of the scorer hold there with their hypothesis
  discharged. The square root is a constant, so the volatility is the same on every day.
\<close>

definition pe_ask :: Ask where
  "pe_ask = \<lparr>as_Underlying = ''XYZ'', as_Expiration = \<lparr>d_year = 2026, d_month = 9, d_day = 3\<rparr>, as_Kind = ''call'',
     as_Bought = 2, as_ShortLeastSigma = lit (1 / 4), as_ValleyLeastSigma = lit (3 / 4), as_ShortMostSigma = 0,
     as_WorstCaseMost = lit 500, as_Most = 1\<rparr>"

definition pe_call :: "string \<Rightarrow> f64 \<Rightarrow> Contract" where
  "pe_call s k = \<lparr>c_Symbol = s, c_Expiration = \<lparr>d_year = 2026, d_month = 9, d_day = 3\<rparr>, c_Strike = k, c_Type = ''call''\<rparr>"

definition pe_quote :: "f64 \<Rightarrow> f64 \<Rightarrow> Quote" where
  "pe_quote b a = \<lparr>q_Symbol = [], q_Bid = b, q_Ask = a, q_BidSize = 1, q_AskSize = 1,
     q_ImpliedVolatility = None, q_Delta = None\<rparr>"

definition pe_chain :: "Contract list" where
  "pe_chain = [pe_call ''B'' (lit 130), pe_call ''A'' (lit 129)]"

definition pe_quotes :: "string \<rightharpoonup> Quote" where
  "pe_quotes = [''A'' \<mapsto> pe_quote (lit (3 / 2)) (lit 2), ''B'' \<mapsto> pe_quote (lit (1 / 4)) (lit (1 / 2))]"

definition pe_math :: math_fns where
  "pe_math = \<lparr>m_sqrt = \<lambda>x. lit (1 / 4), m_log = id, m_erfc = id\<rparr>"

definition pe_closes :: "f64 list" where
  "pe_closes = replicate 90 (lit 128)"

definition pe_market :: market_env where
  "pe_market = \<lparr>mk_trades = \<lambda>u. Ok [u \<mapsto> lit 128], mk_closes = \<lambda>u. Ok pe_closes,
     mk_chain = \<lambda>u low high expiry kind most. Ok (pe_chain, pe_quotes),
     mk_now = days_of \<lparr>d_year = 2026, d_month = 9, d_day = 2\<rparr> * day_ns, mk_where = None, mk_math = pe_math\<rparr>"

lemma pe_days: "tradingDaysUntil (mk_now pe_market) (as_Expiration pe_ask) (mk_where pe_market) = 1"
proof -
  have d: "days_of \<lparr>d_year = 2026, d_month = 9, d_day = 2\<rparr> = 20698" "days_of \<lparr>d_year = 2026, d_month = 9, d_day = 3\<rparr> = 20699"
    by code_simp+
  have "tradingDaysUntil (mk_now pe_market) (as_Expiration pe_ask) (mk_where pe_market) = count_days 20699 20699 0"
    by (simp add: tradingDaysUntil_def pe_market_def pe_ask_def d date_in_def days_of_date_of_days UTC_def Let_def day_ns_def hour_def minute_def second_def)
  also have "\<dots> = 1"
    by (simp add: count_days.simps [of 20699] count_days.simps [of 20700] is_weekday_def weekday_of_days_def)
  finally show ?thesis .
qed

lemma pe_deviation: "2 \<le> length xs \<Longrightarrow> deviation pe_math xs = lit (1 / 4)"
  by (simp add: deviation_def pe_math_def Let_def)

lemma pe_rolling:
  assumes "19 \<le> i" "i < 89"
  shows "rolling_at pe_math (log_moves pe_math pe_closes) i = Some (lit (1 / 16))"
proof -
  have "2 \<le> length (take volWindow (drop (i + 1 - volWindow) (log_moves pe_math pe_closes)))"
    using assms by (simp add: log_moves_def pe_closes_def volWindow_def)
  moreover have "m_sqrt pe_math x = lit (1 / 4)" for x by (simp add: pe_math_def)
  moreover have "lit (1 / 4) * lit (1 / 4) = lit (1 / 16)" by (simp add: f64_eval)
  ultimately show ?thesis using assms by (auto simp: rolling_at_def volWindow_def pe_deviation simp del: length_take length_drop)
qed

lemma pe_windows: "\<exists>moves. windows pe_math pe_closes 1 = Ok (moves, lit (1 / 16))"
proof -
  let ?logs = "log_moves pe_math pe_closes"
  let ?rolling = "map (rolling_at pe_math ?logs) [0..<length ?logs]"
  have n: "length ?logs = 89" "length pe_closes = 90" by (simp_all add: log_moves_def pe_closes_def)
  have "last ?rolling = ?rolling ! 88" using n by (subst last_conv_nth) auto
  then have last: "last ?rolling = Some (lit (1 / 16))" using n pe_rolling [of 88] by simp
  have near: "\<not> lit (1 / 16) < lit (1 / 16) * lit (1 - near)" "\<not> lit (1 / 16) > lit (1 / 16) * lit (1 + near)"
    by (simp_all add: near_def f64_eval)
  have kept: "window_kept ?rolling (lit (1 / 16)) i" if "20 \<le> i" "i < 89" for i
    using that n near by (simp add: window_kept_def pe_rolling del: upt_rec_numeral)
  have "filter (window_kept ?rolling (lit (1 / 16))) [20..<89] = [20..<89]"
    using kept by (intro filter_True) (simp del: upt_rec_numeral)
  then have "60 \<le> length (filter (window_kept ?rolling (lit (1 / 16))) [20..<89])"
    by (simp del: upt_rec_numeral)
  also have "\<dots> \<le> length (filter (window_kept ?rolling (lit (1 / 16))) [0..<89])"
  proof -
    have "[0..<89] = [0..<20] @ [20..<89]" using upt_add_eq_append [of 0 20 69] by (simp del: upt_rec_numeral)
    then show ?thesis by (simp del: upt_rec_numeral)
  qed
  finally have enough: "60 \<le> length (filter (window_kept ?rolling (lit (1 / 16))) [0..<89])" .
  moreover have "\<not> lit (1 / 16) \<le> 0" by (simp add: f64_eval)
  ultimately show ?thesis
    using last n by (simp add: windows_def Let_def volWindow_def not_less del: upt_rec_numeral)
qed

lemma pe_arith:
  "\<not> lit (3 / 2) \<le> 0" "\<not> lit 2 \<le> 0" "\<not> lit 2 < lit (3 / 2)" "\<not> lit (1 / 4) \<le> 0" "\<not> lit (1 / 2) \<le> 0" "\<not> lit (1 / 2) < lit (1 / 4)"
  "\<not> lit 128 \<le> 0" "lit (1 / 16) * lit (1 / 4) * lit 128 = lit 2" "\<not> lit 500 \<le> 0" "lit 130 > lit 129" "\<not> lit 129 > lit 130"
  "(lit 129 - lit 128) / lit 2 = lit (1 / 2)" "(lit 130 - lit 128) / lit 2 = 1" "lit (3 / 2) - lit 2 * lit (1 / 2) = lit (1 / 2)"
  "\<not> lit (1 / 2) < lit (1 / 4)" "\<not> lit (1 / 2) > lit 4" "\<not> 1 < lit (3 / 4)" "\<bar>lit 130 - lit 129\<bar> = (1 :: f64)" "1 - lit (1 / 2) = lit (1 / 2)"
  "lit (1 / 2) * lit 100 = lit 50" "\<not> lit 50 \<le> 0" "lit 500 / lit 50 = lit 10"
  by (simp_all add: f64_eval)

definition pe_leg :: "string \<Rightarrow> f64 \<Rightarrow> f64 \<Rightarrow> f64 \<Rightarrow> leg" where
  "pe_leg s k b a = \<lparr>lg_symbol = s, lg_strike = k, lg_bid = b, lg_ask = a\<rparr>"

lemma pe_usable: "usable pe_chain pe_quotes pe_ask =
    [pe_leg ''A'' (lit 129) (lit (3 / 2)) (lit 2), pe_leg ''B'' (lit 130) (lit (1 / 4)) (lit (1 / 2))]"
  by (simp add: usable_def pe_chain_def pe_quotes_def map_filter_simps usable_leg_def pe_call_def pe_ask_def pe_quote_def
      pe_arith pe_leg_def)

lemma pe_place: "\<exists>p. place pe_ask (lit 128) (lit 2) moves (pe_leg ''A'' (lit 129) (lit (3 / 2)) (lit 2))
    (pe_leg ''B'' (lit 130) (lit (1 / 4)) (lit (1 / 2))) = Some p"
  by (simp add: place_def pair_credit_def pair_width_def per_set_def sets_for_def pe_leg_def pe_ask_def pe_arith Let_def)
    (simp add: ffloor_def ftrunc_def f64_eval)

lemma pe_permitted: "permitted pe_ask (lit 128) (lit 2) (pe_leg ''A'' (lit 129) (lit (3 / 2)) (lit 2))
    (pe_leg ''B'' (lit 130) (lit (1 / 4)) (lit (1 / 2)))"
  by (simp add: permitted_def distance_def is_call_def further_def most_sigma_def pe_leg_def pe_ask_def pe_arith Let_def)

lemma the_best_nonempty: "as_Most a = 1 \<Longrightarrow> found \<noteq> [] \<Longrightarrow> the_best a found \<noteq> []"
proof -
  assume "as_Most a = 1" "found \<noteq> []"
  moreover have "sort_by lt found \<noteq> []" for lt using \<open>found \<noteq> []\<close> by (metis set_sort_by set_empty)
  ultimately show "the_best a found \<noteq> []" by (simp add: the_best_def Let_def)
qed

lemma pe_score: "\<exists>answer p. Score pe_market pe_ask = Ok answer \<and> p \<in> set (an_Placements answer)"
proof -
  obtain moves where moves: "windows pe_math pe_closes 1 = Ok (moves, lit (1 / 16))" using pe_windows by blast
  have m: "mk_math pe_market = pe_math" "m_sqrt pe_math y = lit (1 / 4)" for y by (simp_all add: pe_market_def pe_math_def)
  have env: "mk_trades pe_market u = Ok [u \<mapsto> lit 128]" "mk_closes pe_market u = Ok pe_closes"
    "mk_chain pe_market u low high e kind most = Ok (pe_chain, pe_quotes)" for u low high e kind most
    by (simp_all add: pe_market_def)
  let ?rows = "fst (enumerate_placements pe_ask (usable pe_chain pe_quotes pe_ask) (lit 128) (lit 2) moves)"
  have check: "check_ask pe_ask = Ok ()" by (simp add: check_ask_def pe_ask_def pe_arith)
  have "\<exists>answer. Score pe_market pe_ask = Ok answer \<and> an_Placements answer = the_best pe_ask ?rows"
    by (simp add: Score_def check env pe_days m moves [simplified] pe_arith Let_def case_prod_beta)
  then obtain answer where answer: "Score pe_market pe_ask = Ok answer" "an_Placements answer = the_best pe_ask ?rows"
    by blast
  obtain p where "place pe_ask (lit 128) (lit 2) moves (pe_leg ''A'' (lit 129) (lit (3 / 2)) (lit 2))
      (pe_leg ''B'' (lit 130) (lit (1 / 4)) (lit (1 / 2))) = Some p" using pe_place by blast
  then have "p \<in> set ?rows" unfolding found_placements pe_usable using pe_permitted by (meson list.set_intros)
  then have "?rows \<noteq> []" by (metis empty_iff list.set(1))
  moreover have "as_Most pe_ask = 1" by (simp add: pe_ask_def)
  ultimately have "the_best pe_ask ?rows \<noteq> []" by (rule the_best_nonempty [rotated])
  then have "hd (the_best pe_ask ?rows) \<in> set (an_Placements answer)" unfolding answer(2) by (rule hd_in_set)
  then show ?thesis using answer(1) by blast
qed

theorem a_row_loses_no_more_than_it_says_witness:
  "\<exists>answer p. Score pe_market pe_ask = Ok answer \<and> p \<in> set (an_Placements answer) \<and>
    val (pl_WorstCase p) * (1 + 1 / 2 ^ 49) \<le>
      100 * of_int (pl_Sets p) * row_worth pe_ask (pl_ShortStrike p) (pl_LongStrike p) (pl_Credit p) 130 \<and>
    - val (pl_WorstCase p) \<le> val (as_WorstCaseMost pe_ask) * (1 + 1 / 2 ^ 49)"
  using pe_score a_row_loses_no_more_than_it_says [of pe_market pe_ask _ _ 130] by blast

theorem the_best_permitted_rows_witness:
  "\<exists>answer. Score pe_market pe_ask = Ok answer \<and> an_Placements answer \<noteq> [] \<and> length (an_Placements answer) \<le> 1"
proof -
  obtain answer p where a: "Score pe_market pe_ask = Ok answer" "p \<in> set (an_Placements answer)"
    using pe_score by blast
  have "as_Most pe_ask > 0 \<longrightarrow> int (length (an_Placements answer)) \<le> as_Most pe_ask"
    using the_best_permitted_rows [OF a(1)] by blast
  then show ?thesis using a by (auto simp: pe_ask_def)
qed

end
