(* ===== verification/GoDuration.thy ===== *)
theory GoDuration
  imports GoTime
begin

text \<open>
  Durations and hours of the day as Go's \<open>time\<close> reads them: \<open>time.ParseDuration\<close> with its overflow
  checks on 64 bits, and \<open>time.Parse("15:04", s)\<close>. An instant with a place is \<open>zoned\<close>; its clock
  fields are read through the offset in force there.
\<close>

subsection \<open>Reading a duration\<close>

text \<open>The digits in front, refused once they pass two to the sixty-third.\<close>

fun leadingInt :: "nat \<Rightarrow> string \<Rightarrow> (nat \<times> string) option" where
  "leadingInt x [] = Some (x, [])"
| "leadingInt x (c # s) =
     (if \<not> is_digit c then Some (x, c # s)
      else if x > 2 ^ 63 div 10 then None
      else if x * 10 + digit_val c > 2 ^ 63 then None
      else leadingInt (x * 10 + digit_val c) s)"

text \<open>The digits after a point, with the power of ten they are over; digits past the overflow are passed by.\<close>

fun leadingFraction :: "nat \<Rightarrow> f64 \<Rightarrow> bool \<Rightarrow> string \<Rightarrow> nat \<times> f64 \<times> string" where
  "leadingFraction x scale overflow [] = (x, scale, [])"
| "leadingFraction x scale overflow (c # s) =
     (if \<not> is_digit c then (x, scale, c # s)
      else if overflow then leadingFraction x scale True s
      else if x > (2 ^ 63 - 1) div 10 then leadingFraction x scale True s
      else if x * 10 + digit_val c > 2 ^ 63 then leadingFraction x scale True s
      else leadingFraction (x * 10 + digit_val c) (scale * lit 10) False s)"

definition is_unit_char :: "char \<Rightarrow> bool" where
  "is_unit_char c \<longleftrightarrow> c \<noteq> CHR ''.'' \<and> \<not> is_digit c"

definition unitMap :: "string \<rightharpoonup> nat" where
  "unitMap u =
     (if u = ''ns'' then Some 1
      else if u \<in> {''us'', [char_of (194 :: nat), char_of (181 :: nat), CHR ''s''], [char_of (206 :: nat), char_of (188 :: nat), CHR ''s'']}
        then Some 1000
      else if u = ''ms'' then Some 1000000
      else if u = ''s'' then Some 1000000000
      else if u = ''m'' then Some 60000000000
      else if u = ''h'' then Some 3600000000000
      else None)"

text \<open>One number with its unit, added to what was read before.\<close>

definition one_term :: "nat \<Rightarrow> string \<Rightarrow> (nat \<times> string) option" where
  "one_term d s =
     (if s = [] \<or> \<not> (hd s = CHR ''.'' \<or> is_digit (hd s)) then None else
      (case leadingInt 0 s of None \<Rightarrow> None | Some (v, s1) \<Rightarrow>
       let pre = length s1 \<noteq> length s;
           point = (s1 \<noteq> [] \<and> hd s1 = CHR ''.'');
           (f, scale, s2) = (if point then leadingFraction 0 1 False (tl s1) else (0, 1, s1));
           post = (point \<and> length s2 \<noteq> length (tl s1));
           u = takeWhile is_unit_char s2; rest = dropWhile is_unit_char s2 in
       if \<not> pre \<and> \<not> post then None
       else if u = [] then None
       else (case unitMap u of None \<Rightarrow> None | Some unit \<Rightarrow>
         if v > 2 ^ 63 div unit then None else
         let v' = v * unit +
               (if f > 0 then nat (ftrunc (f64_of_int (int f) * (f64_of_int (int unit) / scale))) else 0) in
         if v' > 2 ^ 63 then None
         else if d + v' > 2 ^ 63 then None
         else Some (d + v', rest))))"

lemma leadingInt_length: "leadingInt x s = Some (y, r) \<Longrightarrow> length r \<le> length s"
  by (induction x s rule: leadingInt.induct) (fastforce split: if_splits)+

lemma leadingFraction_length: "length (snd (snd (leadingFraction x sc b s))) \<le> length s"
  by (induction x sc b s rule: leadingFraction.induct) (auto split: if_splits intro: le_SucI)

lemma dropWhile_shorter: "takeWhile P s \<noteq> [] \<Longrightarrow> length (dropWhile P s) < length s"
  by (cases s) (auto split: if_splits simp: length_dropWhile_le le_imp_less_Suc)

lemma one_term_shorter:
  assumes "one_term d s = Some (d', rest)"
  shows "length rest < length s"
proof -
  obtain v s1 where a: "leadingInt 0 s = Some (v, s1)" using assms by (auto simp: one_term_def split: if_splits option.splits)
  define s2 where "s2 = snd (snd (if s1 \<noteq> [] \<and> hd s1 = CHR ''.'' then leadingFraction 0 1 False (tl s1) else (0, 1, s1)))"
  have b: "takeWhile is_unit_char s2 \<noteq> []" "rest = dropWhile is_unit_char s2"
    using assms a by (auto simp: one_term_def s2_def Let_def split: if_splits option.splits prod.splits)
  have "length s2 \<le> length s1"
    using leadingFraction_length [of 0 1 False "tl s1"] by (auto simp: s2_def split: if_splits)
  with dropWhile_shorter [OF b(1)] leadingInt_length [OF a] show ?thesis by (simp add: b(2))
qed

function all_terms :: "nat \<Rightarrow> string \<Rightarrow> nat option" where
  "all_terms d s =
     (if s = [] then Some d
      else (case one_term d s of None \<Rightarrow> None | Some (d', rest) \<Rightarrow> all_terms d' rest))"
  by pat_completeness auto
termination by (relation "measure (\<lambda>(d, s). length s)") (auto dest: one_term_shorter)

declare all_terms.simps [simp del]

definition ParseDuration :: "string \<Rightarrow> duration option" where
  "ParseDuration s =
     (let signed = (s \<noteq> [] \<and> (hd s = CHR ''-'' \<or> hd s = CHR ''+''));
          neg = (s \<noteq> [] \<and> hd s = CHR ''-'');
          s = (if signed then tl s else s) in
      if s = ''0'' then Some 0
      else if s = [] then None
      else (case all_terms 0 s of
              None \<Rightarrow> None
            | Some d \<Rightarrow> if neg then Some (- int d) else if d > 2 ^ 63 - 1 then None else Some (int d)))"

text \<open>What is read fits in 64 bits.\<close>

lemma one_term_bound: "one_term d s = Some (d', rest) \<Longrightarrow> d' \<le> 2 ^ 63"
  by (auto simp: one_term_def Let_def split: if_splits option.splits prod.splits)

lemma all_terms_bound: "d \<le> 2 ^ 63 \<Longrightarrow> all_terms d s = Some d' \<Longrightarrow> d' \<le> 2 ^ 63"
proof (induction d s rule: all_terms.induct)
  case (1 d s)
  then show ?case
    by (subst (asm) all_terms.simps) (auto split: if_splits option.splits dest: one_term_bound)
qed

lemma ParseDuration_int64:
  assumes "ParseDuration s = Some d"
  shows "- (2 ^ 63) \<le> d \<and> d < 2 ^ 63"
  using assms all_terms_bound [of 0]
  by (fastforce simp: ParseDuration_def Let_def split: if_splits option.splits)

subsection \<open>An hour of the day\<close>

text \<open>One or two digits for the hour, a colon, two for the minute, and nothing after.\<close>

definition parse_hhmm :: "string \<Rightarrow> (int \<times> int) option" where
  "parse_hhmm s =
     (let n = length (takeWhile is_digit (take 2 s)) in
      if n = 0 then None else
      (case (parse_nat (take n s), drop n s) of
         (Some h, [c, a, b]) \<Rightarrow>
           if c = CHR '':'' \<and> is_digit a \<and> is_digit b \<and> h < 24 \<and> digit_val a * 10 + digit_val b < 60
           then Some (int h, int (digit_val a * 10 + digit_val b)) else None
       | _ \<Rightarrow> None))"

lemma parse_hhmm_bounds: "parse_hhmm s = Some (h, m) \<Longrightarrow> 0 \<le> h \<and> h < 24 \<and> 0 \<le> m \<and> m < 60"
  by (auto simp: parse_hhmm_def Let_def split: if_splits option.splits list.splits)

subsection \<open>An instant in a place\<close>

record zoned =
  z_at :: time
  z_loc :: location

definition local_ns :: "zoned \<Rightarrow> time" where
  "local_ns t = z_at t + z_loc t (z_at t)"

definition Date_of :: "zoned \<Rightarrow> date" where
  "Date_of t = date_in (z_loc t) (z_at t)"

definition Hour :: "zoned \<Rightarrow> int" where
  "Hour t = local_ns t mod day_ns div hour"

definition Minute :: "zoned \<Rightarrow> int" where
  "Minute t = local_ns t mod hour div minute"

definition Weekday :: "zoned \<Rightarrow> int" where
  "Weekday t = weekday_of_days (local_ns t div day_ns)"

definition YearDay :: "zoned \<Rightarrow> int" where
  "YearDay t = days_of (Date_of t) - days_of \<lparr>d_year = d_year (Date_of t), d_month = 1, d_day = 1\<rparr> + 1"

definition In_place :: "time \<Rightarrow> location \<Rightarrow> zoned" where
  "In_place t loc = \<lparr>z_at = t, z_loc = loc\<rparr>"

lemma same_day: "YearDay a = YearDay b \<and> d_year (Date_of a) = d_year (Date_of b) \<longleftrightarrow>
    local_ns a div day_ns = local_ns b div day_ns"
proof -
  have d: "days_of (Date_of t) = local_ns t div day_ns" for t
    by (simp add: Date_of_def date_in_def local_ns_def days_of_date_of_days)
  have "Date_of a = Date_of b" if "local_ns a div day_ns = local_ns b div day_ns"
    using that by (simp add: Date_of_def date_in_def local_ns_def)
  then show ?thesis by (auto simp: YearDay_def d)
qed

text \<open>Hours and minutes since midnight, as the schedule counts them.\<close>

lemma hour_minute_floor: "Hour t * hour + Minute t * minute = local_ns t mod day_ns div minute * minute"
proof -
  let ?x = "local_ns t mod day_ns"
  have u: "hour = 60 * minute" "day_ns = 24 * hour" "0 < minute" by (simp_all add: hour_def day_ns_def minute_def second_def)
  have "local_ns t mod hour = ?x mod hour" by (simp add: u(2) mod_mod_cancel)
  then have "Minute t = ?x mod hour div minute" by (simp add: Minute_def)
  also have "\<dots> = (minute * (?x div minute mod 60) + ?x mod minute) div minute"
    by (simp add: u(1) mult.commute [of 60] zmod_zmult2_eq u(3))
  also have "\<dots> = ?x div minute mod 60"
    using u(3) by (simp add: div_pos_pos_trivial)
  finally have m: "Minute t = ?x div minute mod 60" .
  have "Hour t = ?x div minute div 60" by (simp add: Hour_def u(1) zdiv_zmult2_eq mult.commute [of 60])
  then have "Hour t * 60 + Minute t = ?x div minute" by (simp add: m)
  from arg_cong [OF this, of "\<lambda>k. k * minute"] show ?thesis by (simp add: u(1) distrib_right)
qed

end
