(* ===== verification/Declaration.thy ===== *)
theory Declaration
  imports GoDuration "HOL-Library.List_Lexorder" "HOL-Library.Char_ord"
begin

text \<open>
  The file that says when a session runs (\<open>golang/internal/declaration\<close>): its sessions and parameters,
  what makes it acceptable, when a session is due, what it is told, and the watcher that puts a newer
  file in force. Reading the file, decoding its YAML and looking up a zone are the environment. A Go map
  is the list of its entries.
\<close>

subsection \<open>What a declaration holds\<close>

record Session =
  se_Name :: string
  se_Cause :: string
  se_Task :: string
  se_Model :: string
  se_At :: string
  se_Within :: string
  se_Days :: "string list"
  se_Every :: string
  se_Between :: "string list"
  se_CannotWait :: bool
  se_at :: duration
  se_within :: duration
  se_every :: duration
  se_from :: duration
  se_to :: duration
  se_days :: "int list"

type_synonym Parameters = "(string \<times> string) list"

record Declaration =
  dc_Kind :: string
  dc_Name :: string
  dc_Version :: string
  dc_Timezone :: string
  dc_Sessions :: "Session list"
  dc_Skills :: "string list"
  dc_Parameters :: Parameters
  dc_location :: "location option"
  dc_parameters :: string

definition declared_kind :: string where
  "declared_kind = ''trading-agent''"

subsection \<open>Checking a session\<close>

text \<open>Sunday is 0. Names are looked up in lower case.\<close>

definition weekdays :: "string \<rightharpoonup> int" where
  "weekdays = [''sun'' \<mapsto> 0, ''mon'' \<mapsto> 1, ''tue'' \<mapsto> 2, ''wed'' \<mapsto> 3, ''thu'' \<mapsto> 4, ''fri'' \<mapsto> 5, ''sat'' \<mapsto> 6]"

definition parseClock :: "string \<Rightarrow> duration option" where
  "parseClock v = map_option (\<lambda>(h, m). h * hour + m * minute) (parse_hhmm (TrimSpace v))"

datatype session_error =
    SessionNoName | SessionNoCause | SessionNoTask | BothAtAndEvery | NeitherAtNorEvery
  | BadAt string | WithinMissing | WithinNotADuration string | NeverLate duration
  | EveryNotADuration string | TooOften duration | NoWindow duration
  | BadStart string | BadEnd string | EndsBeforeStart string string | NotAWeekday string

definition check_at :: "Session \<Rightarrow> (session_error, Session) result" where
  "check_at s =
     (case parseClock (se_At s) of None \<Rightarrow> Err (BadAt (se_At s)) | Some t \<Rightarrow>
      if se_Within s = [] then Err WithinMissing else
      (case ParseDuration (se_Within s) of None \<Rightarrow> Err (WithinNotADuration (se_Within s)) | Some w \<Rightarrow>
       if w \<le> 0 then Err (NeverLate w) else Ok (s\<lparr>se_at := t, se_within := w\<rparr>)))"

definition check_every :: "Session \<Rightarrow> (session_error, Session) result" where
  "check_every s =
     (case ParseDuration (se_Every s) of None \<Rightarrow> Err (EveryNotADuration (se_Every s)) | Some every \<Rightarrow>
      if every < minute then Err (TooOften every) else
      (case se_Between s of
         [f, t] \<Rightarrow>
           (case parseClock f of None \<Rightarrow> Err (BadStart f) | Some from' \<Rightarrow>
            (case parseClock t of None \<Rightarrow> Err (BadEnd t) | Some to' \<Rightarrow>
             if to' \<le> from' then Err (EndsBeforeStart f t)
             else Ok (s\<lparr>se_every := every, se_from := from', se_to := to'\<rparr>)))
       | _ \<Rightarrow> Err (NoWindow every)))"

fun check_days :: "string list \<Rightarrow> (session_error, int list) result" where
  "check_days [] = Ok []"
| "check_days (d # ds) =
     (case weekdays (ToLower (TrimSpace d)) of None \<Rightarrow> Err (NotAWeekday d)
      | Some w \<Rightarrow> (case check_days ds of Err e \<Rightarrow> Err e | Ok ws \<Rightarrow> Ok (w # ws)))"

definition check_session :: "Session \<Rightarrow> (session_error, Session) result" where
  "check_session s =
     (if se_Name s = [] then Err SessionNoName
      else if se_Cause s = [] then Err SessionNoCause
      else if se_Task s = [] then Err SessionNoTask
      else if se_At s \<noteq> [] \<and> se_Every s \<noteq> [] then Err BothAtAndEvery
      else if se_At s = [] \<and> se_Every s = [] then Err NeitherAtNorEvery
      else
      (case (if se_At s \<noteq> [] then check_at s else Ok s) of Err e \<Rightarrow> Err e | Ok s \<Rightarrow>
      (case (if se_Every s \<noteq> [] then check_every s else Ok s) of Err e \<Rightarrow> Err e | Ok s \<Rightarrow>
      (case check_days (se_Days s) of Err e \<Rightarrow> Err e | Ok ds \<Rightarrow> Ok (s\<lparr>se_days := ds\<rparr>)))))"

subsection \<open>When a session is due\<close>

definition sinceMidnight :: "zoned \<Rightarrow> duration" where
  "sinceMidnight now = Hour now * hour + Minute now * minute"

definition Due_session :: "Session \<Rightarrow> zoned \<Rightarrow> zoned option \<Rightarrow> bool" where
  "Due_session s now last' =
     (if se_days s \<noteq> [] \<and> Weekday now \<notin> set (se_days s) then False
      else if se_At s \<noteq> [] then
        (if sinceMidnight now < se_at s \<or> sinceMidnight now > se_at s + se_within s then False
         else (case last' of None \<Rightarrow> True
               | Some l \<Rightarrow> YearDay l \<noteq> YearDay now \<or> d_year (Date_of l) \<noteq> d_year (Date_of now)))
      else if sinceMidnight now < se_from s \<or> sinceMidnight now > se_to s then False
      else (case last' of None \<Rightarrow> True | Some l \<Rightarrow> z_at now - z_at l \<ge> se_every s))"

definition quote_text :: "string \<Rightarrow> string" where
  "quote_text s = ''\"'' @ s @ ''\"''"

text \<open>The sentence a session is told, and the one it is told inside a turn another session holds.\<close>

definition Prompt_session :: "Session \<Rightarrow> string" where
  "Prompt_session s = ''Woken by the schedule, session '' @ quote_text (se_Name s) @ '': '' @ se_Cause s @ [CHR 0x0A] @ se_Task s"

definition PromptDisplacing :: "Session \<Rightarrow> string" where
  "PromptDisplacing s =
     ''This REPLACES what you were doing in this turn. Whatever the task above it told you to do or not to do, this comes first and its limits are the ones that apply; finish it before anything else, and say in one line what you set aside.''
     @ [CHR 0x0A] @ Prompt_session s"

subsection \<open>Parameters\<close>

text \<open>A node of the file: a scalar with its text, whether it is YAML's null, a mapping, or anything else.\<close>

datatype yaml_node = YScalar bool string | YMapping "(yaml_node \<times> yaml_node) list" | YOther string

datatype param_error =
    NotAMapping | NameNotAName | HoldsAList string | GivenNoValue string | NamedTwice string

definition node_text :: "yaml_node \<Rightarrow> string" where
  "node_text n = (case n of YScalar _ v \<Rightarrow> v | _ \<Rightarrow> [])"

definition is_scalar :: "yaml_node \<Rightarrow> bool" where
  "is_scalar n = (case n of YScalar _ _ \<Rightarrow> True | _ \<Rightarrow> False)"

fun read_parameters :: "Parameters \<Rightarrow> (yaml_node \<times> yaml_node) list \<Rightarrow> (param_error, Parameters) result" where
  "read_parameters out [] = Ok out"
| "read_parameters out ((name, v) # rest) =
     (if \<not> is_scalar name then Err NameNotAName
      else if \<not> is_scalar v then Err (HoldsAList (node_text name))
      else if TrimSpace (node_text v) = [] then Err (GivenNoValue (node_text name))
      else if map_of out (node_text name) \<noteq> None then Err (NamedTwice (node_text name))
      else read_parameters (out @ [(node_text name, node_text v)]) rest)"

definition UnmarshalYAML :: "yaml_node \<Rightarrow> (param_error, Parameters) result" where
  "UnmarshalYAML n = (case n of
       YScalar True _ \<Rightarrow> Ok []
     | YMapping kvs \<Rightarrow> read_parameters [] kvs
     | _ \<Rightarrow> Err NotAMapping)"

definition block :: "Parameters \<Rightarrow> string" where
  "block p =
     (if p = [] then [] else
      ''Numbers this agent runs on. Where a skill carries its own, this one replaces it; where your task names a different one for this window, the task wins. Say in one line which you took.''
      @ [CHR 0x0A] @
      concat (map (\<lambda>n. ''- '' @ n @ '' = '' @ (case map_of p n of None \<Rightarrow> [] | Some v \<Rightarrow> v) @ [CHR 0x0A]) (sort (map fst p))))"

definition Numbers :: "Declaration \<Rightarrow> string" where
  "Numbers d = dc_parameters d"

subsection \<open>Reading a declaration\<close>

datatype decl_error =
    NotDecoded string | WrongKind string | DeclNoName | WakesNobody | NoTimezone | UnknownZone string string
  | SessionRefused session_error | FileUnread string | NotVerified string

fun check_sessions :: "Session list \<Rightarrow> (session_error, Session list) result" where
  "check_sessions [] = Ok []"
| "check_sessions (s # ss) =
     (case check_session s of Err e \<Rightarrow> Err e
      | Ok s' \<Rightarrow> (case check_sessions ss of Err e \<Rightarrow> Err e | Ok ss' \<Rightarrow> Ok (s' # ss')))"

definition parse ::
  "(string \<Rightarrow> (string, Declaration) result) \<Rightarrow> (string \<Rightarrow> (string, location) result) \<Rightarrow> string \<Rightarrow>
   (decl_error, Declaration) result" where
  "parse decode zones raw =
     (case decode raw of Err e \<Rightarrow> Err (NotDecoded e) | Ok d \<Rightarrow>
      if dc_Kind d \<noteq> declared_kind then Err (WrongKind (dc_Kind d))
      else if dc_Name d = [] then Err DeclNoName
      else if dc_Sessions d = [] then Err WakesNobody
      else if dc_Timezone d = [] then Err NoTimezone
      else (case zones (dc_Timezone d) of Err e \<Rightarrow> Err (UnknownZone (dc_Timezone d) e) | Ok loc \<Rightarrow>
        (case check_sessions (dc_Sessions d) of Err e \<Rightarrow> Err (SessionRefused e) | Ok ss \<Rightarrow>
           Ok (d\<lparr>dc_location := Some loc, dc_parameters := block (dc_Parameters d), dc_Sessions := ss\<rparr>))))"

definition Load_declaration ::
  "(string \<Rightarrow> (string, Declaration) result) \<Rightarrow> (string \<Rightarrow> (string, location) result) \<Rightarrow>
   (string, string) result \<Rightarrow> (decl_error, Declaration) result" where
  "Load_declaration decode zones file =
     (case file of Err e \<Rightarrow> Err (FileUnread e) | Ok raw \<Rightarrow> parse decode zones raw)"

subsection \<open>The schedule in words\<close>

record Scheduled =
  sc_Name :: string
  sc_Cause :: string
  sc_When :: string
  sc_Model :: string

fun join_with :: "string \<Rightarrow> string list \<Rightarrow> string" where
  "join_with sep [] = []"
| "join_with sep [x] = x"
| "join_with sep (x # y # ys) = x @ sep @ join_with sep (y # ys)"

definition when_said :: "Session \<Rightarrow> string \<Rightarrow> string" where
  "when_said s timezone =
     (if se_At s \<noteq> [] then ''at '' @ se_At s @
        (if se_Within s \<noteq> [] then '', still valid for '' @ se_Within s @ '' after that'' else [])
      else if se_Every s \<noteq> [] then ''every '' @ se_Every s @
        (case se_Between s of [f, t] \<Rightarrow> '' between '' @ f @ '' and '' @ t | _ \<Rightarrow> [])
      else []) @
     (if se_Days s \<noteq> [] then '', on '' @ join_with '', '' (se_Days s) else []) @
     (if timezone \<noteq> [] then '' ('' @ timezone @ '')'' else [])"

definition Schedule :: "Declaration \<Rightarrow> Scheduled list" where
  "Schedule d = map (\<lambda>s. \<lparr>sc_Name = se_Name s, sc_Cause = se_Cause s, sc_When = when_said s (dc_Timezone d),
     sc_Model = se_Model s\<rparr>) (dc_Sessions d)"

subsection \<open>The watcher\<close>

text \<open>The declaration in force and the bytes it was read from.\<close>

record Watcher =
  wa_current :: Declaration
  wa_raw :: string

type_synonym verifier = "(Declaration \<Rightarrow> (string, unit) result) option"

definition verified :: "verifier \<Rightarrow> Declaration \<Rightarrow> (decl_error, unit) result" where
  "verified v d = (case v of None \<Rightarrow> Ok () | Some f \<Rightarrow>
     (case f d of Err e \<Rightarrow> Err (NotVerified e) | Ok u \<Rightarrow> Ok ()))"

definition Watch_file ::
  "(string \<Rightarrow> (string, Declaration) result) \<Rightarrow> (string \<Rightarrow> (string, location) result) \<Rightarrow> verifier \<Rightarrow>
   (string, string) result \<Rightarrow> (decl_error, Watcher) result" where
  "Watch_file decode zones v file =
     (case file of Err e \<Rightarrow> Err (FileUnread e) | Ok raw \<Rightarrow>
     (case parse decode zones raw of Err e \<Rightarrow> Err e | Ok d \<Rightarrow>
     (case verified v d of Err e \<Rightarrow> Err e | Ok u \<Rightarrow> Ok \<lparr>wa_current = d, wa_raw = raw\<rparr>)))"

definition Reread ::
  "(string \<Rightarrow> (string, Declaration) result) \<Rightarrow> (string \<Rightarrow> (string, location) result) \<Rightarrow> verifier \<Rightarrow>
   (string, string) result \<Rightarrow> Watcher \<Rightarrow> Declaration \<times> decl_error option \<times> Watcher" where
  "Reread decode zones v file w =
     (case file of Err e \<Rightarrow> (wa_current w, Some (FileUnread e), w) | Ok fresh \<Rightarrow>
      if fresh = wa_raw w then (wa_current w, None, w) else
     (case parse decode zones fresh of Err e \<Rightarrow> (wa_current w, Some e, w) | Ok d \<Rightarrow>
     (case verified v d of Err e \<Rightarrow> (wa_current w, Some e, w) | Ok u \<Rightarrow>
        (d, None, \<lparr>wa_current = d, wa_raw = fresh\<rparr>))))"

end
