(* ===== verification/Harness.thy ===== *)
theory Harness
  imports Declaration Wakeups
begin

text \<open>
  The clock and the room (\<open>golang/internal/harness/harness.go\<close>): what a harness remembers, the right to
  start a turn, starting one, saying into one, ending one, the schedule, the wake-ups and the room. What
  stands between a lock and its unlock is one step on the state; a call that holds the lock more than
  once is the composition of those steps, and \<open>HarnessLaws\<close> also lets other goroutines run between
  them. The agent, the chat, the record and the prices answer through arguments. An empty string is no
  turn, as in the code. What is posted, written down and asked for is a list of effects.
\<close>

subsection \<open>State\<close>

record Harness =
  hn_lastSaid :: "time option"
  hn_heldBack :: string
  hn_threadID :: string
  hn_turnID :: string
  hn_statusID :: int
  hn_turnFor :: string
  hn_turnStarted :: "time option"
  hn_finishedBeforePublished :: string
  hn_opening :: bool
  hn_brokerCalled :: bool
  hn_brokerless :: int
  hn_turnActed :: bool
  hn_emptyTurns :: "string list"
  hn_refusedInterrupts :: int

record setting =
  hs_chat :: bool
  hs_record :: bool
  hs_defaultModel :: string
  hs_sayEvery :: duration
  hs_turnLimit :: duration
  hs_callTimeout :: duration
  hs_tickEvery :: duration
  hs_rereadEvery :: duration
  hs_priceEvery :: duration
  hs_reportsToolCalls :: bool
  hs_emptySlots :: nat

datatype said = Plain string | Working string string | Finished_turn string string | DidNothing string
  | Refused_start string string

record Call =
  ca_Ref :: string
  ca_Server :: string
  ca_Tool :: string
  ca_Arguments :: "string option"
  ca_Status :: string
  ca_Failure :: string
  ca_Answer :: string

datatype harness_effect =
    Posted said | LineDeleted int | LineEdited int said
  | RecTurnStarted string string string string string | RecTurnFinished string time string
  | RecCause string string string | RecSaid string string
  | RecCallStarted string string string string "string option" string
  | RecCallFinished string string string string
  | ThreadForgotten | ProcessEnded

definition clockTick :: duration where "clockTick = minute"

definition say :: "setting \<Rightarrow> said \<Rightarrow> harness_effect list" where
  "say cf m = (if \<not> hs_chat cf then [] else
     (case m of Plain t \<Rightarrow> if TrimSpace t = [] then [] else [Posted m] | _ \<Rightarrow> [Posted m]))"

subsection \<open>Speaking in a turn\<close>

definition sayInTurn :: "setting \<Rightarrow> time \<Rightarrow> string \<Rightarrow> Harness \<Rightarrow> harness_effect list \<times> Harness" where
  "sayInTurn cf now text h =
     (if TrimSpace text = [] then ([], h)
      else if hs_sayEvery cf \<le> 0 then (say cf (Plain text), h)
      else if (case hn_lastSaid h of None \<Rightarrow> True | Some t \<Rightarrow> now - t \<ge> hs_sayEvery cf)
        then (say cf (Plain text), h\<lparr>hn_lastSaid := Some now, hn_heldBack := []\<rparr>)
      else ([], h\<lparr>hn_heldBack := text\<rparr>))"

definition sayWhatWasHeldBack :: "setting \<Rightarrow> time \<Rightarrow> Harness \<Rightarrow> harness_effect list \<times> Harness" where
  "sayWhatWasHeldBack cf now h =
     (let text = hn_heldBack h; h = h\<lparr>hn_heldBack := []\<rparr>;
          h = (if text \<noteq> [] then h\<lparr>hn_lastSaid := Some now\<rparr> else h)
      in (say cf (Plain text), h))"

subsection \<open>The right to start a turn\<close>

definition claim :: "string \<Rightarrow> Harness \<Rightarrow> bool \<times> Harness" where
  "claim stale h =
     (if hn_opening h then (False, h)
      else if hn_turnID h \<noteq> [] \<and> hn_turnID h \<noteq> stale then (False, h)
      else (True, h\<lparr>hn_opening := True\<rparr>))"

definition release :: "Harness \<Rightarrow> Harness" where
  "release h = h\<lparr>hn_opening := False\<rparr>"

definition publish :: "string \<Rightarrow> int \<Rightarrow> string \<Rightarrow> time \<Rightarrow> Harness \<Rightarrow> Harness" where
  "publish turnID status who now h =
     h\<lparr>hn_turnID := turnID, hn_statusID := status, hn_turnFor := who, hn_turnStarted := Some now\<rparr>"

definition reset_flags :: "Harness \<Rightarrow> Harness" where
  "reset_flags h = h\<lparr>hn_turnActed := False, hn_brokerCalled := False\<rparr>"

definition endedAlready :: "string \<Rightarrow> Harness \<Rightarrow> bool \<times> Harness" where
  "endedAlready turnID h =
     (if hn_finishedBeforePublished h = turnID then (True, h\<lparr>hn_finishedBeforePublished := []\<rparr>) else (False, h))"

definition turnState :: "Harness \<Rightarrow> string \<times> bool" where
  "turnState h = (hn_turnID h, hn_opening h)"

definition markActed :: "Harness \<Rightarrow> Harness" where
  "markActed h = h\<lparr>hn_turnActed := True\<rparr>"

definition brokerServer :: string where "brokerServer = ''broker''"

definition noteBrokerReach :: "string \<Rightarrow> Harness \<Rightarrow> Harness" where
  "noteBrokerReach server h = (if server \<noteq> brokerServer then h else h\<lparr>hn_brokerCalled := True\<rparr>)"

subsection \<open>Ending a turn\<close>

text \<open>What the first locked part of \<open>finishTurn\<close> takes with it: the status line, who the turn was for, when
  it started, whether it acted and whether it reached the broker.\<close>

record closing =
  cl_status :: int
  cl_who :: string
  cl_started :: "time option"
  cl_acted :: bool
  cl_reached :: bool

definition finish_locked :: "string \<Rightarrow> Harness \<Rightarrow> closing option \<times> Harness" where
  "finish_locked turnID h =
     (if turnID \<noteq> [] \<and> turnID \<noteq> hn_turnID h
      then (None, if hn_opening h then h\<lparr>hn_finishedBeforePublished := turnID\<rparr> else h)
      else (Some \<lparr>cl_status = hn_statusID h, cl_who = hn_turnFor h, cl_started = hn_turnStarted h,
              cl_acted = hn_turnActed h, cl_reached = hn_brokerCalled h\<rparr>,
            h\<lparr>hn_turnID := [], hn_statusID := 0\<rparr>))"

definition SilentFailure :: string where
  "SilentFailure = ''the agent ended the turn without saying or calling anything''"

definition round_seconds :: "duration \<Rightarrow> int" where
  "round_seconds took = sgn took * ((\<bar>took\<bar> + second div 2) div second)"

definition howLong :: "duration \<Rightarrow> string" where
  "howLong took =
     (let seconds = round_seconds took in
      if seconds < 1 then ''a moment''
      else if seconds < 60 then dec_int seconds @ ''s''
      else let minutes = go_div seconds 60; rest = go_mod seconds 60 in
        if rest = 0 then dec_int minutes @ ''m'' else dec_int minutes @ ''m '' @ dec_int rest @ ''s'')"

definition brokerlessBeforeFresh :: int where "brokerlessBeforeFresh = 2"

definition checkBrokerReach :: "setting \<Rightarrow> bool \<Rightarrow> bool \<Rightarrow> Harness \<Rightarrow> harness_effect list \<times> Harness" where
  "checkBrokerReach cf acted reached h =
     (if \<not> hs_reportsToolCalls cf then ([], h)
      else if \<not> acted then ([], h)
      else if reached then ([], h\<lparr>hn_brokerless := 0\<rparr>)
      else let count = hn_brokerless h + 1; h = h\<lparr>hn_brokerless := count\<rparr> in
        if count < brokerlessBeforeFresh then ([], h)
        else (ThreadForgotten # say cf (Plain ''The broker tools have vanished from the list. Starting the conversation again - that is the only thing that brings them back.''),
              h\<lparr>hn_threadID := [], hn_brokerless := 0\<rparr>))"

text \<open>The rest of \<open>finishTurn\<close>, after the state was let go of.\<close>

definition close_turn :: "setting \<Rightarrow> time \<Rightarrow> string \<Rightarrow> closing \<Rightarrow> Harness \<Rightarrow> harness_effect list \<times> Harness" where
  "close_turn cf now turnID c h =
     (let (held, h) = sayWhatWasHeldBack cf now h;
          line = (if cl_status c \<noteq> 0 \<and> hs_chat cf then [LineDeleted (cl_status c)] else []);
          failure = (if cl_acted c then [] else SilentFailure);
          h = (if \<not> cl_acted c \<and> cl_who c \<noteq> [] \<and> length (hn_emptyTurns h) < hs_emptySlots cf
               then h\<lparr>hn_emptyTurns := hn_emptyTurns h @ [cl_who c]\<rparr> else h);
          took = (case cl_started c of None \<Rightarrow> 0 | Some t \<Rightarrow> now - t);
          word = say cf (if cl_acted c then Finished_turn (cl_who c) (howLong took) else DidNothing (cl_who c));
          row = (if hs_record cf \<and> turnID \<noteq> [] then [RecTurnFinished turnID now failure] else []);
          (reach, h) = checkBrokerReach cf (cl_acted c) (cl_reached c) h
      in (held @ line @ word @ row @ reach, h))"

definition finishTurn :: "setting \<Rightarrow> time \<Rightarrow> string \<Rightarrow> Harness \<Rightarrow> harness_effect list \<times> Harness" where
  "finishTurn cf now turnID h =
     (case finish_locked turnID h of
        (None, h) \<Rightarrow> ([], h)
      | (Some c, h) \<Rightarrow> close_turn cf now turnID c h)"

definition clearTurn :: "setting \<Rightarrow> Harness \<Rightarrow> harness_effect list \<times> Harness" where
  "clearTurn cf h =
     (if hn_statusID h \<noteq> 0 \<and> hs_chat cf then [LineDeleted (hn_statusID h)] else [],
      h\<lparr>hn_turnID := [], hn_statusID := 0\<rparr>)"

subsection \<open>Starting a turn\<close>

definition openThread :: "(string, string) result \<Rightarrow> Harness \<Rightarrow> (string, string) result \<times> Harness" where
  "openThread answer h =
     (if hn_threadID h \<noteq> [] then (Ok (hn_threadID h), h)
      else (case answer of Err e \<Rightarrow> (Err e, h) | Ok t \<Rightarrow> (Ok t, h\<lparr>hn_threadID := t\<rparr>)))"

definition firstLine :: "string \<Rightarrow> string" where
  "firstLine prompt =
     (case Cut (CHR 0x0A) prompt of None \<Rightarrow> prompt | Some (a, b) \<Rightarrow> if a \<noteq> [] then a else prompt)"

definition modelOf :: "setting \<Rightarrow> string \<Rightarrow> string" where
  "modelOf cf model = (if model = [] then hs_defaultModel cf else model)"

definition numbersInFront :: "Declaration option \<Rightarrow> string \<Rightarrow> string" where
  "numbersInFront declared prompt =
     (case declared of None \<Rightarrow> prompt
      | Some d \<Rightarrow> if Numbers d = [] then prompt else Numbers d @ CHR 0x0A # prompt)"

text \<open>What the agent and the chat answer while a turn is opened, given the prompt it is asked with.\<close>

record open_env =
  oe_thread :: "(string, string) result"
  oe_status :: "(string, int) result"
  oe_turn :: "string \<Rightarrow> string \<Rightarrow> (string, string) result"
  oe_now :: time

definition status_line :: "setting \<Rightarrow> open_env \<Rightarrow> int" where
  "status_line cf oe = (if \<not> hs_chat cf then 0 else (case oe_status oe of Err e \<Rightarrow> 0 | Ok n \<Rightarrow> n))"

definition startTurnReplacing ::
  "setting \<Rightarrow> Declaration option \<Rightarrow> open_env \<Rightarrow> string \<Rightarrow> string \<Rightarrow> string \<Rightarrow> string \<Rightarrow> Harness \<Rightarrow>
   bool \<times> harness_effect list \<times> Harness" where
  "startTurnReplacing cf declared oe prompt who model stale h =
     (let (mine, h) = claim stale h in
      if \<not> mine then (False, [], h) else
      let (thread, h) = openThread (oe_thread oe) h in
      (case thread of
         Err e \<Rightarrow> (False, say cf (Plain (''could not start a conversation with the agent: '' @ e)), release h)
       | Ok threadID \<Rightarrow>
           let status = status_line cf oe;
               opened = (if hs_chat cf then [Posted (Working who [])] else []) in
           (case oe_turn oe (numbersInFront declared prompt) model of
              Err e \<Rightarrow>
                (False, opened @ (if status \<noteq> 0 \<and> hs_chat cf then [LineEdited status (Refused_start who e)] else []), release h)
            | Ok turnID \<Rightarrow>
                let h = publish turnID status who (oe_now oe) h;
                    row = (if hs_record cf
                      then [RecTurnStarted turnID threadID (modelOf cf model) who (firstLine prompt)] else []);
                    h = reset_flags h;
                    (early, h) = endedAlready turnID h;
                    (last', h) = (if early then finishTurn cf (oe_now oe) turnID h else ([], h))
                in (True, opened @ row @ last', release h))))"

definition startTurnWith ::
  "setting \<Rightarrow> Declaration option \<Rightarrow> open_env \<Rightarrow> string \<Rightarrow> string \<Rightarrow> string \<Rightarrow> Harness \<Rightarrow> bool \<times> harness_effect list \<times> Harness" where
  "startTurnWith cf declared oe prompt who model h = startTurnReplacing cf declared oe prompt who model [] h"

subsection \<open>Saying into a turn\<close>

definition steerInto ::
  "setting \<Rightarrow> (string, unit) result \<Rightarrow> string \<Rightarrow> string \<Rightarrow> string \<Rightarrow> (string, unit) result \<times> harness_effect list" where
  "steerInto cf answer turnID prompt who =
     (case answer of Err e \<Rightarrow> (Err e, [])
      | Ok u \<Rightarrow> (Ok (), if hs_record cf then [RecCause turnID who (firstLine prompt)] else []))"

text \<open>Each look at the state while waiting, with the answer to a steer there would be; the list is as long as
  the deadline allows.\<close>

fun steerWhenReady ::
  "setting \<Rightarrow> ((string \<times> bool) \<times> (string, unit) result) list \<Rightarrow> string \<Rightarrow> string \<Rightarrow> bool \<times> harness_effect list" where
  "steerWhenReady cf [] prompt who = (False, [])"
| "steerWhenReady cf (((turnID, opening), answer) # looks) prompt who =
     (if turnID = [] \<and> \<not> opening then (False, [])
      else if turnID \<noteq> [] then
        (case steerInto cf answer turnID prompt who of
           (Err e, eff) \<Rightarrow> (False, eff) | (Ok u, eff) \<Rightarrow> (True, eff))
      else steerWhenReady cf looks prompt who)"

record tell_env =
  te_steer :: "(string, unit) result"
  te_first :: open_env
  te_looks :: "((string \<times> bool) \<times> (string, unit) result) list"
  te_meanwhile :: "Harness \<Rightarrow> Harness"
  te_second :: open_env

text \<open>The steer when a turn runs: delivered, or the turn that refused it.\<close>

definition steer_running :: "setting \<Rightarrow> (string, unit) result \<Rightarrow> string \<Rightarrow> string \<Rightarrow> Harness \<Rightarrow> (string, harness_effect list) result" where
  "steer_running cf answer prompt who h =
     (if hn_turnID h = [] then Err []
      else (case steerInto cf answer (hn_turnID h) prompt who of
              (Ok u, eff) \<Rightarrow> Ok eff | (Err e, eff) \<Rightarrow> Err (hn_turnID h)))"

definition start_or_join ::
  "setting \<Rightarrow> Declaration option \<Rightarrow> tell_env \<Rightarrow> string \<Rightarrow> string \<Rightarrow> string \<Rightarrow> Harness \<Rightarrow> bool \<times> harness_effect list \<times> Harness" where
  "start_or_join cf declared te prompt who stale h =
     (let (started, eff, h) = startTurnReplacing cf declared (te_first te) prompt who [] stale h in
      if started then (True, eff, h) else
      let (joined, eff2) = steerWhenReady cf (te_looks te) prompt who; h = te_meanwhile te h in
      if joined then (True, eff @ eff2, h) else
      let (started, eff3, h) = startTurnWith cf declared (te_second te) prompt who [] h in
      (started, eff @ eff2 @ eff3, h))"

definition Tell ::
  "setting \<Rightarrow> Declaration option \<Rightarrow> tell_env \<Rightarrow> string \<Rightarrow> string \<Rightarrow> Harness \<Rightarrow> bool \<times> harness_effect list \<times> Harness" where
  "Tell cf declared te prompt who h =
     (case steer_running cf (te_steer te) prompt who h of
        Ok eff \<Rightarrow> (True, eff, h)
      | Err stale \<Rightarrow> start_or_join cf declared te prompt who stale h)"

record Message =
  ms_Username :: string
  ms_UserID :: int
  ms_Text :: string

definition textOf :: "Message \<Rightarrow> string" where
  "textOf m = ''From '' @ (if ms_Username m = [] then ''user '' @ dec_int (ms_UserID m) else ms_Username m) @ '': '' @ ms_Text m"

definition promptFor :: "Message \<Rightarrow> string" where
  "promptFor m = ''Woken by a person in the chat.'' @ CHR 0x0A # textOf m"

definition stop_turn :: "setting \<Rightarrow> (string, unit) result \<Rightarrow> Harness \<Rightarrow> harness_effect list" where
  "stop_turn cf answer h =
     (if hn_turnID h = [] then say cf (Plain ''nothing is running right now'')
      else (case answer of Err e \<Rightarrow> say cf (Plain (''could not stop it: '' @ e)) | Ok u \<Rightarrow> []))"

definition handle_message ::
  "setting \<Rightarrow> Declaration option \<Rightarrow> tell_env \<Rightarrow> (string, unit) result \<Rightarrow> Message \<Rightarrow> Harness \<Rightarrow> harness_effect list \<times> Harness" where
  "handle_message cf declared te interrupt m h =
     (if TrimSpace (ms_Text m) = ''/stop'' then (stop_turn cf interrupt h, h)
      else (case steer_running cf (te_steer te) (textOf m) (ms_Username m) h of
        Ok eff \<Rightarrow> (eff, h)
      | Err stale \<Rightarrow>
          let (reached, eff, h) = start_or_join cf declared te (promptFor m) (ms_Username m) stale h in
          (eff @ (if reached then [] else say cf (Plain ''a session was starting just as you wrote, and this did not reach it - say it again'')), h)))"

subsection \<open>The agent's stream\<close>

definition ServerShell :: string where "ServerShell = ''shell''"
definition shellCommandRan :: string where "shellCommandRan = ''a shell command''"

definition Named :: "Call \<Rightarrow> string" where
  "Named c = (if ca_Server c = [] \<or> ca_Server c = ServerShell then ca_Tool c
     else ca_Server c @ CHR ''.'' # ca_Tool c)"

definition writeDown :: "setting \<Rightarrow> string \<Rightarrow> string \<Rightarrow> harness_effect list" where
  "writeDown cf turnID text =
     (if \<not> hs_record cf \<or> turnID = [] \<or> TrimSpace text = [] then [] else [RecSaid turnID text])"

definition callStarted :: "setting \<Rightarrow> string \<Rightarrow> Call \<Rightarrow> Harness \<Rightarrow> harness_effect list \<times> Harness" where
  "callStarted cf turnID c h =
     (let h = noteBrokerReach (ca_Server c) h in
      if \<not> hs_record cf \<or> ca_Ref c = [] then ([], h)
      else if ca_Server c = ServerShell
        then ([RecCallStarted (ca_Ref c) turnID (ca_Server c) shellCommandRan None (ca_Status c)], h)
      else ([RecCallStarted (ca_Ref c) turnID (ca_Server c) (ca_Tool c) (ca_Arguments c) (ca_Status c)], h))"

definition callFinished :: "setting \<Rightarrow> Call \<Rightarrow> harness_effect list" where
  "callFinished cf c =
     (if \<not> hs_record cf \<or> ca_Ref c = [] then []
      else if ca_Server c = ServerShell then [RecCallFinished (ca_Ref c) (ca_Status c) [] []]
      else [RecCallFinished (ca_Ref c) (ca_Status c) (ca_Failure c) (ca_Answer c)])"

definition updateStatus :: "setting \<Rightarrow> said \<Rightarrow> Harness \<Rightarrow> harness_effect list" where
  "updateStatus cf m h = (if hn_statusID h = 0 \<or> \<not> hs_chat cf then [] else [LineEdited (hn_statusID h) m])"

datatype agent_event =
    EvText string string | EvToolStarted string Call | EvTool string Call | EvTurnDone string

fun follow :: "setting \<Rightarrow> time \<Rightarrow> agent_event \<Rightarrow> Harness \<Rightarrow> harness_effect list \<times> Harness" where
  "follow cf now (EvText turnID text) h =
     (let h = markActed h; row = writeDown cf turnID text; (eff, h) = sayInTurn cf now text h in (row @ eff, h))"
| "follow cf now (EvToolStarted turnID c) h =
     (let h = markActed h; (row, h) = callStarted cf turnID c h
      in (row @ updateStatus cf (Working (hn_turnFor h) (Named c)) h, h))"
| "follow cf now (EvTool turnID c) h = (callFinished cf c, h)"
| "follow cf now (EvTurnDone turnID) h = finishTurn cf now turnID h"

subsection \<open>The bound on a turn\<close>

datatype interrupt_answer = Interrupted | NoActiveTurn | NotInterrupted string

definition interruptAttempts :: int where "interruptAttempts = 3"

definition overranFailure :: string where
  "overranFailure = ''the turn outlived its limit and was interrupted so the sessions behind it could run''"

text \<open>The turn read under the lock, and, when it has overrun, what follows the agent's answer. Other
  goroutines run in between: the state after the answer is an argument of its own.\<close>

definition overrunning :: "setting \<Rightarrow> time \<Rightarrow> Harness \<Rightarrow> string option" where
  "overrunning cf now h =
     (if hs_turnLimit cf \<le> 0 then None
      else (case hn_turnStarted h of None \<Rightarrow> None | Some started \<Rightarrow>
        if hn_turnID h = [] then None
        else if now - started \<le> hs_turnLimit cf then None else Some (hn_turnID h)))"

definition after_interrupt :: "setting \<Rightarrow> time \<Rightarrow> string \<Rightarrow> interrupt_answer \<Rightarrow> Harness \<Rightarrow> harness_effect list \<times> Harness" where
  "after_interrupt cf now turnID answer h =
     (case answer of
        NotInterrupted e \<Rightarrow>
          let refused = hn_refusedInterrupts h + 1
          in (if refused \<ge> interruptAttempts then [ProcessEnded] else [], h\<lparr>hn_refusedInterrupts := refused\<rparr>)
      | _ \<Rightarrow>
          let h = h\<lparr>hn_refusedInterrupts := 0\<rparr>;
              row = (if hs_record cf then [RecTurnFinished turnID now overranFailure] else []);
              word = say cf (Plain ''the turn ran longer than it was given and was stopped: other sessions are waiting behind it'');
              (line, h) = clearTurn cf h
          in (row @ word @ line, h))"

definition endAnOverrunningTurn ::
  "setting \<Rightarrow> time \<Rightarrow> interrupt_answer \<Rightarrow> (Harness \<Rightarrow> Harness) \<Rightarrow> Harness \<Rightarrow> harness_effect list \<times> Harness" where
  "endAnOverrunningTurn cf now answer meanwhile h =
     (case overrunning cf now h of None \<Rightarrow> ([], h)
      | Some turnID \<Rightarrow> after_interrupt cf now turnID answer (meanwhile h))"

subsection \<open>Cadences\<close>

definition slack :: "duration \<Rightarrow> duration" where
  "slack every = go_div every 64"

definition elapsed :: "time option \<Rightarrow> time \<Rightarrow> duration \<Rightarrow> bool \<times> time option" where
  "elapsed last' now every =
     (if every \<le> 0 then (True, last')
      else (case last' of
              Some l \<Rightarrow> if \<not> now < l \<and> now - l < every - slack every then (False, last') else (True, Some now)
            | None \<Rightarrow> (True, Some now)))"

definition tickCadence :: "setting \<Rightarrow> duration" where
  "tickCadence cf = (if hs_tickEvery cf > 0 then hs_tickEvery cf else clockTick)"

definition priceCadence :: "setting \<Rightarrow> duration" where
  "priceCadence cf = (if hs_priceEvery cf > 0 then hs_priceEvery cf else tickCadence cf)"

subsection \<open>The clock\<close>

text \<open>What belongs to the clock's goroutine alone.\<close>

record clock_state =
  ck_lastRun :: "string \<rightharpoonup> zoned"
  ck_lastPricePoll :: "time option"
  ck_lastReread :: "time option"

definition location_of :: "Declaration \<Rightarrow> location" where
  "location_of d = (case dc_location d of None \<Rightarrow> UTC | Some l \<Rightarrow> l)"

text \<open>Midnight where the declaration is: the date shown there, at the offset in force at the midnight the
  library finds for it, which is an argument.\<close>

definition whatAlreadyRanToday ::
  "(date \<Rightarrow> location \<Rightarrow> time) \<Rightarrow> (time \<Rightarrow> (string, string \<rightharpoonup> zoned) result) option \<Rightarrow> time \<Rightarrow> Declaration option \<Rightarrow> (string \<rightharpoonup> zoned)" where
  "whatAlreadyRanToday midnight_in last_runs now declared =
     (case (last_runs, declared) of
        (Some ask, Some d) \<Rightarrow>
          (case ask (midnight_in (Date_of (In_place now (location_of d))) (location_of d)) of
             Err e \<Rightarrow> Map.empty
           | Ok runs \<Rightarrow> runs |` set (map se_Name (dc_Sessions d)))
      | _ \<Rightarrow> Map.empty)"

text \<open>A changed schedule is put in force, and only names not yet known are filled in from the record.\<close>

definition rereadTheDeclaration ::
  "(Declaration \<times> decl_error option) option \<Rightarrow> (Declaration \<Rightarrow> string \<rightharpoonup> zoned) \<Rightarrow> Declaration option \<Rightarrow>
   clock_state \<Rightarrow> Declaration option \<times> clock_state" where
  "rereadTheDeclaration answer ran_today in_force ck =
     (case answer of
        None \<Rightarrow> (in_force, ck)
      | Some (fresh, Some e) \<Rightarrow> (in_force, ck)
      | Some (fresh, None) \<Rightarrow>
          if Some fresh = in_force then (in_force, ck)
          else (Some fresh, ck\<lparr>ck_lastRun := ran_today fresh ++ ck_lastRun ck\<rparr>))"

text \<open>A once-a-day window whose turn produced nothing is un-marked, so that it stays due.\<close>

definition forgotten :: "Declaration \<Rightarrow> string list \<Rightarrow> string list" where
  "forgotten d names = filter (\<lambda>n. \<exists>s \<in> set (dc_Sessions d). se_Name s = n \<and> se_At s \<noteq> []) names"

definition forgetEmptyTurns :: "Declaration \<Rightarrow> Harness \<Rightarrow> clock_state \<Rightarrow> Harness \<times> clock_state" where
  "forgetEmptyTurns d h ck =
     (h\<lparr>hn_emptyTurns := []\<rparr>, ck\<lparr>ck_lastRun := ck_lastRun ck |` (- set (forgotten d (hn_emptyTurns h)))\<rparr>)"

text \<open>What the agent answers for each session that comes due, and what other goroutines do before it is asked.\<close>

record due_env =
  du_meanwhile :: "string \<Rightarrow> Harness \<Rightarrow> Harness"
  du_steer :: "string \<Rightarrow> (string, unit) result"
  du_open :: "string \<Rightarrow> open_env"

fun fire_sessions ::
  "setting \<Rightarrow> Declaration \<Rightarrow> due_env \<Rightarrow> zoned \<Rightarrow> Session list \<Rightarrow> Harness \<Rightarrow> clock_state \<Rightarrow>
   (Session \<times> zoned) list \<times> harness_effect list \<times> Harness \<times> clock_state" where
  "fire_sessions cf d du now [] h ck = ([], [], h, ck)"
| "fire_sessions cf d du now (s # ss) h ck =
     (if \<not> Due_session s now (ck_lastRun ck (se_Name s)) then fire_sessions cf d du now ss h ck
      else let h = du_meanwhile du (se_Name s) h in
      if hn_turnID h \<noteq> [] then
        (if \<not> se_CannotWait s then ([], [], h, ck)
         else (case steerInto cf (du_steer du (se_Name s)) (hn_turnID h) (PromptDisplacing s) (se_Name s) of
                 (Err e, eff) \<Rightarrow> ([], eff, h, ck)
               | (Ok u, eff) \<Rightarrow>
                   let ck = ck\<lparr>ck_lastRun := (ck_lastRun ck)(se_Name s \<mapsto> now)\<rparr>;
                       (fired, eff2, h, ck) = fire_sessions cf d du now ss h ck
                   in ((s, now) # fired, eff @ eff2, h, ck)))
      else
        let (started, eff, h) = startTurnWith cf (Some d) (du_open du (se_Name s)) (Prompt_session s) (se_Name s) (se_Model s) h
        in if \<not> started then ([], eff, h, ck)
           else let ck = ck\<lparr>ck_lastRun := (ck_lastRun ck)(se_Name s \<mapsto> now)\<rparr>;
                    (fired, eff2, h, ck) = fire_sessions cf d du now ss h ck
                in ((s, now) # fired, eff @ eff2, h, ck))"

definition fireDue ::
  "setting \<Rightarrow> Declaration option \<Rightarrow> due_env \<Rightarrow> time \<Rightarrow> Harness \<Rightarrow> clock_state \<Rightarrow>
   (Session \<times> zoned) list \<times> harness_effect list \<times> Harness \<times> clock_state" where
  "fireDue cf declared du now h ck =
     (case declared of None \<Rightarrow> ([], [], h, ck)
      | Some d \<Rightarrow>
          let (h, ck) = forgetEmptyTurns d h ck
          in fire_sessions cf d du (In_place now (location_of d)) (dc_Sessions d) h ck)"

text \<open>The session's own wake-ups: prices are read only when one waits for a price and the cadence has passed.\<close>

definition fireWakeups ::
  "setting \<Rightarrow> Declaration option \<Rightarrow> (string list \<Rightarrow> (string, string \<rightharpoonup> f64) result) option \<Rightarrow> wk_io \<Rightarrow>
   (Wakeup \<Rightarrow> string) \<Rightarrow> (Wakeup \<Rightarrow> tell_env) \<Rightarrow> time \<Rightarrow> kept \<Rightarrow> Harness \<Rightarrow> clock_state \<Rightarrow>
   bool \<times> harness_effect list \<times> kept \<times> Harness \<times> clock_state" where
  "fireWakeups cf declared prices io prompt te now wakeups h ck =
     (let watching = Watching wakeups;
          (read, poll) = (if watching = [] \<or> prices = None then (False, ck_lastPricePoll ck)
                          else elapsed (ck_lastPricePoll ck) now (hs_priceEvery cf));
          ck = ck\<lparr>ck_lastPricePoll := poll\<rparr>;
          known = (case prices of Some ask \<Rightarrow> if read then (case ask watching of Err e \<Rightarrow> Map.empty | Ok p \<Rightarrow> p) else Map.empty
                   | None \<Rightarrow> Map.empty);
          (due, wakeups) = Due_now io now known wakeups;
          (eff, h) = foldl (\<lambda>(eff, h) w.
             let (told, more, h) = Tell cf declared (te w) (prompt w) (''wakeup '' @ wk_ID w) h in (eff @ more, h)) ([], h) due
      in (read, eff, wakeups, h, ck))"

end
