(* ===== verification/DeclarationLaws.thy ===== *)
theory DeclarationLaws
  imports Declaration
begin

text \<open>
  What a declaration that loads is worth: every session of it can wake and can say why, and the watcher
  keeps the last file that was good in force whatever the operator saves in between.
\<close>

subsection \<open>Sessions that passed\<close>

definition at_ok :: "Session \<Rightarrow> bool" where
  "at_ok s \<longleftrightarrow> 0 \<le> se_at s \<and> se_at s < day_ns \<and> se_at s mod minute = 0 \<and> 0 < se_within s"

definition every_ok :: "Session \<Rightarrow> bool" where
  "every_ok s \<longleftrightarrow> minute \<le> se_every s \<and> 0 \<le> se_from s \<and> se_from s < se_to s \<and> se_to s < day_ns \<and>
     se_from s mod minute = 0 \<and> se_to s mod minute = 0"

definition session_ok :: "Session \<Rightarrow> bool" where
  "session_ok s \<longleftrightarrow> se_Name s \<noteq> [] \<and> se_Cause s \<noteq> [] \<and> se_Task s \<noteq> [] \<and>
     (se_At s \<noteq> [] \<and> se_Every s = [] \<and> at_ok s \<or> se_At s = [] \<and> se_Every s \<noteq> [] \<and> every_ok s) \<and>
     length (se_days s) = length (se_Days s) \<and> set (se_days s) \<subseteq> {0..6}"

lemma units: "hour = 60 * minute" "day_ns = 1440 * minute" "0 < minute"
  by (simp_all add: hour_def day_ns_def minute_def second_def)

lemma parseClock_bounds: "parseClock v = Some t \<Longrightarrow> 0 \<le> t \<and> t < day_ns \<and> t mod minute = 0"
proof -
  assume "parseClock v = Some t"
  then obtain h m where p: "parse_hhmm (TrimSpace v) = Some (h, m)" and t: "t = h * hour + m * minute"
    by (auto simp: parseClock_def)
  have b: "0 \<le> h" "h < 24" "0 \<le> m" "m < 60" using parse_hhmm_bounds [OF p] by auto
  have e: "t = (h * 60 + m) * minute" by (simp add: t units(1) distrib_right)
  have "(h * 60 + m) * minute < 1440 * minute" using b by (intro mult_strict_right_mono) (auto simp: units)
  then show ?thesis using b units(3) by (simp add: e units(2))
qed

lemma check_days_Ok: "check_days ds = Ok ws \<Longrightarrow> length ws = length ds \<and> set ws \<subseteq> {0..6}"
proof (induction ds arbitrary: ws)
  case (Cons d ds)
  then obtain w rest where w: "weekdays (ToLower (TrimSpace d)) = Some w" "check_days ds = Ok rest" "ws = w # rest"
    by (auto split: option.splits sum.splits)
  have "w \<in> {0..6}" using w(1) by (auto simp: weekdays_def split: if_splits)
  with Cons.IH [OF w(2)] w(3) show ?case by simp
qed simp

lemma check_at_Ok:
  assumes "check_at s = Ok s'"
  shows "at_ok s'" "\<exists>a w. s' = s\<lparr>se_at := a, se_within := w\<rparr>"
  using assms parseClock_bounds [of "se_At s"]
  by (auto simp: check_at_def at_ok_def not_le split: option.splits if_splits)

lemma check_every_Ok:
  assumes "check_every s = Ok s'"
  shows "every_ok s'" "\<exists>e f t. s' = s\<lparr>se_every := e, se_from := f, se_to := t\<rparr>"
  using assms parseClock_bounds
  by (auto simp: check_every_def every_ok_def not_less not_le split: option.splits if_splits list.splits)

lemma check_session_Ok: "check_session s = Ok s' \<Longrightarrow> session_ok s'"
proof -
  assume ok: "check_session s = Ok s'"
  have names: "se_Name s \<noteq> []" "se_Cause s \<noteq> []" "se_Task s \<noteq> []" "(se_At s = []) \<noteq> (se_Every s = [])"
    using ok by (auto simp: check_session_def split: if_splits)
  obtain s1 s2 ds where c: "(if se_At s \<noteq> [] then check_at s else Ok s) = Ok s1"
    "(if se_Every s1 \<noteq> [] then check_every s1 else Ok s1) = Ok s2" "check_days (se_Days s2) = Ok ds" "s' = s2\<lparr>se_days := ds\<rparr>"
    using ok by (auto simp: check_session_def split: if_splits sum.splits)
  show ?thesis
  proof (cases "se_At s = []")
    case True
    with c names have "check_every s = Ok s2" by simp
    from check_every_Ok [OF this] c(3,4) check_days_Ok [OF c(3)] names True show ?thesis
      by (auto simp: session_ok_def every_ok_def)
  next
    case False
    with c names have a: "check_at s = Ok s1" by simp
    from check_at_Ok [OF this] names False have "se_Every s1 = []" by auto
    with c have "s2 = s1" by simp
    with check_at_Ok [OF a] c(3,4) check_days_Ok [OF c(3)] names False show ?thesis
      by (auto simp: session_ok_def at_ok_def)
  qed
qed

lemma check_sessions_Ok: "check_sessions ss = Ok ss' \<Longrightarrow> list_all session_ok ss' \<and> map se_Name ss' = map se_Name ss"
proof (induction ss arbitrary: ss')
  case (Cons s ss)
  then obtain s' rest where r: "check_session s = Ok s'" "check_sessions ss = Ok rest" "ss' = s' # rest"
    by (auto split: sum.splits)
  have "se_Name s' = se_Name s"
    using r(1) check_at_Ok(2) check_every_Ok(2)
    by (fastforce simp: check_session_def split: if_splits sum.splits)
  with Cons.IH [OF r(2)] check_session_Ok [OF r(1)] r(3) show ?case by simp
qed simp

subsection \<open>What is in force\<close>

definition declaration_ok :: "Declaration \<Rightarrow> bool" where
  "declaration_ok d \<longleftrightarrow> dc_Kind d = declared_kind \<and> dc_Name d \<noteq> [] \<and> dc_Timezone d \<noteq> [] \<and>
     dc_Sessions d \<noteq> [] \<and> list_all session_ok (dc_Sessions d) \<and> dc_location d \<noteq> None \<and>
     dc_parameters d = block (dc_Parameters d)"

lemma parse_Ok: "parse decode zones raw = Ok d \<Longrightarrow> declaration_ok d"
  using check_sessions_Ok
  by (fastforce simp: parse_def declaration_ok_def split: sum.splits if_splits)

text \<open>The files the watcher finds, one after another, and what it has in force after each.\<close>

fun reread_all ::
  "(string \<Rightarrow> (string, Declaration) result) \<Rightarrow> (string \<Rightarrow> (string, location) result) \<Rightarrow> verifier \<Rightarrow>
   (string, string) result list \<Rightarrow> Watcher \<Rightarrow> Watcher" where
  "reread_all decode zones v [] w = w"
| "reread_all decode zones v (f # fs) w = reread_all decode zones v fs (snd (snd (Reread decode zones v f w)))"

text \<open>The specification: the declaration of a file, when the file can be read, checks out and is verified.\<close>

definition good ::
  "(string \<Rightarrow> (string, Declaration) result) \<Rightarrow> (string \<Rightarrow> (string, location) result) \<Rightarrow> verifier \<Rightarrow>
   (string, string) result \<Rightarrow> Declaration option" where
  "good decode zones v file =
     (case Watch_file decode zones v file of Err e \<Rightarrow> None | Ok w \<Rightarrow> Some (wa_current w))"

definition last_good ::
  "(string \<Rightarrow> (string, Declaration) result) \<Rightarrow> (string \<Rightarrow> (string, location) result) \<Rightarrow> verifier \<Rightarrow>
   (string, string) result list \<Rightarrow> Declaration option" where
  "last_good decode zones v files = (case List.map_filter (good decode zones v) files of [] \<Rightarrow> None | ds \<Rightarrow> Some (last ds))"

lemma Reread_good:
  assumes "good decode zones v (Ok (wa_raw w)) = Some (wa_current w)"
  shows "let w' = snd (snd (Reread decode zones v f w)) in
    good decode zones v (Ok (wa_raw w')) = Some (wa_current w') \<and>
    wa_current w' = (case good decode zones v f of None \<Rightarrow> wa_current w | Some d \<Rightarrow> d) \<and>
    fst (Reread decode zones v f w) = wa_current w' \<and>
    (fst (snd (Reread decode zones v f w)) = None \<longleftrightarrow> good decode zones v f \<noteq> None)"
  using assms by (auto simp: Reread_def good_def Watch_file_def Let_def split: sum.splits if_splits)

text \<open>C37. A schedule is only ever replaced by one that works. However the file is edited while the process
  runs, the declaration in force is that of the last file that could be read, passed every check and
  was verified; a file that did not is answered with an error and changes nothing; and what is in
  force is well formed: every session has a name, a cause and a task and exactly one way to wake, with
  its hours inside the day and, for one that repeats, at least a minute apart in a window that ends
  after it starts.\<close>

theorem the_last_good_file_is_in_force:
  assumes "Watch_file decode zones v first = Ok w"
  shows "last_good decode zones v (first # files) = Some (wa_current (reread_all decode zones v files w)) \<and>
    declaration_ok (wa_current (reread_all decode zones v files w))"
proof -
  have start: "good decode zones v first = Some (wa_current w)" using assms by (simp add: good_def)
  then have raw: "good decode zones v (Ok (wa_raw w)) = Some (wa_current w)"
    using assms by (auto simp: Watch_file_def good_def split: sum.splits)
  have ok: "declaration_ok d" if "good decode zones v f = Some d" for f d
    using that by (auto simp: good_def Watch_file_def dest: parse_Ok split: sum.splits)
  have all: "good decode zones v (Ok (wa_raw (reread_all decode zones v files w))) = Some (wa_current (reread_all decode zones v files w)) \<and>
      wa_current (reread_all decode zones v files w) = last (wa_current w # List.map_filter (good decode zones v) files)"
    using raw
  proof (induction files arbitrary: w)
    case Nil
    then show ?case by (simp add: map_filter_simps)
  next
    case (Cons f fs)
    let ?w = "snd (snd (Reread decode zones v f w))"
    have r: "good decode zones v (Ok (wa_raw ?w)) = Some (wa_current ?w)"
      "wa_current ?w = (case good decode zones v f of None \<Rightarrow> wa_current w | Some d \<Rightarrow> d)"
      using Reread_good [OF Cons.prems] by (simp_all add: Let_def)
    from Cons.IH [OF r(1)] r(2) show ?case by (auto simp: map_filter_simps split: option.split)
  qed
  then have "declaration_ok (wa_current (reread_all decode zones v files w))" using ok by blast
  moreover have "last_good decode zones v (first # files) = Some (wa_current (reread_all decode zones v files w))"
    using all start by (simp add: last_good_def map_filter_simps)
  ultimately show ?thesis by simp
qed

subsection \<open>How late a session may start\<close>

text \<open>A window that runs past midnight is cut there: after it, the hours are counted from a midnight the
  session has not reached.\<close>

lemma sinceMidnight_bounds: "0 \<le> sinceMidnight t \<and> sinceMidnight t < day_ns \<and>
    sinceMidnight t \<le> local_ns t mod day_ns \<and> local_ns t mod day_ns < sinceMidnight t + minute"
proof -
  let ?x = "local_ns t mod day_ns"
  have s: "sinceMidnight t = ?x div minute * minute" by (simp add: sinceMidnight_def hour_minute_floor)
  have x: "0 \<le> ?x" "?x < day_ns" using units by simp_all
  have m: "?x div minute * minute + ?x mod minute = ?x" by (rule div_mult_mod_eq)
  have "0 \<le> ?x mod minute" "?x mod minute < minute" using units by simp_all
  moreover have "0 \<le> ?x div minute" using x units by (simp add: pos_imp_zdiv_nonneg_iff)
  then have "0 \<le> ?x div minute * minute" using units by simp
  ultimately show ?thesis using x m unfolding s by linarith
qed

lemma cut_at_midnight:
  assumes "se_At s \<noteq> []" "local_ns now mod day_ns < se_at s"
  shows "\<not> Due_session s now last'"
  using assms sinceMidnight_bounds [of now] by (auto simp: Due_session_def)

text \<open>The seconds are not counted, so a session may start during the whole of its last minute.\<close>

lemma latest_start:
  assumes "se_At s \<noteq> []" "Due_session s now last'"
  shows "local_ns now mod day_ns < se_at s + se_within s + minute"
  using assms sinceMidnight_bounds [of now] by (auto simp: Due_session_def split: if_splits)

text \<open>An instant read back from the record carries the zone of the machine, and its day is the day there:
  a session that ran at half past eight in the evening in New York ran tomorrow, for a machine on UTC,
  and is due again.\<close>

definition dl_new_york :: location where "dl_new_york = (\<lambda>t. - 4 * hour)"

definition dl_evening :: Session where
  "dl_evening = \<lparr>se_Name = ''evening'', se_Cause = ''c'', se_Task = ''t'', se_Model = [], se_At = ''20:30'',
     se_Within = ''45m'', se_Days = [], se_Every = [], se_Between = [], se_CannotWait = False,
     se_at = 20 * hour + 30 * minute, se_within = 45 * minute, se_every = 0, se_from = 0, se_to = 0, se_days = []\<rparr>"

definition dl_ran :: time where "dl_ran = 20698 * day_ns + 24 * hour + 30 * minute"

lemma due_again_after_a_restart:
  "Due_session dl_evening (In_place (dl_ran + 10 * minute) dl_new_york) (Some (In_place dl_ran UTC))"
  "\<not> Due_session dl_evening (In_place (dl_ran + 10 * minute) dl_new_york) (Some (In_place dl_ran dl_new_york))"
  by code_simp+

end
