(* ===== verification/HarnessLaws.thy ===== *)
theory HarnessLaws
  imports Harness DeclarationLaws
begin

text \<open>
  What the clock and the room keep to: sessions are started when the declaration says and, once a day,
  once; a prompt is put in front of the agent once or not at all; nothing of a shell command reaches the
  record; and reads are as far apart as their cadence, but for a sixty-fourth.
\<close>

subsection \<open>The schedule\<close>

text \<open>What one tick after another does to the memory of what ran. Whatever else holds the harness is left in
  whatever state it is in when the tick comes.\<close>

datatype clock_event = Forgot string | Fired Session zoned

fun ticks :: "setting \<Rightarrow> Declaration \<Rightarrow> (time \<times> due_env \<times> Harness) list \<Rightarrow> clock_state \<Rightarrow> clock_event list" where
  "ticks cf d [] ck = []"
| "ticks cf d ((now, du, h) # rest) ck =
     (let (fired, eff, h', ck') = fireDue cf (Some d) du now h ck
      in map Forgot (forgotten d (hn_emptyTurns h)) @ map (\<lambda>(s, t). Fired s t) fired @ ticks cf d rest ck')"

text \<open>The reference: every start is due by the declaration, given the start before it that still counts.\<close>

fun mark :: "(string \<rightharpoonup> zoned) \<Rightarrow> clock_event \<Rightarrow> string \<rightharpoonup> zoned" where
  "mark m (Forgot n) = m(n := None)"
| "mark m (Fired s t) = m(se_Name s \<mapsto> t)"

fun justified :: "(string \<rightharpoonup> zoned) \<Rightarrow> clock_event list \<Rightarrow> bool" where
  "justified m [] = True"
| "justified m (e # es) =
     ((case e of Forgot n \<Rightarrow> True | Fired s t \<Rightarrow> Due_session s t (m (se_Name s))) \<and> justified (mark m e) es)"

lemma justified_append: "justified m (xs @ ys) \<longleftrightarrow> justified m xs \<and> justified (foldl mark m xs) ys"
  by (induction xs arbitrary: m) auto

lemma marks_Forgot: "foldl mark m (map Forgot ns) = m |` (- set ns)"
proof (induction ns arbitrary: m)
  case (Cons n ns)
  have "(m(n := None)) |` (- set ns) = m |` (- set (n # ns))"
    by (rule ext) (simp add: restrict_map_def)
  with Cons.IH [of "m(n := None)"] show ?case by (simp only: list.map foldl.simps mark.simps)
qed (simp add: restrict_map_def)

lemma justified_Forgot: "justified m (map Forgot ns)"
  by (induction ns arbitrary: m) auto

lemma fire_sessions_justified:
  assumes "fire_sessions cf d du now ss h ck = (fired, eff, h', ck')"
  shows "justified (ck_lastRun ck) (map (\<lambda>(s, t). Fired s t) fired) \<and>
    ck_lastRun ck' = foldl mark (ck_lastRun ck) (map (\<lambda>(s, t). Fired s t) fired) \<and>
    (\<forall>(s, t) \<in> set fired. s \<in> set ss \<and> t = now)"
  using assms
proof (induction ss arbitrary: h ck fired eff h' ck')
  case (Cons s ss)
  show ?case
  proof (cases "Due_session s now (ck_lastRun ck (se_Name s))")
    case False
    with Cons.prems have "fire_sessions cf d du now ss h ck = (fired, eff, h', ck')" by simp
    from Cons.IH [OF this] show ?thesis by auto
  next
    case due: True
    let ?h = "du_meanwhile du (se_Name s) h" and ?ck = "ck\<lparr>ck_lastRun := (ck_lastRun ck)(se_Name s \<mapsto> now)\<rparr>"
    consider (stops) "fired = []" "ck' = ck"
      | (goes) h2 f eff2 where "fire_sessions cf d du now ss h2 ?ck = (f, eff2, h', ck')" "fired = (s, now) # f"
      using Cons.prems due
      by (fastforce simp: Let_def split: if_splits prod.splits sum.splits)
    then show ?thesis
    proof cases
      case stops
      then show ?thesis by simp
    next
      case (goes h2 f eff2)
      obtain m where m: "(ck_lastRun ck)(se_Name s \<mapsto> now) = m" by blast
      have "ck_lastRun ?ck = m" by (simp add: m)
      note ih = Cons.IH [OF goes(1), unfolded this]
      show ?thesis using ih due by (auto simp: goes(2) m)
    qed
  qed
qed simp

lemma ticks_justified:
  "justified (ck_lastRun ck) (ticks cf d ts ck) \<and> (\<forall>s t. Fired s t \<in> set (ticks cf d ts ck) \<longrightarrow> s \<in> set (dc_Sessions d) \<and> z_loc t = location_of d)"
proof (induction ts arbitrary: ck)
  case (Cons tk ts)
  obtain now du h where tk: "tk = (now, du, h)" by (cases tk)
  obtain fired eff h' ck' where f: "fireDue cf (Some d) du now h ck = (fired, eff, h', ck')" by (metis prod_cases4)
  let ?ns = "forgotten d (hn_emptyTurns h)" and ?fs = "map (\<lambda>(s, t). Fired s t) fired"
  let ?ck = "ck\<lparr>ck_lastRun := ck_lastRun ck |` (- set ?ns)\<rparr>"
  have "fire_sessions cf d du (In_place now (location_of d)) (dc_Sessions d) (h\<lparr>hn_emptyTurns := []\<rparr>) ?ck = (fired, eff, h', ck')"
    using f by (simp add: fireDue_def forgetEmptyTurns_def)
  from fire_sessions_justified [OF this]
  have j: "justified (ck_lastRun ?ck) ?fs" "ck_lastRun ck' = foldl mark (ck_lastRun ?ck) ?fs"
    "\<forall>(s, t) \<in> set fired. s \<in> set (dc_Sessions d) \<and> t = In_place now (location_of d)" by simp_all
  have m: "foldl mark (ck_lastRun ck) (map Forgot ?ns) = ck_lastRun ?ck" by (simp add: marks_Forgot)
  have "s \<in> set (dc_Sessions d) \<and> z_loc t = location_of d" if "Fired s t \<in> set ?fs" for s t
    using that j(3) by (auto simp: In_place_def)
  then show ?case
    using Cons.IH [of ck'] j(1,2) by (auto simp: tk f justified_append justified_Forgot m)
qed simp

lemma mark_other: "(\<forall>n. Forgot n \<in> set es \<longrightarrow> n \<noteq> k) \<Longrightarrow> (\<forall>s t. Fired s t \<in> set es \<longrightarrow> se_Name s \<noteq> k) \<Longrightarrow>
    foldl mark m es k = m k"
proof (induction es arbitrary: m)
  case (Cons e es)
  then have "foldl mark (mark m e) es k = mark m e k" by (intro Cons.IH) auto
  also have "\<dots> = m k" using Cons.prems by (cases e) auto
  finally show ?case by simp
qed simp

text \<open>The instant is on one of the session's days and inside its window; and two instants are as far apart as
  the session asks.\<close>

definition in_its_hours :: "Session \<Rightarrow> zoned \<Rightarrow> bool" where
  "in_its_hours s t \<longleftrightarrow> (se_days s \<noteq> [] \<longrightarrow> Weekday t \<in> set (se_days s)) \<and>
     (if se_At s \<noteq> [] then se_at s \<le> sinceMidnight t \<and> sinceMidnight t \<le> se_at s + se_within s
      else se_from s \<le> sinceMidnight t \<and> sinceMidnight t \<le> se_to s)"

definition far_enough :: "Session \<Rightarrow> zoned \<Rightarrow> zoned \<Rightarrow> bool" where
  "far_enough s t t' \<longleftrightarrow>
     (if se_At s \<noteq> [] then local_ns t div day_ns \<noteq> local_ns t' div day_ns else z_at t + se_every s \<le> z_at t')"

lemma Due_session_hours: "Due_session s t last' \<Longrightarrow> in_its_hours s t"
  by (auto simp: Due_session_def in_its_hours_def not_less split: if_splits)

lemma Due_session_far: "Due_session s t' (Some t) \<Longrightarrow> far_enough s t t'"
  using same_day [of t t'] by (auto simp: Due_session_def far_enough_def split: if_splits)

text \<open>Nothing in the log between touches what is remembered of the name: neither a start of it nor an empty
  turn reported for it.\<close>

definition untouched :: "string \<Rightarrow> clock_event list \<Rightarrow> bool" where
  "untouched name es \<longleftrightarrow> (\<forall>e \<in> set es. case e of Forgot n \<Rightarrow> n \<noteq> name | Fired s t \<Rightarrow> se_Name s \<noteq> name)"

lemma untouched_mark: "untouched name es \<Longrightarrow> foldl mark m es name = m name"
  by (rule mark_other) (auto simp: untouched_def)

text \<open>C7. The declaration is kept to, as long as it stays in force. Every session that is started, or said into a running turn, the first
  start of its name included, is one the declaration in force declares, on one of its days and inside
  its window. It is far enough from the start of the same name before it, or from the start the clock
  remembered when it began: on another day of the declaration's calendar if it runs once a day, at
  least its interval later if it repeats. The one exception is a start whose turn was reported to have
  done nothing (\<open>Forgot\<close>): it does not count, and the session may start again inside its window. That
  holds whatever the agent, the room and the other goroutines do between and during the ticks.\<close>

theorem the_schedule_is_kept:
  assumes "ticks cf d ts ck = before @ Fired s' t' # after'"
  shows "s' \<in> set (dc_Sessions d) \<and> in_its_hours s' t' \<and>
    (\<forall>early s t between. before = early @ Fired s t # between \<and> se_Name s = se_Name s' \<and>
       untouched (se_Name s') between \<longrightarrow> far_enough s' t t') \<and>
    (\<forall>t. untouched (se_Name s') before \<and> ck_lastRun ck (se_Name s') = Some t \<longrightarrow> far_enough s' t t')"
proof -
  note all = ticks_justified [of ck cf d ts, unfolded assms]
  have mem: "s' \<in> set (dc_Sessions d)" by (rule conjunct1 [OF conjunct2 [OF all, rule_format, where t = t']]) simp
  have due: "Due_session s' t' (foldl mark (ck_lastRun ck) before (se_Name s'))"
    using conjunct1 [OF all] by (simp add: justified_append)
  have "far_enough s' t t'"
    if "before = early @ Fired s t # between" "se_Name s = se_Name s'" "untouched (se_Name s') between" for early s t between
  proof -
    have "foldl mark (ck_lastRun ck) before (se_Name s') = Some t"
      using that untouched_mark [OF that(3)] by simp
    then show ?thesis using due Due_session_far by simp
  qed
  moreover have "far_enough s' t t'" if "untouched (se_Name s') before" "ck_lastRun ck (se_Name s') = Some t" for t
    using due Due_session_far untouched_mark [OF that(1)] that(2) by simp
  ultimately show ?thesis using mem Due_session_hours [OF due] by blast
qed

subsection \<open>A prompt is delivered once\<close>

text \<open>The rows that say a prompt reached the agent: a turn started with it, or a cause added to a turn.\<close>

definition delivery :: "harness_effect \<Rightarrow> bool" where
  "delivery e = (case e of RecTurnStarted _ _ _ _ _ \<Rightarrow> True | RecCause _ _ _ \<Rightarrow> True | _ \<Rightarrow> False)"

definition deliveries :: "harness_effect list \<Rightarrow> nat" where
  "deliveries eff = length (filter delivery eff)"

lemma deliveries_simps [simp]: "deliveries [] = 0" "deliveries (a @ b) = deliveries a + deliveries b"
  "deliveries (e # es) = (if delivery e then 1 else 0) + deliveries es"
  by (simp_all add: deliveries_def)

lemma no_delivery [simp]: "\<not> delivery (Posted m)" "\<not> delivery (LineDeleted n)" "\<not> delivery (LineEdited n m)"
  "\<not> delivery (RecTurnFinished t now f)" "\<not> delivery ThreadForgotten" "delivery (RecTurnStarted a b c e f)" "delivery (RecCause a b c)"
  by (simp_all add: delivery_def)

lemma deliveries_say [simp]: "deliveries (say cf m) = 0"
  by (auto simp: say_def split: said.splits)

lemma finishTurn_delivers_nothing: "deliveries (fst (finishTurn cf now turnID h)) = 0"
  by (auto simp: finishTurn_def close_turn_def sayWhatWasHeldBack_def checkBrokerReach_def Let_def
      split: option.splits prod.splits if_splits)

lemma startTurnReplacing_delivers:
  "startTurnReplacing cf declared oe prompt who model stale h = (told, eff, h') \<Longrightarrow> hs_record cf \<Longrightarrow>
    deliveries eff = (if told then 1 else 0)"
  using finishTurn_delivers_nothing [of cf "oe_now oe"]
  by (auto simp: startTurnReplacing_def Let_def case_prod_beta split: if_splits sum.splits)

lemma steerInto_delivers: "steerInto cf answer turnID prompt who = (r, eff) \<Longrightarrow> hs_record cf \<Longrightarrow>
    deliveries eff = (case r of Ok u \<Rightarrow> 1 | Err e \<Rightarrow> 0)"
  by (auto simp: steerInto_def split: sum.splits)

lemma steerWhenReady_delivers:
  "steerWhenReady cf looks prompt who = (told, eff) \<Longrightarrow> hs_record cf \<Longrightarrow> deliveries eff = (if told then 1 else 0)"
  by (induction cf looks prompt who rule: steerWhenReady.induct)
    (auto split: if_splits prod.splits sum.splits dest: steerInto_delivers)

text \<open>A wake-up is put in front of the session once. \<open>Tell\<close> tries to say it into the running turn, to start
  a turn, to join the turn another cause is starting and to start once more; the record shows exactly
  one delivery when it reports success and none when it does not.\<close>

theorem told_exactly_once:
  assumes "Tell cf declared te prompt who h = (told, eff, h')" "hs_record cf"
  shows "deliveries eff = (if told then 1 else 0)"
proof (cases "steer_running cf (te_steer te) prompt who h")
  case (Inr e)
  then have "deliveries e = 1"
    using assms(2) by (auto simp: steer_running_def split: if_splits sum.splits prod.splits dest: steerInto_delivers)
  then show ?thesis using assms(1) Inr by (simp add: Tell_def)
next
  case (Inl stale)
  obtain b1 e1 h1 where s1: "startTurnReplacing cf declared (te_first te) prompt who [] stale h = (b1, e1, h1)" by (metis prod_cases3)
  obtain b2 e2 where s2: "steerWhenReady cf (te_looks te) prompt who = (b2, e2)" by (metis prod.exhaust)
  obtain b3 e3 h3 where s3: "startTurnReplacing cf declared (te_second te) prompt who [] [] (te_meanwhile te h1) = (b3, e3, h3)" by (metis prod_cases3)
  have "(told, eff, h') = (if b1 then (True, e1, h1) else if b2 then (True, e1 @ e2, te_meanwhile te h1) else (b3, e1 @ e2 @ e3, h3))"
    using assms(1) Inl s1 s2 s3
    by (cases b1; cases b2) (simp_all add: Tell_def start_or_join_def startTurnWith_def)
  then show ?thesis
    using startTurnReplacing_delivers [OF s1 assms(2)] steerWhenReady_delivers [OF s2 assms(2)] startTurnReplacing_delivers [OF s3 assms(2)]
    by (auto split: if_splits)
qed

subsection \<open>Shell commands\<close>

definition row :: "harness_effect \<Rightarrow> bool" where
  "row e = (case e of RecCallStarted _ _ _ _ _ _ \<Rightarrow> True | RecCallFinished _ _ _ _ \<Rightarrow> True | RecSaid _ _ \<Rightarrow> True
     | RecTurnStarted _ _ _ _ _ \<Rightarrow> True | RecTurnFinished _ _ _ \<Rightarrow> True | RecCause _ _ _ \<Rightarrow> True | _ \<Rightarrow> False)"

text \<open>C38. What was typed into a shell stays out of the record. Two shell calls that differ only in what ran, how
  it was typed, what it answered and how it failed leave the same rows, at the start and at the end, and
  the same state behind: the record cannot tell them apart.\<close>

theorem shell_commands_stay_private:
  assumes "ca_Server c = ServerShell"
    and "c' = c\<lparr>ca_Tool := tool, ca_Arguments := args, ca_Failure := failure, ca_Answer := answer\<rparr>"
  shows "filter row (fst (follow cf now (EvToolStarted turn c) h)) = filter row (fst (follow cf now (EvToolStarted turn c') h)) \<and>
    filter row (fst (follow cf now (EvTool turn c) h)) = filter row (fst (follow cf now (EvTool turn c') h)) \<and>
    snd (follow cf now (EvToolStarted turn c) h) = snd (follow cf now (EvToolStarted turn c') h) \<and>
    snd (follow cf now (EvTool turn c) h) = snd (follow cf now (EvTool turn c') h)"
  using assms by (simp add: callStarted_def callFinished_def updateStatus_def Let_def row_def)

subsection \<open>Cadences\<close>

lemma elapsed_spacing:
  assumes "elapsed (Some l) now every = (True, Some now)" "0 < every" "l \<le> now"
  shows "63 * every \<le> 64 * (now - l)"
proof -
  have "every - slack every \<le> now - l" using assms by (auto simp: elapsed_def split: if_splits)
  moreover have "64 * slack every \<le> every" using assms(2) by (simp add: slack_def go_div_nonneg)
  ultimately show ?thesis by simp
qed

lemma elapsed_when_due: "0 < every \<Longrightarrow> every \<le> now - l \<Longrightarrow> elapsed (Some l) now every = (True, Some now)"
  by (auto simp: elapsed_def slack_def go_div_nonneg)

text \<open>At ten seconds the tolerance is more than a tenth of a second, and more than a second at a hundred.\<close>

lemma slack_at: "slack (10 * second) = 156250000" "slack (100 * second) = 1562500000"
  by (simp_all add: slack_def second_def go_div_def)

text \<open>A reread fills in what the record says only for names not known yet.\<close>

lemma reread_keeps_what_ran:
  assumes "rereadTheDeclaration answer ran_today in_force ck = (in_force', ck')" "ck_lastRun ck name = Some t"
  shows "ck_lastRun ck' name = Some t"
  using assms by (auto simp: rereadTheDeclaration_def split: option.splits prod.splits if_splits)

end
