(* ===== verification/HarnessTurns.thy ===== *)
theory HarnessTurns
  imports Harness
begin

text \<open>
  The goroutines of the harness around one conversation, as a step relation. Any number of callers may
  want to start a turn; each goes through the locked parts of \<open>startTurnReplacing\<close> one at a time, with
  the agent's stream, the agent itself and, if a turn has a bound, the watcher running in between. The
  agent gives every turn a name of its own and reports its end after everything it did. What may go
  wrong around the conversation is a parameter: the theorems say which of it they need to be absent,
  and runs at the end show what each hazard does.
\<close>

subsection \<open>The system\<close>

text \<open>Where a caller is inside \<open>startTurnReplacing\<close>: it holds the claim; the agent has started its turn but the
  answer is on its way; the name is published; the flags are reset; the turn is known to have ended
  already; only the claim is left to give up.\<close>

datatype stage = Claimed | Started string | Published string | Cleared string | Ended string | Leaving

text \<open>What the agent sends: something a turn said or called, and the end of a turn.\<close>

datatype signal = Acts string | Done string

record system =
  sy_h :: Harness
  sy_stage :: "nat \<Rightarrow> stage option"
  sy_live :: "string set"
  sy_names :: "string set"
  sy_queue :: "signal list"
  sy_cut :: "string option"
  sy_judged :: "(string \<times> bool) list"
  sy_spoke :: "string set"
  sy_lost :: "string set"

definition dones :: "signal list \<Rightarrow> string list" where
  "dones q = List.map_filter (\<lambda>s. case s of Done n \<Rightarrow> Some n | Acts _ \<Rightarrow> None) q"

lemma dones_simps [simp]: "dones [] = []" "dones (Done n # q) = n # dones q" "dones (Acts n # q) = dones q"
  "dones (p @ q) = dones p @ dones q"
  by (simp_all add: dones_def map_filter_simps map_filter_def)

lemma set_dones: "n \<in> set (dones q) \<longleftrightarrow> Done n \<in> set q"
  by (induction q) (auto simp: dones_def map_filter_simps split: signal.split)

definition judge :: "string \<Rightarrow> closing option \<Rightarrow> (string \<times> bool) list" where
  "judge n c = (case c of None \<Rightarrow> [] | Some c \<Rightarrow> [(n, cl_acted c)])"

text \<open>
  What may go wrong: a steer is refused though the turn it was meant for is alive (a deadline on the
  call, say); the watcher runs, that is, \<open>TURN_LIMIT\<close> is set; starting a turn answers an error though
  the agent has started it (the deadline of the call again); the buffer of events is full, and what the
  agent sends is dropped.
\<close>

record hazards =
  may_refuse_live :: bool
  may_interrupt :: bool
  may_answer_late :: bool
  may_drop :: bool

text \<open>The locked parts of the callers and of the stream, on the shared state. \<open>heard\<close> says whether what the
  agent sends found room.\<close>

inductive sys_step :: "hazards \<Rightarrow> system \<Rightarrow> system \<Rightarrow> bool" for f where
  claims: "sy_stage w p = None \<Longrightarrow> stale = [] \<or> may_refuse_live f \<or> stale \<notin> sy_live w \<Longrightarrow>
    claim stale (sy_h w) = (True, h) \<Longrightarrow>
    sys_step f w (w\<lparr>sy_h := h, sy_stage := (sy_stage w)(p \<mapsto> Claimed)\<rparr>)"
| refused: "sy_stage w p = Some Claimed \<Longrightarrow>
    sys_step f w (w\<lparr>sy_stage := (sy_stage w)(p \<mapsto> Leaving)\<rparr>)"
| answers_late: "may_answer_late f \<Longrightarrow> sy_stage w p = Some Claimed \<Longrightarrow> n \<noteq> [] \<Longrightarrow> n \<notin> sy_names w \<Longrightarrow>
    sys_step f w (w\<lparr>sy_stage := (sy_stage w)(p \<mapsto> Leaving),
      sy_live := insert n (sy_live w), sy_names := insert n (sy_names w)\<rparr>)"
| starts: "sy_stage w p = Some Claimed \<Longrightarrow> n \<noteq> [] \<Longrightarrow> n \<notin> sy_names w \<Longrightarrow>
    sys_step f w (w\<lparr>sy_stage := (sy_stage w)(p \<mapsto> Started n),
      sy_live := insert n (sy_live w), sy_names := insert n (sy_names w)\<rparr>)"
| publishes: "sy_stage w p = Some (Started n) \<Longrightarrow>
    sys_step f w (w\<lparr>sy_h := publish n status who now (sy_h w),
      sy_stage := (sy_stage w)(p \<mapsto> Published n)\<rparr>)"
| resets: "sy_stage w p = Some (Published n) \<Longrightarrow>
    sys_step f w (w\<lparr>sy_h := reset_flags (sy_h w), sy_stage := (sy_stage w)(p \<mapsto> Cleared n)\<rparr>)"
| checks: "sy_stage w p = Some (Cleared n) \<Longrightarrow> endedAlready n (sy_h w) = (ended, h) \<Longrightarrow>
    sys_step f w (w\<lparr>sy_h := h,
      sy_stage := (sy_stage w)(p \<mapsto> (if ended then Ended n else Leaving))\<rparr>)"
| ends: "sy_stage w p = Some (Ended n) \<Longrightarrow> finish_locked n (sy_h w) = (c, h) \<Longrightarrow>
    sys_step f w (w\<lparr>sy_h := h, sy_stage := (sy_stage w)(p \<mapsto> Leaving),
      sy_judged := sy_judged w @ judge n c\<rparr>)"
| leaves: "sy_stage w p = Some Leaving \<Longrightarrow>
    sys_step f w (w\<lparr>sy_h := release (sy_h w), sy_stage := (sy_stage w)(p := None)\<rparr>)"
| agent_acts: "n \<in> sy_live w \<Longrightarrow> heard \<or> may_drop f \<Longrightarrow>
    sys_step f w (w\<lparr>sy_queue := sy_queue w @ (if heard then [Acts n] else []), sy_spoke := insert n (sy_spoke w)\<rparr>)"
| agent_ends: "n \<in> sy_live w \<Longrightarrow> heard \<or> may_drop f \<Longrightarrow>
    sys_step f w (w\<lparr>sy_live := sy_live w - {n}, sy_queue := sy_queue w @ (if heard then [Done n] else []),
      sy_lost := (if heard then sy_lost w else insert n (sy_lost w))\<rparr>)"
| hears_acts: "sy_queue w = Acts n # q \<Longrightarrow>
    sys_step f w (w\<lparr>sy_h := markActed (sy_h w), sy_queue := q\<rparr>)"
| hears_done: "sy_queue w = Done n # q \<Longrightarrow> finish_locked n (sy_h w) = (c, h) \<Longrightarrow>
    sys_step f w (w\<lparr>sy_h := h, sy_queue := q, sy_judged := sy_judged w @ judge n c\<rparr>)"
| interrupts: "may_interrupt f \<Longrightarrow> hn_turnID (sy_h w) = n \<Longrightarrow> n \<noteq> [] \<Longrightarrow> sy_cut w = None \<Longrightarrow> heard \<or> may_drop f \<Longrightarrow>
    sys_step f w (w\<lparr>sy_cut := Some n, sy_live := sy_live w - {n},
      sy_queue := sy_queue w @ (if n \<in> sy_live w \<and> heard then [Done n] else []),
      sy_lost := (if n \<in> sy_live w \<and> \<not> heard then insert n (sy_lost w) else sy_lost w)\<rparr>)"
| clears: "sy_cut w = Some n \<Longrightarrow>
    sys_step f w (w\<lparr>sy_h := snd (clearTurn cf (sy_h w)), sy_cut := None\<rparr>)"

definition fresh_harness :: Harness where
  "fresh_harness = \<lparr>hn_lastSaid = None, hn_heldBack = [], hn_threadID = [], hn_turnID = [], hn_statusID = 0,
     hn_turnFor = [], hn_turnStarted = None, hn_finishedBeforePublished = [], hn_opening = False,
     hn_brokerCalled = False, hn_brokerless = 0, hn_turnActed = False, hn_emptyTurns = [], hn_refusedInterrupts = 0\<rparr>"

definition system_start :: system where
  "system_start = \<lparr>sy_h = fresh_harness, sy_stage = (\<lambda>p. None), sy_live = {}, sy_names = {}, sy_queue = [],
     sy_cut = None, sy_judged = [], sy_spoke = {}, sy_lost = {}\<rparr>"

inductive reachable :: "hazards \<Rightarrow> system \<Rightarrow> bool" for f where
  start: "reachable f system_start"
| step: "reachable f w \<Longrightarrow> sys_step f w w' \<Longrightarrow> reachable f w'"

text \<open>No turn is taken for over, or left behind, that is alive. Events may still be dropped.\<close>

definition no_strays :: "hazards \<Rightarrow> bool" where
  "no_strays f \<longleftrightarrow> \<not> may_refuse_live f \<and> \<not> may_interrupt f \<and> \<not> may_answer_late f"

subsection \<open>The invariant\<close>

text \<open>Exactly the caller that holds the claim is inside.\<close>

definition one_inside :: "system \<Rightarrow> stage option \<Rightarrow> bool" where
  "one_inside w s \<longleftrightarrow> (case s of
       None \<Rightarrow> \<not> hn_opening (sy_h w) \<and> (\<forall>p. sy_stage w p = None)
     | Some st \<Rightarrow> hn_opening (sy_h w) \<and> (\<exists>p. sy_stage w = [p \<mapsto> st]))"

text \<open>A turn that stands as running runs, or its end is on its way, or was dropped.\<close>

definition stands :: "system \<Rightarrow> bool" where
  "stands w \<longleftrightarrow> hn_turnID (sy_h w) = [] \<or> hn_turnID (sy_h w) \<in> sy_live w \<or> Done (hn_turnID (sy_h w)) \<in> set (sy_queue w) \<or>
     hn_turnID (sy_h w) \<in> sy_lost w"

text \<open>The end of a turn that is being opened: still to come, last on its way, dropped, or noted because its
  name was not known.\<close>

definition end_noted :: "system \<Rightarrow> string \<Rightarrow> bool" where
  "end_noted w n \<longleftrightarrow> sy_queue w = [] \<and> sy_live w = {} \<and> hn_finishedBeforePublished (sy_h w) = n"

definition end_to_come :: "system \<Rightarrow> string \<Rightarrow> bool" where
  "end_to_come w n \<longleftrightarrow> n \<in> sy_live w \<or> sy_live w = {} \<and> sy_queue w \<noteq> [] \<and> last (sy_queue w) = Done n \<or> n \<in> sy_lost w"

definition stage_ok :: "system \<Rightarrow> stage option \<Rightarrow> bool" where
  "stage_ok w s \<longleftrightarrow> (let t = hn_turnID (sy_h w); L = sy_live w; e = hn_finishedBeforePublished (sy_h w) in
     (case s of
        None \<Rightarrow> L \<subseteq> {t} \<and> stands w
      | Some st \<Rightarrow>
        (case st of
           Claimed \<Rightarrow> L = {} \<and> stands w
         | Started n \<Rightarrow> n \<noteq> [] \<and> n \<in> sy_names w \<and> t \<noteq> n \<and> L \<subseteq> {n} \<and> stands w \<and>
             (end_to_come w n \<and> e \<noteq> n \<or> end_noted w n)
         | Published n \<Rightarrow> n \<noteq> [] \<and> n \<in> sy_names w \<and> L \<subseteq> {t} \<and>
             (t = [] \<and> e \<noteq> n \<and> Done n \<notin> set (sy_queue w) \<or> t = n \<and> (end_to_come w n \<and> e \<noteq> n \<or> end_noted w n))
         | Cleared n \<Rightarrow> n \<noteq> [] \<and> n \<in> sy_names w \<and> L \<subseteq> {t} \<and>
             (t = [] \<and> e \<noteq> n \<and> Done n \<notin> set (sy_queue w) \<or>
              t = n \<and> (end_to_come w n \<and> e \<noteq> n \<or> end_noted w n \<and> \<not> hn_turnActed (sy_h w)))
         | Ended n \<Rightarrow> n \<noteq> [] \<and> t = n \<and> L = {} \<and> sy_queue w = [] \<and> \<not> hn_turnActed (sy_h w)
         | Leaving \<Rightarrow> L \<subseteq> {t} \<and> stands w)))"

definition names_ok :: "system \<Rightarrow> bool" where
  "names_ok w \<longleftrightarrow> [] \<notin> sy_names w \<and> sy_live w \<subseteq> sy_names w \<and> distinct (dones (sy_queue w)) \<and>
     (\<forall>n. Done n \<in> set (sy_queue w) \<longrightarrow> n \<in> sy_names w \<and> n \<notin> sy_live w) \<and>
     (hn_turnID (sy_h w) = [] \<or> hn_turnID (sy_h w) \<in> sy_names w) \<and>
     (hn_finishedBeforePublished (sy_h w) = [] \<or> hn_finishedBeforePublished (sy_h w) \<in> sy_names w) \<and>
     hn_finishedBeforePublished (sy_h w) \<notin> sy_live w \<and>
     (\<forall>n \<in> sy_lost w. n \<in> sy_names w \<and> n \<notin> sy_live w \<and> Done n \<notin> set (sy_queue w) \<and>
        n \<noteq> hn_finishedBeforePublished (sy_h w))"

definition sys_inv :: "system \<Rightarrow> bool" where
  "sys_inv w \<longleftrightarrow> (\<exists>s. one_inside w s \<and> stage_ok w s) \<and> names_ok w \<and> sy_cut w = None"

lemmas inv_defs = stage_ok_def names_ok_def stands_def end_to_come_def end_noted_def Let_def

text \<open>What a caller is at is what is inside.\<close>

lemma at_stage:
  assumes "one_inside w s" "sy_stage w p = Some st"
  shows "s = Some st" "hn_opening (sy_h w)" "sy_stage w = [p \<mapsto> st]"
  using assms by (auto simp: one_inside_def split: option.splits if_splits)

lemma inside_moves: "sy_stage w = [p \<mapsto> st] \<Longrightarrow> hn_opening (sy_h w') \<Longrightarrow>
    sy_stage w' = (sy_stage w)(p \<mapsto> st') \<Longrightarrow> one_inside w' (Some st')"
  by (auto simp: one_inside_def)

lemma invI: "one_inside w s \<Longrightarrow> stage_ok w s \<Longrightarrow> names_ok w \<Longrightarrow> sy_cut w = None \<Longrightarrow> sys_inv w"
  by (auto simp: sys_inv_def)

text \<open>The steps of the caller inside.\<close>

lemma inv_inside:
  assumes "sys_inv w" "sy_stage w p = Some st"
  shows "stage_ok w (Some st)" "names_ok w" "hn_opening (sy_h w)" "sy_stage w = [p \<mapsto> st]" "sy_cut w = None"
  using assms at_stage by (auto simp: sys_inv_def)

lemma inv_moves:
  assumes "sys_inv w" "sy_stage w p = Some st" "sy_stage w' = (sy_stage w)(p \<mapsto> st')" "hn_opening (sy_h w')" "sy_cut w' = None"
    and "stage_ok w (Some st) \<Longrightarrow> names_ok w \<Longrightarrow> stage_ok w' (Some st')"
    and "stage_ok w (Some st) \<Longrightarrow> names_ok w \<Longrightarrow> names_ok w'"
  shows "sys_inv w'"
proof -
  note i = inv_inside [OF assms(1,2)]
  show ?thesis
    by (rule invI [OF inside_moves [OF i(4) assms(4,3)] assms(6) [OF i(1,2)] assms(7) [OF i(1,2)] assms(5)])
qed

lemma inv_start: "sys_inv system_start"
  by (rule invI [of _ None]) (auto simp: system_start_def fresh_harness_def one_inside_def inv_defs)

lemma last_mem: "q \<noteq> [] \<Longrightarrow> last q = x \<Longrightarrow> x \<in> set q"
  by auto

lemma claim_True: "claim stale h = (True, h') \<Longrightarrow>
    \<not> hn_opening h \<and> (hn_turnID h = [] \<or> hn_turnID h = stale) \<and> h' = h\<lparr>hn_opening := True\<rparr>"
  by (auto simp: claim_def split: if_splits)

text \<open>The stream hears the end of a turn: of the one that stands, or of another.\<close>

lemma inv_hears_done:
  assumes "sy_queue w = Done n # q" "finish_locked n (sy_h w) = (c, h)" "sys_inv w"
  shows "sys_inv (w\<lparr>sy_h := h, sy_queue := q, sy_judged := sy_judged w @ judge n c\<rparr>)"
proof -
  let ?w = "w\<lparr>sy_h := h, sy_queue := q, sy_judged := sy_judged w @ judge n c\<rparr>"
  let ?t = "hn_turnID (sy_h w)" and ?e = "hn_finishedBeforePublished (sy_h w)"
  obtain s where s: "one_inside w s" "stage_ok w s" "names_ok w" "sy_cut w = None" using assms(3) by (auto simp: sys_inv_def)
  have n: "n \<noteq> []" "n \<in> sy_names w" "n \<notin> sy_live w" "Done n \<notin> set q" "distinct (dones q)" "n \<notin> sy_lost w"
    using s(3) assms(1) by (auto simp: names_ok_def set_dones)
  have op: "hn_opening (sy_h w) \<longleftrightarrow> s \<noteq> None" using s(1) by (auto simp: one_inside_def split: option.splits)
  have h: "hn_opening h = hn_opening (sy_h w)" "hn_turnActed h = hn_turnActed (sy_h w)"
    "hn_turnID h = (if n = ?t then [] else ?t)"
    "hn_finishedBeforePublished h = (if n \<noteq> ?t \<and> s \<noteq> None then n else ?e)"
    using assms(2) n(1) op by (auto simp: finish_locked_def split: if_splits)
  have "one_inside ?w s" using s(1) h(1) by (auto simp: one_inside_def split: option.splits)
  moreover have "names_ok ?w"
    using s(3) assms(1) n h(3,4) by (auto simp: names_ok_def)
  moreover have stands: "stands ?w" if "stands w"
    using that assms(1) h(3) by (auto simp: stands_def)
  moreover have live: "sy_live ?w \<subseteq> {hn_turnID h}" if "sy_live w \<subseteq> {?t}"
    using that n(3) h(3) by auto
  moreover have "stage_ok ?w s"
  proof (cases s)
    case None
    then show ?thesis using s(2) stands live by (simp add: stage_ok_def Let_def)
  next
    case (Some st)
    show ?thesis
    proof (cases st)
      case Claimed
      then show ?thesis using Some s(2) stands by (simp add: stage_ok_def Let_def)
    next
      case (Started m)
      have old: "m \<noteq> []" "m \<in> sy_names w" "?t \<noteq> m" "sy_live w \<subseteq> {m}" "stands w" "end_to_come w m \<and> ?e \<noteq> m \<or> end_noted w m"
        using Some Started s(2) by (simp_all add: stage_ok_def Let_def)
      have "end_to_come ?w m \<and> hn_finishedBeforePublished h \<noteq> m \<or> end_noted ?w m"
        using old assms(1) h(4) n Some by (cases "q = []") (auto simp: end_to_come_def end_noted_def intro: last_mem)
      then show ?thesis using old Some Started stands h(3) by (simp add: stage_ok_def Let_def)
    next
      case (Published m)
      show ?thesis
        using s(2) assms(1) n h Some Published live
        by (cases "q = []") (auto simp: stage_ok_def Let_def end_to_come_def end_noted_def)
    next
      case (Cleared m)
      show ?thesis
        using s(2) assms(1) n h Some Cleared live
        by (cases "q = []") (auto simp: stage_ok_def Let_def end_to_come_def end_noted_def)
    next
      case (Ended m)
      then show ?thesis using Some s(2) assms(1) by (simp add: stage_ok_def Let_def)
    next
      case Leaving
      then show ?thesis using Some s(2) stands live by (simp add: stage_ok_def Let_def)
    qed
  qed
  ultimately show ?thesis using s(4) by (auto intro: invI)
qed

lemma inv_step:
  assumes "no_strays f"
  shows "sys_step f w w' \<Longrightarrow> sys_inv w \<Longrightarrow> sys_inv w'"
proof (induction rule: sys_step.induct)
  case (claims w p stale h)
  note c = claim_True [OF claims.hyps(3)]
  obtain s where s: "one_inside w s" "stage_ok w s" "names_ok w" "sy_cut w = None" using claims.prems by (auto simp: sys_inv_def)
  have none: "s = None" using s(1) c by (auto simp: one_inside_def split: option.splits)
  then have empty: "sy_live w = {}" using s c claims.hyps(2) assms by (auto simp: inv_defs no_strays_def)
  have st: "sy_stage w = Map.empty" using s(1) by (auto simp: none one_inside_def)
  show ?case
  proof (rule invI [of _ "Some Claimed"])
    show "one_inside (w\<lparr>sy_h := h, sy_stage := (sy_stage w)(p \<mapsto> Claimed)\<rparr>) (Some Claimed)"
      using c by (auto simp: one_inside_def st)
  qed (use s none empty c in \<open>auto simp: inv_defs\<close>)
next
  case (refused w p)
  note i = inv_inside [OF refused.prems refused.hyps]
  show ?case by (rule inv_moves [OF refused.prems refused.hyps]) (use i in \<open>auto simp: inv_defs\<close>)
next
  case (answers_late w p n)
  then show ?case using assms by (simp add: no_strays_def)
next
  case (starts w p n)
  note i = inv_inside [OF starts.prems starts.hyps(1)]
  show ?case by (rule inv_moves [OF starts.prems starts.hyps(1)]) (use i starts.hyps in \<open>auto simp: inv_defs\<close>)
next
  case (publishes w p n status who now)
  note i = inv_inside [OF publishes.prems publishes.hyps]
  show ?case by (rule inv_moves [OF publishes.prems publishes.hyps]) (use i in \<open>auto simp: inv_defs publish_def\<close>)
next
  case (resets w p n)
  note i = inv_inside [OF resets.prems resets.hyps]
  show ?case by (rule inv_moves [OF resets.prems resets.hyps]) (use i in \<open>auto simp: inv_defs reset_flags_def\<close>)
next
  case (checks w p n ended h)
  note i = inv_inside [OF checks.prems checks.hyps(1)]
  show ?case
    by (rule inv_moves [OF checks.prems checks.hyps(1)])
      (use i checks.hyps(2) in \<open>auto simp: inv_defs endedAlready_def split: if_splits intro: last_mem\<close>)
next
  case (ends w p n c h)
  note i = inv_inside [OF ends.prems ends.hyps(1)]
  show ?case
    by (rule inv_moves [OF ends.prems ends.hyps(1)])
      (use i ends.hyps(2) in \<open>auto simp: inv_defs finish_locked_def split: if_splits\<close>)
next
  case (leaves w p)
  note i = inv_inside [OF leaves.prems leaves.hyps]
  show ?case
    by (rule invI [of _ None]) (use i in \<open>auto simp: one_inside_def inv_defs release_def\<close>)
next
  case (agent_acts n w heard)
  obtain s where s: "one_inside w s" "stage_ok w s" "names_ok w" "sy_cut w = None" using agent_acts.prems by (auto simp: sys_inv_def)
  show ?case
    by (rule invI [of _ s]) (use s agent_acts.hyps in \<open>auto simp: one_inside_def inv_defs split: option.splits stage.splits\<close>)
next
  case (agent_ends n w heard)
  obtain s where s: "one_inside w s" "stage_ok w s" "names_ok w" "sy_cut w = None" using agent_ends.prems by (auto simp: sys_inv_def)
  show ?case
  proof (rule invI [of _ s])
    let ?w = "w\<lparr>sy_live := sy_live w - {n}, sy_queue := sy_queue w @ (if heard then [Done n] else []),
      sy_lost := (if heard then sy_lost w else insert n (sy_lost w))\<rparr>"
    show "one_inside ?w s" using s(1) by (auto simp: one_inside_def split: option.splits)
    have n: "n \<in> sy_names w" "Done n \<notin> set (sy_queue w)" "n \<notin> sy_lost w" "distinct (dones (sy_queue w))"
      using s(3) agent_ends.hyps(1) by (auto simp: names_ok_def)
    have e: "n \<noteq> hn_finishedBeforePublished (sy_h w)" using s(3) agent_ends.hyps(1) by (auto simp: names_ok_def)
    show "names_ok ?w" using s(3) n e by (cases heard) (auto simp: names_ok_def set_dones)
    have stands: "stands ?w" if "stands w" using that by (auto simp: stands_def)
    show "stage_ok ?w s"
    proof (cases s)
      case None
      then show ?thesis using s(2) stands by (auto simp: stage_ok_def Let_def)
    next
      case (Some st)
      show ?thesis
        using s(2) Some stands agent_ends.hyps(1) n e
        by (cases st; cases heard) (auto simp: stage_ok_def Let_def end_to_come_def end_noted_def)
    qed
  qed (use s in simp)
next
  case (hears_acts w n q)
  obtain s where s: "one_inside w s" "stage_ok w s" "names_ok w" "sy_cut w = None" using hears_acts.prems by (auto simp: sys_inv_def)
  show ?case
    by (rule invI [of _ s]) (use s hears_acts.hyps in \<open>auto simp: one_inside_def inv_defs markActed_def split: option.splits stage.splits if_splits\<close>)
next
  case (hears_done w n q c h)
  then show ?case by (intro inv_hears_done)
next
  case (interrupts w n heard)
  then show ?case using assms by (simp add: no_strays_def)
next
  case (clears w n cf)
  then show ?case by (simp add: sys_inv_def)
qed

subsection \<open>What holds in every run\<close>

lemma reachable_inv: "reachable f w \<Longrightarrow> no_strays f \<Longrightarrow> sys_inv w"
  by (induction rule: reachable.induct) (auto intro: inv_start inv_step)

lemma nothing_lost: "reachable f w \<Longrightarrow> sy_lost w \<noteq> {} \<Longrightarrow> may_drop f"
proof (induction rule: reachable.induct)
  case (step w w')
  from step.hyps(2) step.prems step.IH show ?case by (cases rule: sys_step.cases) (auto split: if_splits)
qed (simp add: system_start_def)

text \<open>The claim is exclusive whatever goes wrong.\<close>

lemma inside_step:
  assumes "one_inside w s" "sys_step f w w'"
  shows "\<exists>s. one_inside w' s"
  using assms(2,1)
proof (induction rule: sys_step.induct)
  case (claims w p stale h)
  note c = claim_True [OF claims.hyps(3)]
  have "sy_stage w = Map.empty" using claims.prems c by (auto simp: one_inside_def split: option.splits)
  then show ?case using c by (intro exI [of _ "Some Claimed"]) (auto simp: one_inside_def)
next
  case (leaves w p)
  then show ?case
    using at_stage(3) [OF leaves.prems leaves.hyps] by (intro exI [of _ None]) (auto simp: one_inside_def release_def)
next
  case (checks w p n ended h)
  then show ?case
    using at_stage [OF checks.prems checks.hyps(1)]
    by (intro exI [of _ "Some (if ended then Ended n else Leaving)"])
      (auto simp: one_inside_def endedAlready_def split: if_splits)
next
  case (ends w p n c h)
  then show ?case
    using at_stage [OF ends.prems ends.hyps(1)]
    by (intro exI [of _ "Some Leaving"]) (auto simp: one_inside_def finish_locked_def split: if_splits)
next
  case (hears_done w n q c h)
  then show ?case
    by (intro exI [of _ s]) (auto simp: one_inside_def finish_locked_def split: option.splits if_splits)
next
  case (refused w p)
  then show ?case
    using at_stage [OF refused.prems refused.hyps] by (intro exI [of _ "Some Leaving"]) (auto simp: one_inside_def)
next
  case (answers_late w p n)
  then show ?case
    using at_stage [OF answers_late.prems answers_late.hyps(2)]
    by (intro exI [of _ "Some Leaving"]) (auto simp: one_inside_def)
next
  case (starts w p n)
  then show ?case
    using at_stage [OF starts.prems starts.hyps(1)] by (intro exI [of _ "Some (Started n)"]) (auto simp: one_inside_def)
next
  case (publishes w p n status who now)
  then show ?case
    using at_stage [OF publishes.prems publishes.hyps]
    by (intro exI [of _ "Some (Published n)"]) (auto simp: one_inside_def publish_def)
next
  case (resets w p n)
  then show ?case
    using at_stage [OF resets.prems resets.hyps]
    by (intro exI [of _ "Some (Cleared n)"]) (auto simp: one_inside_def reset_flags_def)
qed (intro exI [of _ s], auto simp: one_inside_def markActed_def clearTurn_def split: option.splits)+

lemma reachable_inside: "reachable f w \<Longrightarrow> \<exists>s. one_inside w s"
proof (induction rule: reachable.induct)
  case start
  then show ?case by (intro exI [of _ None]) (simp add: one_inside_def system_start_def fresh_harness_def)
next
  case (step w w')
  then show ?case using inside_step by blast
qed

text \<open>C4. Two turns never run on one account. Whatever goes wrong, in every interleaving of any number of
  callers, the stream, the agent and the watcher one caller at most is inside the opening of a turn.
  And if a turn has no bound (\<open>TURN_LIMIT\<close> is not set), a steer is refused only for a turn that is
  over, and starting a turn does not answer an error for a turn that the agent has started, then at
  most one turn is alive, and none is while a caller holds the claim, also when events are dropped.
  Without any one of the three, two turns can be alive: the runs at the end show it.\<close>

theorem one_turn_at_a_time:
  assumes "reachable f w"
  shows "(\<forall>p q. sy_stage w p \<noteq> None \<and> sy_stage w q \<noteq> None \<longrightarrow> p = q) \<and>
    (\<not> may_interrupt f \<and> \<not> may_refuse_live f \<and> \<not> may_answer_late f \<longrightarrow>
       (\<exists>n. sy_live w \<subseteq> {n}) \<and> (\<forall>p. sy_stage w p = Some Claimed \<longrightarrow> sy_live w = {}))"
proof -
  have "\<forall>p q. sy_stage w p \<noteq> None \<and> sy_stage w q \<noteq> None \<longrightarrow> p = q"
    using reachable_inside [OF assms] by (auto simp: one_inside_def split: option.splits if_splits)
  moreover have "(\<exists>n. sy_live w \<subseteq> {n}) \<and> (\<forall>p. sy_stage w p = Some Claimed \<longrightarrow> sy_live w = {})"
    if good: "no_strays f"
  proof -
    obtain s where s: "one_inside w s" "stage_ok w s" using reachable_inv [OF assms good] by (auto simp: sys_inv_def)
    have "\<exists>n. sy_live w \<subseteq> {n}"
      using s(2) by (auto simp: stage_ok_def Let_def split: option.splits stage.splits)
    moreover have "sy_live w = {}" if "sy_stage w p = Some Claimed" for p
      using at_stage(1) [OF s(1) that] s(2) by (simp add: stage_ok_def Let_def)
    ultimately show ?thesis by blast
  qed
  ultimately show ?thesis by (simp add: no_strays_def)
qed

text \<open>C5. No finished turn is left standing unheard. If a turn has no bound, a steer is refused only for a turn
  that is over, and starting a turn does not answer an error for a turn that the agent has started,
  then whenever the harness takes a turn to be running, the turn is alive, or the report of its end is
  still on its way, or the caller that opened it is about to notice, or the report of its end was
  dropped on a full buffer. The last is what the code leaves open: a turn whose end is dropped stands
  until somebody stops it.\<close>

theorem no_finished_turn_stands:
  assumes "reachable f w" "\<not> may_interrupt f" "\<not> may_refuse_live f" "\<not> may_answer_late f"
    "hn_turnID (sy_h w) = n" "n \<noteq> []"
  shows "n \<in> sy_live w \<or> Done n \<in> set (sy_queue w) \<or>
    (\<exists>p. sy_stage w p \<in> {Some (Published n), Some (Cleared n), Some (Ended n)}) \<or>
    may_drop f \<and> n \<in> sy_lost w"
proof -
  have good: "no_strays f" using assms(2-4) by (simp add: no_strays_def)
  obtain s where s: "one_inside w s" "stage_ok w s" using reachable_inv [OF assms(1) good] by (auto simp: sys_inv_def)
  have stage: "\<exists>p. sy_stage w p = Some st" if "s = Some st" for st
    using s(1) that by (auto simp: one_inside_def)
  have lost: "may_drop f" if "n \<in> sy_lost w" using nothing_lost [OF assms(1)] that by blast
  show ?thesis
    using s(2) assms(5,6) stage lost
    by (cases s) (auto simp: stage_ok_def stands_def Let_def split: stage.splits)
qed

text \<open>A turn whose end was heard before its name is judged by flags that were just reset.\<close>

lemma an_early_end_is_judged_silent:
  assumes "reachable f w" "no_strays f" "sy_stage w p = Some (Ended n)" "finish_locked n (sy_h w) = (c, h)"
  shows "judge n c = [(n, False)]"
proof -
  obtain s where s: "one_inside w s" "stage_ok w s" using reachable_inv [OF assms(1,2)] by (auto simp: sys_inv_def)
  have "hn_turnID (sy_h w) = n" "\<not> hn_turnActed (sy_h w)"
    using s(2) at_stage(1) [OF s(1) assms(3)] by (simp_all add: stage_ok_def Let_def)
  then show ?thesis using assms(4) by (auto simp: finish_locked_def judge_def)
qed

subsection \<open>Runs, and what each hazard does\<close>

definition snapshot ::
  "string \<Rightarrow> bool \<Rightarrow> string \<Rightarrow> bool \<Rightarrow> time option \<Rightarrow> stage option \<Rightarrow> string set \<Rightarrow> string set \<Rightarrow> signal list \<Rightarrow>
   string option \<Rightarrow> (string \<times> bool) list \<Rightarrow> string set \<Rightarrow> system" where
  "snapshot t op' e act started st L N q ct J S =
     \<lparr>sy_h = fresh_harness\<lparr>hn_turnID := t, hn_opening := op', hn_finishedBeforePublished := e, hn_turnActed := act,
        hn_turnStarted := started\<rparr>,
      sy_stage = Map.empty(0 := st), sy_live = L, sy_names = N, sy_queue = q, sy_cut = ct, sy_judged = J,
      sy_spoke = S, sy_lost = {}\<rparr>"

lemma upd_0: "Map.empty(0 := None) = Map.empty"
  by auto

lemmas run_simps = snapshot_def fresh_harness_def upd_0

lemma run_start: "reachable f (snapshot [] False [] False None None {} {} [] None [] {})"
proof -
  have "system_start = snapshot [] False [] False None None {} {} [] None [] {}"
    by (auto simp: system_start_def run_simps)
  then show ?thesis using reachable.start [of f] by simp
qed

lemma run_claims:
  assumes "reachable f (snapshot t False e act z None L N q ct J S)" "t = [] \<or> t = stale" "stale = [] \<or> may_refuse_live f \<or> stale \<notin> L"
  shows "reachable f (snapshot t True e act z (Some Claimed) L N q ct J S)"
  using reachable.step [OF assms(1) sys_step.claims [where p = 0 and stale = stale]] assms(2,3)
  by (auto simp: run_simps claim_def)

lemma run_starts:
  assumes "reachable f (snapshot t op' e act z (Some Claimed) L N q ct J S)" "n \<noteq> []" "n \<notin> N"
  shows "reachable f (snapshot t op' e act z (Some (Started n)) (insert n L) (insert n N) q ct J S)"
  using reachable.step [OF assms(1) sys_step.starts [where p = 0 and n = n]] assms(2,3)
  by (simp add: run_simps)

lemma run_publishes:
  assumes "reachable f (snapshot t op' e act z (Some (Started n)) L N q ct J S)"
  shows "reachable f (snapshot n op' e act (Some now) (Some (Published n)) L N q ct J S)"
  using reachable.step [OF assms(1) sys_step.publishes [where p = 0 and n = n and status = 0 and who = "[]" and now = now]]
  by (simp add: run_simps publish_def)

lemma run_resets:
  assumes "reachable f (snapshot t op' e act z (Some (Published n)) L N q ct J S)"
  shows "reachable f (snapshot t op' e False z (Some (Cleared n)) L N q ct J S)"
  using reachable.step [OF assms(1) sys_step.resets [where p = 0 and n = n]] by (simp add: run_simps reset_flags_def)

lemma run_checks:
  assumes "reachable f (snapshot t op' e act z (Some (Cleared n)) L N q ct J S)"
  shows "reachable f (snapshot t op' (if e = n then [] else e) act z (Some (if e = n then Ended n else Leaving)) L N q ct J S)"
  using reachable.step [OF assms(1) sys_step.checks [where p = 0 and n = n]]
  by (auto simp: run_simps endedAlready_def split: if_splits)

lemma run_leaves:
  assumes "reachable f (snapshot t op' e act z (Some Leaving) L N q ct J S)"
  shows "reachable f (snapshot t False e act z None L N q ct J S)"
  using reachable.step [OF assms(1) sys_step.leaves [where p = 0]] by (simp add: run_simps release_def)

lemma run_hears_done:
  assumes "reachable f (snapshot t op' e act z st L N (Done n # q) ct J S)" "n \<noteq> []"
  shows "reachable f (snapshot (if n = t then [] else t) op' (if n \<noteq> t \<and> op' then n else e) act z st L N q ct
    (J @ (if n = t then [(n, act)] else [])) S)"
  using reachable.step [OF assms(1) sys_step.hears_done [where n = n and q = q]] assms(2)
  by (auto simp: run_simps finish_locked_def judge_def)

text \<open>A whole opening with nothing in between.\<close>

lemma run_opens:
  assumes "reachable f (snapshot t False e act z None L N q ct J S)" "t = [] \<or> t = stale" "stale = [] \<or> may_refuse_live f \<or> stale \<notin> L"
    and "n \<noteq> []" "n \<notin> N" "e \<noteq> n"
  shows "reachable f (snapshot n False e False (Some now) None (insert n L) (insert n N) q ct J S)"
  using run_checks [OF run_resets [OF run_publishes [where now = now, OF run_starts [OF run_claims [OF assms(1-3)] assms(4,5)]]]] assms(6)
  by (simp add: run_leaves)

text \<open>Nothing goes wrong, and one thing each.\<close>

definition no_hazards :: hazards where
  "no_hazards = \<lparr>may_refuse_live = False, may_interrupt = False, may_answer_late = False, may_drop = False\<rparr>"

definition refusing :: hazards where "refusing = no_hazards\<lparr>may_refuse_live := True\<rparr>"
definition limited :: hazards where "limited = no_hazards\<lparr>may_interrupt := True\<rparr>"
definition late :: hazards where "late = no_hazards\<lparr>may_answer_late := True\<rparr>"
definition dropping :: hazards where "dropping = no_hazards\<lparr>may_drop := True\<rparr>"

text \<open>The agent speaks and ends before its answer reaches the harness, and the harness reads both: the turn is
  judged to have done nothing, and a window that opened it is un-marked and runs again.\<close>

definition spoke_early :: system where
  "spoke_early = snapshot ''t1'' True [] False (Some 0) (Some (Ended ''t1'')) {} {''t1''} [] None [] {''t1''}"

lemma spoke_early_reachable: "reachable no_hazards spoke_early"
proof -
  let ?n = "''t1''"
  have a: "reachable no_hazards (snapshot [] True [] False None (Some (Started ?n)) {?n} {?n} [] None [] {})"
    using run_starts [OF run_claims [OF run_start, where stale = "[]"], where n = ?n] by simp
  have "reachable no_hazards (snapshot [] True [] False None (Some (Started ?n)) {?n} {?n} [Acts ?n] None [] {?n})"
    using reachable.step [OF a sys_step.agent_acts [where n = ?n and heard = True]] by (simp add: run_simps)
  from reachable.step [OF this sys_step.agent_ends [where n = ?n and heard = True]]
  have "reachable no_hazards (snapshot [] True [] False None (Some (Started ?n)) {} {?n} [Acts ?n, Done ?n] None [] {?n})"
    by (simp add: run_simps)
  from reachable.step [OF this sys_step.hears_acts [where n = ?n and q = "[Done ?n]"]]
  have "reachable no_hazards (snapshot [] True [] True None (Some (Started ?n)) {} {?n} [Done ?n] None [] {?n})"
    by (simp add: run_simps markActed_def)
  from run_hears_done [OF this]
  have "reachable no_hazards (snapshot [] True ?n True None (Some (Started ?n)) {} {?n} [] None [] {?n})" by simp
  from run_checks [OF run_resets [OF run_publishes [where now = 0, OF this]]] show ?thesis by (simp add: spoke_early_def)
qed

lemma a_turn_that_spoke_is_judged_silent:
  "\<exists>w. reachable no_hazards w \<and> ''t1'' \<in> sy_spoke w \<and> sy_judged w = [(''t1'', False)]"
proof -
  have "reachable no_hazards (snapshot [] True [] False (Some 0) (Some Leaving) {} {''t1''} [] None [(''t1'', False)] {''t1''})"
    using reachable.step [OF spoke_early_reachable sys_step.ends [where p = 0 and n = "''t1''"]]
    by (simp add: spoke_early_def run_simps finish_locked_def judge_def)
  then show ?thesis by (intro exI conjI, assumption) (simp_all add: snapshot_def)
qed

theorem one_turn_at_a_time_witness:
  "(\<exists>n. sy_live spoke_early \<subseteq> {n}) \<and> (\<forall>p. sy_stage spoke_early p = None \<or> p = 0)"
proof -
  have "sy_stage spoke_early 0 \<noteq> None" by (simp add: spoke_early_def snapshot_def)
  then have "sy_stage spoke_early p = None \<or> p = 0" for p
    using one_turn_at_a_time [OF spoke_early_reachable] by blast
  then show ?thesis
    using one_turn_at_a_time [OF spoke_early_reachable] by (simp add: no_hazards_def)
qed

theorem no_finished_turn_stands_witness:
  "''t1'' \<in> sy_live spoke_early \<or> Done ''t1'' \<in> set (sy_queue spoke_early) \<or>
    (\<exists>p. sy_stage spoke_early p \<in> {Some (Published ''t1''), Some (Cleared ''t1''), Some (Ended ''t1'')})"
  using no_finished_turn_stands [OF spoke_early_reachable, of "''t1''"]
  by (simp add: no_hazards_def spoke_early_def snapshot_def)

text \<open>A steer can fail for other reasons than a turn that is over, a deadline on the call for one; the claim then
  takes over a turn that lives.\<close>

lemma two_turns_after_a_failed_steer:
  "\<exists>w. reachable refusing w \<and> {''t1'', ''t2''} \<subseteq> sy_live w"
proof -
  have "reachable refusing (snapshot ''t1'' False [] False (Some 0) None {''t1''} {''t1''} [] None [] {})"
    using run_opens [OF run_start, where f = refusing and stale = "[]" and n = "''t1''" and now = 0] by simp
  from run_opens [OF this, where stale = "''t1''" and n = "''t2''" and now = 0]
  have "reachable refusing (snapshot ''t2'' False [] False (Some 0) None {''t2'', ''t1''} {''t2'', ''t1''} [] None [] {})"
    by (simp add: refusing_def)
  then show ?thesis by (intro exI conjI, assumption) (simp_all add: snapshot_def)
qed

text \<open>The watcher lets go of whatever turn stands when it comes to it, not of the one it interrupted: a turn
  started in between is orphaned, and a second one starts beside it.\<close>

lemma two_turns_after_an_overrun:
  "\<exists>w. reachable limited w \<and> {''t2'', ''t3''} \<subseteq> sy_live w"
proof -
  have a: "reachable limited (snapshot ''t1'' False [] False (Some 0) None {''t1''} {''t1''} [] None [] {})"
    using run_opens [OF run_start, where f = limited and stale = "[]" and n = "''t1''" and now = 0] by simp
  from reachable.step [OF this sys_step.interrupts [where n = "''t1''" and heard = True]]
  have "reachable limited (snapshot ''t1'' False [] False (Some 0) None {} {''t1''} [Done ''t1''] (Some ''t1'') [] {})"
    by (simp add: run_simps limited_def)
  from run_hears_done [OF this]
  have "reachable limited (snapshot [] False [] False (Some 0) None {} {''t1''} [] (Some ''t1'') [(''t1'', False)] {})"
    by simp
  from run_opens [OF this, where stale = "[]" and n = "''t2''" and now = 0]
  have "reachable limited (snapshot ''t2'' False [] False (Some 0) None {''t2''} {''t2'', ''t1''} [] (Some ''t1'') [(''t1'', False)] {})"
    by simp
  from reachable.step [OF this sys_step.clears [where n = "''t1''" and cf = undefined]]
  have "reachable limited (snapshot [] False [] False (Some 0) None {''t2''} {''t2'', ''t1''} [] None [(''t1'', False)] {})"
    by (simp add: run_simps clearTurn_def)
  from run_opens [OF this, where stale = "[]" and n = "''t3''" and now = 0]
  have "reachable limited (snapshot ''t3'' False [] False (Some 0) None {''t3'', ''t2''} {''t3'', ''t2'', ''t1''} [] None [(''t1'', False)] {})"
    by simp
  then show ?thesis by (intro exI conjI, assumption) (simp_all add: snapshot_def)
qed

text \<open>A call that starts a turn can answer an error after the agent has started it. The harness forgets the
  claim and never learns the turn's name; the next caller starts a second one beside it.\<close>

lemma two_turns_after_a_late_answer:
  "\<exists>w. reachable late w \<and> {''t1'', ''t2''} \<subseteq> sy_live w"
proof -
  have "reachable late (snapshot [] True [] False None (Some Claimed) {} {} [] None [] {})"
    using run_claims [OF run_start, where f = late and stale = "[]"] by simp
  from reachable.step [OF this sys_step.answers_late [where p = 0 and n = "''t1''"]]
  have "reachable late (snapshot [] True [] False None (Some Leaving) {''t1''} {''t1''} [] None [] {})"
    by (simp add: run_simps late_def)
  from run_opens [OF run_leaves [OF this], where stale = "[]" and n = "''t2''" and now = 0]
  have "reachable late (snapshot ''t2'' False [] False (Some 0) None {''t2'', ''t1''} {''t2'', ''t1''} [] None [] {})"
    by simp
  then show ?thesis by (intro exI conjI, assumption) (simp_all add: snapshot_def)
qed

text \<open>The end of a turn is dropped: nothing is alive, nothing is on its way, nobody is opening, and the turn
  stands; no caller that has not been refused by the agent can claim again.\<close>

lemma a_dropped_end_leaves_a_turn_standing:
  "\<exists>w. reachable dropping w \<and> hn_turnID (sy_h w) = ''t1'' \<and> sy_live w = {} \<and> sy_queue w = [] \<and>
     (\<forall>p. sy_stage w p = None) \<and> fst (claim [] (sy_h w)) = False"
proof -
  have "reachable dropping (snapshot ''t1'' False [] False (Some 0) None {''t1''} {''t1''} [] None [] {})"
    using run_opens [OF run_start, where f = dropping and stale = "[]" and n = "''t1''" and now = 0] by simp
  from reachable.step [OF this sys_step.agent_ends [where n = "''t1''" and heard = False]]
  have "reachable dropping ((snapshot ''t1'' False [] False (Some 0) None {} {''t1''} [] None [] {})\<lparr>sy_lost := {''t1''}\<rparr>)"
    by (simp add: run_simps dropping_def)
  then show ?thesis by (intro exI conjI, assumption) (simp_all add: run_simps claim_def)
qed

end
