(* ===== verification/HarnessExample.thy ===== *)
theory HarnessExample
  imports HarnessLaws HarnessTurns
begin

text \<open>
  An evening session on two days, three ticks: it starts, is not started again ten minutes later, and
  starts the next day. A file that loads; a wake-up told into a running turn; a shell call.
\<close>

definition he_setting :: setting where
  "he_setting = \<lparr>hs_chat = False, hs_record = True, hs_defaultModel = ''m'', hs_sayEvery = 0, hs_turnLimit = 0,
     hs_callTimeout = minute, hs_tickEvery = 0, hs_rereadEvery = 0, hs_priceEvery = 0, hs_reportsToolCalls = False,
     hs_emptySlots = 2\<rparr>"

definition he_declared :: Declaration where
  "he_declared = \<lparr>dc_Kind = declared_kind, dc_Name = ''n'', dc_Version = ''1'', dc_Timezone = ''New_York'',
     dc_Sessions = [dl_evening], dc_Skills = [], dc_Parameters = [], dc_location = Some dl_new_york, dc_parameters = []\<rparr>"

definition he_open :: "string \<Rightarrow> open_env" where
  "he_open n = \<lparr>oe_thread = Ok ''th'', oe_status = Ok 0, oe_turn = \<lambda>prompt model. Ok n, oe_now = 0\<rparr>"

definition he_due :: "string \<Rightarrow> due_env" where
  "he_due n = \<lparr>du_meanwhile = \<lambda>name h. h, du_steer = \<lambda>name. Ok (), du_open = \<lambda>name. he_open n\<rparr>"

definition he_clock :: clock_state where
  "he_clock = \<lparr>ck_lastRun = Map.empty, ck_lastPricePoll = None, ck_lastReread = None\<rparr>"

definition he_ticks :: "(time \<times> due_env \<times> Harness) list" where
  "he_ticks = [(dl_ran, he_due ''t1'', fresh_harness), (dl_ran + 10 * minute, he_due ''t2'', fresh_harness),
     (dl_ran + day_ns, he_due ''t3'', fresh_harness)]"

lemma he_due_times:
  "Due_session dl_evening (In_place dl_ran dl_new_york) None"
  "\<not> Due_session dl_evening (In_place (dl_ran + 10 * minute) dl_new_york) (Some (In_place dl_ran dl_new_york))"
  "Due_session dl_evening (In_place (dl_ran + day_ns) dl_new_york) (Some (In_place dl_ran dl_new_york))"
  by code_simp+

lemma he_starts: "\<exists>eff h'. startTurnWith he_setting (Some he_declared) (du_open (he_due n) name) prompt who model
    (fresh_harness\<lparr>hn_emptyTurns := []\<rparr>) = (True, eff, h')"
  by (simp add: startTurnWith_def startTurnReplacing_def claim_def openThread_def status_line_def he_setting_def he_due_def
      he_open_def endedAlready_def publish_def reset_flags_def fresh_harness_def Let_def case_prod_beta)

lemma he_log: "ticks he_setting he_declared he_ticks he_clock =
    [Fired dl_evening (In_place dl_ran dl_new_york)] @ Fired dl_evening (In_place (dl_ran + day_ns) dl_new_york) # []"
proof -
  have f: "hn_emptyTurns fresh_harness = []" "hn_turnID (fresh_harness\<lparr>hn_emptyTurns := []\<rparr>) = []"
    "du_meanwhile (he_due n) name h = h" for n name h
    by (simp_all add: fresh_harness_def he_due_def)
  have d: "dc_Sessions he_declared = [dl_evening]" "location_of he_declared = dl_new_york" "se_Name dl_evening = ''evening''"
    by (simp_all add: he_declared_def location_of_def dl_evening_def)
  obtain e1 h1 where s1: "startTurnWith he_setting (Some he_declared) (du_open (he_due ''t1'') ''evening'')
      (Prompt_session dl_evening) ''evening'' (se_Model dl_evening) (fresh_harness\<lparr>hn_emptyTurns := []\<rparr>) = (True, e1, h1)"
    using he_starts by blast
  obtain e3 h3 where s3: "startTurnWith he_setting (Some he_declared) (du_open (he_due ''t3'') ''evening'')
      (Prompt_session dl_evening) ''evening'' (se_Model dl_evening) (fresh_harness\<lparr>hn_emptyTurns := []\<rparr>) = (True, e3, h3)"
    using he_starts by blast
  show ?thesis
    by (simp add: he_ticks_def he_clock_def fireDue_def forgetEmptyTurns_def forgotten_def f d he_due_times s1 s3 Let_def)
qed

theorem the_schedule_is_kept_witness:
  "dl_evening \<in> set (dc_Sessions he_declared) \<and> in_its_hours dl_evening (In_place (dl_ran + day_ns) dl_new_york) \<and>
   far_enough dl_evening (In_place dl_ran dl_new_york) (In_place (dl_ran + day_ns) dl_new_york)"
proof -
  have "[Fired dl_evening (In_place dl_ran dl_new_york)] = [] @ Fired dl_evening (In_place dl_ran dl_new_york) # []"
    "untouched (se_Name dl_evening) []"
    by (simp_all add: untouched_def)
  then show ?thesis using the_schedule_is_kept [OF he_log] by blast
qed

definition he_running :: Harness where
  "he_running = fresh_harness\<lparr>hn_turnID := ''t1''\<rparr>"

definition he_tell :: tell_env where
  "he_tell = \<lparr>te_steer = Err ''over'', te_first = he_open ''t2'', te_looks = [], te_meanwhile = id, te_second = he_open ''t3''\<rparr>"

lemma he_told: "Tell he_setting None he_tell ''wake'' ''wakeup w1'' he_running =
    (True, [RecTurnStarted ''t2'' ''th'' ''m'' ''wakeup w1'' ''wake''],
     snd (snd (Tell he_setting None he_tell ''wake'' ''wakeup w1'' he_running)))"
  by code_simp

theorem told_exactly_once_witness:
  "deliveries [RecTurnStarted ''t2'' ''th'' ''m'' ''wakeup w1'' ''wake''] = 1"
  using told_exactly_once [OF he_told] by (simp add: he_setting_def)

definition he_call :: Call where
  "he_call = \<lparr>ca_Ref = ''c1'', ca_Server = ''shell'', ca_Tool = ''echo $TOKEN'', ca_Arguments = None, ca_Status = ''ok'',
     ca_Failure = [], ca_Answer = ''secret''\<rparr>"

definition he_other :: Call where
  "he_other = he_call\<lparr>ca_Tool := ''ls'', ca_Arguments := None, ca_Failure := [], ca_Answer := []\<rparr>"

theorem shell_commands_stay_private_witness:
  "filter row (fst (follow he_setting 0 (EvTool ''t1'' he_call) he_running)) =
   filter row (fst (follow he_setting 0 (EvTool ''t1'' he_other) he_running)) \<and>
   filter row (fst (follow he_setting 0 (EvTool ''t1'' he_call) he_running)) \<noteq> []"
proof -
  have "ca_Server he_call = ServerShell" by (simp add: he_call_def ServerShell_def)
  from shell_commands_stay_private [OF this he_other_def, of he_setting 0 "''t1''" he_running]
  have "filter row (fst (follow he_setting 0 (EvTool ''t1'' he_call) he_running)) =
      filter row (fst (follow he_setting 0 (EvTool ''t1'' he_other) he_running))" by blast
  moreover have "filter row (fst (follow he_setting 0 (EvTool ''t1'' he_call) he_running)) \<noteq> []" by code_simp
  ultimately show ?thesis by blast
qed

subsection \<open>A file that loads\<close>

definition he_raw_session :: Session where
  "he_raw_session = dl_evening\<lparr>se_at := 0, se_within := 0\<rparr>"

definition he_decode :: "string \<Rightarrow> (string, Declaration) result" where
  "he_decode raw = (if raw = ''good'' then Ok (he_declared\<lparr>dc_Sessions := [he_raw_session], dc_location := None\<rparr>) else Err ''bad'')"

definition he_zones :: "string \<Rightarrow> (string, location) result" where
  "he_zones name = Ok dl_new_york"

lemma he_within: "ParseDuration ''45m'' = Some (45 * minute)"
proof -
  have "one_term 0 ''45m'' = Some (45 * 60000000000, [])"
    by (simp add: one_term_def is_digit_def digit_val_def is_unit_char_def unitMap_def Let_def)
  then show ?thesis
    by (simp add: ParseDuration_def all_terms.simps [of 0 "''45m''"] all_terms.simps [of _ "[]"] minute_def second_def Let_def)
qed

lemma he_at: "parseClock ''20:30'' = Some (20 * hour + 30 * minute)"
  by (simp add: parseClock_def TrimSpace_def is_space_def parse_hhmm_def is_digit_def parse_nat_def nat_of_digits_def
      digit_val_def Let_def)

lemma he_checked: "check_session he_raw_session = Ok dl_evening"
proof -
  have "\<not> 45 * minute \<le> 0" by (simp add: minute_def second_def)
  then show ?thesis
    by (simp add: check_session_def he_raw_session_def dl_evening_def check_at_def he_at he_within)
qed

lemma he_watch: "Watch_file he_decode he_zones None (Ok ''good'') = Ok \<lparr>wa_current = he_declared, wa_raw = ''good''\<rparr>"
proof -
  show ?thesis
    by (simp add: he_checked Watch_file_def parse_def he_decode_def he_zones_def verified_def he_declared_def block_def)
qed

theorem the_last_good_file_is_in_force_witness:
  "last_good he_decode he_zones None [Ok ''good'', Err ''gone'', Ok ''torn''] =
     Some (wa_current (reread_all he_decode he_zones None [Err ''gone'', Ok ''torn''] \<lparr>wa_current = he_declared, wa_raw = ''good''\<rparr>)) \<and>
   declaration_ok (wa_current (reread_all he_decode he_zones None [Err ''gone'', Ok ''torn''] \<lparr>wa_current = he_declared, wa_raw = ''good''\<rparr>))"
  by (rule the_last_good_file_is_in_force [OF he_watch])

end
