(* ===== verification/Mailbox.thy ===== *)
theory Mailbox
  imports Harness
begin

text \<open>
  A conversation whose other end polls (\<open>golang/internal/mailbox/mailbox.go\<close>): turns, words and interrupts
  are parked, a client takes them one at a time and posts back what it said and that it is done. Every
  locked part is one step. The long poll is one look at the queue, as it is when its hold ends. The
  decoding of a posted body is the environment, and so is the JSON that is written.
\<close>

subsection \<open>State\<close>

definition KindTurn :: string where "KindTurn = ''turn''"
definition KindSteer :: string where "KindSteer = ''steer''"
definition KindInterrupt :: string where "KindInterrupt = ''interrupt''"

record Delivery =
  de_Kind :: string
  de_Thread :: string
  de_Turn :: string
  de_Text :: string
  de_Model :: string
  de_At :: time

record Mailbox =
  mb_Token :: string
  mb_Hold :: duration
  mb_Stale :: duration
  mb_threadID :: string
  mb_queue :: "Delivery list"
  mb_running :: "string set"
  mb_counter :: int
  mb_events :: "agent_event list"

definition DefaultHold :: duration where "DefaultHold = 90 * second"
definition DefaultStale :: duration where "DefaultStale = 10 * minute"
definition eventBuffer :: nat where "eventBuffer = 64"

definition New_mailbox :: "string \<Rightarrow> duration \<Rightarrow> duration \<Rightarrow> Mailbox" where
  "New_mailbox token hold stale =
     \<lparr>mb_Token = token, mb_Hold = (if hold \<le> 0 then DefaultHold else hold),
      mb_Stale = (if stale \<le> 0 then DefaultStale else stale), mb_threadID = [], mb_queue = [], mb_running = {},
      mb_counter = 0, mb_events = []\<rparr>"

text \<open>An event is handed over, or dropped when the harness is behind.\<close>

definition emit :: "agent_event \<Rightarrow> Mailbox \<Rightarrow> Mailbox" where
  "emit ev m = (if length (mb_events m) < eventBuffer then m\<lparr>mb_events := mb_events m @ [ev]\<rparr> else m)"

definition park :: "Delivery \<Rightarrow> Mailbox \<Rightarrow> Mailbox" where
  "park d m = m\<lparr>mb_queue := mb_queue m @ [d]\<rparr>"

definition threadOrNew :: "time \<Rightarrow> Mailbox \<Rightarrow> Mailbox" where
  "threadOrNew now m = (if mb_threadID m = [] then m\<lparr>mb_threadID := ''mb-'' @ dec_int now\<rparr> else m)"

subsection \<open>The harness's side\<close>

definition Open_mailbox :: "time \<Rightarrow> Mailbox \<Rightarrow> string \<times> Mailbox" where
  "Open_mailbox now m = (let m = threadOrNew now m in (mb_threadID m, m))"

definition Forget_mailbox :: "Mailbox \<Rightarrow> Mailbox" where
  "Forget_mailbox m = m\<lparr>mb_threadID := []\<rparr>"

definition Turn_mailbox :: "time \<Rightarrow> string \<Rightarrow> string \<Rightarrow> Mailbox \<Rightarrow> string \<times> Mailbox" where
  "Turn_mailbox now text' model m =
     (let m = m\<lparr>mb_counter := mb_counter m + 1\<rparr>;
          m = threadOrNew now m;
          turnID = mb_threadID m @ ''-t'' @ dec_int (mb_counter m);
          m = m\<lparr>mb_running := insert turnID (mb_running m)\<rparr>
      in (turnID, park \<lparr>de_Kind = KindTurn, de_Thread = mb_threadID m, de_Turn = turnID, de_Text = text',
                       de_Model = model, de_At = now\<rparr> m))"

definition Steer_mailbox :: "time \<Rightarrow> string \<Rightarrow> string \<Rightarrow> Mailbox \<Rightarrow> bool \<times> Mailbox" where
  "Steer_mailbox now turnID text' m =
     (if turnID \<notin> mb_running m then (False, m)
      else (True, park \<lparr>de_Kind = KindSteer, de_Thread = mb_threadID m, de_Turn = turnID, de_Text = text',
                       de_Model = [], de_At = now\<rparr> m))"

text \<open>What an operation tries to tell the harness is part of its answer; \<open>emit_all\<close> is what becomes of it.\<close>

definition emit_all :: "agent_event list \<Rightarrow> Mailbox \<Rightarrow> Mailbox" where
  "emit_all evs m = fold emit evs m"

definition Interrupt_mailbox :: "time \<Rightarrow> string \<Rightarrow> Mailbox \<Rightarrow> agent_event list \<times> Mailbox" where
  "Interrupt_mailbox now turnID m =
     (if turnID \<in> mb_running m
      then ([EvTurnDone turnID],
            emit_all [EvTurnDone turnID] ((park \<lparr>de_Kind = KindInterrupt, de_Thread = mb_threadID m, de_Turn = turnID,
              de_Text = [], de_Model = [], de_At = now\<rparr> m)\<lparr>mb_running := mb_running m - {turnID}\<rparr>))
      else ([], m))"

fun end_stale :: "Delivery list \<Rightarrow> string set \<Rightarrow> Delivery list \<times> string set" where
  "end_stale [] running = ([], running)"
| "end_stale (d # ds) running =
     (if de_Kind d = KindTurn \<and> de_Turn d \<in> running
      then let (ended, running) = end_stale ds (running - {de_Turn d}) in (d # ended, running)
      else end_stale ds running)"

text \<open>A bound in whole seconds, as Go prints one that is not negative.\<close>

definition round_second :: "duration \<Rightarrow> int" where
  "round_second d = (if 2 * (d mod second) < second then d div second else d div second + 1)"

definition seconds_text :: "int \<Rightarrow> string" where
  "seconds_text s =
     (if s \<ge> 3600 then dec_int (s div 3600) @ ''h'' @ dec_int (s div 60 mod 60) @ ''m'' @ dec_int (s mod 60) @ ''s''
      else if s \<ge> 60 then dec_int (s div 60) @ ''m'' @ dec_int (s mod 60) @ ''s''
      else dec_int s @ ''s'')"

definition stale_word :: "duration \<Rightarrow> string" where
  "stale_word stale = ''nobody picked the turn up within '' @ seconds_text (round_second stale) @
     '' - the poller never came, the turn is closed''"

definition expire :: "time \<Rightarrow> Mailbox \<Rightarrow> agent_event list \<times> Mailbox" where
  "expire now m =
     (let cutoff = now - mb_Stale m;
          dropped = filter (\<lambda>d. de_At d < cutoff) (mb_queue m);
          (ended, running) = end_stale dropped (mb_running m);
          m = m\<lparr>mb_queue := filter (\<lambda>d. \<not> de_At d < cutoff) (mb_queue m), mb_running := running\<rparr>;
          evs = concat (map (\<lambda>d. [EvText (de_Turn d) (stale_word (mb_Stale m)), EvTurnDone (de_Turn d)]) ended)
      in (evs, emit_all evs m))"

definition Pending :: "Mailbox \<Rightarrow> int" where
  "Pending m = int (length (mb_queue m))"

subsection \<open>The client's side\<close>

definition next_delivery :: "Mailbox \<Rightarrow> Delivery option \<times> Mailbox" where
  "next_delivery m = (case mb_queue m of [] \<Rightarrow> (None, m) | d # ds \<Rightarrow> (Some d, m\<lparr>mb_queue := ds\<rparr>))"

definition authentic :: "Mailbox \<Rightarrow> string \<Rightarrow> bool" where
  "authentic m given \<longleftrightarrow> mb_Token m \<noteq> [] \<and> given \<noteq> [] \<and> given = mb_Token m"

record http_request =
  rq_Method :: string
  rq_Path :: string
  rq_Wait :: string
  rq_Body :: "(string, string \<times> string) result"

datatype http_answer =
    NotFound | UnknownRequest | BadRequest string | NoContent | Accepted | HandedOver Delivery
  | StateOf string int "string set" duration duration

text \<open>The product of two 64-bit integers wraps.\<close>

definition wrap64 :: "int \<Rightarrow> int" where
  "wrap64 n = (n + 2 ^ 63) mod 2 ^ 64 - 2 ^ 63"

definition poll_hold :: "Mailbox \<Rightarrow> string \<Rightarrow> duration option" where
  "poll_hold m raw =
     (if raw = [] then Some (mb_Hold m)
      else (case ParseInt raw of None \<Rightarrow> None
            | Some seconds \<Rightarrow> if seconds < 0 then None
                else let asked = wrap64 (seconds * second) in Some (if asked < mb_Hold m then asked else mb_Hold m)))"

definition servePoll :: "http_request \<Rightarrow> Mailbox \<Rightarrow> http_answer \<times> Mailbox" where
  "servePoll r m =
     (case poll_hold m (rq_Wait r) of
        None \<Rightarrow> (BadRequest ''wait is a whole number of seconds'', m)
      | Some hold \<Rightarrow> (case next_delivery m of (None, m) \<Rightarrow> (NoContent, m) | (Some d, m) \<Rightarrow> (HandedOver d, m)))"

definition serveSay :: "http_request \<Rightarrow> Mailbox \<Rightarrow> http_answer \<times> agent_event list \<times> Mailbox" where
  "serveSay r m =
     (case rq_Body r of Err e \<Rightarrow> (BadRequest e, [], m)
      | Ok (turn, text') \<Rightarrow>
          if turn = [] \<or> TrimSpace text' = [] then (BadRequest ''say needs a turn and a text'', [], m)
          else (Accepted, [EvText turn text'], emit_all [EvText turn text'] m))"

definition serveDone :: "http_request \<Rightarrow> Mailbox \<Rightarrow> http_answer \<times> agent_event list \<times> Mailbox" where
  "serveDone r m =
     (case rq_Body r of Err e \<Rightarrow> (BadRequest e, [], m)
      | Ok (turn, failure) \<Rightarrow>
          if turn = [] then (BadRequest ''done needs a turn'', [], m)
          else if turn \<notin> mb_running m then (Accepted, [], m)
          else let evs = (if failure \<noteq> [] then [EvText turn (''the turn ended with an error: '' @ failure)] else []) @ [EvTurnDone turn]
            in (Accepted, evs, emit_all evs (m\<lparr>mb_running := mb_running m - {turn}\<rparr>)))"

definition serveState :: "Mailbox \<Rightarrow> http_answer" where
  "serveState m = StateOf (mb_threadID m) (Pending m) (mb_running m) (mb_Hold m) (mb_Stale m)"

definition normal_base :: "string \<Rightarrow> string" where
  "normal_base base =
     (let base = (if HasPrefix base ''/'' then base else CHR ''/'' # base)
      in if HasSuffix base ''/'' then base else base @ ''/'')"

text \<open>What does not lie under the base is not the handler's: the mux answers it.\<close>

definition serve_mailbox :: "string \<Rightarrow> http_request \<Rightarrow> Mailbox \<Rightarrow> http_answer \<times> agent_event list \<times> Mailbox" where
  "serve_mailbox base r m =
     (let base = normal_base base; rest = drop (length base) (rq_Path r) in
      if \<not> HasPrefix (rq_Path r) base then (NotFound, [], m)
      else (case Cut (CHR ''/'') rest of
         None \<Rightarrow> (NotFound, [], m)
       | Some (token, action) \<Rightarrow>
           if \<not> authentic m token then (NotFound, [], m)
           else if action = ''poll'' \<and> rq_Method r = ''GET'' then (let (a, m) = servePoll r m in (a, [], m))
           else if action = ''say'' \<and> rq_Method r = ''POST'' then serveSay r m
           else if action = ''done'' \<and> rq_Method r = ''POST'' then serveDone r m
           else if action = ''state'' \<and> rq_Method r = ''GET'' then (serveState m, [], m)
           else (UnknownRequest, [], m)))"

subsection \<open>Operations\<close>

text \<open>Everything that can happen to a mailbox; \<open>HearOne\<close> is the harness taking an event off the channel.\<close>

datatype mailbox_op =
    OpenIt time | ForgetIt | TurnIt time string string | SteerIt time string string | InterruptIt time string
  | ExpireIt time | RequestIt string http_request | HearOne

text \<open>The turn an operation starts, what the harness hears in it, and the mailbox after it. What the other
  operations emit is heard only if it found room in the channel and when it is taken off it.\<close>

fun mb_step :: "mailbox_op \<Rightarrow> Mailbox \<Rightarrow> string list \<times> agent_event list \<times> Mailbox" where
  "mb_step (OpenIt now) m = ([], [], snd (Open_mailbox now m))"
| "mb_step ForgetIt m = ([], [], Forget_mailbox m)"
| "mb_step (TurnIt now text' model) m = (let (t, m) = Turn_mailbox now text' model m in ([t], [], m))"
| "mb_step (SteerIt now t text') m = ([], [], snd (Steer_mailbox now t text' m))"
| "mb_step (InterruptIt now t) m = (let (evs, m) = Interrupt_mailbox now t m in ([], [], m))"
| "mb_step (ExpireIt now) m = (let (evs, m) = expire now m in ([], [], m))"
| "mb_step (RequestIt base r) m = (let (a, evs, m) = serve_mailbox base r m in ([], [], m))"
| "mb_step HearOne m = ([], take 1 (mb_events m), m\<lparr>mb_events := drop 1 (mb_events m)\<rparr>)"

fun mb_run :: "mailbox_op list \<Rightarrow> Mailbox \<Rightarrow> string list \<times> agent_event list \<times> Mailbox" where
  "mb_run [] m = ([], [], m)"
| "mb_run (op' # ops) m =
     (let (ts, evs, m) = mb_step op' m; (ts', evs', m) = mb_run ops m in (ts @ ts', evs @ evs', m))"

end
