(* ===== verification/MailboxLaws.thy ===== *)
theory MailboxLaws
  imports Mailbox "HOL-Library.Sublist"
begin

text \<open>
  What a mailbox keeps to, whatever the harness, the client and the clock do to it in whatever order: a
  name is given to one turn only, a turn ends once, a steer is refused exactly for a turn that does not
  run, nothing is handed over twice or out of order, and nothing answers without the token.
\<close>

subsection \<open>Names\<close>

lemma dec_nat_inject: "dec_nat m = dec_nat n \<longleftrightarrow> m = n"
  using nat_of_digits_dec_nat [of m] nat_of_digits_dec_nat [of n] by (metis)

definition turn_name :: "string \<Rightarrow> int \<Rightarrow> string" where
  "turn_name thread c = thread @ ''-t'' @ dec_int c"

lemma turn_name_inject:
  assumes "turn_name a m = turn_name b n" "0 \<le> m" "0 \<le> n"
  shows "m = n"
proof -
  have "takeWhile is_digit (rev (turn_name a m)) = rev (dec_int m)" if "0 \<le> m" for a m
    using that dec_nat_digits [of "nat m"]
    by (simp add: turn_name_def dec_int_def takeWhile_append list_all_iff is_digit_def)
  from this [OF assms(2), of a] this [OF assms(3), of b] assms(1) have "dec_int m = dec_int n" by simp
  then show ?thesis using assms(2,3) by (simp add: dec_int_def dec_nat_inject)
qed

subsection \<open>The invariant\<close>

text \<open>The turns whose end is among the events.\<close>

definition ends :: "agent_event list \<Rightarrow> string list" where
  "ends evs = concat (map (\<lambda>e. case e of EvTurnDone t \<Rightarrow> [t] | _ \<Rightarrow> []) evs)"

lemma ends_simps [simp]: "ends [] = []" "ends (EvTurnDone t # evs) = t # ends evs" "ends (EvText t x # evs) = ends evs"
  "ends (evs @ evs') = ends evs @ ends evs'"
  by (simp_all add: ends_def)

text \<open>What an operation tries to tell the harness, whether or not there is room for it.\<close>

fun tries :: "mailbox_op \<Rightarrow> Mailbox \<Rightarrow> agent_event list" where
  "tries (InterruptIt now t) m = fst (Interrupt_mailbox now t m)"
| "tries (ExpireIt now) m = fst (expire now m)"
| "tries (RequestIt base r) m = fst (snd (serve_mailbox base r m))"
| "tries _ m = []"

fun tried_in :: "mailbox_op list \<Rightarrow> Mailbox \<Rightarrow> agent_event list" where
  "tried_in [] m = []"
| "tried_in (op' # ops) m = tries op' m @ tried_in ops (snd (snd (mb_step op' m)))"

text \<open>There is room for everything an operation tells when it tells it.\<close>

fun has_room :: "mailbox_op list \<Rightarrow> Mailbox \<Rightarrow> bool" where
  "has_room [] m = True"
| "has_room (op' # ops) m \<longleftrightarrow> length (mb_events m) + length (tries op' m) \<le> eventBuffer \<and>
     has_room ops (snd (snd (mb_step op' m)))"

text \<open>With the turns started and the events tried so far: names are numbered up to the counter, and what runs is
  what was started and has not ended.\<close>

definition mb_inv :: "string list \<times> agent_event list \<times> Mailbox \<Rightarrow> bool" where
  "mb_inv = (\<lambda>(started, told, m). distinct started \<and> 0 \<le> mb_counter m \<and>
     (\<forall>t \<in> set started. \<exists>thread c. t = turn_name thread c \<and> 0 \<le> c \<and> c \<le> mb_counter m) \<and>
     distinct (ends told) \<and> set (ends told) \<subseteq> set started \<and>
     mb_running m = set started - set (ends told))"

lemma mb_inv_names:
  "mb_inv (started, told, m) \<Longrightarrow> t \<in> set started \<Longrightarrow> \<exists>thread c. t = turn_name thread c \<and> 0 \<le> c \<and> c \<le> mb_counter m"
  unfolding mb_inv_def prod.case by (elim conjE) (rule bspec)

text \<open>An operation that starts nothing keeps it when it ends, once each, turns that run.\<close>

lemma mb_inv_keeps:
  assumes "mb_inv (started, told, m)" "mb_counter m' = mb_counter m" "distinct (ends evs)"
    "set (ends evs) \<subseteq> mb_running m" "mb_running m' = mb_running m - set (ends evs)"
  shows "mb_inv (started, told @ evs, m')"
  using assms by (auto simp: mb_inv_def)

lemma emit_fields [simp]: "mb_running (emit e m) = mb_running m" "mb_counter (emit e m) = mb_counter m"
  "mb_queue (emit e m) = mb_queue m" "mb_threadID (emit e m) = mb_threadID m"
  by (simp_all add: emit_def)

lemma emit_all_fields [simp]: "mb_running (emit_all evs m) = mb_running m" "mb_counter (emit_all evs m) = mb_counter m"
  "mb_queue (emit_all evs m) = mb_queue m" "mb_threadID (emit_all evs m) = mb_threadID m"
  by (induction evs arbitrary: m; simp add: emit_all_def)+

lemma park_fields [simp]: "mb_running (park d m) = mb_running m" "mb_counter (park d m) = mb_counter m"
  "mb_queue (park d m) = mb_queue m @ [d]"
  by (simp_all add: park_def)

lemma threadOrNew_fields [simp]: "mb_running (threadOrNew now m) = mb_running m"
  "mb_counter (threadOrNew now m) = mb_counter m" "mb_queue (threadOrNew now m) = mb_queue m"
  by (simp_all add: threadOrNew_def)

lemma end_stale_ends: "end_stale ds running = (ended, running') \<Longrightarrow>
    distinct (map de_Turn ended) \<and> de_Turn ` set ended \<subseteq> running \<and> running' = running - de_Turn ` set ended"
proof (induction ds running arbitrary: ended running' rule: end_stale.induct)
  case (2 d ds running)
  show ?case
  proof (cases "de_Kind d = KindTurn \<and> de_Turn d \<in> running")
    case True
    obtain e r where er: "end_stale ds (running - {de_Turn d}) = (e, r)" by fastforce
    with 2(1) [OF True er] have e: "distinct (map de_Turn e)" "de_Turn ` set e \<subseteq> running - {de_Turn d}"
      "r = running - {de_Turn d} - de_Turn ` set e" by auto
    have "ended = d # e" "running' = r" using 2(3) True er by auto
    then show ?thesis using e True by (auto simp: image_subset_iff)
  next
    case False
    have "end_stale ds running = (ended, running')" using 2(3) False by (auto split: if_splits)
    from 2(2) [OF False this] show ?thesis .
  qed
qed simp

lemma ends_stale: "ends (concat (map (\<lambda>d. [EvText (de_Turn d) w, EvTurnDone (de_Turn d)]) ds)) = map de_Turn ds"
  by (induction ds) simp_all

lemma expire_ends:
  assumes "expire now m = (evs, m')"
  shows "distinct (ends evs) \<and> set (ends evs) \<subseteq> mb_running m \<and> mb_running m' = mb_running m - set (ends evs) \<and>
    mb_counter m' = mb_counter m"
proof -
  obtain ended r where e: "end_stale (filter (\<lambda>d. de_At d < now - mb_Stale m) (mb_queue m)) (mb_running m) = (ended, r)"
    by fastforce
  show ?thesis using assms end_stale_ends [OF e] by (auto simp: expire_def Let_def e ends_stale)
qed

lemma interrupt_ends:
  assumes "Interrupt_mailbox now t m = (evs, m')"
  shows "distinct (ends evs) \<and> set (ends evs) \<subseteq> mb_running m \<and> mb_running m' = mb_running m - set (ends evs) \<and>
    mb_counter m' = mb_counter m"
  using assms by (cases "t \<in> mb_running m") (auto simp: Interrupt_mailbox_def)

lemma serve_ends:
  assumes "serve_mailbox base r m = (a, evs, m')"
  shows "distinct (ends evs) \<and> set (ends evs) \<subseteq> mb_running m \<and> mb_running m' = mb_running m - set (ends evs) \<and>
    mb_counter m' = mb_counter m"
  using assms
  by (auto simp: serve_mailbox_def Let_def servePoll_def serveSay_def serveDone_def next_delivery_def
      split: if_splits option.splits prod.splits list.splits sum.splits)

lemma mb_inv_step:
  assumes "mb_inv (started, told, m)" "mb_step op' m = (ts, heard, m')"
  shows "mb_inv (started @ ts, told @ tries op' m, m')"
proof (cases op')
  case (TurnIt now text' model)
  let ?t = "turn_name (mb_threadID (threadOrNew now (m\<lparr>mb_counter := mb_counter m + 1\<rparr>))) (mb_counter m + 1)"
  have r: "ts = [?t]" "tries op' m = []" "mb_running m' = insert ?t (mb_running m)" "mb_counter m' = mb_counter m + 1"
    using assms(2) TurnIt by (auto simp: Turn_mailbox_def turn_name_def Let_def)
  have fresh: "?t \<notin> set started"
  proof
    assume "?t \<in> set started"
    then obtain thread c where c: "?t = turn_name thread c" "0 \<le> c" "c \<le> mb_counter m"
      using mb_inv_names [OF assms(1)] by blast
    moreover have "0 \<le> mb_counter m" using assms(1) by (simp add: mb_inv_def)
    ultimately show False using turn_name_inject [OF c(1)] by simp
  qed
  have numbered: "\<exists>thread c. t = turn_name thread c \<and> 0 \<le> c \<and> c \<le> mb_counter m + 1" if old: "t \<in> set started" for t
  proof -
    obtain thread c where "t = turn_name thread c" "0 \<le> c" "c \<le> mb_counter m"
      using mb_inv_names [OF assms(1) old] by blast
    then show ?thesis by (intro exI [of _ thread] exI [of _ c]) simp
  qed
  have own: "\<exists>thread c. ?t = turn_name thread c \<and> 0 \<le> c \<and> c \<le> mb_counter m + 1"
    using assms(1) by (intro exI [of _ "mb_threadID (threadOrNew now (m\<lparr>mb_counter := mb_counter m + 1\<rparr>))"]
      exI [of _ "mb_counter m + 1"]) (simp add: mb_inv_def)
  have all: "\<forall>t \<in> set (started @ ts). \<exists>thread c. t = turn_name thread c \<and> 0 \<le> c \<and> c \<le> mb_counter m'"
    unfolding r(1,4) using numbered own by (simp only: set_append list.set ball_Un ball_simps) blast
  have i: "distinct started" "0 \<le> mb_counter m" "distinct (ends told)" "set (ends told) \<subseteq> set started"
    "mb_running m = set started - set (ends told)" using assms(1) unfolding mb_inv_def by blast+
  have rest: "distinct (started @ ts)" "0 \<le> mb_counter m'" "set (ends (told @ tries op' m)) \<subseteq> set (started @ ts)"
    "mb_running m' = set (started @ ts) - set (ends (told @ tries op' m))" "distinct (ends (told @ tries op' m))"
    using i fresh unfolding r by auto
  show ?thesis unfolding mb_inv_def prod.case using all rest by blast
next
  case op: (InterruptIt now t)
  with assms(2) have e: "Interrupt_mailbox now t m = (tries op' m, m')" "ts = []" by (auto split: prod.splits)
  with mb_inv_keeps [OF assms(1)] interrupt_ends [OF e(1)] show ?thesis by simp
next
  case op: (ExpireIt now)
  with assms(2) have e: "expire now m = (tries op' m, m')" "ts = []" by (auto split: prod.splits)
  with mb_inv_keeps [OF assms(1)] expire_ends [OF e(1)] show ?thesis by simp
next
  case (RequestIt base r)
  with assms(2) have e: "serve_mailbox base r m = (fst (serve_mailbox base r m), tries op' m, m')" "ts = []"
    by (auto split: prod.splits)
  with mb_inv_keeps [OF assms(1)] serve_ends [OF e(1)] show ?thesis by simp
qed (use assms mb_inv_keeps [OF assms(1), of m' "[]"] in
      \<open>auto simp: Open_mailbox_def Forget_mailbox_def Steer_mailbox_def Let_def split: if_splits\<close>)

lemma mb_inv_run:
  assumes "mb_inv (started, told, m)" "mb_run ops m = (ts, heard, m')"
  shows "mb_inv (started @ ts, told @ tried_in ops m, m')"
  using assms
proof (induction ops arbitrary: started told m ts heard)
  case (Cons op' ops)
  obtain t1 e1 m1 where s: "mb_step op' m = (t1, e1, m1)" by (metis prod_cases3)
  obtain t2 e2 where r: "mb_run ops m1 = (t2, e2, m')" and "ts = t1 @ t2"
    using Cons.prems(2) s by (auto split: prod.splits)
  with Cons.IH [OF mb_inv_step [OF Cons.prems(1) s] r] show ?case by (simp add: s)
qed simp

lemma mb_inv_New: "mb_inv ([], [], New_mailbox token hold stale)"
  by (simp add: mb_inv_def New_mailbox_def)

lemma mb_inv_from_New:
  assumes "mb_run ops (New_mailbox token hold stale) = (started, told, m)"
  shows "mb_inv (started, tried_in ops (New_mailbox token hold stale), m)"
  using mb_inv_run [OF mb_inv_New assms] by simp

subsection \<open>What arrives\<close>

text \<open>What an operation adds to the channel is part of what it tells, in this order, and all of it if there
  is room.\<close>

definition arrives :: "Mailbox \<Rightarrow> agent_event list \<Rightarrow> agent_event list \<Rightarrow> bool" where
  "arrives m evs after' \<longleftrightarrow> (\<exists>kept. after' = mb_events m @ kept \<and> subseq kept evs \<and>
     (length (mb_events m) + length evs \<le> eventBuffer \<longrightarrow> kept = evs))"

lemma arrives_nothing [simp]: "arrives m [] (mb_events m)"
  by (simp add: arrives_def)

lemma emit_all_arrives: "mb_events m' = mb_events m \<Longrightarrow> arrives m evs (mb_events (emit_all evs m'))"
proof (induction evs arbitrary: m m')
  case (Cons e evs)
  have run: "emit_all (e # evs) m' = emit_all evs (emit e m')" by (simp add: emit_all_def)
  obtain kept where k: "mb_events (emit_all evs (emit e m')) = mb_events (emit e m') @ kept" "subseq kept evs"
    "length (mb_events (emit e m')) + length evs \<le> eventBuffer \<longrightarrow> kept = evs"
    using Cons.IH [OF refl, of "emit e m'"] by (auto simp: arrives_def)
  show ?case
  proof (cases "length (mb_events m) < eventBuffer")
    case True
    then show ?thesis
      using k Cons.prems by (auto simp: run arrives_def emit_def intro!: exI [of _ "e # kept"])
  next
    case False
    then show ?thesis
      using k Cons.prems by (auto simp: run arrives_def emit_def intro!: exI [of _ kept])
  qed
qed (simp add: emit_all_def)

lemma serve_arrives: "arrives m (fst (snd (serve_mailbox base r m))) (mb_events (snd (snd (serve_mailbox base r m))))"
proof -
  have 1: "mb_events (snd (servePoll r m)) = mb_events m"
    by (simp add: servePoll_def next_delivery_def split: option.split list.split)
  have 2: "arrives m (fst (snd (serveSay r m))) (mb_events (snd (snd (serveSay r m))))"
    using emit_all_arrives [of m m] by (simp add: serveSay_def split: sum.split prod.split)
  have 3: "arrives m (fst (snd (serveDone r m))) (mb_events (snd (snd (serveDone r m))))"
    using emit_all_arrives [of "m\<lparr>mb_running := R\<rparr>" m for R]
    by (simp add: serveDone_def emit_all_arrives Let_def split: sum.split prod.split)
  have "(fst (snd (serve_mailbox base r m)), snd (snd (serve_mailbox base r m))) \<in>
      {([], m), ([], snd (servePoll r m)), snd (serveSay r m), snd (serveDone r m)}"
    by (auto simp: serve_mailbox_def Let_def split: option.split prod.split)
  then show ?thesis using 1 2 3 by (auto simp: prod_eq_iff)
qed

lemma tries_arrive: "op' \<noteq> HearOne \<Longrightarrow> arrives m (tries op' m) (mb_events (snd (snd (mb_step op' m))))"
proof (cases op')
  case (InterruptIt now t)
  then show ?thesis by (auto simp: Interrupt_mailbox_def park_def intro: emit_all_arrives)
next
  case (ExpireIt now)
  then show ?thesis by (auto simp: expire_def Let_def split: prod.splits intro: emit_all_arrives)
next
  case (RequestIt base r)
  then show ?thesis using serve_arrives [of m base r] by (simp add: case_prod_beta)
qed (auto simp: Open_mailbox_def Forget_mailbox_def Turn_mailbox_def Steer_mailbox_def threadOrNew_def park_def Let_def)

lemma step_hears:
  assumes "mb_step op' m = (ts, heard, m')"
  shows "arrives m (tries op' m) (heard @ mb_events m')"
proof (cases "op' = HearOne")
  case True
  then show ?thesis using assms by auto
next
  case False
  then have "heard = []" using assms by (cases op') (auto split: prod.splits)
  then show ?thesis using tries_arrive [OF False, of m] assms by simp
qed

lemma mailbox_run_hears:
  "mb_run ops m = (ts, heard, m') \<Longrightarrow> \<exists>kept. heard @ mb_events m' = mb_events m @ kept \<and>
     subseq kept (tried_in ops m) \<and> (has_room ops m \<longrightarrow> kept = tried_in ops m)"
proof (induction ops arbitrary: m ts heard)
  case (Cons op' ops)
  obtain t1 h1 m1 where s: "mb_step op' m = (t1, h1, m1)" by (metis prod_cases3)
  obtain t2 h2 where r: "mb_run ops m1 = (t2, h2, m')" and heard: "heard = h1 @ h2"
    using Cons.prems s by (auto split: prod.splits)
  obtain k1 where k1: "h1 @ mb_events m1 = mb_events m @ k1" "subseq k1 (tries op' m)"
    "length (mb_events m) + length (tries op' m) \<le> eventBuffer \<longrightarrow> k1 = tries op' m"
    using step_hears [OF s] by (auto simp: arrives_def)
  obtain k2 where k2: "h2 @ mb_events m' = mb_events m1 @ k2" "subseq k2 (tried_in ops m1)"
    "has_room ops m1 \<longrightarrow> k2 = tried_in ops m1" using Cons.IH [OF r] by blast
  have "heard @ mb_events m' = mb_events m @ (k1 @ k2)"
    using k1(1) k2(1) unfolding heard by (metis append.assoc)
  moreover have "subseq (k1 @ k2) (tries op' m @ tried_in ops m1)" using k1(2) k2(2) by (rule list_emb_append_mono)
  ultimately show ?case using k1(3) k2(3) by (intro exI [of _ "k1 @ k2"]) (auto simp: s)
qed simp

lemma subseq_ends: "subseq xs ys \<Longrightarrow> subseq (ends xs) (ends ys)"
proof (induction rule: list_emb.induct)
  case (list_emb_Cons xs ys y)
  have "ends (y # ys) = ends [y] @ ends ys" by (simp add: ends_def)
  then show ?case using list_emb_Cons.IH by (simp add: list_emb_append2)
next
  case (list_emb_Cons2 x y xs ys)
  then have "ends (x # xs) = ends [y] @ ends xs" "ends (y # ys) = ends [y] @ ends ys" by (simp_all add: ends_def)
  then show ?case using list_emb_Cons2.IH by (simp add: subseq_append')
qed simp

lemma subseq_keeps_distinct: "subseq xs ys \<Longrightarrow> distinct ys \<Longrightarrow> distinct xs"
  by (induction rule: list_emb.induct) (auto dest: list_emb_set)

text \<open>C8. A mailbox's turns end once. Whatever is asked of a mailbox in whatever order - turns, steers and
  interrupts by the harness, requests by any client, the clock giving up on what waited too long, the
  harness reading the channel - no name is given to two turns, and a steer is taken exactly for the
  turns that run. In what the harness heard, followed by what is in the channel for it, the end of a
  turn stands at most once, and only of a turn that was started and no longer runs. As long as the
  channel had room for what was emitted, the end of every turn that no longer runs is there; on a full
  buffer an end is dropped for good.\<close>

theorem each_turn_ends_once:
  assumes "mb_run ops (New_mailbox token hold stale) = (started, heard, m)"
  shows "distinct started \<and> mb_running m \<subseteq> set started \<and>
    (\<forall>now t text'. fst (Steer_mailbox now t text' m) \<longleftrightarrow> t \<in> mb_running m) \<and>
    distinct (ends (heard @ mb_events m)) \<and>
    set (ends (heard @ mb_events m)) \<subseteq> set started - mb_running m \<and>
    (has_room ops (New_mailbox token hold stale) \<longrightarrow>
       set (ends (heard @ mb_events m)) = set started - mb_running m)"
proof -
  let ?m = "New_mailbox token hold stale"
  have inv: "distinct started" "distinct (ends (tried_in ops ?m))" "set (ends (tried_in ops ?m)) \<subseteq> set started"
    "mb_running m = set started - set (ends (tried_in ops ?m))"
    using mb_inv_from_New [OF assms] unfolding mb_inv_def by blast+
  obtain kept where "heard @ mb_events m = mb_events ?m @ kept" "subseq kept (tried_in ops ?m)"
    "has_room ops ?m \<longrightarrow> kept = tried_in ops ?m"
    using mailbox_run_hears [OF assms] by blast
  then have k: "subseq (heard @ mb_events m) (tried_in ops ?m)" "has_room ops ?m \<longrightarrow> heard @ mb_events m = tried_in ops ?m"
    by (simp_all add: New_mailbox_def)
  have "set (ends (heard @ mb_events m)) \<subseteq> set (ends (tried_in ops ?m))"
    using subseq_ends [OF k(1)] by (auto dest: list_emb_set)
  moreover have "distinct (ends (heard @ mb_events m))"
    using subseq_keeps_distinct [OF subseq_ends [OF k(1)]] inv(2) by blast
  ultimately show ?thesis using inv k(2) by (auto simp: Steer_mailbox_def)
qed

subsection \<open>What is over stays over\<close>

text \<open>Any partner whose new turns bear new names: a turn that is over does not come back.\<close>

locale conversation =
  fixes sound :: "'s \<Rightarrow> bool" and next_state :: "'s \<Rightarrow> 's \<Rightarrow> bool"
    and alive :: "'s \<Rightarrow> string set" and used :: "'s \<Rightarrow> string set"
  assumes stays_sound: "sound s \<Longrightarrow> next_state s s' \<Longrightarrow> sound s'"
    and keeps_used: "sound s \<Longrightarrow> next_state s s' \<Longrightarrow> used s \<subseteq> used s'"
    and new_names: "sound s \<Longrightarrow> next_state s s' \<Longrightarrow> alive s' - alive s \<subseteq> used s' - used s"
begin

lemma over_stays_over:
  assumes "next_state\<^sup>*\<^sup>* s s'" "sound s" "t \<in> used s" "t \<notin> alive s"
  shows "t \<notin> alive s'"
proof -
  have "sound s' \<and> t \<in> used s' \<and> t \<notin> alive s'"
    using assms
  proof (induction rule: rtranclp_induct)
    case (step y z)
    then show ?case using stays_sound [of y z] keeps_used [of y z] new_names [of y z] by blast
  qed simp
  then show ?thesis by simp
qed

end

definition mb_next :: "string list \<times> agent_event list \<times> Mailbox \<Rightarrow> string list \<times> agent_event list \<times> Mailbox \<Rightarrow> bool" where
  "mb_next = (\<lambda>(started, told, m) s'. \<exists>op' ts heard m'. mb_step op' m = (ts, heard, m') \<and> s' = (started @ ts, told @ tries op' m, m'))"

lemma mb_next_sound: "mb_inv s \<Longrightarrow> mb_next s s' \<Longrightarrow> mb_inv s'"
  using mb_inv_step by (auto simp: mb_next_def split: prod.splits)

interpretation polled: conversation mb_inv mb_next "\<lambda>(_, _, m). mb_running m" "\<lambda>(started, _, _). set started"
proof unfold_locales
  show "mb_inv s \<Longrightarrow> mb_next s s' \<Longrightarrow> mb_inv s'" for s s' by (rule mb_next_sound)
  show "(\<lambda>(started, _, _). set started) s \<subseteq> (\<lambda>(started, _, _). set started) s'" if "mb_next s s'" for s s'
    using that by (auto simp: mb_next_def)
  show "(\<lambda>(_, _, m). mb_running m) s' - (\<lambda>(_, _, m). mb_running m) s
      \<subseteq> (\<lambda>(started, _, _). set started) s' - (\<lambda>(started, _, _). set started) s" if "mb_inv s" "mb_next s s'" for s s'
    using that(1) mb_next_sound [OF that] that(2) by (auto simp: mb_next_def mb_inv_def)
qed

lemma run_reaches:
  "mb_run ops m = (ts, heard, m') \<Longrightarrow> mb_next\<^sup>*\<^sup>* (started, told, m) (started @ ts, told @ tried_in ops m, m')"
proof (induction ops arbitrary: started told m ts heard)
  case (Cons op' ops)
  obtain t1 e1 m1 where s: "mb_step op' m = (t1, e1, m1)" by (metis prod_cases3)
  obtain t2 e2 where r: "mb_run ops m1 = (t2, e2, m')" and te: "ts = t1 @ t2"
    using Cons.prems s by (auto split: prod.splits)
  have "mb_next (started, told, m) (started @ t1, told @ tries op' m, m1)" using s by (auto simp: mb_next_def)
  from converse_rtranclp_into_rtranclp [OF this Cons.IH [OF r]] show ?case by (simp add: te s)
qed simp

text \<open>C9. A refused steer is the end of its turn. Once a mailbox has refused a steer for a turn it started, it
  refuses every later one, whatever happens in between: so a harness that takes a refusal for the end
  of the turn, and starts another in its place, never has two of them running here.\<close>

theorem a_refused_steer_stays_refused:
  assumes "mb_run ops (New_mailbox token hold stale) = (started, told, m)"
    and "t \<in> set started" "fst (Steer_mailbox now t text' m) = False"
    and "mb_run later m = (started', told', m')"
  shows "fst (Steer_mailbox now' t text'' m') = False"
proof -
  have "t \<notin> mb_running m" using assms(3) by (auto simp: Steer_mailbox_def split: if_splits)
  then have "t \<notin> mb_running m'"
    using polled.over_stays_over [OF run_reaches [OF assms(4)] mb_inv_from_New [OF assms(1)]] assms(2) by simp
  then show ?thesis by (simp add: Steer_mailbox_def)
qed

subsection \<open>Deliveries\<close>

text \<open>What an operation parks, and what it hands to a client.\<close>

definition parked_by :: "mailbox_op \<Rightarrow> Mailbox \<Rightarrow> Delivery list" where
  "parked_by op' m = drop (length (mb_queue m)) (mb_queue (snd (snd (mb_step op' m))))"

definition handed_by :: "mailbox_op \<Rightarrow> Mailbox \<Rightarrow> Delivery list" where
  "handed_by op' m = (case op' of
       RequestIt base r \<Rightarrow> (case fst (serve_mailbox base r m) of HandedOver d \<Rightarrow> [d] | _ \<Rightarrow> [])
     | _ \<Rightarrow> [])"

fun parked_in :: "mailbox_op list \<Rightarrow> Mailbox \<Rightarrow> Delivery list" where
  "parked_in [] m = []"
| "parked_in (op' # ops) m = parked_by op' m @ parked_in ops (snd (snd (mb_step op' m)))"

fun handed_in :: "mailbox_op list \<Rightarrow> Mailbox \<Rightarrow> Delivery list" where
  "handed_in [] m = []"
| "handed_in (op' # ops) m = handed_by op' m @ handed_in ops (snd (snd (mb_step op' m)))"

definition gives_up :: "mailbox_op \<Rightarrow> bool" where
  "gives_up op' = (case op' of ExpireIt _ \<Rightarrow> True | _ \<Rightarrow> False)"

lemma serve_flow:
  "(case fst (serve_mailbox base r m) of HandedOver d \<Rightarrow> [d] | _ \<Rightarrow> []) @ mb_queue (snd (snd (serve_mailbox base r m))) = mb_queue m"
  by (auto simp: serve_mailbox_def Let_def servePoll_def serveSay_def serveDone_def serveState_def next_delivery_def
      split: option.splits prod.splits list.splits sum.splits)

lemma step_flow:
  "\<not> gives_up op' \<Longrightarrow> handed_by op' m @ mb_queue (snd (snd (mb_step op' m))) = mb_queue m @ parked_by op' m"
proof (cases op')
  case (RequestIt base r)
  let ?m = "snd (snd (serve_mailbox base r m))"
  have "mb_queue (snd (snd (mb_step op' m))) = mb_queue ?m" using RequestIt by (simp split: prod.splits)
  moreover have "drop (length (mb_queue m)) (mb_queue ?m) = []"
    using arg_cong [OF serve_flow [of base r m], of length] by simp
  ultimately show ?thesis using serve_flow [of base r m] RequestIt by (simp add: handed_by_def parked_by_def)
qed (auto simp: gives_up_def handed_by_def parked_by_def Open_mailbox_def Forget_mailbox_def Turn_mailbox_def
      Steer_mailbox_def Interrupt_mailbox_def Let_def)

lemma expire_flow:
  "gives_up op' \<Longrightarrow> handed_by op' m = [] \<and> parked_by op' m = [] \<and> subseq (mb_queue (snd (snd (mb_step op' m)))) (mb_queue m)"
  by (cases op') (auto simp: gives_up_def handed_by_def parked_by_def expire_def Let_def split: prod.splits)

lemma flow:
  "subseq (handed_in ops m @ mb_queue (snd (snd (mb_run ops m)))) (mb_queue m @ parked_in ops m) \<and>
   (list_all (\<lambda>op'. \<not> gives_up op') ops \<longrightarrow>
      handed_in ops m @ mb_queue (snd (snd (mb_run ops m))) = mb_queue m @ parked_in ops m)"
proof (induction ops arbitrary: m)
  case (Cons op' ops)
  obtain t1 e1 m1 where s: "mb_step op' m = (t1, e1, m1)" by (metis prod_cases3)
  have run: "snd (snd (mb_run (op' # ops) m)) = snd (snd (mb_run ops m1))" by (simp add: s split: prod.splits)
  note IH = Cons.IH [of m1]
  show ?case
  proof (cases "gives_up op'")
    case True
    then have e: "handed_by op' m = []" "parked_by op' m = []" "subseq (mb_queue m1) (mb_queue m)"
      using expire_flow [OF True, of m] by (auto simp: s)
    have "subseq (mb_queue m1 @ parked_in ops m1) (mb_queue m @ parked_in ops m1)" using e(3) by (rule list_emb_append_mono) simp
    with IH show ?thesis unfolding run by (auto simp: s e(1,2) True intro: subseq_order.trans)
  next
    case False
    have e: "handed_by op' m @ mb_queue m1 = mb_queue m @ parked_by op' m" using step_flow [OF False, of m] by (simp add: s)
    have "subseq (handed_by op' m @ (handed_in ops m1 @ mb_queue (snd (snd (mb_run ops m1)))))
        (handed_by op' m @ (mb_queue m1 @ parked_in ops m1))"
      using IH subseq_append' by blast
    moreover have "handed_by op' m @ mb_queue m1 @ parked_in ops m1 = mb_queue m @ parked_by op' m @ parked_in ops m1"
      using e by (metis append.assoc)
    ultimately show ?thesis unfolding run using IH by (auto simp: s)
  qed
qed simp

text \<open>Nothing parked is handed over twice, or out of order, or lost. Over every run of a mailbox, what was
  handed to clients and what still waits is, in this order, part of what was parked, and as long as the
  mailbox gave up on nothing it is all of it.\<close>

theorem handed_over_in_order:
  "subseq (handed_in ops (New_mailbox token hold stale) @ mb_queue (snd (snd (mb_run ops (New_mailbox token hold stale)))))
     (parked_in ops (New_mailbox token hold stale)) \<and>
   (list_all (\<lambda>op'. \<not> gives_up op') ops \<longrightarrow>
     handed_in ops (New_mailbox token hold stale) @ mb_queue (snd (snd (mb_run ops (New_mailbox token hold stale)))) =
       parked_in ops (New_mailbox token hold stale))"
  using flow [of ops "New_mailbox token hold stale"] by (simp add: New_mailbox_def)

subsection \<open>The token\<close>

lemma Cut_Some: "Cut c s = Some (a, b) \<Longrightarrow> s = a @ c # b"
  by (induction s arbitrary: a) (auto split: if_splits)

text \<open>C34. Only the token opens a mailbox. A request is answered with anything but \<open>not found\<close> only if the
  mailbox has a token and the path is the base, that token, a slash and an action; and what is not
  found changes nothing and says nothing to the harness.\<close>

theorem only_the_token_opens:
  "serve_mailbox base r m = (NotFound, [], m) \<or>
   mb_Token m \<noteq> [] \<and> (\<exists>action. rq_Path r = normal_base base @ mb_Token m @ CHR ''/'' # action)"
proof (cases "serve_mailbox base r m = (NotFound, [], m)")
  case False
  then obtain token action where p: "HasPrefix (rq_Path r) (normal_base base)"
    "Cut (CHR ''/'') (drop (length (normal_base base)) (rq_Path r)) = Some (token, action)" "authentic m token"
    by (auto simp: serve_mailbox_def Let_def split: if_splits option.splits)
  then have "rq_Path r = normal_base base @ token @ CHR ''/'' # action"
    using append_take_drop_id [of "length (normal_base base)" "rq_Path r"] Cut_Some [OF p(2)] by (simp add: HasPrefix_def)
  then show ?thesis using p(3) by (auto simp: authentic_def)
qed simp

subsection \<open>A run\<close>

text \<open>A turn is parked and picked up, a second is parked and given up ten minutes later; then the client is done
  with the first, and says so twice; the harness reads two of the three events.\<close>

definition sample_request :: "string \<Rightarrow> string \<Rightarrow> http_request" where
  "sample_request method action = \<lparr>rq_Method = method, rq_Path = ''/mb/k/'' @ action, rq_Wait = [],
     rq_Body = Inr (''mb-5-t1'', [])\<rparr>"

definition sample_ops :: "mailbox_op list" where
  "sample_ops = [TurnIt 5 ''scan'' ''m'', RequestIt ''mb'' (sample_request ''GET'' ''poll''),
     TurnIt 7 ''review'' ''m'', ExpireIt 700000000000, RequestIt ''mb'' (sample_request ''POST'' ''done''),
     RequestIt ''mb'' (sample_request ''POST'' ''done''), HearOne, HearOne]"

lemma small_digits: "dec_nat (Suc 0) = ''1''" "dec_nat 2 = ''2''" "dec_nat 5 = ''5''"
  by (simp_all add: dec_nat.simps char_of_def bit_0)

lemmas sample_eval = sample_ops_def sample_request_def New_mailbox_def DefaultHold_def DefaultStale_def
  Turn_mailbox_def threadOrNew_def park_def dec_int_def small_digits serve_mailbox_def servePoll_def serveDone_def
  next_delivery_def poll_hold_def authentic_def normal_base_def HasPrefix_def HasSuffix_def expire_def emit_all_def
  emit_def eventBuffer_def KindTurn_def Let_def minute_def second_def

lemma sample_run:
  "\<exists>heard m. mb_run sample_ops (New_mailbox ''k'' 0 0) = ([''mb-5-t1'', ''mb-5-t2''], heard, m) \<and>
     fst (Steer_mailbox 0 ''mb-5-t1'' ''x'' m) = False"
  by (simp add: sample_eval Steer_mailbox_def)

lemma sample_room: "has_room sample_ops (New_mailbox ''k'' 0 0)"
  by (simp add: sample_eval)

theorem each_turn_ends_once_witness:
  "\<exists>started heard m. mb_run sample_ops (New_mailbox ''k'' 0 0) = (started, heard, m) \<and> length started = 2 \<and>
     set (ends (heard @ mb_events m)) = set started - mb_running m"
proof -
  obtain heard m where r: "mb_run sample_ops (New_mailbox ''k'' 0 0) = ([''mb-5-t1'', ''mb-5-t2''], heard, m)"
    using sample_run by blast
  then show ?thesis using each_turn_ends_once [OF r] sample_room by auto
qed

theorem handed_over_in_order_witness:
  "handed_in [TurnIt 5 ''scan'' ''m''] (New_mailbox ''k'' 0 0) @
     mb_queue (snd (snd (mb_run [TurnIt 5 ''scan'' ''m''] (New_mailbox ''k'' 0 0)))) =
   parked_in [TurnIt 5 ''scan'' ''m''] (New_mailbox ''k'' 0 0)"
  using handed_over_in_order [of "[TurnIt 5 ''scan'' ''m'']" "''k''" 0 0] by (simp add: gives_up_def)

theorem a_refused_steer_stays_refused_witness:
  "\<exists>started told m. mb_run [] m = (started, told, m) \<and> fst (Steer_mailbox 1 ''mb-5-t1'' ''x'' m) = False"
proof -
  obtain heard m where r: "mb_run sample_ops (New_mailbox ''k'' 0 0) = ([''mb-5-t1'', ''mb-5-t2''], heard, m)"
      and off: "fst (Steer_mailbox 0 ''mb-5-t1'' ''x'' m) = False"
    using sample_run by blast
  have "mb_run [] m = ([], [], m)" by simp
  from a_refused_steer_stays_refused [OF r _ off this, of 1 "''x''"] show ?thesis by auto
qed

text \<open>A buffer nobody reads loses the end of a turn: the client is done, and the harness is never told.\<close>

lemma a_full_buffer_loses_the_end:
  assumes "length (mb_events m) = eventBuffer" "t \<in> mb_running m" "t \<noteq> []"
  shows "snd (snd (serveDone \<lparr>rq_Method = M, rq_Path = p, rq_Wait = w, rq_Body = Inr (t, [])\<rparr> m)) =
    m\<lparr>mb_running := mb_running m - {t}\<rparr>"
  using assms by (simp add: serveDone_def emit_all_def emit_def)

text \<open>What a client says of a turn that ended, or that never was, is passed on.\<close>

lemma a_word_for_no_turn_is_passed_on:
  assumes "t \<notin> mb_running m" "t \<noteq> []" "TrimSpace x \<noteq> []"
  shows "fst (snd (serveSay \<lparr>rq_Method = M, rq_Path = p, rq_Wait = w, rq_Body = Inr (t, x)\<rparr> m)) = [EvText t x]"
  using assms by (simp add: serveSay_def)

text \<open>A hold asked for in seconds is never longer than the mailbox's, though a count past the range of 64 bits
  in nanoseconds can come out below zero.\<close>

lemma poll_hold_bounded: "0 < mb_Hold m \<Longrightarrow> poll_hold m raw = Some h \<Longrightarrow> h \<le> mb_Hold m"
  by (auto simp: poll_hold_def Let_def split: if_splits option.splits)

end
