(* ===== verification/Skills.thy ===== *)
theory Skills
  imports GoStd "HOL-Library.List_Lexorder" "HOL-Library.Char_ord"
begin

text \<open>
  The instructions a session reads, kept on disk level with its declaration
  (\<open>golang/internal/skills/skills.go\<close>). A directory is the list of its files with their bodies, as a
  walk visits them; a directory without files is not told from an empty one. What the disk answers and
  where it fails is the environment, and so are SHA-256 and the reader of YAML. A pass over the disk is the
  list of the states it goes through, one after each call, so that a process that dies between two calls
  is one of them.
\<close>

subsection \<open>Paths\<close>

type_synonym files = "(string \<times> string) list"

text \<open>\<open>filepath.Clean\<close> on Unix, and \<open>filepath.Join\<close> with a second part that is not empty.\<close>

fun clean_parts :: "bool \<Rightarrow> string list \<Rightarrow> string list \<Rightarrow> string list" where
  "clean_parts rooted out [] = rev out"
| "clean_parts rooted out (p # ps) =
     (if p = [] \<or> p = ''.'' then clean_parts rooted out ps
      else if p = ''..'' then
        (case out of
           [] \<Rightarrow> clean_parts rooted (if rooted then [] else [p]) ps
         | q # qs \<Rightarrow> if q = ''..'' then clean_parts rooted (p # out) ps else clean_parts rooted qs ps)
      else clean_parts rooted (p # out) ps)"

definition Clean :: "string \<Rightarrow> string" where
  "Clean path =
     (let rooted = HasPrefix path ''/'';
          body = (case clean_parts rooted [] (Split (CHR ''/'') path) of [] \<Rightarrow> [] | ps \<Rightarrow> Join (CHR ''/'') ps) in
      if rooted then CHR ''/'' # body else if body = [] then ''.'' else body)"

definition Join_path :: "string \<Rightarrow> string \<Rightarrow> string" where
  "Join_path dir name = (if dir = [] then Clean name else Clean (dir @ CHR ''/'' # name))"

definition manifest :: string where "manifest = ''SKILL.md''"
definition skillsUnder :: string where "skillsUnder = ''.agents/skills''"
definition building :: string where "building = ''.agents/skills.next''"
definition retiring :: string where "retiring = ''.agents/skills.old''"
definition laidMark :: string where "laidMark = ''.laid-by-the-agent''"

subsection \<open>Reading the source\<close>

datatype 'a found = Found 'a | Absent | Broken string

record Skill =
  sk_Name :: string
  sk_Requires :: "string list"
  sk_Dir :: string
  sk_Base :: string

record header =
  hd_Name :: string
  hd_Requires :: "string list"

datatype skill_error =
    SourceUnreadable string | BadManifest string skill_error | Unreadable string | NoFrontMatter | NeverClosed
  | NotYaml string | NamesNoSkill string | Twins string | NamedTwice string | NoSkillCalled string string
  | NeedsParameter string string | MountedAt string | MountTable string | MarkUnreadable string
  | WalkFailed string string | NotOurs | CannotLook | NotCleared string | NotMade string | NotCopied string
  | MarkNotWritten | NotSynced | NotMovedAside | NotInPlace

text \<open>What the disk answers about the source: the entries of the directory by name, each with whether it is a
  directory; the bytes of a file; the files under a directory.\<close>

record source =
  so_entries :: "string \<Rightarrow> (string \<times> bool) list found"
  so_bytes :: "string \<Rightarrow> string found"
  so_yaml :: "string \<Rightarrow> (string, header) result"
  so_walk :: "string \<Rightarrow> (string, files) result"

fun crlf_to_lf :: "string \<Rightarrow> string" where
  "crlf_to_lf (c # d # s) =
     (if c = char_of (13 :: nat) \<and> d = char_of (10 :: nat) then d # crlf_to_lf s else c # crlf_to_lf (d # s))"
| "crlf_to_lf s = s"

fun before_first :: "string \<Rightarrow> string \<Rightarrow> string option" where
  "before_first pat [] = (if pat = [] then Some [] else None)"
| "before_first pat (c # s) =
     (if HasPrefix (c # s) pat then Some [] else map_option ((#) c) (before_first pat s))"

definition newline :: char where "newline = char_of (10 :: nat)"

definition frontMatter :: "source \<Rightarrow> string \<Rightarrow> (skill_error, header) result" where
  "frontMatter src raw =
     (let text' = crlf_to_lf raw; fence = ''---'' @ [newline] in
      if \<not> HasPrefix text' fence then Err NoFrontMatter
      else (case before_first (newline # ''---'') (drop (length fence) text') of
              None \<Rightarrow> Err NeverClosed
            | Some body \<Rightarrow> (case so_yaml src body of Err e \<Rightarrow> Err (NotYaml e) | Ok head \<Rightarrow> Ok head)))"

fun read_entries :: "source \<Rightarrow> string \<Rightarrow> (string \<times> bool) list \<Rightarrow> (skill_error, Skill list) result" where
  "read_entries src source_dir [] = Ok []"
| "read_entries src source_dir ((name, isDir) # entries) =
     (if \<not> isDir then read_entries src source_dir entries
      else let dir = Join_path source_dir name; path = Join_path dir manifest in
        case so_bytes src path of
          Absent \<Rightarrow> read_entries src source_dir entries
        | Broken e \<Rightarrow> Err (BadManifest path (Unreadable e))
        | Found raw \<Rightarrow>
            (case frontMatter src raw of
               Err e \<Rightarrow> Err (BadManifest path e)
             | Ok head \<Rightarrow>
                 if hd_Name head = [] then Err (NamesNoSkill path)
                 else (case read_entries src source_dir entries of
                         Err e \<Rightarrow> Err e
                       | Ok found \<Rightarrow> Ok (\<lparr>sk_Name = hd_Name head, sk_Requires = hd_Requires head, sk_Dir = dir,
                                       sk_Base = name\<rparr> # found))))"

fun twin :: "Skill list \<Rightarrow> Skill option" where
  "twin (a # b # ss) = (if sk_Name b = sk_Name a then Some b else twin (b # ss))"
| "twin _ = None"

definition Read_skills :: "source \<Rightarrow> string \<Rightarrow> (skill_error, Skill list) result" where
  "Read_skills src source_dir =
     (case so_entries src source_dir of
        Absent \<Rightarrow> Ok []
      | Broken e \<Rightarrow> Err (SourceUnreadable e)
      | Found entries \<Rightarrow>
          (case read_entries src source_dir entries of
             Err e \<Rightarrow> Err e
           | Ok found \<Rightarrow>
               let found = sort_key sk_Name found in
               (case twin found of Some s \<Rightarrow> Err (Twins (sk_Name s)) | None \<Rightarrow> Ok found)))"

subsection \<open>Choosing\<close>

text \<open>Quoting leaves out the escapes of \<open>strconv.Quote\<close>.\<close>

definition listOf :: "Skill list \<Rightarrow> string" where
  "listOf found =
     (if found = [] then ''no skill at all''
      else concat (map (\<lambda>s. CHR 0x22 # sk_Name s @ [CHR 0x22] @ '', '') (butlast found)) @
        CHR 0x22 # sk_Name (last found) @ [CHR 0x22])"

fun by_name :: "Skill list \<Rightarrow> string \<Rightarrow> Skill option" where
  "by_name [] name = None"
| "by_name (s # ss) name = (case by_name ss name of Some t \<Rightarrow> Some t | None \<Rightarrow> if sk_Name s = name then Some s else None)"

fun pick_named :: "Skill list \<Rightarrow> string set \<Rightarrow> string list \<Rightarrow> (skill_error, Skill list) result" where
  "pick_named found seen [] = Ok []"
| "pick_named found seen (name # names) =
     (if name \<in> seen then Err (NamedTwice name)
      else (case by_name found name of
              None \<Rightarrow> Err (NoSkillCalled name (listOf found))
            | Some s \<Rightarrow> (case pick_named found (insert name seen) names of
                           Err e \<Rightarrow> Err e | Ok chosen \<Rightarrow> Ok (s # chosen))))"

definition pick :: "Skill list \<Rightarrow> string list \<Rightarrow> (skill_error, Skill list) result" where
  "pick found wanted = (if wanted = [] then Ok found else pick_named found {} wanted)"

definition numbersFor :: "Skill list \<Rightarrow> (string \<rightharpoonup> string) \<Rightarrow> skill_error option" where
  "numbersFor reachable given =
     (case List.find (\<lambda>(s, needed). given needed = None)
             (concat (map (\<lambda>s. map (\<lambda>needed. (s, needed)) (sk_Requires s)) reachable)) of
        None \<Rightarrow> None | Some (s, needed) \<Rightarrow> Some (NeedsParameter (sk_Name s) needed))"

definition Check_skills ::
  "source \<Rightarrow> string \<Rightarrow> string list \<Rightarrow> (string \<rightharpoonup> string) \<Rightarrow> (skill_error, Skill list) result" where
  "Check_skills src source_dir wanted given =
     (case Read_skills src source_dir of
        Err e \<Rightarrow> Err e
      | Ok found \<Rightarrow>
          (case pick found wanted of
             Err e \<Rightarrow> Err e
           | Ok chosen \<Rightarrow> (case numbersFor chosen given of Some e \<Rightarrow> Err e | None \<Rightarrow> Ok chosen)))"

subsection \<open>Fingerprints\<close>

definition NUL :: char where "NUL = char_of (0 :: nat)"

definition hash_input :: "files \<Rightarrow> string" where
  "hash_input fs = concat (map (\<lambda>(path, body). path @ NUL # dec_nat (length body) @ NUL # body) (sort_key fst fs))"

definition hashOf :: "(string \<Rightarrow> string) \<Rightarrow> files \<Rightarrow> string" where
  "hashOf sha fs = sha (hash_input fs)"

definition beneath :: "string \<Rightarrow> files \<Rightarrow> files" where
  "beneath base fs = map (\<lambda>(path, body). (base @ CHR ''/'' # path, body)) fs"

fun walk_all :: "source \<Rightarrow> Skill list \<Rightarrow> (skill_error, files) result" where
  "walk_all src [] = Ok []"
| "walk_all src (s # ss) =
     (case so_walk src (sk_Dir s) of
        Err e \<Rightarrow> Err (WalkFailed (sk_Dir s) e)
      | Ok fs \<Rightarrow> (case walk_all src ss of Err e \<Rightarrow> Err e | Ok gs \<Rightarrow> Ok (beneath (sk_Base s) fs @ gs)))"

definition stampOf :: "(string \<Rightarrow> string) \<Rightarrow> source \<Rightarrow> Skill list \<Rightarrow> (skill_error, string) result" where
  "stampOf sha src chosen = (case walk_all src chosen of Err e \<Rightarrow> Err e | Ok fs \<Rightarrow> Ok (hashOf sha fs))"

text \<open>What the session finds: everything in the directory but the mark.\<close>

definition contents :: "files \<Rightarrow> files" where
  "contents fs = filter (\<lambda>(path, body). path \<noteq> laidMark) fs"

definition stampOfLaid :: "(string \<Rightarrow> string) \<Rightarrow> bool \<Rightarrow> files option \<Rightarrow> string" where
  "stampOfLaid sha readable target =
     (case target of None \<Rightarrow> [] | Some fs \<Rightarrow> if readable then hashOf sha (contents fs) else [])"

definition is_hex :: "char \<Rightarrow> bool" where
  "is_hex c \<longleftrightarrow> is_digit c \<or> c \<in> set ''abcdefABCDEF''"

definition isFingerprint :: "string \<Rightarrow> bool" where
  "isFingerprint stamp \<longleftrightarrow> length stamp = 64 \<and> list_all is_hex stamp"

definition ourMark :: "string option \<Rightarrow> files option \<Rightarrow> (skill_error, string) result" where
  "ourMark broken target =
     (case broken of Some e \<Rightarrow> Err (MarkUnreadable e)
      | None \<Rightarrow> (case Option.bind target (\<lambda>fs. map_of fs laidMark) of
                   None \<Rightarrow> Ok []
                 | Some mark \<Rightarrow> Ok (let stamp = TrimSpace mark in if isFingerprint stamp then stamp else [])))"

definition mayReplace :: "bool \<Rightarrow> files option \<Rightarrow> string \<Rightarrow> string \<Rightarrow> string \<Rightarrow> skill_error option" where
  "mayReplace canLook target marked want have' =
     (if marked \<noteq> [] \<or> have' = want then None
      else if \<not> canLook then Some CannotLook
      else (case target of None \<Rightarrow> None | Some _ \<Rightarrow> Some NotOurs))"

end
