(* ===== verification/SkillLayer.thy ===== *)
theory SkillLayer
  imports Skills
begin

text \<open>
  Laying the skills (\<open>Layer.Lay\<close> and \<open>writeInto\<close> of \<open>golang/internal/skills/skills.go\<close>): the mount
  table, the set built beside the one in use, the mark, and the swap by two renames. A rename happens or
  does not; a call that removes or writes may stop half way and leave anything where it was working.
\<close>

subsection \<open>The mount table\<close>

definition octal_digit :: "char \<Rightarrow> bool" where
  "octal_digit c \<longleftrightarrow> c \<in> set ''01234567''"

text \<open>\<open>strconv.ParseUint(s, 8, 8)\<close> on three characters.\<close>

definition octal3 :: "char \<Rightarrow> char \<Rightarrow> char \<Rightarrow> char option" where
  "octal3 a b c =
     (let n = digit_val a * 64 + digit_val b * 8 + digit_val c in
      if octal_digit a \<and> octal_digit b \<and> octal_digit c \<and> n < 256 then Some (char_of n) else None)"

fun unescape_loop :: "string \<Rightarrow> string" where
  "unescape_loop (x # a # b # c # s) =
     (if x = CHR 0x5C
      then (case octal3 a b c of Some y \<Rightarrow> y # unescape_loop s | None \<Rightarrow> x # unescape_loop (a # b # c # s))
      else x # unescape_loop (a # b # c # s))"
| "unescape_loop s = s"

definition unescape :: "string \<Rightarrow> string" where
  "unescape field = (if CHR 0x5C \<notin> set field then field else unescape_loop field)"

definition Fields :: "string \<Rightarrow> string list" where
  "Fields s = FieldsFunc is_space s"

definition in_tree :: "string \<Rightarrow> string \<Rightarrow> string \<Rightarrow> bool" where
  "in_tree work path where' \<longleftrightarrow>
     where' = path \<or> HasPrefix where' (path @ ''/'') \<or>
     HasPrefix path (where' @ ''/'') \<and> HasPrefix where' (work @ ''/'')"

text \<open>The lines of the table, and what the scanner says at their end.\<close>

definition mountedInTreeFrom :: "string list \<Rightarrow> string option \<Rightarrow> string \<Rightarrow> string \<Rightarrow> (skill_error, bool) result" where
  "mountedInTreeFrom table broken work path =
     (let work = Clean work; path = Clean path in
      if list_ex (\<lambda>line. 5 \<le> length (Fields line) \<and> in_tree work path (unescape (Fields line ! 4))) table then Ok True
      else (case broken of Some e \<Rightarrow> Err (MountTable e) | None \<Rightarrow> Ok False))"

definition mountedInTree ::
  "(string list \<times> string option) found \<Rightarrow> string \<Rightarrow> string \<Rightarrow> (skill_error, bool) result" where
  "mountedInTree mounts work path =
     (case mounts of
        Absent \<Rightarrow> Ok False
      | Broken e \<Rightarrow> Err (MountTable e)
      | Found (table, broken) \<Rightarrow> mountedInTreeFrom table broken work path)"

definition refuseAMountedTarget ::
  "(string list \<times> string option) found \<Rightarrow> string \<Rightarrow> string \<Rightarrow> skill_error option" where
  "refuseAMountedTarget mounts agentDir path =
     (case mountedInTree mounts agentDir path of
        Err e \<Rightarrow> Some e
      | Ok mounted \<Rightarrow> if mounted then Some (MountedAt path) else None)"

subsection \<open>The disk\<close>

record skill_disk =
  dk_target :: "files option"
  dk_next :: "files option"
  dk_previous :: "files option"

text \<open>Where a call stops: it did what it was asked, or it failed and left something.\<close>

datatype outcome = Gone | Left_behind "files option"

fun what_is_left :: "outcome \<Rightarrow> files option" where
  "what_is_left Gone = None"
| "what_is_left (Left_behind d) = d"

record faults =
  ft_clear_next :: outcome
  ft_make :: bool
  ft_copy :: "string \<Rightarrow> files \<times> bool"
  ft_mark :: "string option"
  ft_sync :: bool
  ft_clear_previous :: outcome
  ft_stat :: bool
  ft_aside :: bool
  ft_place :: bool
  ft_back :: bool
  ft_clear_after :: outcome
  ft_give_up :: outcome

definition put_mark :: "string \<Rightarrow> files \<Rightarrow> files" where
  "put_mark body fs = contents fs @ [(laidMark, body)]"

text \<open>The mark is cut to nothing, written and waited for; \<open>ft_mark\<close> is what a failure leaves of it.\<close>

definition writeMark :: "faults \<Rightarrow> string \<Rightarrow> files \<Rightarrow> files list \<times> skill_error option" where
  "writeMark ft stamp fs =
     (case ft_mark ft of
        None \<Rightarrow> ([put_mark [] fs, put_mark (stamp @ [newline]) fs], None)
      | Some left \<Rightarrow> ([put_mark [] fs, put_mark left fs], Some MarkNotWritten))"

fun copy_all :: "faults \<Rightarrow> Skill list \<Rightarrow> files \<Rightarrow> files \<times> skill_error option" where
  "copy_all ft [] fs = (fs, None)"
| "copy_all ft (s # ss) fs =
     (let (arrived, whole) = ft_copy ft (sk_Dir s); fs = fs @ beneath (sk_Base s) arrived in
      if whole then copy_all ft ss fs else (fs, Some (NotCopied (sk_Name s))))"

text \<open>The next set, built, marked and on the disk.\<close>

definition build_next :: "faults \<Rightarrow> string \<Rightarrow> Skill list \<Rightarrow> skill_disk \<Rightarrow> skill_disk list \<times> skill_error option" where
  "build_next ft stamp chosen d =
     (let (fs, e) = copy_all ft chosen []; d = d\<lparr>dk_next := Some fs\<rparr> in
      case e of Some e \<Rightarrow> ([d], Some e)
      | None \<Rightarrow>
          (let (ms, e) = writeMark ft stamp fs; ds = d # map (\<lambda>m. d\<lparr>dk_next := Some m\<rparr>) ms in
           case e of Some e \<Rightarrow> (ds, Some e)
           | None \<Rightarrow> if \<not> ft_sync ft then (ds, Some NotSynced) else (ds, None)))"

text \<open>The swap: the old set out of the way, the new one in its place, or the old one back.\<close>

definition swap_in :: "faults \<Rightarrow> skill_disk \<Rightarrow> skill_disk list \<times> skill_error option" where
  "swap_in ft d =
     (let d = d\<lparr>dk_previous := what_is_left (ft_clear_previous ft)\<rparr> in
      if ft_clear_previous ft \<noteq> Gone then ([d], Some (NotCleared retiring))
      else if \<not> ft_stat ft then ([d], Some CannotLook)
      else if dk_target d \<noteq> None \<and> \<not> ft_aside ft then ([d], Some NotMovedAside)
      else
        let swapped = dk_target d \<noteq> None;
            d' = (if swapped then d\<lparr>dk_previous := dk_target d, dk_target := None\<rparr> else d) in
        if \<not> ft_place ft
        then ([d, d', if swapped \<and> ft_back ft then d'\<lparr>dk_target := dk_previous d', dk_previous := None\<rparr> else d'],
              Some NotInPlace)
        else
          let d'' = d'\<lparr>dk_target := dk_next d', dk_next := None\<rparr> in
          ([d, d', d'', d''\<lparr>dk_previous := what_is_left (ft_clear_after ft)\<rparr>],
           if ft_clear_after ft \<noteq> Gone then Some (NotCleared retiring) else None))"

text \<open>Whatever happens, no half-built set stays beside the one in use.\<close>

definition give_up_next :: "faults \<Rightarrow> skill_disk \<Rightarrow> skill_disk" where
  "give_up_next ft d = (if dk_next d = None then d else d\<lparr>dk_next := what_is_left (ft_give_up ft)\<rparr>)"

definition writeInto ::
  "faults \<Rightarrow> string \<Rightarrow> string \<Rightarrow> string \<Rightarrow> Skill list \<Rightarrow> skill_disk \<Rightarrow> skill_disk list \<times> skill_error option" where
  "writeInto ft stamp marked have' chosen d =
     (if marked \<noteq> stamp \<and> have' = stamp
      then (case dk_target d of
              None \<Rightarrow> ([d], Some MarkNotWritten)
            | Some fs \<Rightarrow> (let (ms, e) = writeMark ft stamp fs in (map (\<lambda>m. d\<lparr>dk_target := Some m\<rparr>) ms, e)))
      else
        let d1 = d\<lparr>dk_next := what_is_left (ft_clear_next ft)\<rparr> in
        if ft_clear_next ft \<noteq> Gone then ([d1], Some (NotCleared building))
        else if \<not> ft_make ft then ([d1], Some (NotMade building))
        else
          let (ds, e) = build_next ft stamp chosen d1;
              (ds', e') = (if e = None then swap_in ft (last ds) else ([], e));
              all = d1 # ds @ ds' in
          (all @ [give_up_next ft (last all)], e'))"

subsection \<open>A pass\<close>

record Laid =
  ld_Dir :: string
  ld_Names :: "string list"
  ld_Changed :: bool
  ld_Adopted :: bool

record Layer =
  ly_Source :: string
  ly_AgentDir :: string

record surroundings =
  sr_mounts :: "(string list \<times> string option) found"
  sr_mark_broken :: "string option"
  sr_readable :: bool
  sr_canLook :: bool

fun first_refusal :: "'e option list \<Rightarrow> 'e option" where
  "first_refusal [] = None"
| "first_refusal (e # es) = (case e of None \<Rightarrow> first_refusal es | Some x \<Rightarrow> Some x)"

definition refuseMounts :: "surroundings \<Rightarrow> string \<Rightarrow> skill_error option" where
  "refuseMounts sr agentDir =
     first_refusal (map (refuseAMountedTarget (sr_mounts sr) agentDir)
       [Join_path agentDir skillsUnder, Join_path agentDir building, Join_path agentDir retiring])"

definition Lay ::
  "(string \<Rightarrow> string) \<Rightarrow> source \<Rightarrow> surroundings \<Rightarrow> faults \<Rightarrow> Layer \<Rightarrow> string list \<Rightarrow> (string \<rightharpoonup> string) \<Rightarrow> skill_disk \<Rightarrow>
   (skill_error, Laid) result \<times> skill_disk list" where
  "Lay sha src sr ft l wanted given d =
     (let target = Join_path (ly_AgentDir l) skillsUnder in
      case refuseMounts sr (ly_AgentDir l) of
        Some e \<Rightarrow> (Err e, [])
      | None \<Rightarrow>
     (case ourMark (sr_mark_broken sr) (dk_target d) of Err e \<Rightarrow> (Err e, []) | Ok marked \<Rightarrow>
     (case Read_skills src (ly_Source l) of Err e \<Rightarrow> (Err e, []) | Ok found \<Rightarrow>
     (case pick found wanted of Err e \<Rightarrow> (Err e, []) | Ok chosen \<Rightarrow>
     (case numbersFor chosen given of Some e \<Rightarrow> (Err e, []) | None \<Rightarrow>
     (case stampOf sha src chosen of Err e \<Rightarrow> (Err e, []) | Ok want \<Rightarrow>
        let names = map sk_Name chosen; have' = stampOfLaid sha (sr_readable sr) (dk_target d) in
        if want = marked \<and> want = have'
        then (Ok \<lparr>ld_Dir = target, ld_Names = names, ld_Changed = False, ld_Adopted = False\<rparr>, [])
        else (case mayReplace (sr_canLook sr) (dk_target d) marked want have' of Some e \<Rightarrow> (Err e, [])
          | None \<Rightarrow>
              let adopted = marked \<noteq> want \<and> have' = want;
                  (ds, e) = writeInto ft want marked have' chosen d in
              ((case e of Some e \<Rightarrow> Err e
                | None \<Rightarrow> Ok \<lparr>ld_Dir = target, ld_Names = names, ld_Changed = True, ld_Adopted = adopted\<rparr>),
               ds))))))))"

end
