(* ===== verification/SkillLaws.thy ===== *)
theory SkillLaws
  imports SkillLayer
begin

text \<open>
  What laying the skills keeps to: two sets of files have the same bytes to hash only if they are the same
  set; whatever fails, and wherever the process dies, a session finds the set it had or the next one,
  whole; a directory that carries no fingerprint is not rewritten; and a pass that succeeded leaves
  nothing to do to the one after it.
\<close>

subsection \<open>Fingerprints\<close>

lemma split_at_first:
  "c \<notin> set p \<Longrightarrow> c \<notin> set q \<Longrightarrow> p @ c # r = q @ c # s \<longleftrightarrow> p = q \<and> r = s"
proof (induction p arbitrary: q)
  case Nil
  then show ?case by (cases q) auto
next
  case (Cons x p)
  then show ?case by (cases q) auto
qed

lemma hash_input_cons:
  assumes "p @ NUL # dec_nat (length b) @ NUL # b @ r = p' @ NUL # dec_nat (length b') @ NUL # b' @ r'"
    and "NUL \<notin> set p" "NUL \<notin> set p'"
  shows "p = p' \<and> b = b' \<and> r = r'"
proof -
  have digits: "NUL \<notin> set (dec_nat n)" for n
    using dec_nat_digits [of n] by (auto simp: list_all_iff NUL_def is_digit_def)
  note first = split_at_first [OF assms(2,3), THEN iffD1, OF assms(1)]
  have p: "p = p'" and r1: "dec_nat (length b) @ NUL # b @ r = dec_nat (length b') @ NUL # b' @ r'"
    using first by simp_all
  have "dec_nat (length b) = dec_nat (length b')" and r2: "b @ r = b' @ r'"
    using split_at_first [OF digits digits, THEN iffD1, OF r1] by simp_all
  then have "length b = length b'" using nat_of_digits_dec_nat by metis
  with r2 p show ?thesis by simp
qed

definition plain_paths :: "files \<Rightarrow> bool" where
  "plain_paths fs \<longleftrightarrow> (\<forall>(p, b) \<in> set fs. NUL \<notin> set p)"

lemma plain_paths_Cons [simp]: "plain_paths (f # fs) \<longleftrightarrow> NUL \<notin> set (fst f) \<and> plain_paths fs" "plain_paths []"
  by (auto simp: plain_paths_def split: prod.splits)

lemma hash_bytes_inject:
  "concat (map (\<lambda>(path, body). path @ NUL # dec_nat (length body) @ NUL # body) fs) =
   concat (map (\<lambda>(path, body). path @ NUL # dec_nat (length body) @ NUL # body) gs) \<Longrightarrow>
   plain_paths fs \<Longrightarrow> plain_paths gs \<Longrightarrow> fs = gs"
proof (induction fs arbitrary: gs)
  case Nil
  then show ?case by (cases gs) (auto split: prod.splits)
next
  case (Cons f fs)
  then show ?case
  proof (cases gs)
    case (Cons g gs')
    obtain p b p' b' where fg: "f = (p, b)" "g = (p', b')" by fastforce
    let ?enc = "\<lambda>fs. concat (map (\<lambda>(path, body). path @ NUL # dec_nat (length body) @ NUL # body) fs)"
    have "p @ NUL # dec_nat (length b) @ NUL # b @ ?enc fs = p' @ NUL # dec_nat (length b') @ NUL # b' @ ?enc gs'"
      using Cons.prems(1) Cons fg by simp
    from hash_input_cons [OF this] Cons.prems(2,3) Cons fg Cons.IH [of gs'] show ?thesis by auto
  qed (auto split: prod.splits)
qed

text \<open>What is hashed says everything: equal input, equal files.\<close>

lemma hash_input_inject:
  assumes "hash_input fs = hash_input gs" "plain_paths fs" "plain_paths gs"
  shows "sort_key fst fs = sort_key fst gs"
  using assms by (intro hash_bytes_inject) (auto simp: hash_input_def plain_paths_def)

text \<open>The order a walk comes by the files in does not matter.\<close>

lemma hashOf_any_order:
  assumes "mset fs = mset gs" "distinct (map fst gs)"
  shows "hashOf sha fs = hashOf sha gs"
proof -
  have "sort_key fst fs = sort_key fst gs"
    using assms by (intro sort_key_inj_key_eq) (auto simp: distinct_map dest: mset_eq_setD)
  then show ?thesis by (simp add: hashOf_def hash_input_def)
qed

subsection \<open>What is built\<close>

definition copied :: "faults \<Rightarrow> Skill list \<Rightarrow> files" where
  "copied ft chosen = concat (map (\<lambda>s. beneath (sk_Base s) (fst (ft_copy ft (sk_Dir s)))) chosen)"

lemma copy_all_whole: "copy_all ft chosen fs = (gs, None) \<Longrightarrow>
    gs = fs @ copied ft chosen \<and> list_all (\<lambda>s. snd (ft_copy ft (sk_Dir s))) chosen"
proof (induction chosen arbitrary: fs)
  case (Cons s ss)
  obtain arrived ok where a: "ft_copy ft (sk_Dir s) = (arrived, ok)" by fastforce
  with Cons.prems have ok "copy_all ft ss (fs @ beneath (sk_Base s) arrived) = (gs, None)"
    by (auto simp: Let_def split: if_splits)
  from Cons.IH [OF this(2)] this(1) show ?case by (simp add: a copied_def)
qed (simp add: copied_def)

lemma slash_no_mark: "base @ CHR ''/'' # path \<noteq> laidMark"
proof -
  have "CHR ''/'' \<notin> set laidMark" by (simp add: laidMark_def)
  then show ?thesis by (metis in_set_conv_decomp)
qed

lemma contents_beneath [simp]: "contents (beneath base fs) = beneath base fs"
  using slash_no_mark by (induction fs) (auto simp: contents_def beneath_def)

lemma contents_append [simp]: "contents (fs @ gs) = contents fs @ contents gs"
  by (simp add: contents_def)

lemma contents_copied [simp]: "contents (copied ft chosen) = copied ft chosen"
  by (induction chosen) (simp_all add: copied_def contents_def [of "[]"])

lemma contents_contents [simp]: "contents (contents fs) = contents fs"
  by (simp add: contents_def)

lemma contents_put_mark [simp]: "contents (put_mark body fs) = contents fs"
  by (simp add: put_mark_def) (simp add: contents_def)

lemma mark_of_put_mark [simp]: "map_of (put_mark body fs) laidMark = Some body"
proof -
  have "map_of (contents fs) laidMark = None" by (auto simp: map_of_eq_None_iff contents_def)
  then show ?thesis by (simp add: put_mark_def map_add_def)
qed

lemma copied_faithful:
  assumes "walk_all src chosen = Ok fs" "\<And>dir gs. so_walk src dir = Ok gs \<Longrightarrow> ft_copy ft dir = (gs, True)"
  shows "copied ft chosen = fs"
  using assms(1) by (induction chosen arbitrary: fs) (auto simp: copied_def assms(2) split: sum.splits)

lemma build_next_target: "build_next ft stamp chosen d = (ds, e) \<Longrightarrow> d' \<in> set ds \<Longrightarrow> dk_target d' = dk_target d"
  by (auto simp: build_next_def writeMark_def Let_def split: option.splits prod.splits if_splits)

lemma build_next_ne: "build_next ft stamp chosen d = (ds, e) \<Longrightarrow> ds \<noteq> []"
  by (auto simp: build_next_def writeMark_def Let_def split: option.splits prod.splits if_splits)

lemma build_next_built:
  "build_next ft stamp chosen d = (ds, None) \<Longrightarrow>
    dk_next (last ds) = Some (put_mark (stamp @ [newline]) (copied ft chosen)) \<and>
    list_all (\<lambda>s. snd (ft_copy ft (sk_Dir s))) chosen"
  using copy_all_whole [of ft chosen "[]"]
  by (auto simp: build_next_def writeMark_def Let_def split: option.splits prod.splits if_splits)

text \<open>What a session finds at an instant, given what was there and what is being laid.\<close>

definition whole :: "files option \<Rightarrow> files option \<Rightarrow> skill_disk \<Rightarrow> bool" where
  "whole before next' d \<longleftrightarrow>
     map_option contents (dk_target d) = map_option contents before \<or>
     dk_target d = None \<and> dk_previous d = before \<or>
     next' \<noteq> None \<and> map_option contents (dk_target d) = next'"

text \<open>What may be laid: the copies, if every one of them was finished without an error.\<close>

definition whole_set :: "faults \<Rightarrow> Skill list \<Rightarrow> files option" where
  "whole_set ft chosen = (if list_all (\<lambda>s. snd (ft_copy ft (sk_Dir s))) chosen then Some (copied ft chosen) else None)"

lemma swap_in_whole:
  assumes "swap_in ft d = (ds, e)" "dk_next d = Some (put_mark m next')" "contents next' = next'"
  shows "list_all (whole (dk_target d) (Some next')) ds \<and> ds \<noteq> []"
  using assms by (auto simp: swap_in_def whole_def Let_def split: if_splits)

lemma swap_in_done:
  assumes "swap_in ft d = (ds, None)" "dk_next d = Some fs"
  shows "dk_target (last ds) = Some fs \<and> dk_next (last ds) = None"
  using assms by (auto simp: swap_in_def Let_def split: if_splits)

lemma whole_mono: "dk_target d = before \<Longrightarrow> whole before next' d"
  by (simp add: whole_def)

lemma give_up_next_target [simp]: "dk_target (give_up_next ft d) = dk_target d" "dk_previous (give_up_next ft d) = dk_previous d"
  by (simp_all add: give_up_next_def)

lemma writeInto_whole:
  assumes "writeInto ft stamp marked have' chosen d = (ds, e)"
  shows "list_all (whole (dk_target d) (whole_set ft chosen)) ds"
proof (cases "marked \<noteq> stamp \<and> have' = stamp")
  case True
  with assms show ?thesis
    by (auto simp: writeInto_def writeMark_def whole_def split: option.splits)
next
  case False
  let ?d1 = "d\<lparr>dk_next := what_is_left (ft_clear_next ft)\<rparr>" and ?W = "whole (dk_target d) (whole_set ft chosen)"
  have d1: "?W ?d1" by (rule whole_mono) simp
  show ?thesis
  proof (cases "ft_clear_next ft \<noteq> Gone \<or> \<not> ft_make ft")
    case True
    with assms False d1 show ?thesis by (auto simp: writeInto_def Let_def split: if_splits)
  next
    case go: False
    obtain bs be where b: "build_next ft stamp chosen ?d1 = (bs, be)" by fastforce
    have bW: "list_all ?W bs" using build_next_target [OF b] by (auto simp: list_all_iff intro: whole_mono)
    have last_b: "dk_target (last bs) = dk_target d" using build_next_target [OF b] build_next_ne [OF b] by (simp add: last_in_set)
    obtain ss se where s: "(if be = None then swap_in ft (last bs) else ([], be)) = (ss, se)" by fastforce
    have sW: "list_all ?W ss"
    proof (cases be)
      case None
      with swap_in_whole [of ft "last bs" ss se] build_next_built [of ft stamp chosen ?d1 bs] b s last_b show ?thesis
        by (auto simp: whole_set_def)
    qed (use s in auto)
    have ds: "ds = (?d1 # bs @ ss) @ [give_up_next ft (last (?d1 # bs @ ss))]"
      using assms go \<open>\<not> (marked \<noteq> stamp \<and> have' = stamp)\<close> b s
      by (simp add: writeInto_def Let_def split: if_splits)
    have all: "list_all ?W (?d1 # bs @ ss)" using d1 bW sW by simp
    then have "?W (last (?d1 # bs @ ss))" by (metis last_in_set list.discI list_all_iff)
    then have "?W (give_up_next ft (last (?d1 # bs @ ss)))" by (simp add: whole_def)
    with all show ?thesis unfolding ds by simp
  qed
qed

subsection \<open>A pass\<close>

text \<open>The way a pass gets to writing.\<close>

lemma Lay_cases:
  assumes "Lay sha src sr ft l wanted given d = (r, ds)"
  obtains (stops) e where "r = Err e" "ds = []"
  | (level) marked found chosen files where "ourMark (sr_mark_broken sr) (dk_target d) = Ok marked"
      "Read_skills src (ly_Source l) = Ok found" "pick found wanted = Ok chosen" "walk_all src chosen = Ok files"
      "numbersFor chosen given = None" "hashOf sha files = marked"
      "stampOfLaid sha (sr_readable sr) (dk_target d) = marked" "ds = []"
      "r = Ok \<lparr>ld_Dir = Join_path (ly_AgentDir l) skillsUnder, ld_Names = map sk_Name chosen, ld_Changed = False,
                ld_Adopted = False\<rparr>"
  | (writes) marked found chosen files e where "ourMark (sr_mark_broken sr) (dk_target d) = Ok marked"
      "Read_skills src (ly_Source l) = Ok found" "pick found wanted = Ok chosen" "walk_all src chosen = Ok files"
      "numbersFor chosen given = None"
      "mayReplace (sr_canLook sr) (dk_target d) marked (hashOf sha files)
         (stampOfLaid sha (sr_readable sr) (dk_target d)) = None"
      "writeInto ft (hashOf sha files) marked (stampOfLaid sha (sr_readable sr) (dk_target d)) chosen d = (ds, e)"
      "\<not> (hashOf sha files = marked \<and> hashOf sha files = stampOfLaid sha (sr_readable sr) (dk_target d))"
      "r = (case e of Some e \<Rightarrow> Err e | None \<Rightarrow>
         Ok \<lparr>ld_Dir = Join_path (ly_AgentDir l) skillsUnder, ld_Names = map sk_Name chosen, ld_Changed = True,
             ld_Adopted = (marked \<noteq> hashOf sha files \<and>
               stampOfLaid sha (sr_readable sr) (dk_target d) = hashOf sha files)\<rparr>)"
proof -
  note L = assms [unfolded Lay_def Let_def stampOf_def]
  show ?thesis
  proof (cases "refuseMounts sr (ly_AgentDir l)")
    case (Some e)
    then show ?thesis using L by (intro stops [of e]) auto
  next
    case first: None
    show ?thesis
    proof (cases "ourMark (sr_mark_broken sr) (dk_target d)")
      case (Inl e)
      then show ?thesis using L first by (intro stops [of e]) auto
    next
      case mark: (Inr marked)
      show ?thesis
      proof (cases "Read_skills src (ly_Source l)")
        case (Inl e)
        then show ?thesis using L first mark by (intro stops [of e]) auto
      next
        case read: (Inr found)
        show ?thesis
        proof (cases "pick found wanted")
          case (Inl e)
          then show ?thesis using L first mark read by (intro stops [of e]) auto
        next
          case pick: (Inr chosen)
          show ?thesis
          proof (cases "numbersFor chosen given")
            case (Some e)
            then show ?thesis using L first mark read pick by (intro stops [of e]) auto
          next
            case num: None
            show ?thesis
            proof (cases "walk_all src chosen")
              case (Inl e)
              then show ?thesis using L first mark read pick num by (intro stops [of e]) auto
            next
              case walk: (Inr files)
              note L' = L [simplified first mark read pick num walk option.case sum.case]
              let ?h = "stampOfLaid sha (sr_readable sr) (dk_target d)"
              show ?thesis
              proof (cases "hashOf sha files = marked \<and> hashOf sha files = ?h")
                case True
                then show ?thesis using L' by (intro level [OF mark read pick walk num]) auto
              next
                case new: False
                show ?thesis
                proof (cases "mayReplace (sr_canLook sr) (dk_target d) marked (hashOf sha files) ?h")
                  case (Some e)
                  then show ?thesis using L' new by (intro stops [of e]) auto
                next
                  case may: None
                  obtain ds' e where w: "writeInto ft (hashOf sha files) marked ?h chosen d = (ds', e)" by fastforce
                  then have "ds' = ds" using L' new may by simp
                  with w L' new may show ?thesis by (intro writes [OF mark read pick walk num may _ new]) auto
                qed
              qed
            qed
          qed
        qed
      qed
    qed
  qed
qed

text \<open>C11. A session never finds half a set. Whatever the disk answers and wherever it fails, and at whatever call the
  process dies, the directory the session reads holds, but for the mark, what it held before the pass, or
  a set that was chosen, every directory of it copied without an error; or it is between the two renames, and what it held is beside it.\<close>

theorem the_session_never_finds_half_a_set:
  "list_all (\<lambda>d'. map_option contents (dk_target d') = map_option contents (dk_target d) \<or>
      dk_target d' = None \<and> dk_previous d' = dk_target d \<or>
      (\<exists>found chosen. Read_skills src (ly_Source l) = Ok found \<and> pick found wanted = Ok chosen \<and>
        numbersFor chosen given = None \<and> list_all (\<lambda>s. snd (ft_copy ft (sk_Dir s))) chosen \<and>
        map_option contents (dk_target d') = Some (copied ft chosen)))
    (snd (Lay sha src sr ft l wanted given d))"
proof -
  obtain r ds where L: "Lay sha src sr ft l wanted given d = (r, ds)" by fastforce
  then show ?thesis
  proof (cases rule: Lay_cases)
    case (writes marked found chosen files e)
    have "list_all (whole (dk_target d) (whole_set ft chosen)) ds" by (rule writeInto_whole [OF writes(7)])
    then show ?thesis using writes(2,3,5) L by (auto simp: list_all_iff whole_def whole_set_def split: if_splits)
  qed (simp_all add: L)
qed

text \<open>C13. What is not ours is left alone. If the directory is there and its mark, if it has one, is no fingerprint,
  then at no instant of a pass is it gone or does it hold anything else than it held; only the mark may
  appear, and only when the directory already holds what would have been laid.\<close>

theorem what_is_not_ours_is_left_alone:
  assumes "dk_target d = Some fs" "ourMark None (Some fs) = Ok []"
  shows "list_all (\<lambda>d'. map_option contents (dk_target d') = Some (contents fs))
    (snd (Lay sha src sr ft l wanted given d))"
proof -
  obtain r ds where L: "Lay sha src sr ft l wanted given d = (r, ds)" by fastforce
  then show ?thesis
  proof (cases rule: Lay_cases)
    case (writes marked found chosen files e)
    have m: "marked = []" using writes(1) assms by (auto simp: ourMark_def split: option.splits)
    then have same: "stampOfLaid sha (sr_readable sr) (dk_target d) = hashOf sha files"
      using writes(6) assms(1) by (auto simp: mayReplace_def split: if_splits)
    then have "marked \<noteq> hashOf sha files" using writes(8) by auto
    then show ?thesis using writes(7) assms(1) same
      by (auto simp: L writeInto_def writeMark_def split: option.splits)
  qed (simp_all add: L)
qed

lemma TrimSpace_line:
  assumes "isFingerprint stamp"
  shows "TrimSpace (stamp @ [newline]) = stamp"
proof -
  have sp: "is_space newline" by (simp add: is_space_def newline_def)
  have no: "\<not> is_space c" if "c \<in> set stamp" for c
    using assms that by (auto simp: isFingerprint_def list_all_iff is_hex_def is_digit_def is_space_def)
  have "stamp \<noteq> []" using assms by (auto simp: isFingerprint_def)
  then show ?thesis
    using sp no by (cases stamp) (auto simp: TrimSpace_def dropWhile_eq_self_iff dropWhile_append hd_rev)
qed

text \<open>What a pass that succeeded left: the set, with its fingerprint.\<close>

lemma writeInto_done:
  assumes "writeInto ft stamp marked have' chosen d = (ds, None)"
  shows "ds \<noteq> [] \<and> (\<exists>gs. dk_target (last ds) = Some (put_mark (stamp @ [newline]) gs) \<and>
    (contents gs = copied ft chosen \<or>
     have' = stamp \<and> map_option contents (dk_target d) = Some (contents gs)))"
proof (cases "marked \<noteq> stamp \<and> have' = stamp")
  case True
  with assms show ?thesis by (auto simp: writeInto_def writeMark_def split: option.splits)
next
  case False
  let ?d1 = "d\<lparr>dk_next := what_is_left (ft_clear_next ft)\<rparr>"
  obtain bs be where b: "build_next ft stamp chosen ?d1 = (bs, be)" by fastforce
  obtain ss se where s: "(if be = None then swap_in ft (last bs) else ([], be)) = (ss, se)" by fastforce
  have go: "ds = (?d1 # bs @ ss) @ [give_up_next ft (last (?d1 # bs @ ss))]" "se = None"
    using assms False b s by (auto simp: writeInto_def Let_def split: if_splits)
  then have be: "be = None" using s by (auto split: if_splits)
  have n: "dk_next (last bs) = Some (put_mark (stamp @ [newline]) (copied ft chosen))"
    using build_next_built [of ft stamp chosen ?d1 bs] b be by simp
  have sw: "swap_in ft (last bs) = (ss, None)" using s go(2) be by simp
  have "dk_target (last ss) = Some (put_mark (stamp @ [newline]) (copied ft chosen))" "ss \<noteq> []"
    using swap_in_done [OF sw n] swap_in_whole [OF sw n] by auto
  then show ?thesis unfolding go(1) by (auto intro: exI [of _ "copied ft chosen"])
qed

text \<open>C22. A pass that succeeded leaves nothing to do. When the copies that were taken are the files that were
  fingerprinted, the next pass over the same source, declaration and mounts finds the directory level,
  writes nothing, and names the same skills.\<close>

theorem a_second_pass_does_nothing:
  assumes "Lay sha src sr ft l wanted given d = (Ok laid, ds)"
    and "\<And>dir gs. so_walk src dir = Ok gs \<Longrightarrow> ft_copy ft dir = (gs, True)"
    and "\<And>x. isFingerprint (sha x)" and "sr_readable sr" and "sr_mark_broken sr = None"
  shows "Lay sha src sr ft' l wanted given (last (d # ds)) =
    (Ok (laid\<lparr>ld_Changed := False, ld_Adopted := False\<rparr>), [])"
proof -
  have mounts: "refuseMounts sr (ly_AgentDir l) = None"
    using assms(1) unfolding Lay_def Let_def by (cases "refuseMounts sr (ly_AgentDir l)") auto
  show ?thesis
    using assms(1)
  proof (cases rule: Lay_cases)
    case (level marked found chosen files)
    then show ?thesis using mounts by (simp add: Lay_def stampOf_def Let_def)
  next
    case (writes marked found chosen files e)
    have e: "e = None" and names: "laid = \<lparr>ld_Dir = Join_path (ly_AgentDir l) skillsUnder, ld_Names = map sk_Name chosen,
        ld_Changed = True, ld_Adopted = (marked \<noteq> hashOf sha files \<and>
          stampOfLaid sha (sr_readable sr) (dk_target d) = hashOf sha files)\<rparr>"
      using writes(9) by (auto split: option.splits)
    let ?want = "hashOf sha files"
    obtain gs where g: "dk_target (last (d # ds)) = Some (put_mark (?want @ [newline]) gs)"
      "contents gs = copied ft chosen \<or>
       stampOfLaid sha (sr_readable sr) (dk_target d) = ?want \<and> map_option contents (dk_target d) = Some (contents gs)"
      using writeInto_done [OF writes(7) [unfolded e]] by auto
    have fp: "isFingerprint ?want" using assms(3) by (simp add: hashOf_def)
    have mark: "ourMark None (dk_target (last (d # ds))) = Ok ?want"
      unfolding g(1) using TrimSpace_line [OF fp] fp by (simp add: ourMark_def)
    have laid: "stampOfLaid sha True (dk_target (last (d # ds))) = ?want"
      using g copied_faithful [OF writes(4) assms(2)] assms(4)
      by (auto simp: stampOfLaid_def)
    show ?thesis
      using mounts mark laid writes(2-5) assms(4,5) names by (simp add: Lay_def stampOf_def Let_def)
  qed simp
qed

end
