(* ===== verification/SkillExample.thy ===== *)
theory SkillExample
  imports SkillLaws
begin

text \<open>
  One skill laid on an empty disk, and again; a directory of somebody else's; a process that died between
  the two renames; and the escapes of the mount table.
\<close>

definition ex_raw :: string where
  "ex_raw = ''---'' @ [newline] @ ''name: scan'' @ [newline] @ ''---'' @ [newline] @ ''Look.''"

definition ex_src :: source where
  "ex_src = \<lparr>so_entries = (\<lambda>_. Found [(''scan-1'', True), (''README.md'', False)]),
     so_bytes = (\<lambda>_. Found ex_raw),
     so_yaml = (\<lambda>body. Ok \<lparr>hd_Name = drop 6 body, hd_Requires = [''floor'']\<rparr>),
     so_walk = (\<lambda>_. Ok [(''SKILL.md'', ex_raw)])\<rparr>"

definition ex_sr :: surroundings where
  "ex_sr = \<lparr>sr_mounts = Absent, sr_mark_broken = None, sr_readable = True, sr_canLook = True\<rparr>"

definition ex_ft :: faults where
  "ex_ft = \<lparr>ft_clear_next = Gone, ft_make = True, ft_copy = (\<lambda>_. ([(''SKILL.md'', ex_raw)], True)), ft_mark = None,
     ft_sync = True, ft_clear_previous = Gone, ft_stat = True, ft_aside = True, ft_place = True, ft_back = True,
     ft_clear_after = Gone, ft_give_up = Gone\<rparr>"

definition ex_sha :: "string \<Rightarrow> string" where "ex_sha s = replicate 64 CHR ''a''"

definition ex_layer :: Layer where "ex_layer = \<lparr>ly_Source = ''/skills'', ly_AgentDir = ''/work''\<rparr>"

definition ex_scan :: Skill where
  "ex_scan = \<lparr>sk_Name = ''scan'', sk_Requires = [''floor''], sk_Dir = ''/skills/scan-1'', sk_Base = ''scan-1''\<rparr>"

definition ex_laid :: files where
  "ex_laid = put_mark (ex_sha [] @ [newline]) (beneath ''scan-1'' [(''SKILL.md'', ex_raw)])"

definition no_disk :: skill_disk where "no_disk = \<lparr>dk_target = None, dk_next = None, dk_previous = None\<rparr>"

lemma ex_read: "Read_skills ex_src ''/skills'' = Ok [ex_scan]"
  by code_simp

lemma ex_sha_fp: "isFingerprint (ex_sha x)"
  by (simp add: isFingerprint_def ex_sha_def is_hex_def list_all_length)

lemma ex_sha_any: "hashOf ex_sha fs = ex_sha []"
  by (simp add: hashOf_def ex_sha_def)

lemma ex_pick: "pick [ex_scan] [''scan''] = Ok [ex_scan]"
  by code_simp

lemma ex_mounts: "refuseMounts ex_sr ''/work'' = None"
  by (simp add: refuseMounts_def refuseAMountedTarget_def mountedInTree_def ex_sr_def)

lemma ex_num: "numbersFor [ex_scan] [''floor'' \<mapsto> ''3''] = None"
  by (simp add: numbersFor_def ex_scan_def)

lemma ex_skill_walk: "walk_all ex_src [ex_scan] = Ok (beneath ''scan-1'' [(''SKILL.md'', ex_raw)])"
  by (simp add: ex_src_def ex_scan_def)

lemma ex_stamp: "stampOf ex_sha ex_src [ex_scan] = Ok (ex_sha [])"
  by (simp add: stampOf_def ex_skill_walk ex_sha_any del: walk_all.simps)

lemma ex_writes: "\<exists>ds. writeInto ex_ft (ex_sha []) [] [] [ex_scan] no_disk = (ds, None)"
  by (simp add: writeInto_def build_next_def writeMark_def swap_in_def Let_def ex_ft_def no_disk_def ex_sha_def)

lemma ex_sr_simps [simp]: "sr_mark_broken ex_sr = None" "sr_readable ex_sr" "sr_canLook ex_sr"
  by (simp_all add: ex_sr_def)

lemma ex_first_pass:
  "\<exists>ds. Lay ex_sha ex_src ex_sr ex_ft ex_layer [''scan''] [''floor'' \<mapsto> ''3''] no_disk =
    (Ok \<lparr>ld_Dir = Join_path ''/work'' skillsUnder, ld_Names = [''scan''], ld_Changed = True, ld_Adopted = False\<rparr>, ds)"
proof -
  obtain ds where w: "writeInto ex_ft (ex_sha []) [] [] [ex_scan] no_disk = (ds, None)" using ex_writes by blast
  have n: "ex_sha [] \<noteq> []" by (simp add: ex_sha_def)
  have l: "ly_Source ex_layer = ''/skills''" "ly_AgentDir ex_layer = ''/work''" "sk_Name ex_scan = ''scan''"
    by (simp_all add: ex_layer_def ex_scan_def)
  have t: "dk_target no_disk = None" by (simp add: no_disk_def)
  have m: "mayReplace True None [] (ex_sha []) [] = None" by (simp add: mayReplace_def)
  show ?thesis
    by (simp add: Lay_def Let_def l t ex_mounts ourMark_def ex_read ex_pick ex_num ex_stamp stampOfLaid_def n m w)
qed

theorem a_second_pass_does_nothing_witness:
  "\<exists>laid d. Lay ex_sha ex_src ex_sr ex_ft ex_layer [''scan''] [''floor'' \<mapsto> ''3''] d = (Ok laid, []) \<and>
     ld_Names laid = [''scan''] \<and> \<not> ld_Changed laid"
proof -
  obtain ds where L: "Lay ex_sha ex_src ex_sr ex_ft ex_layer [''scan''] [''floor'' \<mapsto> ''3''] no_disk =
      (Ok \<lparr>ld_Dir = Join_path ''/work'' skillsUnder, ld_Names = [''scan''], ld_Changed = True, ld_Adopted = False\<rparr>, ds)"
    using ex_first_pass by blast
  have "so_walk ex_src dir = Ok gs \<Longrightarrow> ft_copy ex_ft dir = (gs, True)" for dir gs
    by (simp add: ex_src_def ex_ft_def)
  note S = a_second_pass_does_nothing [OF L this ex_sha_fp ex_sr_simps(2,1), of ex_ft]
  show ?thesis by (intro exI conjI, rule S) simp_all
qed

text \<open>Notes somebody put where the skills go are still there after a pass, whatever it was asked.\<close>

definition foreign_disk :: skill_disk where
  "foreign_disk = no_disk\<lparr>dk_target := Some [(''notes.txt'', ''mine'')]\<rparr>"

theorem what_is_not_ours_is_left_alone_witness:
  "list_all (\<lambda>d'. map_option contents (dk_target d') = Some (contents [(''notes.txt'', ''mine'')]))
    (snd (Lay ex_sha ex_src ex_sr ex_ft ex_layer [''scan''] [''floor'' \<mapsto> ''3''] foreign_disk))"
  by (rule what_is_not_ours_is_left_alone) (simp_all add: foreign_disk_def ourMark_def laidMark_def)

text \<open>A process that died between the two renames leaves the set beside its place. The next pass does not put it
  back: if it is refused, for a skill that is not there, the session has none.\<close>

lemma a_set_aside_is_not_put_back:
  assumes "dk_target d = None" "dk_previous d = Some ex_laid"
  shows "Lay ex_sha ex_src ex_sr ft ex_layer [''review''] given d =
    (Err (NoSkillCalled ''review'' (listOf [ex_scan])), [])"
  using assms ex_read ex_mounts
  by (simp add: Lay_def ex_layer_def ourMark_def pick_def Let_def) (simp add: ex_scan_def ex_sr_def)

text \<open>Three dashes at the head of a longer line close the front matter, and front matter with nothing in it is
  not closed.\<close>

lemma a_longer_line_closes_the_front_matter:
  "before_first (newline # ''---'') (''name: scan'' @ [newline] @ ''--- not yet'') = Some ''name: scan''"
  by code_simp

lemma an_empty_front_matter_is_not_closed:
  "frontMatter src (''---'' @ [newline] @ ''---'' @ [newline] @ ''Look.'') = Err NeverClosed"
proof -
  let ?raw = "''---'' @ [newline] @ ''---'' @ [newline] @ ''Look.''" and ?fence = "''---'' @ [newline]"
  have "HasPrefix (crlf_to_lf ?raw) ?fence" "before_first (newline # ''---'') (drop (length ?fence) (crlf_to_lf ?raw)) = None"
    by code_simp+
  then show ?thesis by (simp only: frontMatter_def Let_def) simp
qed

text \<open>A line is cut at every white space, a carriage return in a mount point included, and the kernel does not
  escape that one.\<close>

lemma a_carriage_return_cuts_a_mount_point:
  "Fields (''25 1 8:1 / /work/.agents/ski'' @ [char_of (13 :: nat)] @ ''lls'') ! 4 = ''/work/.agents/ski''"
  by code_simp

subsection \<open>The escapes of the mount table\<close>

text \<open>How the kernel writes a mount point: four characters are written in octal.\<close>

definition mangle1 :: "char \<Rightarrow> string" where
  "mangle1 c = (if c = CHR '' '' then CHR 0x5C # ''040'' else if c = CHR 0x09 then CHR 0x5C # ''011''
     else if c = CHR 0x0A then CHR 0x5C # ''012'' else if c = CHR 0x5C then CHR 0x5C # ''134'' else [c])"

definition mangle :: "string \<Rightarrow> string" where
  "mangle s = concat (map mangle1 s)"

lemma mangle1_octal: "octal3 CHR ''0'' CHR ''4'' CHR ''0'' = Some CHR '' ''" "octal3 CHR ''0'' CHR ''1'' CHR ''1'' = Some CHR 0x09"
  "octal3 CHR ''0'' CHR ''1'' CHR ''2'' = Some CHR 0x0A" "octal3 CHR ''1'' CHR ''3'' CHR ''4'' = Some CHR 0x5C"
  by code_simp+

lemma unescape_loop_plain: "CHR 0x5C \<notin> set s \<Longrightarrow> unescape_loop s = s"
  by (induction s rule: unescape_loop.induct) auto

lemma unescape_loop_cons:
  assumes "x \<noteq> CHR 0x5C" "length s < 3 \<Longrightarrow> CHR 0x5C \<notin> set s"
  shows "unescape_loop (x # s) = x # unescape_loop s"
proof (cases "3 \<le> length s")
  case True
  then obtain a b c r where "s = a # b # c # r" by (auto simp: numeral_3_eq_3 Suc_le_length_iff)
  then show ?thesis using assms(1) by simp
next
  case False
  then show ?thesis using assms unescape_loop_plain [of "x # s"] unescape_loop_plain [of s] by simp
qed

lemma mangle1_cases: "mangle1 c = [c] \<and> c \<noteq> CHR 0x5C \<or>
    (\<exists>a b d. mangle1 c = [CHR 0x5C, a, b, d] \<and> octal3 a b d = Some c)"
  by (simp add: mangle1_def mangle1_octal)

lemma mangle_short: "length (mangle s) < 4 \<Longrightarrow> CHR 0x5C \<notin> set (mangle s)"
proof (induction s)
  case (Cons c s)
  then show ?case using mangle1_cases [of c] by (auto simp: mangle_def)
qed (simp add: mangle_def)

text \<open>What the kernel escapes is read back, a path with spaces and backslashes in it included.\<close>

lemma unescape_mangle: "unescape (mangle s) = s"
proof -
  have loop: "unescape_loop (mangle s) = s"
  proof (induction s)
    case (Cons c s)
    have m: "mangle (c # s) = mangle1 c @ mangle s" by (simp add: mangle_def)
    from mangle1_cases [of c] show ?case
    proof
      assume c: "mangle1 c = [c] \<and> c \<noteq> CHR 0x5C"
      then have "unescape_loop (c # mangle s) = c # unescape_loop (mangle s)"
        using mangle_short [of s] by (intro unescape_loop_cons) auto
      with c Cons m show ?thesis by simp
    next
      assume "\<exists>a b d. mangle1 c = [CHR 0x5C, a, b, d] \<and> octal3 a b d = Some c"
      then show ?thesis using m Cons by auto
    qed
  qed (simp add: mangle_def)
  show ?thesis
  proof (cases "CHR 0x5C \<in> set (mangle s)")
    case False
    then show ?thesis using loop unescape_loop_plain [OF False] by (simp add: unescape_def)
  qed (simp add: unescape_def loop)
qed

end
