(* ===== verification/AgentClient.thy ===== *)
theory AgentClient
  imports Harness
begin

text \<open>
  The agent's protocol (\<open>golang/internal/agent\<close>): the requests and their answers, the stream of events, the
  environment the agent is started with, and the conversation that is opened or resumed. A line is read
  as its decoded message; the decoding of JSON, the process and its pipes are the environment. A reply
  channel holds one answer, as the code makes it, and a channel that is closed still gives what it holds.
\<close>

subsection \<open>The environment of the process\<close>

definition agent_names :: "string list" where
  "agent_names = [''PATH'', ''HOME'', ''TMPDIR'', ''LANG'', ''TZ'', ''CODEX_HOME'', ''HTTP_PROXY'', ''HTTPS_PROXY'',
     ''NO_PROXY'', ''http_proxy'', ''https_proxy'', ''no_proxy'', ''BROKER_MCP_TOKEN'', ''GATEWAY_TOKEN'', ''USER_TOKEN'']"

fun environment_loop :: "(string \<Rightarrow> string option) \<Rightarrow> string set \<Rightarrow> string list \<Rightarrow> string list" where
  "environment_loop lookup seen [] = []"
| "environment_loop lookup seen (name # names) =
     (if name = [] \<or> name \<in> seen then environment_loop lookup seen names
      else (case lookup name of
              Some v \<Rightarrow> (name @ CHR ''='' # v) # environment_loop lookup (insert name seen) names
            | None \<Rightarrow> environment_loop lookup (insert name seen) names))"

definition Environment :: "string list \<Rightarrow> (string \<Rightarrow> string option) \<Rightarrow> string list" where
  "Environment keep lookup = environment_loop lookup {} (agent_names @ keep)"

text \<open>What the process is started with: its own list, or, when that is empty, everything the harness has.\<close>

definition started_with :: "string list \<Rightarrow> string list \<Rightarrow> string list" where
  "started_with environment own = (if environment \<noteq> [] then environment else own)"

subsection \<open>Events\<close>

datatype event_kind = KindText | KindDelta | KindToolStarted | KindTool | KindTurnDone

record SessionEvent =
  ae_Kind :: event_kind
  ae_Text :: string
  ae_TurnID :: string
  ae_Call :: "Call option"

record itemEvent =
  it_TurnID :: string
  it_ID :: string
  it_Type :: string
  it_Text :: string
  it_Command :: string
  it_Name :: string
  it_Server :: string
  it_Tool :: string
  it_Arguments :: "string option"
  it_Status :: string
  it_Result :: "(bool \<times> string list) option"
  it_Error :: "string option"

definition answerKept :: nat where "answerKept = 400"

text \<open>The parts of an answer put together, until enough was said.\<close>

fun said_parts :: "string \<Rightarrow> string list \<Rightarrow> string" where
  "said_parts said' [] = said'"
| "said_parts said' (part # parts) =
     (if part = [] then said_parts said' parts
      else let said' = (if said' \<noteq> [] then said' @ '' '' else said') @ part
        in if answerKept \<le> length said' then said' else said_parts said' parts)"

definition answerOf :: "itemEvent \<Rightarrow> string" where
  "answerOf e =
     (case it_Result e of None \<Rightarrow> []
      | Some (isError, content) \<Rightarrow>
          let given = take answerKept (said_parts [] content) in
          if isError \<and> given \<noteq> [] then ''refused: '' @ given else given)"

definition callOf :: "itemEvent \<Rightarrow> Call" where
  "callOf e =
     (let shell = it_Tool e = [] in
      \<lparr>ca_Ref = it_ID e, ca_Server = (if shell then ServerShell else it_Server e),
       ca_Tool = (if shell then (if it_Command e = [] then it_Name e else it_Command e) else it_Tool e),
       ca_Arguments = it_Arguments e, ca_Status = it_Status e,
       ca_Failure = (case it_Error e of None \<Rightarrow> [] | Some m \<Rightarrow> m), ca_Answer = answerOf e\<rparr>)"

record decoders =
  dc_delta :: "string \<Rightarrow> (string \<times> string) option"
  dc_item :: "string \<Rightarrow> itemEvent option"
  dc_turn :: "string \<Rightarrow> string"

definition eventFrom :: "decoders \<Rightarrow> string \<Rightarrow> string \<Rightarrow> SessionEvent option" where
  "eventFrom dc method' params =
     (if method' = ''item/agentMessage/delta'' then
        (case dc_delta dc params of None \<Rightarrow> None
         | Some (turn, delta) \<Rightarrow> Some \<lparr>ae_Kind = KindDelta, ae_Text = delta, ae_TurnID = turn, ae_Call = None\<rparr>)
      else if method' = ''item/started'' \<or> method' = ''item/completed'' then
        (case dc_item dc params of None \<Rightarrow> None
         | Some e \<Rightarrow>
             if it_Type e = ''agentMessage'' then
               (if method' = ''item/started'' then None
                else Some \<lparr>ae_Kind = KindText, ae_Text = it_Text e, ae_TurnID = it_TurnID e, ae_Call = None\<rparr>)
             else if it_Type e \<in> {''commandExecution'', ''mcpToolCall'', ''toolCall''} then
               Some \<lparr>ae_Kind = (if method' = ''item/started'' then KindToolStarted else KindTool), ae_Text = [],
                     ae_TurnID = it_TurnID e, ae_Call = Some (callOf e)\<rparr>
             else None)
      else if method' \<in> {''turn/completed'', ''turn/failed'', ''turn/aborted''} then
        Some \<lparr>ae_Kind = KindTurnDone, ae_Text = [], ae_TurnID = dc_turn dc params, ae_Call = None\<rparr>
      else None)"

subsection \<open>Requests and answers\<close>

datatype refusal_kind = NoActiveTurn string | OtherRefusal string

fun contains :: "string \<Rightarrow> string \<Rightarrow> bool" where
  "contains [] pat = (pat = [])"
| "contains (c # s) pat = (HasPrefix (c # s) pat \<or> contains s pat)"

definition refusalFrom :: "string \<Rightarrow> refusal_kind" where
  "refusalFrom reason = (if contains (ToLower reason) ''no active turn'' then NoActiveTurn reason else OtherRefusal reason)"

datatype reply = Result_of string | Refusal_of refusal_kind

record message =
  ms_ID :: "int option"
  ms_Method :: string
  ms_Result :: string
  ms_Error :: "string option"
  ms_Params :: string

definition reply_of :: "message \<Rightarrow> reply" where
  "reply_of m = (case ms_Error m of Some reason \<Rightarrow> Refusal_of (refusalFrom reason) | None \<Rightarrow> Result_of (ms_Result m))"

text \<open>The client: who waits for an answer, the channels, and the events not read yet.\<close>

record reply_channel =
  ch_holds :: "reply option"
  ch_closed :: bool

record Client =
  cl_nextID :: int
  cl_waiting :: "int set"
  cl_channel :: "int \<Rightarrow> reply_channel"
  cl_events :: "SessionEvent list"

definition agentBuffer :: nat where "agentBuffer = 256"

definition fresh_client :: Client where
  "fresh_client = \<lparr>cl_nextID = 0, cl_waiting = {}, cl_channel = (\<lambda>id. \<lparr>ch_holds = None, ch_closed = False\<rparr>), cl_events = []\<rparr>"

text \<open>The first locked part of a call.\<close>

definition register :: "Client \<Rightarrow> int \<times> Client" where
  "register c =
     (let id' = cl_nextID c + 1 in
      (id', c\<lparr>cl_nextID := id', cl_waiting := insert id' (cl_waiting c),
             cl_channel := (cl_channel c)(id' := \<lparr>ch_holds = None, ch_closed = False\<rparr>)\<rparr>))"

definition unregister :: "int \<Rightarrow> Client \<Rightarrow> Client" where
  "unregister id' c = c\<lparr>cl_waiting := cl_waiting c - {id'}\<rparr>"

text \<open>What the reader does with a message: an answer for a call, or an event, dropped when nobody reads.\<close>

datatype handling = Answer_for int reply | Notice "SessionEvent option"

definition handle_line :: "decoders \<Rightarrow> message \<Rightarrow> handling" where
  "handle_line dc m =
     (case ms_ID m of
        Some id' \<Rightarrow> if ms_Method m = [] then Answer_for id' (reply_of m) else Notice (eventFrom dc (ms_Method m) (ms_Params m))
      | None \<Rightarrow> Notice (eventFrom dc (ms_Method m) (ms_Params m)))"

definition pass_on :: "SessionEvent option \<Rightarrow> Client \<Rightarrow> Client" where
  "pass_on ev c = (case ev of None \<Rightarrow> c
     | Some e \<Rightarrow> if length (cl_events c) < agentBuffer then c\<lparr>cl_events := cl_events c @ [e]\<rparr> else c)"

definition put_reply :: "int \<Rightarrow> reply \<Rightarrow> Client \<Rightarrow> Client" where
  "put_reply id' a c = c\<lparr>cl_channel := (cl_channel c)(id' := (cl_channel c id')\<lparr>ch_holds := Some a\<rparr>)\<rparr>"

definition take_reply :: "int \<Rightarrow> Client \<Rightarrow> Client" where
  "take_reply id' c = c\<lparr>cl_channel := (cl_channel c)(id' := (cl_channel c id')\<lparr>ch_holds := None\<rparr>)\<rparr>"

text \<open>The stream is over: everybody who waits is told.\<close>

definition close_all :: "Client \<Rightarrow> Client" where
  "close_all c = c\<lparr>cl_channel := (\<lambda>id'. if id' \<in> cl_waiting c then (cl_channel c id')\<lparr>ch_closed := True\<rparr> else cl_channel c id'),
     cl_waiting := {}\<rparr>"

subsection \<open>The conversation\<close>

record ThreadOptions =
  to_Model :: string
  to_Sandbox :: string
  to_Dir :: string
  to_ApprovalPolicy :: string

definition ApprovalNever :: string where "ApprovalNever = ''never''"

definition params_of :: "ThreadOptions \<Rightarrow> string \<rightharpoonup> string" where
  "params_of opts =
     (let p = (if to_Model opts \<noteq> [] then [''model'' \<mapsto> to_Model opts] else Map.empty);
          p = (if to_Sandbox opts \<noteq> [] then p(''sandbox'' \<mapsto> to_Sandbox opts) else p);
          p = (if to_Dir opts \<noteq> [] then p(''cwd'' \<mapsto> to_Dir opts) else p)
      in p(''approvalPolicy'' \<mapsto> (if to_ApprovalPolicy opts = [] then ApprovalNever else to_ApprovalPolicy opts)))"

text \<open>How long a request may take: what its caller grants, or a bound of its own, which the caller's end does not
  cut short.\<close>

datatype deadline = As_the_caller | Within duration

definition boundedBy :: "duration \<Rightarrow> deadline" where
  "boundedBy limit = (if limit \<le> 0 then As_the_caller else Within limit)"

record Conversation =
  cv_options :: ThreadOptions
  cv_rememberIn :: string
  cv_callTimeout :: duration
  cv_resumeLimit :: duration
  cv_threadID :: string

datatype request = Resume string "string \<rightharpoonup> string" deadline | Start "string \<rightharpoonup> string" deadline

datatype conversation_error = NoBoundOnResuming | NotStarted string

text \<open>What the agent answers, and what the disk does with the note: \<open>pa_fails\<close> is what a failing write leaves of
  it. The note is the content of the file, if it is there and can be read.\<close>

record partner =
  pa_resume :: "string \<Rightarrow> bool"
  pa_start :: "(string, string) result"
  pa_fails :: "string option option"
  pa_removes :: bool

type_synonym memo = "string option"

definition remembered_thread :: "Conversation \<Rightarrow> memo \<Rightarrow> string" where
  "remembered_thread c n = (if cv_rememberIn c = [] then [] else case n of None \<Rightarrow> [] | Some raw \<Rightarrow> TrimSpace raw)"

definition remember_thread :: "partner \<Rightarrow> Conversation \<Rightarrow> string \<Rightarrow> memo \<Rightarrow> memo" where
  "remember_thread pa c threadID n =
     (if cv_rememberIn c = [] then n
      else (case pa_fails pa of Some left \<Rightarrow> left | None \<Rightarrow> Some (threadID @ [char_of (10 :: nat)])))"

definition forget_memo :: "partner \<Rightarrow> Conversation \<Rightarrow> memo \<Rightarrow> memo" where
  "forget_memo pa c n = (if cv_rememberIn c = [] \<or> \<not> pa_removes pa then n else None)"

text \<open>Starting a thread insists on a name; starting a turn takes what it is given.\<close>

definition StartThread :: "(string, string) result \<Rightarrow> (string, string) result" where
  "StartThread decoded = (case decoded of Err e \<Rightarrow> Err e
     | Ok i \<Rightarrow> if i = [] then Err ''the agent started a thread without an identifier'' else Ok i)"

definition Open_conversation ::
  "partner \<Rightarrow> Conversation \<Rightarrow> memo \<Rightarrow> (conversation_error, string) result \<times> request list \<times> Conversation \<times> memo" where
  "Open_conversation pa c n =
     (if cv_threadID c \<noteq> [] then (Ok (cv_threadID c), [], c, n)
      else if cv_rememberIn c \<noteq> [] \<and> cv_resumeLimit c \<le> 0 then (Err NoBoundOnResuming, [], c, n)
      else
        let old = remembered_thread c n; asked = Resume old (params_of (cv_options c)) (boundedBy (cv_resumeLimit c)) in
        if old \<noteq> [] \<and> pa_resume pa old then (Ok old, [asked], c\<lparr>cv_threadID := old\<rparr>, n)
        else
          let (rs, n) = (if old \<noteq> [] then ([asked], forget_memo pa c n) else ([], n));
              rs = rs @ [Start (params_of (cv_options c)) (boundedBy (cv_callTimeout c))] in
          (case StartThread (pa_start pa) of
             Err e \<Rightarrow> (Err (NotStarted e), rs, c, n)
           | Ok threadID \<Rightarrow> (Ok threadID, rs, c\<lparr>cv_threadID := threadID\<rparr>, remember_thread pa c threadID n)))"

definition Forget_conversation :: "partner \<Rightarrow> Conversation \<Rightarrow> memo \<Rightarrow> Conversation \<times> memo" where
  "Forget_conversation pa c n = (c\<lparr>cv_threadID := []\<rparr>, forget_memo pa c n)"

record turn_request =
  tr_Thread :: string
  tr_Text :: string
  tr_Model :: "string option"

definition StartTurn :: "(turn_request \<Rightarrow> (string, string) result) \<Rightarrow> string \<Rightarrow> string \<Rightarrow> string \<Rightarrow> (string, string) result" where
  "StartTurn ask threadID text' model =
     ask \<lparr>tr_Thread = threadID, tr_Text = text', tr_Model = (if model = [] then None else Some model)\<rparr>"

definition Turn_conversation ::
  "partner \<Rightarrow> (turn_request \<Rightarrow> (string, string) result) \<Rightarrow> string \<Rightarrow> string \<Rightarrow> Conversation \<Rightarrow> memo \<Rightarrow>
   (conversation_error, string) result \<times> request list \<times> Conversation \<times> memo" where
  "Turn_conversation pa ask text' model c n =
     (case Open_conversation pa c n of
        (Err e, rs, c, n) \<Rightarrow> (Err e, rs, c, n)
      | (Ok threadID, rs, c, n) \<Rightarrow>
          ((case StartTurn ask threadID text' model of Err e \<Rightarrow> Err (NotStarted e) | Ok turn \<Rightarrow> Ok turn), rs, c, n))"

end
