(* ===== verification/AgentLaws.thy ===== *)
theory AgentLaws
  imports AgentClient
begin

text \<open>
  The client as a system of callers and one reader (\<open>call\<close>, \<open>read\<close> and \<open>deliver\<close>), in every
  interleaving; what the process is given of the environment; and what the conversation asks for.
\<close>

subsection \<open>The wire\<close>

text \<open>A caller registers, sends, waits, and returns with an answer, with word that the stream is over, or with a
  failure: a write that failed, or its own deadline. The reader looks a channel up and then sends on it,
  in two steps, as the lock is let go in between; the agent may write any line at any time. Close and
  kill close the channel of events, once, whether or not the reader is still at it: what it has buffered
  is read on after the process is gone. A send on a closed channel is a panic, and ends the program.\<close>

datatype call_stage = Sending | Waiting | Answered reply | Told_it_is_over | Failed_call

datatype reader_stage = Idle | Holding int reply | Over

datatype panic = On_reply int | On_events

record wire_system =
  wi_client :: Client
  wi_call :: "int \<Rightarrow> call_stage option"
  wi_reader :: reader_stage
  wi_lines :: "(int \<times> reply) list"
  wi_closed :: bool
  wi_panic :: "panic option"

inductive wire_step :: "wire_system \<Rightarrow> wire_system \<Rightarrow> bool" where
  registers: "register (wi_client w) = (i, c) \<Longrightarrow>
    wire_step w (w\<lparr>wi_client := c, wi_call := (wi_call w)(i \<mapsto> Sending)\<rparr>)"
| sends: "wi_call w i = Some Sending \<Longrightarrow> wire_step w (w\<lparr>wi_call := (wi_call w)(i \<mapsto> Waiting)\<rparr>)"
| gives_up: "wi_call w i = Some st \<Longrightarrow> st = Sending \<or> st = Waiting \<Longrightarrow>
    wire_step w (w\<lparr>wi_client := unregister i (wi_client w), wi_call := (wi_call w)(i \<mapsto> Failed_call)\<rparr>)"
| hears: "wi_reader w = Idle \<Longrightarrow>
    wire_step w (w\<lparr>wi_reader := (if i \<in> cl_waiting (wi_client w) then Holding i a else Idle),
      wi_lines := wi_lines w @ [(i, a)]\<rparr>)"
| notices: "wi_reader w = Idle \<Longrightarrow> ev = None \<or> \<not> wi_closed w \<Longrightarrow>
    wire_step w (w\<lparr>wi_client := pass_on ev (wi_client w)\<rparr>)"
| notices_too_late: "wi_reader w = Idle \<Longrightarrow> (ev :: SessionEvent option) \<noteq> None \<Longrightarrow> wi_closed w \<Longrightarrow>
    wire_step w (w\<lparr>wi_panic := Some On_events\<rparr>)"
| hands_over_too_late: "wi_reader w = Holding i a \<Longrightarrow> ch_closed (cl_channel (wi_client w) i) \<Longrightarrow>
    wire_step w (w\<lparr>wi_panic := Some (On_reply i)\<rparr>)"
| closes: "\<not> wi_closed w \<Longrightarrow> wire_step w (w\<lparr>wi_closed := True\<rparr>)"
| hands_over: "wi_reader w = Holding i a \<Longrightarrow> \<not> ch_closed (cl_channel (wi_client w) i) \<Longrightarrow>
    ch_holds (cl_channel (wi_client w) i) = None \<Longrightarrow>
    wire_step w (w\<lparr>wi_client := put_reply i a (wi_client w), wi_reader := Idle\<rparr>)"
| stops: "wi_reader w = Idle \<Longrightarrow> wire_step w (w\<lparr>wi_client := close_all (wi_client w), wi_reader := Over\<rparr>)"
| takes: "wi_call w i = Some Waiting \<Longrightarrow> ch_holds (cl_channel (wi_client w) i) = Some a \<Longrightarrow>
    wire_step w (w\<lparr>wi_client := unregister i (take_reply i (wi_client w)), wi_call := (wi_call w)(i \<mapsto> Answered a)\<rparr>)"
| is_told: "wi_call w i = Some Waiting \<Longrightarrow> ch_holds (cl_channel (wi_client w) i) = None \<Longrightarrow>
    ch_closed (cl_channel (wi_client w) i) \<Longrightarrow>
    wire_step w (w\<lparr>wi_client := unregister i (wi_client w), wi_call := (wi_call w)(i \<mapsto> Told_it_is_over)\<rparr>)"

definition wire_start :: wire_system where
  "wire_start = \<lparr>wi_client = fresh_client, wi_call = (\<lambda>i. None), wi_reader = Idle, wi_lines = [],
     wi_closed = False, wi_panic = None\<rparr>"

inductive on_the_wire :: "wire_system \<Rightarrow> bool" where
  dialled: "on_the_wire wire_start"
| moves: "on_the_wire w \<Longrightarrow> wi_panic w = None \<Longrightarrow> wire_step w w' \<Longrightarrow> on_the_wire w'"

definition wire_inv :: "wire_system \<Rightarrow> bool" where
  "wire_inv w \<longleftrightarrow> (let c = wi_client w in
     (\<forall>i. wi_call w i \<noteq> None \<longleftrightarrow> 1 \<le> i \<and> i \<le> cl_nextID c) \<and> 0 \<le> cl_nextID c \<and>
     (\<forall>i \<in> cl_waiting c. i \<le> cl_nextID c \<and> (wi_call w i = Some Sending \<or> wi_call w i = Some Waiting)) \<and>
     (\<forall>i. wi_call w i = Some Sending \<or> wi_call w i = Some Waiting \<longrightarrow> i \<in> cl_waiting c \<or> ch_closed (cl_channel c i)) \<and>
     (\<forall>i. ch_closed (cl_channel c i) \<longrightarrow> wi_reader w = Over \<and> i \<notin> cl_waiting c) \<and>
     (\<forall>i a. ch_holds (cl_channel c i) = Some a \<longrightarrow> (i, a) \<in> set (wi_lines w)) \<and>
     (\<forall>i a. wi_reader w = Holding i a \<longrightarrow> (i, a) \<in> set (wi_lines w) \<and> i \<le> cl_nextID c) \<and>
     (\<forall>i a. wi_call w i = Some (Answered a) \<longrightarrow> (i, a) \<in> set (wi_lines w)) \<and>
     (\<forall>i. wi_panic w \<noteq> Some (On_reply i)) \<and> (wi_panic w \<noteq> None \<longrightarrow> wi_closed w))"

lemma register_eq: "register c = (i, c') \<longleftrightarrow> i = cl_nextID c + 1 \<and>
    c' = c\<lparr>cl_nextID := i, cl_waiting := insert i (cl_waiting c),
          cl_channel := (cl_channel c)(i := \<lparr>ch_holds = None, ch_closed = False\<rparr>)\<rparr>"
  by (auto simp: register_def Let_def)

lemmas client_defs = register_eq unregister_def put_reply_def take_reply_def close_all_def fresh_client_def

lemma pass_on_fields [simp]: "cl_nextID (pass_on ev c) = cl_nextID c" "cl_waiting (pass_on ev c) = cl_waiting c"
  "cl_channel (pass_on ev c) = cl_channel c"
  by (auto simp: pass_on_def split: option.split)

lemma wire_inv_start: "wire_inv wire_start"
  by (simp add: wire_inv_def wire_start_def fresh_client_def)

lemma wire_inv_step: "wire_step w w' \<Longrightarrow> wire_inv w \<Longrightarrow> wire_inv w'"
proof (induction rule: wire_step.induct)
  case (registers w i c)
  have new: "wi_call w (cl_nextID (wi_client w) + 1) = None"
  proof (rule ccontr)
    assume "wi_call w (cl_nextID (wi_client w) + 1) \<noteq> None"
    then have "cl_nextID (wi_client w) + 1 \<le> cl_nextID (wi_client w)" using registers(2) unfolding wire_inv_def Let_def by blast
    then show False by simp
  qed
  have r: "i = cl_nextID (wi_client w) + 1" using registers(1) by (simp add: register_eq)
  have held: "wi_reader w \<noteq> Holding i a" for a using registers(2) r by (auto simp: wire_inv_def Let_def)
  show ?case using registers new r held by (auto simp: wire_inv_def Let_def register_eq)
qed (auto simp: wire_inv_def Let_def client_defs split: if_splits)

lemma on_the_wire_inv: "on_the_wire w \<Longrightarrow> wire_inv w"
  by (induction rule: on_the_wire.induct) (auto intro: wire_inv_start wire_inv_step)

text \<open>C15. An answer reaches the call it answers. In every interleaving of callers, reader, agent and a
  shutdown, a call that returns with an answer returns with one the agent wrote for its own number; a
  call that still waits is known to the reader or has been told that the stream is over; the channel of
  an answer the reader holds is not closed, and no send on one ever panics. The only send that can is
  that of an event after Close or kill closed the channel of events.\<close>

theorem an_answer_reaches_its_call:
  assumes "on_the_wire w"
  shows "(\<forall>i a. wi_call w i = Some (Answered a) \<longrightarrow> (i, a) \<in> set (wi_lines w)) \<and>
    (\<forall>i. wi_call w i = Some Waiting \<longrightarrow>
       i \<in> cl_waiting (wi_client w) \<or> ch_closed (cl_channel (wi_client w) i)) \<and>
    (\<forall>i a. wi_reader w = Holding i a \<longrightarrow> \<not> ch_closed (cl_channel (wi_client w) i)) \<and>
    (\<forall>i. wi_panic w \<noteq> Some (On_reply i)) \<and> (wi_panic w = Some On_events \<longrightarrow> wi_closed w)"
  using on_the_wire_inv [OF assms] unfolding wire_inv_def Let_def by force

text \<open>A call that registers after the stream is over is told nothing: it waits until its own deadline, if it has
  one.\<close>

definition waits_for_nothing :: "int \<Rightarrow> wire_system \<Rightarrow> bool" where
  "waits_for_nothing i w \<longleftrightarrow> wi_reader w = Over \<and> wi_call w i = Some Waiting \<and> i \<le> cl_nextID (wi_client w) \<and>
     ch_holds (cl_channel (wi_client w) i) = None \<and> \<not> ch_closed (cl_channel (wi_client w) i)"

lemma a_late_call_waits:
  "wire_step w w' \<Longrightarrow> waits_for_nothing i w \<Longrightarrow> waits_for_nothing i w' \<or> wi_call w' i = Some Failed_call"
  by (induction rule: wire_step.induct) (auto simp: waits_for_nothing_def client_defs split: if_splits)

text \<open>Runs with one call, number 1.\<close>

definition wire_at :: "int \<Rightarrow> int set \<Rightarrow> reply option \<Rightarrow> call_stage option \<Rightarrow> reader_stage \<Rightarrow> (int \<times> reply) list \<Rightarrow> wire_system" where
  "wire_at n W h st rd ls = \<lparr>wi_client = fresh_client\<lparr>cl_nextID := n, cl_waiting := W,
      cl_channel := (\<lambda>i. if i = 1 then \<lparr>ch_holds = h, ch_closed = False\<rparr> else \<lparr>ch_holds = None, ch_closed = False\<rparr>)\<rparr>,
     wi_call = (\<lambda>i. if i = 1 then st else None), wi_reader = rd, wi_lines = ls,
     wi_closed = False, wi_panic = None\<rparr>"

lemma wire_go: "on_the_wire (wire_at n W h st rd ls) \<Longrightarrow> wire_step (wire_at n W h st rd ls) w' \<Longrightarrow> w' = w'' \<Longrightarrow> on_the_wire w''"
  using on_the_wire.moves [of "wire_at n W h st rd ls" w'] by (simp add: wire_at_def)

lemmas wire_ext = wire_at_def client_defs fun_eq_iff

lemma run_dials: "on_the_wire (wire_at 0 {} None None Idle [])"
proof -
  have "wire_start = wire_at 0 {} None None Idle []" by (auto simp: wire_start_def wire_ext)
  then show ?thesis using on_the_wire.dialled by simp
qed

lemma run_registers:
  assumes "on_the_wire (wire_at 0 {} None None rd ls)"
  shows "on_the_wire (wire_at 1 {1} None (Some Sending) rd ls)"
proof -
  let ?c = "wi_client (wire_at 0 {} None None rd ls)"
  have "register ?c = (1, snd (register ?c))" by (simp add: register_def Let_def wire_at_def)
  from wire_step.registers [OF this] show ?thesis
    by (rule wire_go [OF assms]) (auto simp: register_def Let_def wire_at_def fun_eq_iff)
qed

lemma run_sends:
  assumes "on_the_wire (wire_at n W h (Some Sending) rd ls)"
  shows "on_the_wire (wire_at n W h (Some Waiting) rd ls)"
  by (rule wire_go [OF assms wire_step.sends [where i = 1]]) (auto simp: wire_at_def fun_eq_iff)

lemma run_stops:
  assumes "on_the_wire (wire_at n {} h st Idle ls)"
  shows "on_the_wire (wire_at n {} h st Over ls)"
  by (rule wire_go [OF assms wire_step.stops]) (auto simp: wire_at_def close_all_def fun_eq_iff)

lemma run_hears:
  assumes "on_the_wire (wire_at n {1} h st Idle ls)"
  shows "on_the_wire (wire_at n {1} h st (Holding 1 a) (ls @ [(1, a)]))"
  by (rule wire_go [OF assms wire_step.hears [where i = 1 and a = a]]) (auto simp: wire_at_def fresh_client_def)

lemma run_hands_over:
  assumes "on_the_wire (wire_at n W None st (Holding 1 a) ls)"
  shows "on_the_wire (wire_at n W (Some a) st Idle ls)"
  by (rule wire_go [OF assms wire_step.hands_over [where i = 1]]) (auto simp: wire_at_def put_reply_def fresh_client_def fun_eq_iff)

lemma run_gives_up:
  assumes "on_the_wire (wire_at n {1} h (Some Waiting) rd ls)"
  shows "on_the_wire (wire_at n {} h (Some Failed_call) rd ls)"
  by (rule wire_go [OF assms wire_step.gives_up [where i = 1]]) (auto simp: wire_at_def unregister_def fresh_client_def fun_eq_iff)

lemma run_takes:
  assumes "on_the_wire (wire_at n {1} (Some a) (Some Waiting) rd ls)"
  shows "on_the_wire (wire_at n {} None (Some (Answered a)) rd ls)"
  by (rule wire_go [OF assms wire_step.takes [where i = 1]])
    (auto simp: wire_at_def unregister_def take_reply_def fresh_client_def fun_eq_iff)

lemma a_late_call: "\<exists>w. on_the_wire w \<and> waits_for_nothing 1 w"
  using run_sends [OF run_registers [OF run_stops [OF run_dials]]]
  by (intro exI conjI, assumption) (auto simp: wire_at_def waits_for_nothing_def)

text \<open>Two answers to one request, and a caller that gives up at that moment: the reader stands before a full
  channel nobody will empty, and the stream is stuck for good.\<close>

definition jammed :: "int \<Rightarrow> wire_system \<Rightarrow> bool" where
  "jammed i w \<longleftrightarrow> (\<exists>a. wi_reader w = Holding i a) \<and> wi_call w i = Some Failed_call \<and> i \<le> cl_nextID (wi_client w) \<and>
     ch_holds (cl_channel (wi_client w) i) \<noteq> None"

lemma jammed_for_good: "wire_step w w' \<Longrightarrow> jammed i w \<Longrightarrow> jammed i w'"
  by (induction rule: wire_step.induct) (auto simp: jammed_def client_defs split: if_splits)

lemma a_jam: "\<exists>w. on_the_wire w \<and> jammed 1 w"
proof -
  have "on_the_wire (wire_at 1 {} (Some (Result_of ''a'')) (Some Failed_call) (Holding 1 (Result_of ''b''))
      [(1, Result_of ''a''), (1, Result_of ''b'')])"
    using run_gives_up [OF run_hears [where a = "Result_of ''b''", OF run_hands_over [OF run_hears [where a = "Result_of ''a''",
      OF run_sends [OF run_registers [OF run_dials]]]]]] by simp
  then show ?thesis by (intro exI conjI, assumption) (auto simp: wire_at_def jammed_def)
qed

text \<open>A shutdown closes the events, and the reader comes to one more: the program panics.\<close>

lemma a_panic_after_close: "\<exists>w. on_the_wire w \<and> wi_panic w = Some On_events"
proof -
  let ?w = "wire_at 0 {} None None Idle []"
  have closed: "on_the_wire (?w\<lparr>wi_closed := True\<rparr>)"
    by (rule wire_go [OF run_dials wire_step.closes]) (simp_all add: wire_at_def)
  have "wire_step (?w\<lparr>wi_closed := True\<rparr>) (?w\<lparr>wi_closed := True\<rparr>\<lparr>wi_panic := Some On_events\<rparr>)"
    by (rule wire_step.notices_too_late [of _ "Some undefined"]) (simp_all add: wire_at_def)
  then have "on_the_wire (?w\<lparr>wi_closed := True\<rparr>\<lparr>wi_panic := Some On_events\<rparr>)"
    using on_the_wire.moves [OF closed] by (simp add: wire_at_def)
  then show ?thesis by (intro exI conjI, assumption) simp
qed

theorem an_answer_reaches_its_call_witness:
  "\<exists>w. on_the_wire w \<and> wi_call w 1 = Some (Answered (Result_of ''a'')) \<and> (1, Result_of ''a'') \<in> set (wi_lines w)"
proof -
  have w: "on_the_wire (wire_at 1 {} None (Some (Answered (Result_of ''a''))) Idle [(1, Result_of ''a'')])"
    using run_takes [OF run_hands_over [OF run_hears [where a = "Result_of ''a''", OF run_sends [OF run_registers [OF run_dials]]]]]
    by simp
  have "wi_call (wire_at 1 {} None (Some (Answered (Result_of ''a''))) Idle [(1, Result_of ''a'')]) 1 =
      Some (Answered (Result_of ''a''))" by (simp add: wire_at_def)
  with an_answer_reaches_its_call [OF w] w show ?thesis by blast
qed

subsection \<open>The environment\<close>

lemma environment_loop_set:
  "set (environment_loop lookup seen names) =
    {name @ CHR ''='' # v | name v. name \<in> set names - seen \<and> name \<noteq> [] \<and> lookup name = Some v}"
proof (induction names arbitrary: seen)
  case (Cons n ns)
  then show ?case by (cases "n = [] \<or> n \<in> seen"; cases "lookup n") (auto, (metis option.distinct(1) option.inject)+)
qed simp

text \<open>C28. Only what is named is passed on. The environment the agent is started with holds exactly the variables that
  are set and named, in the list of the program or by the operator: a credential of the harness that nobody
  names is not in it, and nothing named is left out.\<close>

theorem only_named_variables_are_passed:
  "set (Environment keep lookup) =
    {name @ CHR ''='' # v | name v. name \<in> set agent_names \<union> set keep \<and> name \<noteq> [] \<and> lookup name = Some v}"
  by (auto simp: Environment_def environment_loop_set)

text \<open>But when nothing that is named is set, the list is empty, and the process is started with everything.\<close>

lemma nothing_named_passes_everything:
  assumes "\<forall>name \<in> set agent_names \<union> set keep. lookup name = None"
  shows "started_with (Environment keep lookup) own = own"
proof -
  have "set (Environment keep lookup) = {}"
    using assms by (auto simp: Environment_def environment_loop_set)
  then show ?thesis by (simp add: started_with_def)
qed

subsection \<open>The conversation\<close>

text \<open>A resumed conversation is no less bounded. Every request that opens or resumes a thread states the
  approval policy and carries the same options, and a thread is resumed only with a bound on how long
  that may take.\<close>

definition opens_with :: "(string \<rightharpoonup> string) \<Rightarrow> request \<Rightarrow> bool" where
  "opens_with p r \<longleftrightarrow> p ''approvalPolicy'' \<noteq> None \<and>
     (case r of Resume _ q d \<Rightarrow> q = p \<and> (case d of As_the_caller \<Rightarrow> False | Within limit \<Rightarrow> 0 < limit) | Start q _ \<Rightarrow> q = p)"

theorem every_opening_is_bounded:
  "list_all (opens_with (params_of (cv_options c))) (fst (snd (Open_conversation pa c n)))"
  by (auto simp: Open_conversation_def opens_with_def params_of_def boundedBy_def remembered_thread_def Let_def
      split: sum.splits if_splits)

lemma TrimSpace_kept: "list_all (\<lambda>c. \<not> is_space c) t \<Longrightarrow> TrimSpace (t @ [char_of (10 :: nat)]) = t"
proof -
  assume no: "list_all (\<lambda>c. \<not> is_space c) t"
  have sp: "is_space (char_of (10 :: nat))" by (simp add: is_space_def)
  show ?thesis using no sp
    by (cases t rule: rev_cases) (auto simp: TrimSpace_def list_all_iff dropWhile_append dropWhile_eq_self_iff hd_append)
qed

text \<open>A restart resumes the conversation. After a conversation was opened afresh with its name written down, a
  new process with the same settings asks for that thread first, within its bound, and if the agent has
  it, goes on in it.\<close>

theorem a_restart_resumes_the_conversation:
  assumes "Open_conversation pa c None = (Ok t, rs, c', n)"
    and "cv_threadID c = []" "cv_rememberIn c \<noteq> []" "pa_fails pa = None" "list_all (\<lambda>x. \<not> is_space x) t"
    and "pa_resume pa' t"
  shows "Open_conversation pa' (c'\<lparr>cv_threadID := []\<rparr>) n =
    (Ok t, [Resume t (params_of (cv_options c)) (Within (cv_resumeLimit c))], c', n)"
proof -
  have limit: "0 < cv_resumeLimit c" using assms(1-3) by (auto simp: Open_conversation_def split: if_splits)
  have r: "StartThread (pa_start pa) = Ok t" "c' = c\<lparr>cv_threadID := t\<rparr>" "n = Some (t @ [char_of (10 :: nat)])"
    using assms(1-4) limit by (auto simp: Open_conversation_def remembered_thread_def remember_thread_def Let_def split: sum.splits)
  have "t \<noteq> []" using r(1) by (auto simp: StartThread_def split: sum.splits if_splits)
  then show ?thesis
    using r(2,3) limit assms(3,6) TrimSpace_kept [OF assms(5)]
    by (simp add: Open_conversation_def remembered_thread_def boundedBy_def Let_def)
qed

theorem a_restart_resumes_the_conversation_witness:
  "\<exists>pa c. snd (snd (snd (Open_conversation pa c None))) = Some (''t7'' @ [char_of (10 :: nat)]) \<and>
     fst (Open_conversation pa (c\<lparr>cv_threadID := []\<rparr>) (Some (''t7'' @ [char_of (10 :: nat)]))) = Ok ''t7''"
proof -
  let ?c = "\<lparr>cv_options = \<lparr>to_Model = [], to_Sandbox = ''read-only'', to_Dir = [], to_ApprovalPolicy = []\<rparr>,
      cv_rememberIn = ''thread'', cv_callTimeout = 5, cv_resumeLimit = 3, cv_threadID = []\<rparr>"
  let ?pa = "\<lparr>pa_resume = (\<lambda>t. True), pa_start = Ok ''t7'', pa_fails = None, pa_removes = True\<rparr>"
  have o: "Open_conversation ?pa ?c None = (Ok ''t7'', [Start (params_of (cv_options ?c)) (Within 5)], ?c\<lparr>cv_threadID := ''t7''\<rparr>,
      Some (''t7'' @ [char_of (10 :: nat)]))"
    by (simp add: Open_conversation_def remembered_thread_def remember_thread_def StartThread_def boundedBy_def)
  have "Open_conversation ?pa (?c\<lparr>cv_threadID := ''t7''\<rparr>\<lparr>cv_threadID := []\<rparr>) (Some (''t7'' @ [char_of (10 :: nat)])) =
      (Ok ''t7'', [Resume ''t7'' (params_of (cv_options ?c)) (Within (cv_resumeLimit ?c))], ?c\<lparr>cv_threadID := ''t7''\<rparr>,
       Some (''t7'' @ [char_of (10 :: nat)]))"
    by (rule a_restart_resumes_the_conversation [OF o]) (simp_all add: is_space_def)
  then show ?thesis using o by (intro exI [of _ ?pa] exI [of _ ?c]) simp
qed

text \<open>A start with a bound of its own is not cut short by a shutdown of the caller.\<close>

lemma a_bound_is_its_own: "0 < limit \<Longrightarrow> boundedBy limit = Within limit"
  by (simp add: boundedBy_def)

text \<open>A turn without a name is taken as it is.\<close>

lemma a_nameless_turn_is_taken: "StartTurn (\<lambda>_. Ok []) thread text' model = Ok []"
  by (simp add: StartTurn_def)

text \<open>An answer that was refused says so, and what is kept of an answer is bounded.\<close>

lemma answer_bounded: "length (answerOf e) \<le> answerKept + 9"
  by (auto simp: answerOf_def Let_def split: option.splits)

lemma a_refusal_is_marked: "it_Result e = Some (True, content) \<Longrightarrow> answerOf e \<noteq> [] \<Longrightarrow> HasPrefix (answerOf e) ''refused: ''"
  by (auto simp: answerOf_def Let_def HasPrefix_def split: if_splits)

end
