(* ===== verification/Reconcile.thy ===== *)
theory Reconcile
  imports Market
begin

text \<open>
  What a dead process left unknown (\<open>golang/internal/reconcile/reconcile.go\<close>): every order the record says
  it does not know about is looked up by its name in the broker's recent orders, and the answer is
  written down. The record and the broker answer through arguments.
\<close>

record InFlightOrder =
  fl_CallRef :: string
  fl_TurnRef :: string
  fl_Name :: string
  fl_StartedAt :: time

definition Reads :: int where "Reads = 100"

text \<open>\<open>fmt\<close>'s verb for no decimals, ties to even.\<close>

definition fmt0 :: "f64 \<Rightarrow> string" where
  "fmt0 x = (if val x < 0 then [CHR ''-''] else []) @ dec_nat (nat (rne \<bar>val x\<bar>))"

definition never_landed :: string where
  "never_landed =
     ''reconciled after a restart: the broker has no order under this name, so the request did not reach it''"

fun joined :: "string \<Rightarrow> string list \<Rightarrow> string" where
  "joined sep [] = []"
| "joined sep [x] = x"
| "joined sep (x # y # xs) = x @ sep @ joined sep (y # xs)"

definition landed :: "Order \<Rightarrow> string" where
  "landed o' = ''reconciled after a restart: the broker has it as '' @ o_ID o' @ '', status '' @ o_Status o' @
     '', filled '' @ fmt0 (o_FilledQuantity o') @ '' of '' @ fmt0 (o_Quantity o') @ '' at '' @ fmt2 (o_FilledPrice o') @
     '' ('' @ joined '', '' (map (\<lambda>l. o_Side l @ '' '' @ o_Symbol l) (o_Legs o')) @ '')''"

definition at_broker :: "Order list \<Rightarrow> string \<rightharpoonup> Order" where
  "at_broker orders = fold (\<lambda>o' m. if o_ClientID o' \<noteq> [] then m(o_ClientID o' \<mapsto> o') else m) orders Map.empty"

definition verdict :: "(string \<rightharpoonup> Order) \<Rightarrow> string \<Rightarrow> string" where
  "verdict known name = (case known name of None \<Rightarrow> never_landed | Some o' \<Rightarrow> landed o')"

text \<open>What was written down, how many were settled, and the error that stopped it, if one did.\<close>

fun ask_loop ::
  "(string \<Rightarrow> string \<Rightarrow> string option) \<Rightarrow> (string \<rightharpoonup> Order) \<Rightarrow> InFlightOrder list \<Rightarrow>
   (string \<times> string) list \<times> string option" where
  "ask_loop resolve known [] = ([], None)"
| "ask_loop resolve known (one # unknown) =
     (if fl_Name one = [] then ask_loop resolve known unknown
      else let answer = verdict known (fl_Name one) in
        (case resolve (fl_CallRef one) answer of
           Some e \<Rightarrow> ([], Some e)
         | None \<Rightarrow> (let (written, e) = ask_loop resolve known unknown in ((fl_CallRef one, answer) # written, e))))"

definition Ask_broker ::
  "(string, InFlightOrder list) result \<Rightarrow> (int \<Rightarrow> (string, Order list) result) \<Rightarrow>
   (string \<Rightarrow> string \<Rightarrow> string option) \<Rightarrow> (string \<times> string) list \<times> int \<times> string option" where
  "Ask_broker left_unknown orders resolve =
     (case left_unknown of
        Err e \<Rightarrow> ([], 0, Some e)
      | Ok unknown \<Rightarrow>
          if unknown = [] then ([], 0, None)
          else (case orders Reads of
                  Err e \<Rightarrow> ([], 0, Some e)
                | Ok os \<Rightarrow> (let (written, e) = ask_loop resolve (at_broker os) unknown
                           in (written, int (length written), e))))"

subsection \<open>What is written down\<close>

lemma at_broker_append: "at_broker (os @ [o']) = (if o_ClientID o' \<noteq> [] then (at_broker os)(o_ClientID o' \<mapsto> o') else at_broker os)"
  by (simp add: at_broker_def)

lemma at_broker_None: "name \<noteq> [] \<Longrightarrow> at_broker os name = None \<longleftrightarrow> (\<forall>o' \<in> set os. o_ClientID o' \<noteq> name)"
  by (induction os rule: rev_induct) (auto simp: at_broker_append, simp add: at_broker_def)

lemma at_broker_Some: "at_broker os name = Some o' \<Longrightarrow> o' \<in> set os \<and> o_ClientID o' = name"
  by (induction os rule: rev_induct) (auto simp: at_broker_append split: if_splits, simp add: at_broker_def)

lemma landed_ne: "landed o' \<noteq> never_landed"
  by (simp add: landed_def never_landed_def)

lemma ask_loop_written:
  "ask_loop resolve known unknown = (written, e) \<Longrightarrow> (ref, answer) \<in> set written \<Longrightarrow>
    \<exists>one \<in> set unknown. fl_CallRef one = ref \<and> fl_Name one \<noteq> [] \<and> answer = verdict known (fl_Name one) \<and>
      resolve ref answer = None"
proof (induction unknown arbitrary: written)
  case (Cons one unknown)
  show ?case
  proof (cases "fl_Name one = []")
    case True
    with Cons show ?thesis by auto
  next
    case False
    with Cons.prems Cons.IH show ?thesis by (auto simp: Let_def split: option.splits prod.splits)
  qed
qed simp

text \<open>With every write taken, every order with a name is settled.\<close>

lemma ask_loop_all: "ask_loop (\<lambda>_ _. None) known unknown = (written, e) \<Longrightarrow>
    e = None \<and> map fst written = map fl_CallRef (filter (\<lambda>one. fl_Name one \<noteq> []) unknown)"
  by (induction unknown arbitrary: written) (auto simp: Let_def split: prod.splits if_splits)

text \<open>C25. What is reconciled is true while the listing is not full. If the broker's listing is its orders newest
  first, cut at the number asked for, and it has no more than that, then every call that is resolved is
  one that was left unknown under a name, it is said to have never landed exactly if the broker has no
  order under that name, and otherwise it is described by an order the broker has under it.\<close>

theorem what_is_reconciled_is_true:
  assumes "Ask_broker (Ok unknown) (\<lambda>n. Ok (take (nat n) at_the_broker)) resolve = (written, settled, e)"
    and "length at_the_broker \<le> nat Reads" "(ref, answer) \<in> set written"
  shows "\<exists>one \<in> set unknown. fl_CallRef one = ref \<and> fl_Name one \<noteq> [] \<and>
    (answer = never_landed \<longleftrightarrow> (\<forall>o' \<in> set at_the_broker. o_ClientID o' \<noteq> fl_Name one)) \<and>
    (answer \<noteq> never_landed \<longrightarrow> (\<exists>o' \<in> set at_the_broker. o_ClientID o' = fl_Name one \<and> answer = landed o'))"
proof -
  obtain one where one: "one \<in> set unknown" "fl_CallRef one = ref" "fl_Name one \<noteq> []"
    "answer = verdict (at_broker at_the_broker) (fl_Name one)"
    using assms ask_loop_written [of resolve "at_broker at_the_broker" unknown written e ref answer]
    by (auto simp: Ask_broker_def split: if_splits prod.splits)
  show ?thesis
  proof (intro bexI [OF _ one(1)] conjI)
    show "answer = never_landed \<longleftrightarrow> (\<forall>o' \<in> set at_the_broker. o_ClientID o' \<noteq> fl_Name one)"
      using one(4) at_broker_None [OF one(3), of at_the_broker] landed_ne
      by (cases "at_broker at_the_broker (fl_Name one)") (auto simp: verdict_def)
    show "answer \<noteq> never_landed \<longrightarrow> (\<exists>o' \<in> set at_the_broker. o_ClientID o' = fl_Name one \<and> answer = landed o')"
      using one(4) at_broker_Some [of at_the_broker "fl_Name one"]
      by (cases "at_broker at_the_broker (fl_Name one)") (auto simp: verdict_def)
  qed (use one in simp_all)
qed

text \<open>Past a full listing it is not: an order the broker has, with a hundred newer ones, is written down as one
  that never reached it.\<close>

lemma an_old_order_never_landed:
  assumes "length newer = 100" "\<forall>o' \<in> set newer. o_ClientID o' \<noteq> fl_Name one" "fl_Name one \<noteq> []"
    and "o_ClientID ours = fl_Name one" "resolve (fl_CallRef one) never_landed = None"
  shows "Ask_broker (Ok [one]) (\<lambda>n. Ok (take (nat n) (newer @ [ours]))) resolve = ([(fl_CallRef one, never_landed)], 1, None)"
  using assms at_broker_None [OF assms(3), of newer] by (simp add: Ask_broker_def Reads_def verdict_def)

definition sample_order :: "string \<Rightarrow> Order" where
  "sample_order name = \<lparr>o_ID = ''b1'', o_ClientID = name, o_Symbol = [], o_Side = [], o_Type = ''limit'', o_Class = ''mleg'',
     o_Status = ''filled'', o_PositionIntent = [], o_Quantity = 1, o_Ratio = 1, o_Notional = 0, o_FilledQuantity = 1,
     o_LimitPrice = 1, o_FilledPrice = 1, o_SubmittedAt = None, o_FilledAt = None, o_CanceledAt = None, o_Legs = []\<rparr>"

definition sample_unknown :: "InFlightOrder list" where
  "sample_unknown = [\<lparr>fl_CallRef = ''c1'', fl_TurnRef = ''t1'', fl_Name = ''n1'', fl_StartedAt = 0\<rparr>,
     \<lparr>fl_CallRef = ''c2'', fl_TurnRef = ''t1'', fl_Name = ''n2'', fl_StartedAt = 0\<rparr>]"

theorem what_is_reconciled_is_true_witness:
  "\<exists>written settled e. Ask_broker (Ok sample_unknown) (\<lambda>n. Ok (take (nat n) [sample_order ''n1''])) (\<lambda>_ _. None) =
      (written, settled, e) \<and> (''c2'', never_landed) \<in> set written"
proof -
  let ?A = "Ask_broker (Ok sample_unknown) (\<lambda>n. Ok (take (nat n) [sample_order ''n1''])) (\<lambda>_ _. None)"
  obtain answer settled e where A: "?A = ([(''c1'', landed (sample_order ''n1'')), (''c2'', answer)], settled, e)"
    by (simp add: Ask_broker_def Reads_def sample_unknown_def verdict_def at_broker_def sample_order_def)
  have "\<exists>one \<in> set sample_unknown. fl_CallRef one = ''c2'' \<and> fl_Name one \<noteq> [] \<and>
      (answer = never_landed \<longleftrightarrow> (\<forall>o' \<in> set [sample_order ''n1'']. o_ClientID o' \<noteq> fl_Name one)) \<and>
      (answer \<noteq> never_landed \<longrightarrow> (\<exists>o' \<in> set [sample_order ''n1'']. o_ClientID o' = fl_Name one \<and> answer = landed o'))"
    by (rule what_is_reconciled_is_true [OF A]) (simp_all add: Reads_def)
  then have "answer = never_landed" by (auto simp: sample_unknown_def sample_order_def)
  with A show ?thesis by auto
qed

end
