(* ===== verification/Volatility.thy ===== *)
theory Volatility
  imports Market
begin

text \<open>
  The history of what options cost (\<open>golang/internal/volatility/volatility.go\<close>): one reading per underlying
  while the market is open, of the put nearest the money in the nearest expiration, and the place of
  the latest reading in the series. The market and the store answer through arguments; NaN and
  infinities are not among the numbers.
\<close>

subsection \<open>Recording\<close>

record Sample =
  sm_Underlying :: string
  sm_Contract :: string
  sm_RecordedAt :: time
  sm_Expiration :: date
  sm_Strike :: f64
  sm_OptionType :: string
  sm_ImpliedVolatility :: f64
  sm_Delta :: "f64 option"
  sm_Bid :: f64
  sm_Ask :: f64
  sm_UnderlyingPrice :: f64

definition strikeSpan :: f64 where "strikeSpan = f64_of_int 3"
definition horizon :: duration where "horizon = 21 * 24 * hour"
definition contractsRead :: int where "contractsRead = 40"

datatype vol_error = MarketError string | NothingListed string | StoreError string

record vol_market =
  vm_open :: "(string, bool) result"
  vm_lastTrades :: "string list \<Rightarrow> (string, string \<rightharpoonup> f64) result"
  vm_contractsAround :: "string \<Rightarrow> f64 \<Rightarrow> f64 \<Rightarrow> time \<Rightarrow> int \<Rightarrow> (string, Contract list) result"
  vm_quotes :: "string list \<Rightarrow> (string, string \<rightharpoonup> Quote) result"
  vm_append :: "Sample \<Rightarrow> string option"

text \<open>Whether a contract takes the place of the one chosen so far.\<close>

definition nearer :: "f64 \<Rightarrow> Contract \<Rightarrow> Contract \<Rightarrow> bool" where
  "nearer price c chosen \<longleftrightarrow>
     days_of (c_Expiration c) < days_of (c_Expiration chosen) \<or>
     days_of (c_Expiration c) = days_of (c_Expiration chosen) \<and>
       \<bar>c_Strike c - price\<bar> < \<bar>c_Strike chosen - price\<bar>"

fun choose_put :: "f64 \<Rightarrow> Contract option \<Rightarrow> Contract list \<Rightarrow> Contract option" where
  "choose_put price chosen [] = chosen"
| "choose_put price chosen (c # cs) =
     choose_put price
       (if c_Type c \<noteq> ''put'' then chosen
        else (case chosen of None \<Rightarrow> Some c | Some best \<Rightarrow> if nearer price c best then Some c else chosen)) cs"

definition atTheMoney :: "Contract list \<Rightarrow> f64 \<Rightarrow> Contract list" where
  "atTheMoney listed price = (case choose_put price None listed of None \<Rightarrow> [] | Some c \<Rightarrow> [c])"

fun append_samples ::
  "vol_market \<Rightarrow> time \<Rightarrow> string \<Rightarrow> f64 \<Rightarrow> (string \<rightharpoonup> Quote) \<Rightarrow> Contract list \<Rightarrow> Sample list \<times> vol_error option" where
  "append_samples m now underlying price quotes [] = ([], None)"
| "append_samples m now underlying price quotes (c # cs) =
     (case quotes (c_Symbol c) of
        None \<Rightarrow> append_samples m now underlying price quotes cs
      | Some q \<Rightarrow>
          (case q_ImpliedVolatility q of
             None \<Rightarrow> append_samples m now underlying price quotes cs
           | Some iv \<Rightarrow>
               let s = \<lparr>sm_Underlying = underlying, sm_Contract = c_Symbol c, sm_RecordedAt = now,
                    sm_Expiration = c_Expiration c, sm_Strike = c_Strike c, sm_OptionType = c_Type c,
                    sm_ImpliedVolatility = iv, sm_Delta = q_Delta q, sm_Bid = q_Bid q, sm_Ask = q_Ask q,
                    sm_UnderlyingPrice = price\<rparr> in
               (case vm_append m s of
                  Some e \<Rightarrow> ([], Some (StoreError e))
                | None \<Rightarrow> (let (ss, e) = append_samples m now underlying price quotes cs in (s # ss, e)))))"

definition record_one :: "vol_market \<Rightarrow> time \<Rightarrow> string \<Rightarrow> f64 \<Rightarrow> Sample list \<times> vol_error option" where
  "record_one m now underlying price =
     (case vm_contractsAround m underlying price strikeSpan (now + horizon) contractsRead of
        Err e \<Rightarrow> ([], Some (MarketError e))
      | Ok listed \<Rightarrow>
          let chosen = atTheMoney listed price in
          if chosen = [] then ([], Some (NothingListed underlying))
          else (case vm_quotes m (map c_Symbol chosen) of
                  Err e \<Rightarrow> ([], Some (MarketError e))
                | Ok quotes \<Rightarrow> append_samples m now underlying price quotes chosen))"

text \<open>What was written, in the order of the underlyings; an error of one does not stop the next.\<close>

definition readOnce :: "vol_market \<Rightarrow> time \<Rightarrow> string list \<Rightarrow> Sample list" where
  "readOnce m now underlyings =
     (case vm_open m of
        Err e \<Rightarrow> []
      | Ok is_open \<Rightarrow>
          if \<not> is_open then []
          else (case vm_lastTrades m underlyings of
                  Err e \<Rightarrow> []
                | Ok prices \<Rightarrow>
                    concat (map (\<lambda>u. case prices u of None \<Rightarrow> [] | Some price \<Rightarrow> fst (record_one m now u price)) underlyings)))"

subsection \<open>Reading the series\<close>

record Reading =
  rd_At :: time
  rd_ImpliedVolatility :: f64

record Summary =
  su_Underlying :: string
  su_Since :: time
  su_Samples :: int
  su_Latest :: f64
  su_LatestAt :: "time option"
  su_Lowest :: f64
  su_Median :: f64
  su_Highest :: f64
  su_Rank :: f64

definition median_of :: "f64 list \<Rightarrow> f64" where
  "median_of sorted' =
     (let middle = length sorted' div 2 in
      if odd (length sorted') then sorted' ! middle else (sorted' ! (middle - 1) + sorted' ! middle) / f64_of_int 2)"

definition rank_of :: "f64 \<Rightarrow> f64 list \<Rightarrow> f64" where
  "rank_of latest sorted' =
     (let below = length (filter (\<lambda>v. v < latest) sorted'); equal' = length (filter (\<lambda>v. v = latest) sorted') in
      if equal' = length sorted' then f64_of_int 50
      else (f64_of_int (int below) + f64_of_int (int equal') / f64_of_int 2) / f64_of_int (int (length sorted')) * f64_of_int 100)"

definition latest_of :: "Reading \<Rightarrow> Reading list \<Rightarrow> Reading" where
  "latest_of r rs = foldl (\<lambda>l r. if rd_At l < rd_At r then r else l) r rs"

definition Summarise :: "string \<Rightarrow> time \<Rightarrow> Reading list \<Rightarrow> Summary" where
  "Summarise underlying since readings =
     (case readings of
        [] \<Rightarrow> \<lparr>su_Underlying = underlying, su_Since = since, su_Samples = 0, su_Latest = 0, su_LatestAt = None,
              su_Lowest = 0, su_Median = 0, su_Highest = 0, su_Rank = 0\<rparr>
      | r # rs \<Rightarrow>
          let sorted' = sort (map rd_ImpliedVolatility readings); l = latest_of r readings in
          \<lparr>su_Underlying = underlying, su_Since = since, su_Samples = int (length readings),
           su_Latest = rd_ImpliedVolatility l, su_LatestAt = Some (rd_At l), su_Lowest = hd sorted',
           su_Median = median_of sorted', su_Highest = last sorted', su_Rank = rank_of (rd_ImpliedVolatility l) sorted'\<rparr>)"

subsection \<open>What holds of it\<close>

lemma latest_of_mem: "latest_of r rs \<in> insert r (set rs)"
  unfolding latest_of_def by (induction rs arbitrary: r) auto

lemma latest_of_Cons: "latest_of r (s # rs) = latest_of (if rd_At r < rd_At s then s else r) rs"
  by (simp add: latest_of_def)

lemma latest_of_max: "rd_At r \<le> rd_At (latest_of r rs) \<and> (\<forall>x \<in> set rs. rd_At x \<le> rd_At (latest_of r rs))"
proof (induction rs arbitrary: r)
  case (Cons s rs)
  from Cons [of s] Cons [of r] show ?case by (auto simp: latest_of_Cons)
qed (simp add: latest_of_def)

lemma counts_le: "length (filter (\<lambda>v. v < x) vs) + length (filter (\<lambda>v. v = x) vs) \<le> length (vs :: f64 list)"
  by (induction vs) auto

text \<open>A rank is a place between nought and a hundred; a series that never moved is in the middle.\<close>

lemma rank_within:
  assumes "vs \<noteq> []" "length vs \<le> 2 ^ 52"
  shows "0 \<le> val (rank_of x vs) \<and> val (rank_of x vs) \<le> 100"
proof (cases "length (filter (\<lambda>v. v = x) vs) = length vs")
  case True
  then show ?thesis by (simp add: rank_of_def val_lit)
next
  case False
  define b e n where "b = length (filter (\<lambda>v. v < x) vs)" and "e = length (filter (\<lambda>v. v = x) vs)" and "n = length vs"
  have n: "0 < n" "b + e \<le> n" "n \<le> 2 ^ 52" using assms counts_le [of x vs] by (auto simp: b_def e_def n_def)
  have exact: "rnd (rat_of_nat k) = rat_of_nat k" if "k \<le> n" for k
    using rnd_of_int [of "int k"] that n(3) by simp
  define h where "h = rnd (rat_of_nat e / 2)"
  have h: "0 \<le> h" "h \<le> rat_of_nat e"
    using rnd_mono [of "rat_of_nat e / 2" "rat_of_nat e"] exact [of e] n(2) by (auto simp: h_def)
  define s where "s = rnd (rat_of_nat b + h)"
  have s: "0 \<le> s" "s \<le> rat_of_nat n"
    using rnd_mono [of "rat_of_nat b + h" "rat_of_nat (b + e)"] exact [of "b + e"] h n(2) by (auto simp: s_def)
  define q where "q = rnd (s / rat_of_nat n)"
  have q: "0 \<le> q" "q \<le> 1"
    using rnd_mono [of "s / rat_of_nat n" 1] s n(1) by (auto simp: q_def)
  have r: "val (rank_of x vs) = rnd (q * 100)"
    using False exact [of b] exact [of e] exact [of n] n(2)
    by (simp add: rank_of_def Let_def val_mult val_divide val_add val_lit q_def s_def h_def b_def e_def n_def)
  have "rnd (q * 100) \<le> rnd 100" using q by (intro rnd_mono) simp
  then show ?thesis unfolding r using q by simp
qed

lemma rank_unmoved: "list_all (\<lambda>v. v = x) vs \<Longrightarrow> rank_of x vs = f64_of_int 50"
  by (simp add: rank_of_def list_all_iff)

text \<open>The latest reading is one of the series, none is later, and it stands between the lowest and the highest.\<close>

lemma Summarise_latest:
  assumes "readings \<noteq> []"
  shows "\<exists>r \<in> set readings. su_Latest (Summarise u since readings) = rd_ImpliedVolatility r \<and>
    su_LatestAt (Summarise u since readings) = Some (rd_At r) \<and> (\<forall>x \<in> set readings. rd_At x \<le> rd_At r) \<and>
    su_Lowest (Summarise u since readings) \<le> rd_ImpliedVolatility r \<and>
    rd_ImpliedVolatility r \<le> su_Highest (Summarise u since readings)"
proof -
  obtain r rs where rs: "readings = r # rs" using assms by (cases readings) auto
  let ?l = "latest_of r readings" and ?vs = "sort (map rd_ImpliedVolatility readings)"
  have l: "?l \<in> set readings" "\<forall>x \<in> set readings. rd_At x \<le> rd_At ?l"
    using latest_of_mem [of r readings] latest_of_max [of r readings] rs by auto
  have m: "rd_ImpliedVolatility ?l \<in> set ?vs" unfolding set_sort using l(1) by (simp del: set_sort)
  then have ne: "?vs \<noteq> []" by (metis list.set(1) empty_iff)
  have "hd ?vs \<le> v \<and> v \<le> last ?vs" if "v \<in> set ?vs" for v
  proof -
    obtain i where i: "i < length ?vs" "v = ?vs ! i" using \<open>v \<in> set ?vs\<close> by (metis in_set_conv_nth)
    have "?vs ! 0 \<le> ?vs ! i" "?vs ! i \<le> ?vs ! (length ?vs - 1)"
      using i(1) by (auto intro!: sorted_nth_mono)
    then show ?thesis unfolding hd_conv_nth [OF ne] last_conv_nth [OF ne] i(2) by (rule conjI)
  qed
  from this [OF m] l show ?thesis
    by (intro bexI [OF _ l(1)]) (simp add: Summarise_def rs Let_def)
qed

text \<open>The contract that is read is a put, of the nearest expiration that has one, and no put of that expiration is
  nearer the money.\<close>

lemma choose_put_best:
  assumes "choose_put price chosen cs = Some best"
  shows "(Some best = chosen \<or> best \<in> set cs \<and> c_Type best = ''put'') \<and>
    (\<forall>c. (Some c = chosen \<or> c \<in> set cs \<and> c_Type c = ''put'') \<longrightarrow> \<not> nearer price c best)"
  using assms
proof (induction cs arbitrary: chosen)
  case Nil
  then show ?case by (auto simp: nearer_def)
next
  case (Cons c cs)
  let ?next = "if c_Type c \<noteq> ''put'' then chosen
    else (case chosen of None \<Rightarrow> Some c | Some best \<Rightarrow> if nearer price c best then Some c else chosen)"
  have IH: "(Some best = ?next \<or> best \<in> set cs \<and> c_Type best = ''put'') \<and>
      (\<forall>d. (Some d = ?next \<or> d \<in> set cs \<and> c_Type d = ''put'') \<longrightarrow> \<not> nearer price d best)"
    using Cons by simp
  have trans: "nearer price d e \<Longrightarrow> \<not> nearer price f e \<Longrightarrow> nearer price d f" for d e f
    by (auto simp: nearer_def)
  show ?case
  proof (cases "c_Type c = ''put''")
    case False
    with IH show ?thesis by auto
  next
    case put: True
    show ?thesis
    proof (cases chosen)
      case None
      with IH put show ?thesis by auto
    next
      case (Some b0)
      show ?thesis
      proof (cases "nearer price c b0")
        case True
        with IH put Some have best: "best = c \<or> best \<in> set cs \<and> c_Type best = ''put''"
          and none: "\<not> nearer price c best" "\<forall>d \<in> set cs. c_Type d = ''put'' \<longrightarrow> \<not> nearer price d best" by auto
        have "\<not> nearer price b0 best"
        proof
          assume "nearer price b0 best"
          then have "nearer price c best" using True by (auto simp: nearer_def)
          with none(1) show False by simp
        qed
        with best none put Some show ?thesis by auto
      next
        case no: False
        with IH put Some have best: "best = b0 \<or> best \<in> set cs \<and> c_Type best = ''put''"
          and none: "\<not> nearer price b0 best" "\<forall>d \<in> set cs. c_Type d = ''put'' \<longrightarrow> \<not> nearer price d best" by auto
        have "\<not> nearer price c best"
        proof
          assume "nearer price c best"
          from trans [OF this none(1)] no show False by simp
        qed
        with best none put Some show ?thesis by auto
      qed
    qed
  qed
qed

lemma atTheMoney_best: "atTheMoney listed price = [best] \<Longrightarrow> best \<in> set listed \<and> c_Type best = ''put'' \<and>
    (\<forall>c \<in> set listed. c_Type c = ''put'' \<longrightarrow> \<not> nearer price c best)"
  using choose_put_best [of price None listed best] by (auto simp: atTheMoney_def split: option.splits)

end
