(* ===== verification/WebPage.thy ===== *)
theory WebPage
  imports Skills
begin

text \<open>
  The page a reader opens (\<open>golang/internal/api\<close>): the key it asks for (\<open>key.go\<close>), the broker's answer kept
  for a moment (\<open>recent.go\<close>), and which file a path is answered with (\<open>api.go\<close>). A request is what the
  code reads of it; the encoding of paths and queries, the cookies on the wire and the routes that only
  pass an answer on are the environment.
\<close>

subsection \<open>The key\<close>

record page_request =
  pg_Path :: string
  pg_EscapedPath :: string
  pg_KeyQuery :: string
  pg_OtherQuery :: string
  pg_KeyHeader :: string
  pg_KeyCookie :: "string option"
  pg_TLS :: bool
  pg_ForwardedProto :: string

datatype page_answer = Passed | Refused | Redirected string bool

definition same :: "string \<Rightarrow> string \<Rightarrow> bool" where
  "same given key \<longleftrightarrow> key \<noteq> [] \<and> given = key"

definition withoutKey :: "page_request \<Rightarrow> string" where
  "withoutKey r =
     (let local = CHR ''/'' # dropWhile (\<lambda>c. c = CHR ''/'') (pg_EscapedPath r) in
      if pg_OtherQuery r \<noteq> [] then local @ CHR ''?'' # pg_OtherQuery r else local)"

definition encrypted :: "page_request \<Rightarrow> bool" where
  "encrypted r \<longleftrightarrow> pg_TLS r \<or> EqualFold (pg_ForwardedProto r) ''https''"

text \<open>A redirect sets the cookie, marked for encrypted connections only if this is one.\<close>

definition guarded :: "string \<Rightarrow> page_request \<Rightarrow> page_answer" where
  "guarded key r =
     (if pg_Path r = ''/healthz'' then Passed
      else if pg_KeyQuery r \<noteq> [] then
        (if \<not> same (pg_KeyQuery r) key then Refused else Redirected (withoutKey r) (encrypted r))
      else if same (TrimSpace (pg_KeyHeader r)) key then Passed
      else (case pg_KeyCookie r of
              Some given \<Rightarrow> if same given key then Passed else Refused
            | None \<Rightarrow> Refused))"

datatype page_error = KeyAndPublic | NoKey

definition gate :: "bool \<Rightarrow> string \<Rightarrow> page_request \<Rightarrow> page_answer" where
  "gate public key r = (if public then Passed else guarded (TrimSpace key) r)"

definition Handler :: "bool \<Rightarrow> string \<Rightarrow> (page_error, page_request \<Rightarrow> page_answer) result" where
  "Handler public key =
     (if public \<and> TrimSpace key \<noteq> [] then Err KeyAndPublic
      else if \<not> public \<and> TrimSpace key = [] then Err NoKey
      else Ok (gate public key))"

text \<open>C35. The page asks for its key, and never sends a reader elsewhere. A page that is not public answers past its
  gate only for the health check or for a request that carries the key, which is not empty, in its header
  or its cookie; it redirects only a request that carries the key in its address, and only to an address
  that begins with exactly one slash, that is, on this host and without the key.\<close>

theorem the_page_asks_for_its_key:
  assumes "Handler False key = Ok answer"
  shows "TrimSpace key \<noteq> [] \<and>
    (answer r = Passed \<longleftrightarrow> pg_Path r = ''/healthz'' \<or>
      pg_KeyQuery r = [] \<and> (TrimSpace (pg_KeyHeader r) = TrimSpace key \<or> pg_KeyCookie r = Some (TrimSpace key))) \<and>
    (\<forall>address secure. answer r = Redirected address secure \<longrightarrow>
      pg_KeyQuery r = TrimSpace key \<and> secure = encrypted r \<and>
      (\<exists>rest. address = CHR ''/'' # rest \<and> (rest = [] \<or> hd rest \<noteq> CHR ''/'')))"
proof -
  have key: "TrimSpace key \<noteq> []" and a: "answer = gate False key" using assms by (auto simp: Handler_def split: if_splits)
  have local: "\<exists>rest. withoutKey r = CHR ''/'' # rest \<and> (rest = [] \<or> hd rest \<noteq> CHR ''/'')"
  proof -
    let ?d = "dropWhile (\<lambda>c. c = CHR ''/'') (pg_EscapedPath r)"
    let ?q = "if pg_OtherQuery r \<noteq> [] then CHR ''?'' # pg_OtherQuery r else []"
    have d: "?d = [] \<or> hd ?d \<noteq> CHR ''/''"
      using hd_dropWhile [of "\<lambda>c. c = CHR ''/''" "pg_EscapedPath r"] by blast
    have q: "?q = [] \<or> hd ?q \<noteq> CHR ''/''" by simp
    have "?d @ ?q = [] \<or> hd (?d @ ?q) \<noteq> CHR ''/''"
    proof (cases "?d = []")
      case True
      then show ?thesis using q by (simp only: append_Nil simp_thms)
    next
      case False
      then have "hd (?d @ ?q) = hd ?d" by (rule hd_append2)
      then show ?thesis using d False by (simp only: simp_thms)
    qed
    moreover have "withoutKey r = CHR ''/'' # (?d @ ?q)" by (simp add: withoutKey_def Let_def)
    ultimately show ?thesis by blast
  qed
  have passed: "answer r = Passed \<longleftrightarrow> pg_Path r = ''/healthz'' \<or>
      pg_KeyQuery r = [] \<and> (TrimSpace (pg_KeyHeader r) = TrimSpace key \<or> pg_KeyCookie r = Some (TrimSpace key))"
    using key by (simp add: a gate_def guarded_def same_def split: option.split)
  have sent: "pg_KeyQuery r = TrimSpace key \<and> secure = encrypted r \<and> address = withoutKey r"
    if "answer r = Redirected address secure" for address secure
    using that by (simp add: a gate_def guarded_def same_def split: option.splits if_splits)
  show ?thesis using key passed sent local by blast
qed

theorem the_page_asks_for_its_key_witness:
  "\<exists>answer. Handler False ''k'' = Ok answer \<and>
    answer \<lparr>pg_Path = ''/live'', pg_EscapedPath = ''//elsewhere/live'', pg_KeyQuery = [], pg_OtherQuery = [],
      pg_KeyHeader = ''K'', pg_KeyCookie = None, pg_TLS = False, pg_ForwardedProto = []\<rparr> \<noteq> Passed"
proof -
  have h: "Handler False ''k'' = Ok (gate False ''k'')" by (simp add: Handler_def TrimSpace_def is_space_def)
  show ?thesis
    using the_page_asks_for_its_key [OF h, of "\<lparr>pg_Path = ''/live'', pg_EscapedPath = ''//elsewhere/live'', pg_KeyQuery = [],
      pg_OtherQuery = [], pg_KeyHeader = ''K'', pg_KeyCookie = None, pg_TLS = False, pg_ForwardedProto = []\<rparr>"] h
    by (simp add: TrimSpace_def is_space_def)
qed

subsection \<open>The answer kept for a moment\<close>

record 'm recent =
  rc_holds :: 'm
  rc_at :: "time option"
  rc_asking :: bool

definition keepsFor :: duration where "keepsFor = 10 * second"

datatype 'm reader = Kept 'm | Joins | Starts

text \<open>The locked parts of \<open>read\<close> and \<open>pull\<close>.\<close>

definition read_kept :: "time \<Rightarrow> 'm recent \<Rightarrow> 'm reader \<times> 'm recent" where
  "read_kept now c =
     (case rc_at c of
        Some t \<Rightarrow> if now - t < keepsFor then (Kept (rc_holds c), c)
          else if rc_asking c then (Joins, c) else (Starts, c\<lparr>rc_asking := True\<rparr>)
      | None \<Rightarrow> if rc_asking c then (Joins, c) else (Starts, c\<lparr>rc_asking := True\<rparr>))"

definition pull :: "time \<Rightarrow> ('e, 'm) result \<Rightarrow> 'm recent \<Rightarrow> 'm recent" where
  "pull now asked c =
     (case asked of Ok held \<Rightarrow> c\<lparr>rc_holds := held, rc_at := Some now, rc_asking := False\<rparr>
      | Err e \<Rightarrow> c\<lparr>rc_asking := False\<rparr>)"

text \<open>Readers come and the question that is out is answered, in whatever order; an answer comes only to a
  question that was asked.\<close>

datatype ('e, 'm) page_event = Reads_at time | Answered_at time "('e, 'm) result"

fun page_run :: "('e, 'm) page_event list \<Rightarrow> 'm recent \<Rightarrow> 'm reader list \<times> 'm recent" where
  "page_run [] c = ([], c)"
| "page_run (Reads_at now # evs) c =
     (let (r, c) = read_kept now c; (rs, c) = page_run evs c in (r # rs, c))"
| "page_run (Answered_at now res # evs) c = page_run evs (if rc_asking c then pull now res c else c)"

definition nothing_kept :: "'m \<Rightarrow> 'm recent" where
  "nothing_kept m = \<lparr>rc_holds = m, rc_at = None, rc_asking = False\<rparr>"

lemma page_run_append:
  "page_run (xs @ ys) c = (let (rs, c) = page_run xs c; (ss, c) = page_run ys c in (rs @ ss, c))"
  by (induction xs c rule: page_run.induct) (auto simp: Let_def split: prod.splits)

lemma kept_was_answered:
  "rc_at (snd (page_run evs (nothing_kept m))) = Some t \<Longrightarrow>
    Answered_at t (Ok (rc_holds (snd (page_run evs (nothing_kept m))))) \<in> set evs"
proof (induction evs rule: rev_induct)
  case (snoc ev evs)
  then show ?case
    by (cases ev)
      (auto simp: page_run_append Let_def read_kept_def pull_def nothing_kept_def split: prod.splits option.splits if_splits sum.splits)
qed (simp add: nothing_kept_def)

text \<open>A reader who is not kept waiting is given an answer the broker gave, less than the bound ago.\<close>

theorem what_is_kept_is_young:
  assumes "read_kept now (snd (page_run evs (nothing_kept m))) = (Kept v, c)"
  shows "\<exists>t. Answered_at t (Ok v) \<in> set evs \<and> now - t < keepsFor"
  using assms kept_was_answered [of evs m]
  by (auto simp: read_kept_def split: option.splits if_splits)

text \<open>One question is out at a time: as many were asked as were answered, and the one that is out.\<close>

fun answers_taken :: "('e, 'm) page_event list \<Rightarrow> 'm recent \<Rightarrow> nat" where
  "answers_taken [] c = 0"
| "answers_taken (Reads_at now # evs) c = answers_taken evs (snd (read_kept now c))"
| "answers_taken (Answered_at now res # evs) c =
     (if rc_asking c then Suc (answers_taken evs (pull now res c)) else answers_taken evs c)"

lemma one_question_at_a_time:
  "length (filter (\<lambda>r. r = Starts) (fst (page_run evs c))) + (if rc_asking c then 1 else 0) =
    answers_taken evs c + (if rc_asking (snd (page_run evs c)) then 1 else 0)"
proof (induction evs c rule: page_run.induct)
  case (2 now evs c)
  obtain r c1 where r: "read_kept now c = (r, c1)" by fastforce
  obtain rs c2 where rs: "page_run evs c1 = (rs, c2)" by fastforce
  have "(if r = Starts then 1 else 0) + (if rc_asking c then 1 else 0) = (if rc_asking c1 then 1 else 0 :: nat)"
    using r by (auto simp: read_kept_def split: option.splits if_splits)
  with 2 [OF r [symmetric] refl] rs r show ?case by (simp split: if_splits)
qed (auto simp: pull_def split: sum.splits)

subsection \<open>Which file\<close>

definition path_parts :: "string \<Rightarrow> string list" where
  "path_parts p = clean_parts (HasPrefix p ''/'') [] (Split (CHR ''/'') p)"

text \<open>What there is at a path: nothing, a directory, or a file.\<close>

datatype node = No_node | Dir_node | File_node

definition spa :: "(string \<Rightarrow> node) \<Rightarrow> string \<Rightarrow> string \<Rightarrow> string" where
  "spa disk dir path =
     (let name = Join_path dir (Clean path); page = Join_path name ''index.html'' in
      if disk name = File_node then name
      else if disk page = File_node then page
      else Join_path dir ''index.html'')"

definition cache_control :: "string \<Rightarrow> string" where
  "cache_control path =
     (if HasPrefix path ''/assets/'' then ''public, max-age=31536000, immutable'' else ''no-cache'')"

definition plain_part :: "string \<Rightarrow> bool" where
  "plain_part p \<longleftrightarrow> p \<noteq> [] \<and> p \<noteq> ''.'' \<and> p \<noteq> ''..'' \<and> CHR ''/'' \<notin> set p"

lemma clean_rooted_plain: "list_all plain_part out \<Longrightarrow> list_all (\<lambda>p. CHR ''/'' \<notin> set p) ps \<Longrightarrow>
    list_all plain_part (clean_parts True out ps)"
proof (induction ps arbitrary: out)
  case Nil
  then show ?case by (simp add: list_all_iff)
next
  case (Cons p ps)
  note IH = Cons.IH
  have ps: "list_all (\<lambda>p. CHR ''/'' \<notin> set p) ps" "CHR ''/'' \<notin> set p" using Cons.prems by simp_all
  consider "p = [] \<or> p = ''.''" | "p = ''..''" | "plain_part p" "p \<noteq> ''..''" "\<not> (p = [] \<or> p = ''.'')"
    using ps(2) unfolding plain_part_def by blast
  then show ?case
  proof cases
    case 1
    then show ?thesis using Cons.IH [OF Cons.prems(1) ps(1)] by auto
  next
    case 2
    show ?thesis
    proof (cases out)
      case Nil
      then show ?thesis using 2 Cons.IH [of "[]"] ps(1) by simp
    next
      case (Cons q qs)
      then have "q \<noteq> ''..''" "list_all plain_part qs" using \<open>list_all plain_part out\<close> by (simp_all add: plain_part_def)
      then show ?thesis using 2 Cons IH [of qs] ps(1) by simp
    qed
  next
    case 3
    then show ?thesis using Cons.IH [of "p # out"] Cons.prems(1) ps(1) by simp
  qed
qed

lemma clean_parts_plain: "list_all plain_part ps \<Longrightarrow> clean_parts r out ps = rev out @ ps"
  by (induction ps arbitrary: out) (auto simp: plain_part_def)

lemma clean_parts_append_plain:
  "list_all plain_part qs \<Longrightarrow> clean_parts r out (ps @ qs) = clean_parts r out ps @ qs"
proof (induction r out ps rule: clean_parts.induct)
  case (1 r out)
  then show ?case by (simp add: clean_parts_plain)
qed (auto split: list.splits)

lemma Split_Join_plain: "ps \<noteq> [] \<Longrightarrow> list_all (\<lambda>p. CHR ''/'' \<notin> set p) ps \<Longrightarrow> Split (CHR ''/'') (Join (CHR ''/'') ps) = ps"
proof (induction ps)
  case (Cons p ps)
  then show ?case by (cases ps) (auto simp: Split_single Split_append_sep)
qed simp

text \<open>The file a path is answered with lies under the directory of the page: its parts are those of the
  directory followed by parts that lead nowhere else.\<close>

lemma the_name_lies_under:
  assumes "HasPrefix path ''/''" "dir \<noteq> []"
  shows "\<exists>rest. list_all plain_part rest \<and>
    path_parts (dir @ CHR ''/'' # Clean path) = path_parts dir @ rest"
proof -
  let ?ps = "path_parts path"
  have noslash: "list_all (\<lambda>p. CHR ''/'' \<notin> set p) (Split (CHR ''/'') path)"
    using Split_no_sep by (auto simp: list_all_iff)
  have plain: "list_all plain_part ?ps"
    unfolding path_parts_def using assms(1) clean_rooted_plain [OF _ noslash, of "[]"] by simp
  have ns: "list_all (\<lambda>p. CHR ''/'' \<notin> set p) ?ps" using plain by (auto simp: list_all_iff plain_part_def)
  have c: "Clean path = CHR ''/'' # (if ?ps = [] then [] else Join (CHR ''/'') ?ps)"
    using assms(1) by (simp add: Clean_def path_parts_def Let_def split: list.split)
  have split: "Split (CHR ''/'') (dir @ CHR ''/'' # Clean path) =
      Split (CHR ''/'') dir @ [] # (if ?ps = [] then [[]] else ?ps)"
    using Split_Join_plain [OF _ ns] by (simp add: c Split_append_sep)
  have r: "HasPrefix (dir @ CHR ''/'' # Clean path) ''/'' = HasPrefix dir ''/''"
    using assms(2) by (cases dir) (auto simp: HasPrefix_def)
  have skip: "clean_parts r out (xs @ [] # ys) = clean_parts r out (xs @ ys)" for r out xs ys
    by (induction r out xs rule: clean_parts.induct) (auto split: list.splits)
  have "path_parts (dir @ CHR ''/'' # Clean path) = path_parts dir @ ?ps"
    using clean_parts_append_plain [OF plain] skip [of _ _ _ "[]"]
    by (auto simp: path_parts_def [of "dir @ _"] path_parts_def [of dir] r split skip)
  with plain show ?thesis by blast
qed

end
