(* ===== verification/Spec2Isabelle.thy ===== *)
theory Spec2Isabelle
  imports LadderExample ArenaExample TakeProfitExample WakeupExample Envelope ScreenerExample Sweep PlacementExample
    HarnessExample MailboxLaws SkillExample AgentLaws Reconcile Volatility WebPage
begin

text \<open>
  A verification development for the options agent.

  \<^bold>\<open>The program.\<close> A language-model session decides what to trade; the Go code around it starts the session,
  keeps its limits, finds it something to look at, fills its orders, takes its profits, and, in the test
  bed, plays the broker. What is modelled here is that code, not the session. The parts and how they
  meet:

  \<^item> The harness (\<open>golang/internal/harness\<close>) holds one conversation. A clock asks the declaration which
    sessions are due, the store of wake-ups which of them fire, and the room what people wrote; each of
    them may want a turn, and the harness starts one at a time or says it into the one that runs.
  \<^item> The conversation is the agent's process behind a line protocol (\<open>golang/internal/agent\<close>) or a mailbox a
    client polls (\<open>golang/internal/mailbox\<close>). What the session may read is laid on disk by
    \<open>golang/internal/skills\<close>; what it may do is in the envelope (\<open>golang/internal/envelope\<close>).
  \<^item> The screener with its sweep, the placement of backspreads and the history of volatility
    (\<open>golang/internal/screener\<close>, \<open>placement\<close>, \<open>volatility\<close>) say what the market offers.
  \<^item> An order carries in its name the worst price the session accepts. The execution ladder
    (\<open>golang/internal/execution\<close>) judges it, walks it towards the market and never past that price; the
    profit watch (\<open>golang/internal/takeprofit\<close>) closes what has earned its share; both ask
    \<open>golang/internal/marketdata\<close> what everything open may lose. After a crash \<open>golang/internal/reconcile\<close>
    asks the broker what became of the orders nobody heard about.
  \<^item> The arena (\<open>testbed/proxy\<close>) is a broker over real quotes: a book per participant, collateral by the worst
    point at expiry, a matcher, and settlement.
  \<^item> A page shows the account (\<open>golang/internal/api\<close>).

  \<^bold>\<open>Theories.\<close> Every theory opens with the files it models, and a definition bears the name it has there, but
  for a suffix where two parts use one name.

  \<^item> Ground: \<open>Prelude\<close> (results, Go's division, the iteration of a map as an argument), \<open>Float64\<close> (doubles
    as the rationals a 53-bit significand holds, rounding to even after each operation), \<open>GoStd\<close>,
    \<open>GoTime\<close> and \<open>GoDuration\<close> (strings, numbers as text, dates, durations), \<open>Market\<close> (the broker's records and
    the symbol of a contract), \<open>Payoff\<close> (the payoff of a set of options, and the locale
    \<open>probed_worst\<close>: a few probes find the worst case; it is interpreted on the exposure, the order checks
    and the arena's book).
  \<^item> Orders: \<open>Exposure\<close>, \<open>Reservation\<close>, \<open>OrderChecks\<close>, \<open>Ladder\<close>, with \<open>LadderLaws\<close> (no price past the floor
    the name carries, nothing walked that was not judged, the judged losses of a pass add up, patience
    ends) and \<open>LadderExample\<close>; \<open>TakeProfit\<close>, \<open>TakeProfitLaws\<close>, \<open>TakeProfitExample\<close>; \<open>Reconcile\<close>.
  \<^item> Arena: \<open>ArenaRisk\<close>, \<open>ArenaBook\<close>, \<open>ArenaExpiry\<close>, \<open>ArenaMatch\<close>, \<open>ArenaTools\<close>; then \<open>ArenaLaws\<close> (what each
    operation may change), \<open>ArenaJournal\<close> (a run as a list of calls; cash and positions are the replay of
    the journal), \<open>ArenaCover\<close> (collateral), \<open>ArenaPass\<close> (one pass of the matcher), \<open>ArenaSettlement\<close>,
    \<open>ArenaExample\<close>.
  \<^item> Sessions: \<open>Declaration\<close> and \<open>DeclarationLaws\<close>; \<open>Wakeups\<close>, \<open>WakeupLaws\<close> (the store refines a board of
    standing requests) and \<open>WakeupExample\<close>; \<open>Harness\<close>, \<open>HarnessLaws\<close> (the schedule), \<open>HarnessTurns\<close> (the
    locked parts of every caller, the stream and the watcher as one step relation) and \<open>HarnessExample\<close>;
    \<open>AgentClient\<close> and \<open>AgentLaws\<close> (callers and reader as a step relation); \<open>Mailbox\<close> and \<open>MailboxLaws\<close> (with
    the locale \<open>conversation\<close>, interpreted on the mailbox: what is over stays over); \<open>Envelope\<close>; \<open>Skills\<close>,
    \<open>SkillLayer\<close>, \<open>SkillLaws\<close>, \<open>SkillExample\<close>.
  \<^item> Finding: \<open>Screener\<close>, \<open>ScreenerLaws\<close>, \<open>ScreenerExample\<close>, \<open>Sweep\<close>, \<open>Placement\<close>, \<open>PlacementLaws\<close>,
    \<open>PlacementExample\<close>, \<open>Volatility\<close>. Page: \<open>WebPage\<close>.

  \<^bold>\<open>How the code is read.\<close> A struct is a record, an error a value of a sum, a method a function from the state to
  the state. What is done under one lock is one step; where goroutines meet, the steps are interleaved
  freely by an inductive relation. A call to a server, the disk, the clock, the zone database, a decoder or
  a function of the mathematics library is an argument, and where it may fail it has an outcome for that;
  the loops that call the components on a timer are lists of their calls. The order in which Go visits a
  map is an argument, too, of which only that it visits every key is known. No loop of a model needs fuel:
  each is structural or has a measure.

  \<^bold>\<open>What is assumed.\<close> Each is a hypothesis of the theorems that need it, and stands in what is said of them.

  \<^item> \<open>HarnessTurns\<close>: the record \<open>hazards\<close> says which of four things may happen: an agent refuses a steer of a turn
    that is alive, a turn overruns its bound and is interrupted, the answer that a turn has started comes
    after its deadline, an event is dropped on its way. The step relation has all four. One caller at a time is
    between claiming and starting in every run; that one turn runs at a time is shown for runs without the
    first three, and so is that no finished turn stands, unless it is one whose end was dropped. A run with
    each hazard shows what it breaks. The mailbox never does the first (\<open>MailboxLaws\<close>); it may do the last.
  \<^item> \<open>MailboxLaws\<close>: what the harness has heard is what came through the buffer; what was emitted against a
    full one is lost, and the theorem on ends asks for room.
  \<^item> \<open>AgentLaws\<close>: answers reach their calls while the client is not closed and the reader has not panicked;
    the steps in which a close meets a reader still sending are there, and end in the panic.
  \<^item> \<open>LadderLaws\<close>: the ids of a pass are its own and the order taken for a new one; for patience, that the broker
    keeps the chain (\<open>rests\<close>); for the loss of a walked order, that its cancellation was not refused.
  \<^item> \<open>ArenaPass\<close>: in a pass the book is saved and no structure has two legs on one side of a contract, or the
    same size shown can be taken twice. \<open>ArenaCover\<close>: a refused call leaves the book alone but for one that
    could not be saved.
  \<^item> \<open>SkillLaws\<close>: for a pass to have nothing left to do, that the copies taken are the files that were
    fingerprinted.
  \<^item> Elsewhere: a well-formed book, finite inputs within the range of a double, an iteration that visits
    every key.

  \<^bold>\<open>What was found.\<close> Each of these is shown on the model. The harness: a turn that ends before its name is
  known is judged silent whatever it said; the watcher of an overrunning turn lets go of whatever turn
  stands then; a failed steer is taken for the end of a turn; after a restart a session can be due twice
  on a day. The mailbox loses the end of a turn when its buffer is full and passes on words for turns that
  are over. The agent's client stops for good at one long line, or at an answer given twice, and
  may panic when it is closed while its reader sends. The ladder
  takes a refused cancellation for a judgement passed. In the arena a limit that is not a number passes
  the collateral check, standing orders that can never fill count as cash, and a refused fill uses up the
  size shown. A wake-up whose cancelling cannot be written is gone from memory and back after a restart.
  Reconciliation takes an order older than the last hundred for one that never landed. The places are in
  the list of findings beside this development.

  \<^bold>\<open>Not modelled.\<close> The network client of the broker and its JSON (\<open>marketdata\<close>), the record and its queries
  (\<open>record\<close>, \<open>account\<close>, \<open>db\<close>), the chat (\<open>telegram\<close>), the descriptions of the session's tools
  (\<open>sessiontools\<close>), the configuration read from the environment (\<open>config\<close>), the assembly of the processes
  (\<open>apps\<close>), and the scripted scenarios and the server of the arena: they pass data between a service that
  is not here and a part that is, and decide nothing of their own that a definition could be held to. Log
  lines are left out everywhere. NaN and the infinities are not among the doubles, but for the limit prices
  of the arena's orders, which a caller may set to them and which are kept, summed and compared as the
  machine does (\<open>float64\<close> in \<open>ArenaBook\<close>). Counts of sets and contracts are integers that do not wrap: a
  ratio of a leg times its sets is taken to stay below two to the sixty-third.
\<close>

end
